(* ===== verification/D3OS_Prelude.thy ===== *)
theory D3OS_Prelude
  imports Main "HOL-Library.Word" "HOL-Library.Monad_Syntax" "HOL-Library.Multiset"
begin

unbundle bit_operations_syntax

text \<open>
  Shared vocabulary of the development: the machine integer types of the Rust sources, the
  primitives of the language that can panic, and the list, option and word facts that more than
  one component uses.

  A Rust call either returns or does not return: a failed \<^verbatim>\<open>assert!\<close>, an \<^verbatim>\<open>unwrap\<close> of nothing, an
  index out of range, an arithmetic overflow in the dev profile (the profile the default
  \<^verbatim>\<open>cargo make\<close> build uses) and a spin loop whose condition never becomes true all mean that the
  caller gets no value. A definition that can do so has an \<open>option\<close> result and \<open>None\<close> is the call
  that does not return. A Rust \<^verbatim>\<open>Result\<close> is a sum, with \<open>Inl\<close> for \<^verbatim>\<open>Err\<close>.
\<close>

section \<open>Machine integers\<close>

type_synonym u8 = "8 word"
type_synonym u16 = "16 word"
type_synonym u32 = "32 word"
type_synonym u64 = "64 word"

text \<open>
  A \<^verbatim>\<open>usize\<close> that only counts or indexes things in memory is a \<open>nat\<close>; where a caller can choose
  its value freely, \<open>usize_add\<close> carries the 64-bit bound.
\<close>

definition usize_add :: "nat \<Rightarrow> nat \<Rightarrow> nat option" where
  "usize_add a b = (if a + b < 2 ^ 64 then Some (a + b) else None)"

definition rust_add :: "'a::len word \<Rightarrow> 'a word \<Rightarrow> 'a word option" where
  "rust_add a b = (if unat a + unat b < 2 ^ LENGTH('a) then Some (a + b) else None)"

definition rust_sub :: "'a::len word \<Rightarrow> 'a word \<Rightarrow> 'a word option" where
  "rust_sub a b = (if b \<le> a then Some (a - b) else None)"

definition rust_assert :: "bool \<Rightarrow> unit option" where
  "rust_assert b = (if b then Some () else None)"

definition idx :: "'a list \<Rightarrow> nat \<Rightarrow> 'a option" where
  "idx xs i = (if i < length xs then Some (xs ! i) else None)"

definition upd :: "'a list \<Rightarrow> nat \<Rightarrow> 'a \<Rightarrow> 'a list option" where
  "upd xs i v = (if i < length xs then Some (xs[i := v]) else None)"

text \<open>\<^verbatim>\<open>Vec::swap_remove\<close>: the last element takes the place of the removed one.\<close>

definition swap_remove :: "'a list \<Rightarrow> nat \<Rightarrow> 'a list option" where
  "swap_remove xs i = (if i < length xs then Some ((butlast xs)[i := last xs]) else None)"

text \<open>\<^verbatim>\<open>Iterator::position\<close>\<close>

fun position :: "('a \<Rightarrow> bool) \<Rightarrow> 'a list \<Rightarrow> nat option" where
  "position P [] = None"
| "position P (x # xs) = (if P x then Some 0 else map_option Suc (position P xs))"

text \<open>\<^verbatim>\<open>String::from_utf8\<close>: the bytes are a string if they are well-formed UTF-8.\<close>

definition utf8_cont :: "u8 \<Rightarrow> bool" where
  "utf8_cont b \<longleftrightarrow> 0x80 \<le> b \<and> b \<le> 0xBF"

fun utf8_valid :: "u8 list \<Rightarrow> bool" where
  "utf8_valid [] \<longleftrightarrow> True"
| "utf8_valid (a # bs) \<longleftrightarrow>
     (if a \<le> 0x7F then utf8_valid bs
      else if 0xC2 \<le> a \<and> a \<le> 0xDF then
        (case bs of b # r \<Rightarrow> utf8_cont b \<and> utf8_valid r | _ \<Rightarrow> False)
      else if 0xE0 \<le> a \<and> a \<le> 0xEF then
        (case bs of b # c # r \<Rightarrow>
           utf8_cont b \<and> utf8_cont c \<and> (a = 0xE0 \<longrightarrow> 0xA0 \<le> b) \<and> (a = 0xED \<longrightarrow> b \<le> 0x9F) \<and> utf8_valid r
         | _ \<Rightarrow> False)
      else if 0xF0 \<le> a \<and> a \<le> 0xF4 then
        (case bs of b # c # d # r \<Rightarrow>
           utf8_cont b \<and> utf8_cont c \<and> utf8_cont d \<and> (a = 0xF0 \<longrightarrow> 0x90 \<le> b) \<and> (a = 0xF4 \<longrightarrow> b \<le> 0x8F) \<and> utf8_valid r
         | _ \<Rightarrow> False)
      else False)"

section \<open>Rules for the primitives\<close>

named_theorems panic_simps \<open>when a primitive of the language returns, and what\<close>
named_theorems word_nat \<open>unsigned readings of word operations\<close>

lemma usize_add_Some [panic_simps]: "a + b < 2 ^ 64 \<Longrightarrow> usize_add a b = Some (a + b)"
  by (simp add: usize_add_def)

lemma usize_add_eq_Some: "usize_add a b = Some c \<longleftrightarrow> c = a + b \<and> a + b < 2 ^ 64"
  by (auto simp: usize_add_def)

lemma rust_add_Some [panic_simps]:
  "unat a + unat b < 2 ^ LENGTH('a) \<Longrightarrow> rust_add a (b :: 'a::len word) = Some (a + b)"
  by (simp add: rust_add_def)

lemma rust_add_eq_Some:
  "rust_add a (b :: 'a::len word) = Some c \<longleftrightarrow>
     c = a + b \<and> unat a + unat b < 2 ^ LENGTH('a)"
  by (auto simp: rust_add_def)

lemma rust_sub_Some [panic_simps]: "b \<le> a \<Longrightarrow> rust_sub a b = Some (a - b)"
  by (simp add: rust_sub_def)

lemma rust_sub_eq_Some: "rust_sub a b = Some c \<longleftrightarrow> b \<le> a \<and> c = a - b"
  by (auto simp: rust_sub_def)

lemma rust_assert_True [panic_simps]: "b \<Longrightarrow> rust_assert b = Some ()"
  by (simp add: rust_assert_def)

lemma rust_assert_eq_Some [simp]: "rust_assert b = Some u \<longleftrightarrow> b"
  by (simp add: rust_assert_def)

lemma idx_Some [panic_simps]: "i < length xs \<Longrightarrow> idx xs i = Some (xs ! i)"
  by (simp add: idx_def)

lemma idx_eq_Some: "idx xs i = Some x \<longleftrightarrow> i < length xs \<and> x = xs ! i"
  by (auto simp: idx_def)

lemma upd_Some [panic_simps]: "i < length xs \<Longrightarrow> upd xs i v = Some (xs[i := v])"
  by (simp add: upd_def)

lemma upd_eq_Some: "upd xs i v = Some ys \<longleftrightarrow> i < length xs \<and> ys = xs[i := v]"
  by (auto simp: upd_def)

text \<open>The operator \<^verbatim>\<open>?\<close> of a function without other effects.\<close>

definition try_bind :: "'e + 'a \<Rightarrow> ('a \<Rightarrow> 'e + 'b) \<Rightarrow> 'e + 'b" where
  "try_bind r f = (case r of Inl e \<Rightarrow> Inl e | Inr x \<Rightarrow> f x)"

lemma try_bind_simps [simp]: "try_bind (Inl e) f = Inl e" "try_bind (Inr x) f = f x"
  by (simp_all add: try_bind_def)

lemma try_bind_eq_Inr: "try_bind r f = Inr y \<longleftrightarrow> (\<exists>x. r = Inr x \<and> f x = Inr y)"
  by (cases r) auto

text \<open>When a match on a \<^verbatim>\<open>Result\<close> returns.\<close>

lemma case_result_eq_Some:
  "(case r of Inl e \<Rightarrow> f e | Inr x \<Rightarrow> g x) = Some y \<longleftrightarrow>
     (\<exists>e. r = Inl e \<and> f e = Some y) \<or> (\<exists>x. r = Inr x \<and> g x = Some y)"
  by (cases r) auto

lemmas returns_iff = usize_add_eq_Some rust_add_eq_Some rust_sub_eq_Some idx_eq_Some upd_eq_Some

section \<open>Lists\<close>

lemma nth_upd_if: "xs[i := x] ! j = (if i = j \<and> i < length xs then x else xs ! j)"
  by (cases "i < length xs") (auto simp: nth_list_update list_update_beyond)

lemma distinct_take_drop_move:
  assumes "distinct (xs @ ys)"
  shows "distinct (drop k xs @ ys @ take k xs)"
proof -
  have "mset (drop k xs @ ys @ take k xs) = mset (take k xs @ drop k xs) + mset ys"
    by (simp only: mset_append ac_simps)
  then have "mset (drop k xs @ ys @ take k xs) = mset (xs @ ys)"
    by (simp only: append_take_drop_id mset_append)
  with assms show ?thesis
    by (metis mset_eq_imp_distinct_iff)
qed

lemma mset_map_remove1:
  assumes "x \<in> set xs"
  shows "mset (map f xs) = add_mset (f x) (mset (map f (remove1 x xs)))"
proof -
  have "mset xs = add_mset x (mset (remove1 x xs))" using assms by simp
  then have "image_mset f (mset xs) = image_mset f (add_mset x (mset (remove1 x xs)))" by simp
  then show ?thesis by (simp only: mset_map image_mset_add_mset)
qed

section \<open>Words\<close>

lemma unat_inj [simp]: "unat (i :: 'a::len word) = unat j \<longleftrightarrow> i = j"
  by (simp add: word_unat_eq_iff)

lemma unat_add_no_wrap [word_nat]:
  "unat a + unat b < 2 ^ LENGTH('a) \<Longrightarrow> unat (a + b) = unat a + unat (b :: 'a::len word)"
  by (simp add: unat_word_ariths)

lemma unat_sub_no_wrap [word_nat]: "b \<le> a \<Longrightarrow> unat (a - b) = unat a - unat (b :: 'a::len word)"
  by (simp add: unat_sub)

lemma unat_of_nat_bound [word_nat]:
  "n < 2 ^ LENGTH('a) \<Longrightarrow> unat (of_nat n :: 'a::len word) = n"
  by (simp add: unat_of_nat take_bit_nat_eq_self)

lemma unat_ucast_mod: "unat (ucast (w :: 'a::len word) :: 'b::len word) = unat w mod 2 ^ LENGTH('b)"
  by (simp add: unsigned_ucast_eq take_bit_eq_mod)

lemma unat_ucast_up [word_nat]:
  assumes "LENGTH('a) \<le> LENGTH('b)"
  shows "unat (ucast (w :: 'a::len word) :: 'b::len word) = unat w"
proof -
  have "unat w < 2 ^ LENGTH('a)" by (rule unsigned_less)
  also have "\<dots> \<le> 2 ^ LENGTH('b)" using assms by simp
  finally show ?thesis by (simp add: unat_ucast_mod)
qed

lemma ucast_u32_u16: "(ucast (ucast (w :: u16) :: u32) :: u16) = w"
proof -
  have "unat w < 2 ^ 16" using unsigned_less [of w] by simp
  then show ?thesis by (simp add: word_unat_eq_iff unat_ucast_mod)
qed

lemma unat_u16_less: "unat (w :: u16) < 65536"
  using unsigned_less [of w] by simp

text \<open>Masking a free-running index with \<open>SIZE - 1\<close>, for a power of two, is the remainder.\<close>

lemma mask_is_mod:
  assumes "n \<le> LENGTH('a)"
  shows "unat ((w :: 'a::len word) AND (2 ^ n - 1)) = unat w mod 2 ^ n"
proof -
  have "w AND (2 ^ n - 1) = take_bit n w"
    by (simp add: take_bit_eq_mask mask_eq_exp_minus_1)
  then show ?thesis
    by (simp only: unsigned_take_bit_eq) (simp add: take_bit_eq_mod)
qed

text \<open>The two ways a count of blocks is rounded up.\<close>

lemma ceil_div:
  assumes "0 < (m :: nat)"
  shows "(a + (m - 1)) div m = (if a mod m = 0 then a div m else a div m + 1)"
proof -
  define q r where "q = a div m" and "r = a mod m"
  have a: "a = q * m + r" and r: "r < m"
    using assms by (simp_all add: q_def r_def)
  have "(a + (m - 1)) div m = (r + (m - 1) + q * m) div m"
    by (simp only: a ac_simps)
  also have "\<dots> = q + (r + (m - 1)) div m"
    using assms by (simp only: div_mult_self1 neq0_conv)
  finally have "(a + (m - 1)) div m = q + (r + (m - 1)) div m" .
  moreover have "(r + (m - 1)) div m = (if r = 0 then 0 else 1)"
    using assms r by (auto simp: div_nat_eqI)
  ultimately show ?thesis
    by (simp add: q_def r_def)
qed

text \<open>Rounding up to a multiple of \<open>m\<close> adds less than \<open>m\<close>.\<close>

lemma round_up_bounds:
  assumes "0 < (m :: nat)"
  shows "a \<le> (a + (m - 1)) div m * m" "(a + (m - 1)) div m * m < a + m"
proof -
  have "(a + (m - 1)) div m * m + (a + (m - 1)) mod m = a + (m - 1)" by (rule div_mult_mod_eq)
  moreover have "(a + (m - 1)) mod m < m" using assms by simp
  ultimately show "a \<le> (a + (m - 1)) div m * m" "(a + (m - 1)) div m * m < a + m" using assms by linarith+
qed

section \<open>Slices\<close>

text \<open>\<^verbatim>\<open>&xs[a..b]\<close>, \<^verbatim>\<open>xs.get(a..b)\<close> and \<^verbatim>\<open>xs[a..b].copy_from_slice(ys)\<close>.\<close>

definition slice_get :: "'a list \<Rightarrow> nat \<Rightarrow> nat \<Rightarrow> 'a list option" where
  "slice_get xs a b = (if a \<le> b \<and> b \<le> length xs then Some (take (b - a) (drop a xs)) else None)"

definition slice_copy :: "'a list \<Rightarrow> nat \<Rightarrow> nat \<Rightarrow> 'a list \<Rightarrow> 'a list option" where
  "slice_copy xs a b ys =
     (if a \<le> b \<and> b \<le> length xs \<and> length ys = b - a then Some (take a xs @ ys @ drop b xs) else None)"

lemma swap_remove_Some [panic_simps]: "i < length xs \<Longrightarrow> swap_remove xs i = Some ((butlast xs)[i := last xs])"
  by (simp add: swap_remove_def)

lemma slice_get_Some [panic_simps]: "a \<le> b \<Longrightarrow> b \<le> length xs \<Longrightarrow> slice_get xs a b = Some (take (b - a) (drop a xs))"
  by (simp add: slice_get_def)

lemma slice_copy_Some [panic_simps]:
  "a \<le> b \<Longrightarrow> b \<le> length xs \<Longrightarrow> length ys = b - a \<Longrightarrow> slice_copy xs a b ys = Some (take a xs @ ys @ drop b xs)"
  by (simp add: slice_copy_def)

section \<open>Little endian integers\<close>

definition to_le :: "nat \<Rightarrow> 'a::len word \<Rightarrow> u8 list" where
  "to_le n w = map (\<lambda>i. ucast (drop_bit (8 * i) w)) [0..<n]"

fun from_le :: "u8 list \<Rightarrow> 'a::len word" where
  "from_le [] = 0"
| "from_le (b # bs) = ucast b OR push_bit 8 (from_le bs)"

lemma length_to_le [simp]: "length (to_le n w) = n"
  by (simp add: to_le_def)

lemma bit_from_le:
  "bit (from_le bs :: 'a::len word) i \<longleftrightarrow> i < LENGTH('a) \<and> i div 8 < length bs \<and> bit (bs ! (i div 8)) (i mod 8)"
proof (induction bs arbitrary: i)
  case (Cons b bs)
  show ?case
  proof (cases "i < 8")
    case True
    then show ?thesis by (auto simp: bit_or_iff bit_push_bit_iff bit_ucast_iff dest: bit_imp_le_length)
  next
    case False
    then have "i div 8 = Suc ((i - 8) div 8)" "i mod 8 = (i - 8) mod 8" by (simp_all add: le_div_geq le_mod_geq)
    with False Cons.IH [of "i - 8"] show ?thesis
      by (auto simp: bit_or_iff bit_push_bit_iff bit_ucast_iff dest: bit_imp_le_length)
  qed
qed simp

lemma from_le_to_le [simp]:
  assumes "LENGTH('a) \<le> 8 * n"
  shows "from_le (to_le n (w :: 'a::len word)) = w"
proof (rule bit_eqI)
  fix i assume "possible_bit TYPE('a word) i"
  then have i: "i < LENGTH('a)" by simp
  then have "i div 8 < n" using assms by simp
  moreover have "8 * (i div 8) + i mod 8 = i" by simp
  ultimately show "bit (from_le (to_le n w) :: 'a word) i = bit w i"
    using i by (simp add: bit_from_le to_le_def bit_ucast_iff bit_drop_bit_eq)
qed

lemma to_le_from_le:
  assumes "length bs = n" "8 * n \<le> LENGTH('a)"
  shows "to_le n (from_le bs :: 'a::len word) = bs"
proof (rule nth_equalityI)
  fix i assume "i < length (to_le n (from_le bs :: 'a word))"
  then have i: "i < n" by simp
  show "to_le n (from_le bs :: 'a word) ! i = bs ! i"
  proof (rule bit_eqI)
    fix k assume "possible_bit TYPE(8 word) k"
    then have k: "k < 8" by simp
    then have "8 * i + k < LENGTH('a)" "(8 * i + k) div 8 = i" "(8 * i + k) mod 8 = k" using i assms(2) by simp_all
    then show "bit (to_le n (from_le bs :: 'a word) ! i) k = bit (bs ! i) k"
      using i k assms(1) by (simp add: to_le_def bit_ucast_iff bit_drop_bit_eq bit_from_le)
  qed
qed (use assms in simp)

lemma position_SomeD: "position P xs = Some i \<Longrightarrow> i < length xs \<and> P (xs ! i) \<and> (\<forall>j < i. \<not> P (xs ! j))"
proof (induction xs arbitrary: i)
  case (Cons x xs)
  show ?case
  proof (cases "P x")
    case False
    with Cons.prems obtain k where k: "position P xs = Some k" "i = Suc k" by auto
    with Cons.IH [OF k(1)] False show ?thesis by (auto simp: less_Suc_eq_0_disj)
  qed (use Cons.prems in auto)
qed simp

lemma position_update:
  assumes "position P xs = Some i" "P y"
  shows "position P (xs[i := y]) = Some i"
  using assms by (induction xs arbitrary: i) (auto split: if_splits nat.splits)

end
