(* ===== verification/Virtio_Core.thy ===== *)
theory Virtio_Core
  imports D3OS_Prelude
begin

text \<open>
  The crate root and the hardware abstraction of the virtio-drivers library
  (\<^verbatim>\<open>virtio-drivers/src/lib.rs\<close>, \<^verbatim>\<open>hal.rs\<close>, \<^verbatim>\<open>device/socket/error.rs\<close>): the error types, the page
  arithmetic and the DMA regions. The target is 64-bit, so \<^verbatim>\<open>usize\<close> is \<open>u64\<close> here. The \<^verbatim>\<open>Hal\<close> trait is
  implemented outside the library; its methods are arguments of the definitions that call them, and
  \<open>dma_provider\<close> states what the trait documents of \<^verbatim>\<open>dma_alloc\<close>.
\<close>

section \<open>Errors\<close>

datatype SocketError =
    ConnectionExists
  | NotConnected
  | PeerSocketShutdown
  | BufferTooShort
  | OutputBufferTooShort nat
  | BufferTooLong nat nat
  | UnknownOperation u16
  | InvalidOperation
  | InvalidNumber
  | UnexpectedDataInPacket
  | InsufficientBufferSpaceInPeer
  | RecycledWrongBuffer

datatype Error =
    QueueFull
  | NotReady
  | WrongToken
  | AlreadyUsed
  | InvalidParam
  | DmaError
  | IoError
  | Unsupported
  | ConfigSpaceTooSmall
  | ConfigSpaceMissing
  | SocketDeviceError SocketError

section \<open>Page arithmetic\<close>

definition PAGE_SIZE :: u64 where
  "PAGE_SIZE = 0x1000"

definition align_up :: "u64 \<Rightarrow> u64 option" where
  "align_up sz = do { s \<leftarrow> rust_add sz PAGE_SIZE; Some (s AND NOT (PAGE_SIZE - 1)) }"

definition align_up_phys :: "u64 \<Rightarrow> u64 option" where
  "align_up_phys sz = do { s \<leftarrow> rust_add sz PAGE_SIZE; Some (s AND NOT (PAGE_SIZE - 1)) }"

text \<open>\<^verbatim>\<open>usize::div_ceil\<close>, as the standard library computes it.\<close>

definition div_ceil :: "u64 \<Rightarrow> u64 \<Rightarrow> u64" where
  "div_ceil a b = (let q = a div b; r = a mod b in if 0 < r then q + 1 else q)"

definition pages :: "u64 \<Rightarrow> u64" where
  "pages sz = div_ceil sz PAGE_SIZE"

section \<open>Buffers and DMA regions\<close>

datatype BufferDirection = DriverToDevice | DeviceToDriver | Both

text \<open>A \<^verbatim>\<open>NonNull<[u8]>\<close>: where the bytes are and how many.\<close>

record slice =
  sl_ptr :: u64
  sl_len :: nat

record Dma =
  dma_paddr :: u64
  dma_vaddr :: u64
  dma_pages :: u64

type_synonym 'h dma_alloc = "'h \<Rightarrow> u64 \<Rightarrow> BufferDirection \<Rightarrow> ((u64 \<times> u64) \<times> 'h) option"

definition Dma_new :: "'h dma_alloc \<Rightarrow> 'h \<Rightarrow> u64 \<Rightarrow> BufferDirection \<Rightarrow> ((Error + Dma) \<times> 'h) option" where
  "Dma_new dma_alloc h n direction = do {
     ((paddr, vaddr), h') \<leftarrow> dma_alloc h n direction;
     Some (if paddr = 0 then (Inl DmaError, h')
           else (Inr \<lparr>dma_paddr = paddr, dma_vaddr = vaddr, dma_pages = n\<rparr>, h'))
   }"

definition Dma_vaddr :: "Dma \<Rightarrow> u64 \<Rightarrow> u64 option" where
  "Dma_vaddr self offset = do {
     rust_assert (offset < dma_pages self * PAGE_SIZE);
     v \<leftarrow> rust_add (dma_vaddr self) offset;
     rust_assert (v \<noteq> 0);
     Some v
   }"

definition Dma_raw_slice :: "Dma \<Rightarrow> slice option" where
  "Dma_raw_slice self = do {
     v \<leftarrow> Dma_vaddr self 0;
     Some \<lparr>sl_ptr = v, sl_len = unat (dma_pages self * PAGE_SIZE)\<rparr>
   }"

type_synonym 'h dma_dealloc = "'h \<Rightarrow> u64 \<Rightarrow> u64 \<Rightarrow> u64 \<Rightarrow> (u32 \<times> 'h) option"

definition Dma_drop :: "'h dma_dealloc \<Rightarrow> 'h \<Rightarrow> Dma \<Rightarrow> 'h option" where
  "Dma_drop dma_dealloc h self = do {
     (err, h') \<leftarrow> dma_dealloc h (dma_paddr self) (dma_vaddr self) (dma_pages self);
     rust_assert (err = 0);
     Some h'
   }"

text \<open>
  What \<^verbatim>\<open>Hal::dma_alloc\<close> documents: unless it reports failure with a zero physical address, both
  addresses are page aligned and the region lies inside the address space.
\<close>

definition region_ok :: "u64 \<Rightarrow> u64 \<Rightarrow> bool" where
  "region_ok start n \<longleftrightarrow> start \<noteq> 0 \<and> unat start mod 4096 = 0 \<and> unat start + unat n * 4096 < 2 ^ 64"

locale dma_provider =
  fixes dma_alloc :: "'h dma_alloc"
    and hal_inv :: "'h \<Rightarrow> bool"
  assumes alloc_region:
    "\<lbrakk>hal_inv h; 0 < n; dma_alloc h n d = Some ((p, v), h'); p \<noteq> 0\<rbrakk> \<Longrightarrow> region_ok p n \<and> region_ok v n"
    and alloc_inv: "\<lbrakk>hal_inv h; 0 < n; dma_alloc h n d = Some ((p, v), h')\<rbrakk> \<Longrightarrow> hal_inv h'"
begin

lemma Dma_new_region:
  assumes "hal_inv h" "0 < n" "Dma_new dma_alloc h n d = Some (Inr dma, h')"
  shows "region_ok (dma_paddr dma) n" "region_ok (dma_vaddr dma) n" "dma_pages dma = n" "hal_inv h'"
  using assms alloc_region alloc_inv
  by (auto simp: Dma_new_def bind_eq_Some_conv split: if_splits prod.splits)

lemma Dma_new_error:
  assumes "hal_inv h" "0 < n" "Dma_new dma_alloc h n d = Some (Inl e, h')"
  shows "e = DmaError" "hal_inv h'"
  using assms alloc_inv
  by (auto simp: Dma_new_def bind_eq_Some_conv split: if_splits prod.splits)

end

section \<open>Facts about the page arithmetic\<close>

lemma unat_page_mask: "unat ((s :: u64) AND NOT (PAGE_SIZE - 1)) = unat s div 4096 * 4096"
proof -
  have m: "unat (s AND (PAGE_SIZE - 1)) = unat s mod 4096"
    using mask_is_mod [of 12 s] by (simp add: PAGE_SIZE_def)
  then have le: "s AND (PAGE_SIZE - 1) \<le> s"
    by (simp add: word_le_nat_alt)
  have "s AND NOT (PAGE_SIZE - 1) = s - (s AND (PAGE_SIZE - 1))"
    by (subst disjunctive_diff) (auto simp: bit_simps intro: bit_word_eqI)
  with m le show ?thesis
    by (simp add: unat_sub minus_mod_eq_div_mult)
qed

lemma align_up_Some:
  assumes "unat sz + 4096 < 2 ^ 64"
  shows "\<exists>s. align_up sz = Some s \<and> unat s = (unat sz div 4096 + 1) * 4096"
  using assms unat_page_mask [of "sz + PAGE_SIZE"]
  by (simp add: align_up_def panic_simps word_nat PAGE_SIZE_def div_add_self2 [of 4096 "unat sz"]
      del: div_add_self2)

lemma align_up_phys_eq: "align_up_phys = align_up"
  by (simp add: align_up_phys_def align_up_def fun_eq_iff)

lemma unat_pages: "unat (pages sz) = (unat sz + 4095) div 4096"
proof -
  have "unat sz div 4096 + 1 < 2 ^ 64"
    using unsigned_less [of sz, where ?'a = nat] by simp
  then have "unat (sz div 4096 + 1) = unat sz div 4096 + 1"
    by (subst unat_add_no_wrap) (simp_all add: unat_div)
  moreover have "(0 < sz mod 4096) = (unat sz mod 4096 \<noteq> 0)"
    by (simp add: word_less_nat_alt unat_mod)
  ultimately have "unat (pages sz) = (if unat sz mod 4096 = 0 then unat sz div 4096 else unat sz div 4096 + 1)"
    by (simp add: pages_def div_ceil_def Let_def PAGE_SIZE_def unat_div)
  then show ?thesis
    using ceil_div [of 4096 "unat sz"] by simp
qed

end
