(* ===== verification/Transport.thy ===== *)
theory Transport
  imports Virtio_Core
begin

text \<open>
  Transports (\<^verbatim>\<open>transport/mod.rs\<close>, \<^verbatim>\<open>transport/mmio.rs\<close>). The trait \<^verbatim>\<open>Transport\<close> is a record of
  operations on a transport state; its default methods are definitions over that record.
  \<open>MmioTransport_impl\<close> is the record that the \<^verbatim>\<open>impl Transport for MmioTransport\<close> block defines.
  The hardware behind the registers is an argument: \<open>mmio_device\<close> says what reading and writing
  a register does to its state, and where the driver spins on a register the states the hardware
  goes through meanwhile are an argument as well.
\<close>

section \<open>Device types and status\<close>

datatype DeviceType =
    Network | Block | Console | EntropySource | MemoryBallooning | IoMemory | Rpmsg | ScsiHost
  | P9 | Mac80211 | RprocSerial | VirtioCAIF | MemoryBalloon | GPU | Timer | Input | Socket
  | Crypto | SignalDistributionModule | Pstore | IOMMU | Memory | Sound

fun DeviceType_discriminant :: "DeviceType \<Rightarrow> u8" where
  "DeviceType_discriminant Network = 1"
| "DeviceType_discriminant Block = 2"
| "DeviceType_discriminant Console = 3"
| "DeviceType_discriminant EntropySource = 4"
| "DeviceType_discriminant MemoryBallooning = 5"
| "DeviceType_discriminant IoMemory = 6"
| "DeviceType_discriminant Rpmsg = 7"
| "DeviceType_discriminant ScsiHost = 8"
| "DeviceType_discriminant P9 = 9"
| "DeviceType_discriminant Mac80211 = 10"
| "DeviceType_discriminant RprocSerial = 11"
| "DeviceType_discriminant VirtioCAIF = 12"
| "DeviceType_discriminant MemoryBalloon = 13"
| "DeviceType_discriminant GPU = 16"
| "DeviceType_discriminant Timer = 17"
| "DeviceType_discriminant Input = 18"
| "DeviceType_discriminant Socket = 19"
| "DeviceType_discriminant Crypto = 20"
| "DeviceType_discriminant SignalDistributionModule = 21"
| "DeviceType_discriminant Pstore = 22"
| "DeviceType_discriminant IOMMU = 23"
| "DeviceType_discriminant Memory = 24"
| "DeviceType_discriminant Sound = 25"

datatype DeviceTypeError = InvalidDeviceType u32

definition DeviceType_try_from :: "u32 \<Rightarrow> DeviceTypeError + DeviceType" where
  "DeviceType_try_from i =
     (if i = 1 then Inr Network else if i = 2 then Inr Block else if i = 3 then Inr Console
      else if i = 4 then Inr EntropySource else if i = 5 then Inr MemoryBalloon
      else if i = 6 then Inr IoMemory else if i = 7 then Inr Rpmsg else if i = 8 then Inr ScsiHost
      else if i = 9 then Inr P9 else if i = 10 then Inr Mac80211 else if i = 11 then Inr RprocSerial
      else if i = 12 then Inr VirtioCAIF else if i = 13 then Inr MemoryBalloon
      else if i = 16 then Inr GPU else if i = 17 then Inr Timer else if i = 18 then Inr Input
      else if i = 19 then Inr Socket else if i = 20 then Inr Crypto
      else if i = 21 then Inr SignalDistributionModule else if i = 22 then Inr Pstore
      else if i = 23 then Inr IOMMU else if i = 24 then Inr Memory else if i = 25 then Inr Sound
      else Inl (InvalidDeviceType i))"

definition ACKNOWLEDGE :: u32 where "ACKNOWLEDGE = 1"
definition DRIVER :: u32 where "DRIVER = 2"
definition DRIVER_OK :: u32 where "DRIVER_OK = 4"
definition FEATURES_OK :: u32 where "FEATURES_OK = 8"
definition DEVICE_NEEDS_RESET :: u32 where "DEVICE_NEEDS_RESET = 64"
definition FAILED :: u32 where "FAILED = 128"

definition VERSION_1 :: u64 where "VERSION_1 = 2 ^ 32"

definition InterruptStatus_from_bits_truncate :: "u32 \<Rightarrow> u32" where
  "InterruptStatus_from_bits_truncate bits = bits AND (1 OR 2)"

section \<open>The trait\<close>

text \<open>
  The two accessors of the configuration space are generic in the type of the value; they get its
  alignment, for a read its size, and the value as its bytes.
\<close>

record 't Transport =
  device_type :: "'t \<Rightarrow> DeviceType"
  read_device_features :: "'t \<Rightarrow> (u64 \<times> 't) option"
  write_driver_features :: "'t \<Rightarrow> u64 \<Rightarrow> 't option"
  max_queue_size :: "'t \<Rightarrow> u16 \<Rightarrow> (u32 \<times> 't) option"
  notify :: "'t \<Rightarrow> u16 \<Rightarrow> 't option"
  get_status :: "'t \<Rightarrow> u32"
  set_status :: "'t \<Rightarrow> u32 \<Rightarrow> 't option"
  set_guest_page_size :: "'t \<Rightarrow> u32 \<Rightarrow> 't option"
  requires_legacy_layout :: "'t \<Rightarrow> bool"
  queue_set :: "'t \<Rightarrow> u16 \<Rightarrow> u32 \<Rightarrow> u64 \<Rightarrow> u64 \<Rightarrow> u64 \<Rightarrow> 't option"
  queue_unset :: "'t \<Rightarrow> u16 \<Rightarrow> 't option"
  queue_used :: "'t \<Rightarrow> u16 \<Rightarrow> (bool \<times> 't) option"
  ack_interrupt :: "'t \<Rightarrow> (u32 \<times> 't) option"
  read_config_generation :: "'t \<Rightarrow> u32"
  read_config_space :: "'t \<Rightarrow> nat \<Rightarrow> nat \<Rightarrow> nat \<Rightarrow> (Error + u8 list) option"
  write_config_space :: "'t \<Rightarrow> nat \<Rightarrow> nat \<Rightarrow> u8 list \<Rightarrow> ((Error + unit) \<times> 't) option"

text \<open>
  \<^verbatim>\<open>begin_init\<close> is generic in the feature flags of the driver: \<open>all_bits\<close> is what
  \<^verbatim>\<open>from_bits_truncate\<close> keeps, the flags the driver's bitflags type declares.
\<close>

definition begin_init :: "'t Transport \<Rightarrow> u64 \<Rightarrow> 't \<Rightarrow> u64 \<Rightarrow> (u64 \<times> 't) option" where
  "begin_init T all_bits self supported_features = do {
     s1 \<leftarrow> set_status T self 0;
     s2 \<leftarrow> set_status T s1 (ACKNOWLEDGE OR DRIVER);
     (device_feature_bits, s3) \<leftarrow> read_device_features T s2;
     let device_features = device_feature_bits AND all_bits;
     let negotiated_features = device_features AND supported_features;
     rust_assert (0 < device_feature_bits AND VERSION_1 \<longrightarrow> 0 < negotiated_features AND VERSION_1);
     s4 \<leftarrow> write_driver_features T s3 negotiated_features;
     s5 \<leftarrow> set_status T s4 (ACKNOWLEDGE OR DRIVER OR FEATURES_OK);
     s6 \<leftarrow> set_guest_page_size T s5 4096;
     Some (negotiated_features, s6)
   }"

definition finish_init :: "'t Transport \<Rightarrow> 't \<Rightarrow> 't option" where
  "finish_init T self = set_status T self (ACKNOWLEDGE OR DRIVER OR FEATURES_OK OR DRIVER_OK)"

text \<open>
  \<^verbatim>\<open>read_consistent\<close> repeats a read until the configuration generation is the same before and
  after it. The argument lists what the iterations see: the generation before, the result of the
  read and the generation after.
\<close>

fun read_consistent :: "(u32 \<times> 'r \<times> u32) list \<Rightarrow> 'r option" where
  "read_consistent [] = None"
| "read_consistent ((before, result, after) # rest) =
     (if before = after then Some result else read_consistent rest)"

text \<open>
  What one iteration sees of a device that may change at any time: \<open>t1\<close>, \<open>t2\<close> and \<open>t3\<close> are the states of
  the transport at the three accesses.
\<close>

definition observe :: "'t Transport \<Rightarrow> ('t \<Rightarrow> 'r) \<Rightarrow> 't \<times> 't \<times> 't \<Rightarrow> u32 \<times> 'r \<times> u32" where
  "observe T f ts = (case ts of (t1, t2, t3) \<Rightarrow> (read_config_generation T t1, f t2, read_config_generation T t3))"

text \<open>\<^verbatim>\<open>read_config!\<close> of an integer field at \<open>offset\<close>, which is aligned to its own size.\<close>

definition read_config :: "'t Transport \<Rightarrow> 't \<Rightarrow> nat \<Rightarrow> (Error + 'a::len word) option" where
  "read_config T transport offset = do {
     let n = LENGTH('a) div 8;
     r \<leftarrow> read_config_space T transport n n offset;
     Some (map_sum id from_le r)
   }"

definition write_config :: "'t Transport \<Rightarrow> 't \<Rightarrow> nat \<Rightarrow> 'a::len word \<Rightarrow> ((Error + unit) \<times> 't) option" where
  "write_config T transport offset val = (let n = LENGTH('a) div 8 in write_config_space T transport n offset (to_le n val))"

section \<open>The memory mapped transport\<close>

definition MAGIC_VALUE :: u32 where "MAGIC_VALUE = 0x74726976"
definition LEGACY_VERSION :: u32 where "LEGACY_VERSION = 1"
definition MODERN_VERSION :: u32 where "MODERN_VERSION = 2"
definition CONFIG_SPACE_OFFSET :: nat where "CONFIG_SPACE_OFFSET = 0x100"

datatype MmioVersion = Legacy | Modern

datatype MmioError =
    BadMagic u32
  | UnsupportedVersion u32
  | InvalidDeviceID DeviceTypeError
  | MmioRegionTooSmall

definition MmioVersion_try_from :: "u32 \<Rightarrow> MmioError + MmioVersion" where
  "MmioVersion_try_from version =
     (if version = LEGACY_VERSION then Inr Legacy
      else if version = MODERN_VERSION then Inr Modern
      else Inl (UnsupportedVersion version))"

fun MmioVersion_into :: "MmioVersion \<Rightarrow> u32" where
  "MmioVersion_into Legacy = LEGACY_VERSION"
| "MmioVersion_into Modern = MODERN_VERSION"

text \<open>The registers of \<^verbatim>\<open>VirtIOHeader\<close>.\<close>

datatype VirtIOHeader =
    Magic | Version | Device_id | Vendor_id | Device_features | Device_features_sel
  | Driver_features | Driver_features_sel | Legacy_guest_page_size | Queue_sel | Queue_num_max
  | Queue_num | Legacy_queue_align | Legacy_queue_pfn | Queue_ready | Queue_notify
  | Interrupt_status | Interrupt_ack | Status | Queue_desc_low | Queue_desc_high
  | Queue_driver_low | Queue_driver_high | Queue_device_low | Queue_device_high | Config_generation

record 'd mmio_device =
  reg_read :: "'d \<Rightarrow> VirtIOHeader \<Rightarrow> u32"
  reg_write :: "'d \<Rightarrow> VirtIOHeader \<Rightarrow> u32 \<Rightarrow> 'd"
  cfg_read :: "'d \<Rightarrow> nat \<Rightarrow> nat \<Rightarrow> u8 list"
  cfg_write :: "'d \<Rightarrow> nat \<Rightarrow> u8 list \<Rightarrow> 'd"

record 'd MmioTransport =
  header :: 'd
  config_space_len :: nat
  mmio_version :: MmioVersion
  mmio_device_type :: DeviceType

definition MmioTransport_new_from_unique ::
    "'d mmio_device \<Rightarrow> 'd \<Rightarrow> nat \<Rightarrow> MmioError + 'd MmioTransport" where
  "MmioTransport_new_from_unique dev d cs_len =
     (let magic = reg_read dev d Magic in
      if magic \<noteq> MAGIC_VALUE then Inl (BadMagic magic)
      else case DeviceType_try_from (reg_read dev d Device_id) of
        Inl e \<Rightarrow> Inl (InvalidDeviceID e)
      | Inr ty \<Rightarrow>
          (case MmioVersion_try_from (reg_read dev d Version) of
             Inl e \<Rightarrow> Inl e
           | Inr v \<Rightarrow> Inr \<lparr>header = d, config_space_len = cs_len, mmio_version = v, mmio_device_type = ty\<rparr>))"

definition MmioTransport_new :: "'d mmio_device \<Rightarrow> 'd \<Rightarrow> nat \<Rightarrow> MmioError + 'd MmioTransport" where
  "MmioTransport_new dev d mmio_size =
     (if mmio_size < CONFIG_SPACE_OFFSET then Inl MmioRegionTooSmall
      else MmioTransport_new_from_unique dev d (mmio_size - CONFIG_SPACE_OFFSET))"

text \<open>A \<^verbatim>\<open>field!(self.header, r).write(v)\<close>, and a sequence of them.\<close>

definition write_reg :: "'d mmio_device \<Rightarrow> 'd MmioTransport \<Rightarrow> VirtIOHeader \<times> u32 \<Rightarrow> 'd MmioTransport" where
  "write_reg dev self w = self\<lparr>header := reg_write dev (header self) (fst w) (snd w)\<rparr>"

definition write_regs :: "'d mmio_device \<Rightarrow> 'd MmioTransport \<Rightarrow> (VirtIOHeader \<times> u32) list \<Rightarrow> 'd MmioTransport" where
  "write_regs dev = foldl (write_reg dev)"

definition Mmio_read_device_features :: "'d mmio_device \<Rightarrow> 'd MmioTransport \<Rightarrow> (u64 \<times> 'd MmioTransport) option" where
  "Mmio_read_device_features dev self = do {
     let self1 = write_reg dev self (Device_features_sel, 0);
     let low = (ucast (reg_read dev (header self1) Device_features) :: u64);
     let self2 = write_reg dev self1 (Device_features_sel, 1);
     let high = push_bit 32 (ucast (reg_read dev (header self2) Device_features) :: u64);
     bits \<leftarrow> rust_add low high;
     Some (bits, self2)
   }"

definition Mmio_write_driver_features :: "'d mmio_device \<Rightarrow> 'd MmioTransport \<Rightarrow> u64 \<Rightarrow> 'd MmioTransport" where
  "Mmio_write_driver_features dev self driver_features =
     write_regs dev self
       [(Driver_features_sel, 0), (Driver_features, ucast driver_features),
        (Driver_features_sel, 1), (Driver_features, ucast (drop_bit 32 driver_features))]"

definition Mmio_max_queue_size :: "'d mmio_device \<Rightarrow> 'd MmioTransport \<Rightarrow> u16 \<Rightarrow> u32 \<times> 'd MmioTransport" where
  "Mmio_max_queue_size dev self queue =
     (let self1 = write_reg dev self (Queue_sel, ucast queue) in
      (reg_read dev (header self1) Queue_num_max, self1))"

definition Mmio_notify :: "'d mmio_device \<Rightarrow> 'd MmioTransport \<Rightarrow> u16 \<Rightarrow> 'd MmioTransport" where
  "Mmio_notify dev self queue = write_reg dev self (Queue_notify, ucast queue)"

definition Mmio_get_status :: "'d mmio_device \<Rightarrow> 'd MmioTransport \<Rightarrow> u32" where
  "Mmio_get_status dev self = reg_read dev (header self) Status"

definition Mmio_set_status :: "'d mmio_device \<Rightarrow> 'd MmioTransport \<Rightarrow> u32 \<Rightarrow> 'd MmioTransport" where
  "Mmio_set_status dev self status = write_reg dev self (Status, status)"

definition Mmio_set_guest_page_size :: "'d mmio_device \<Rightarrow> 'd MmioTransport \<Rightarrow> u32 \<Rightarrow> 'd MmioTransport" where
  "Mmio_set_guest_page_size dev self guest_page_size =
     (case mmio_version self of
        Legacy \<Rightarrow> write_reg dev self (Legacy_guest_page_size, guest_page_size)
      | Modern \<Rightarrow> self)"

definition Mmio_requires_legacy_layout :: "'d MmioTransport \<Rightarrow> bool" where
  "Mmio_requires_legacy_layout self \<longleftrightarrow> mmio_version self = Legacy"

definition Mmio_queue_set ::
    "'d mmio_device \<Rightarrow> 'd MmioTransport \<Rightarrow> u16 \<Rightarrow> u32 \<Rightarrow> u64 \<Rightarrow> u64 \<Rightarrow> u64 \<Rightarrow> 'd MmioTransport option" where
  "Mmio_queue_set dev self queue sz descriptors driver_area device_area =
     (case mmio_version self of
        Legacy \<Rightarrow> do {
          off1 \<leftarrow> rust_sub driver_area descriptors;
          rust_assert (off1 = 16 * ucast sz);
          off2 \<leftarrow> rust_sub device_area descriptors;
          expected \<leftarrow> align_up_phys (16 * ucast sz + 2 * (ucast sz + 3));
          rust_assert (off2 = expected);
          let pfn = descriptors div PAGE_SIZE;
          rust_assert (unat pfn < 2 ^ 32);
          rust_assert (pfn * PAGE_SIZE = descriptors);
          Some (write_regs dev self
            [(Queue_sel, ucast queue), (Queue_num, sz), (Legacy_queue_align, 4096),
             (Legacy_queue_pfn, ucast pfn)])
        }
      | Modern \<Rightarrow>
          Some (write_regs dev self
            [(Queue_sel, ucast queue), (Queue_num, sz),
             (Queue_desc_low, ucast descriptors), (Queue_desc_high, ucast (drop_bit 32 descriptors)),
             (Queue_driver_low, ucast driver_area), (Queue_driver_high, ucast (drop_bit 32 driver_area)),
             (Queue_device_low, ucast device_area), (Queue_device_high, ucast (drop_bit 32 device_area)),
             (Queue_ready, 1)]))"

text \<open>
  The spin loop of \<^verbatim>\<open>queue_unset\<close> reads \<^verbatim>\<open>queue_ready\<close> until it is zero; \<open>polls\<close> are the states of
  the device at these reads.
\<close>

fun spin_until_not_ready :: "'d mmio_device \<Rightarrow> 'd list \<Rightarrow> 'd option" where
  "spin_until_not_ready dev [] = None"
| "spin_until_not_ready dev (d # ds) =
     (if reg_read dev d Queue_ready \<noteq> 0 then spin_until_not_ready dev ds else Some d)"

definition Mmio_queue_unset ::
    "'d mmio_device \<Rightarrow> ('d \<Rightarrow> 'd list) \<Rightarrow> 'd MmioTransport \<Rightarrow> u16 \<Rightarrow> 'd MmioTransport option" where
  "Mmio_queue_unset dev polls self queue =
     (case mmio_version self of
        Legacy \<Rightarrow>
          Some (write_regs dev self
            [(Queue_sel, ucast queue), (Queue_num, 0), (Legacy_queue_align, 0), (Legacy_queue_pfn, 0)])
      | Modern \<Rightarrow> do {
          let self1 = write_regs dev self [(Queue_sel, ucast queue), (Queue_ready, 0)];
          d \<leftarrow> spin_until_not_ready dev (polls (header self1));
          Some (write_regs dev (self1\<lparr>header := d\<rparr>)
            [(Queue_num, 0), (Queue_desc_low, 0), (Queue_desc_high, 0), (Queue_driver_low, 0),
             (Queue_driver_high, 0), (Queue_device_low, 0), (Queue_device_high, 0)])
        })"

definition Mmio_queue_used :: "'d mmio_device \<Rightarrow> 'd MmioTransport \<Rightarrow> u16 \<Rightarrow> bool \<times> 'd MmioTransport" where
  "Mmio_queue_used dev self queue =
     (let self1 = write_reg dev self (Queue_sel, ucast queue) in
      (case mmio_version self1 of
         Legacy \<Rightarrow> reg_read dev (header self1) Legacy_queue_pfn \<noteq> 0
       | Modern \<Rightarrow> reg_read dev (header self1) Queue_ready \<noteq> 0, self1))"

definition Mmio_ack_interrupt :: "'d mmio_device \<Rightarrow> 'd MmioTransport \<Rightarrow> u32 \<times> 'd MmioTransport" where
  "Mmio_ack_interrupt dev self =
     (let interrupt = reg_read dev (header self) Interrupt_status in
      if interrupt \<noteq> 0
      then (InterruptStatus_from_bits_truncate interrupt, write_reg dev self (Interrupt_ack, interrupt))
      else (0, self))"

definition Mmio_read_config_generation :: "'d mmio_device \<Rightarrow> 'd MmioTransport \<Rightarrow> u32" where
  "Mmio_read_config_generation dev self = reg_read dev (header self) Config_generation"

text \<open>Configuration space accesses of a type \<^verbatim>\<open>T\<close> are given by its alignment and size.\<close>

definition Mmio_read_config_space ::
    "'d mmio_device \<Rightarrow> 'd MmioTransport \<Rightarrow> nat \<Rightarrow> nat \<Rightarrow> nat \<Rightarrow> (Error + u8 list) option" where
  "Mmio_read_config_space dev self align_of_T size_of_T offset = do {
     rust_assert (align_of_T \<le> 4);
     rust_assert (offset mod align_of_T = 0);
     bound \<leftarrow> usize_add offset size_of_T;
     Some (if config_space_len self < bound then Inl ConfigSpaceTooSmall
           else Inr (cfg_read dev (header self) offset size_of_T))
   }"

definition Mmio_write_config_space ::
    "'d mmio_device \<Rightarrow> 'd MmioTransport \<Rightarrow> nat \<Rightarrow> nat \<Rightarrow> u8 list \<Rightarrow> ((Error + unit) \<times> 'd MmioTransport) option" where
  "Mmio_write_config_space dev self align_of_T offset bytes = do {
     rust_assert (align_of_T \<le> 4);
     rust_assert (offset mod align_of_T = 0);
     bound \<leftarrow> usize_add offset (length bytes);
     Some (if config_space_len self < bound then (Inl ConfigSpaceTooSmall, self)
           else (Inr (), self\<lparr>header := cfg_write dev (header self) offset bytes\<rparr>))
   }"

definition Mmio_drop :: "'d mmio_device \<Rightarrow> 'd MmioTransport \<Rightarrow> 'd MmioTransport" where
  "Mmio_drop dev self = Mmio_set_status dev self 0"

definition MmioTransport_impl :: "'d mmio_device \<Rightarrow> ('d \<Rightarrow> 'd list) \<Rightarrow> 'd MmioTransport Transport" where
  "MmioTransport_impl dev polls =
     \<lparr>device_type = mmio_device_type,
      read_device_features = Mmio_read_device_features dev,
      write_driver_features = (\<lambda>self f. Some (Mmio_write_driver_features dev self f)),
      max_queue_size = (\<lambda>self q. Some (Mmio_max_queue_size dev self q)),
      notify = (\<lambda>self q. Some (Mmio_notify dev self q)),
      get_status = Mmio_get_status dev,
      set_status = (\<lambda>self s. Some (Mmio_set_status dev self s)),
      set_guest_page_size = (\<lambda>self n. Some (Mmio_set_guest_page_size dev self n)),
      requires_legacy_layout = Mmio_requires_legacy_layout,
      queue_set = Mmio_queue_set dev,
      queue_unset = Mmio_queue_unset dev polls,
      queue_used = (\<lambda>self q. Some (Mmio_queue_used dev self q)),
      ack_interrupt = (\<lambda>self. Some (Mmio_ack_interrupt dev self)),
      read_config_generation = Mmio_read_config_generation dev,
      read_config_space = Mmio_read_config_space dev,
      write_config_space = Mmio_write_config_space dev\<rparr>"

end
