(* ===== verification/Virt_Queue.thy ===== *)
theory Virt_Queue
  imports Transport
begin

text \<open>
  The split virtqueue (\<^verbatim>\<open>virtio-drivers/src/queue.rs\<close>). \<open>VirtQueue\<close> has the fields of the Rust struct;
  the three memory areas it points to are fields as well: \<open>desc\<close> and \<open>avail\<close> are written by the
  driver only, \<open>used\<close> by the device only. \<open>SIZE\<close> is the length of the trusted descriptor table.
  An entry of \<open>indirect_lists\<close> is the address of a leaked box with the descriptors it holds.
  \<^verbatim>\<open>H::share\<close> is an argument of the operations that share buffers, and every operation returns the
  calls it makes to \<^verbatim>\<open>H::share\<close> and \<^verbatim>\<open>H::unshare\<close>, in order. \<open>box_ptr\<close> is the address at which the
  global allocator places an indirect list.
\<close>

section \<open>Descriptors and rings\<close>

record Descriptor =
  addr :: u64
  len :: u32
  flags :: u16
  "next" :: u16

definition NEXT :: u16 where "NEXT = 1"
definition WRITE :: u16 where "WRITE = 2"
definition INDIRECT :: u16 where "INDIRECT = 4"

definition contains :: "'a::len word \<Rightarrow> 'a word \<Rightarrow> bool" where
  "contains fl f \<longleftrightarrow> fl AND f = f"

record UsedElem =
  elem_id :: u32
  elem_len :: u32

record AvailRing =
  avail_flags :: u16
  avail_ring_idx :: u16
  avail_ring :: "u16 list"
  used_event :: u16

record UsedRing =
  used_flags :: u16
  used_ring_idx :: u16
  used_ring :: "UsedElem list"
  avail_event :: u16

datatype hal_call =
    Share slice BufferDirection u64
  | Unshare u64 slice BufferDirection

type_synonym share = "slice \<Rightarrow> BufferDirection \<Rightarrow> u64"
type_synonym buffer = "slice \<times> BufferDirection"

definition zero_descriptor :: Descriptor where
  "zero_descriptor = \<lparr>addr = 0, len = 0, flags = 0, next = 0\<rparr>"

definition set_buf :: "share \<Rightarrow> Descriptor \<Rightarrow> slice \<Rightarrow> BufferDirection \<Rightarrow> u16 \<Rightarrow> Descriptor option" where
  "set_buf share self buf direction extra_flags = do {
     rust_assert (sl_len buf < 2 ^ 32);
     rust_assert (direction \<noteq> Both);
     Some (self\<lparr>addr := share buf direction,
                len := of_nat (sl_len buf),
                flags := extra_flags OR (if direction = DeviceToDriver then WRITE else 0)\<rparr>)
   }"

definition unset_buf :: "Descriptor \<Rightarrow> Descriptor" where
  "unset_buf self = self\<lparr>addr := 0, len := 0\<rparr>"

definition Descriptor_next :: "Descriptor \<Rightarrow> u16 option" where
  "Descriptor_next self = (if contains (flags self) NEXT then Some (next self) else None)"

section \<open>The iterator over input and output buffers\<close>

fun take_first :: "'a list \<Rightarrow> ('a \<times> 'a list) option" where
  "take_first [] = None"
| "take_first (x # xs) = Some (x, xs)"

definition InputOutputIter_next ::
    "slice list \<times> slice list \<Rightarrow> (buffer \<times> (slice list \<times> slice list)) option" where
  "InputOutputIter_next self =
     (case take_first (fst self) of
        Some (input, inputs) \<Rightarrow> Some ((input, DriverToDevice), (inputs, snd self))
      | None \<Rightarrow>
          (case take_first (snd self) of
             None \<Rightarrow> None
           | Some (out, outs) \<Rightarrow> Some ((out, DeviceToDriver), (fst self, outs))))"

lemma InputOutputIter_next_smaller:
  "InputOutputIter_next s = Some (b, s') \<Longrightarrow> length (fst s') + length (snd s') < length (fst s) + length (snd s)"
  by (cases "fst s"; cases "snd s") (auto simp: InputOutputIter_next_def)

function InputOutputIter_items :: "slice list \<times> slice list \<Rightarrow> buffer list" where
  "InputOutputIter_items s =
     (case InputOutputIter_next s of None \<Rightarrow> [] | Some (b, s') \<Rightarrow> b # InputOutputIter_items s')"
  by pat_completeness auto
termination
  by (relation "measure (\<lambda>s. length (fst s) + length (snd s))")
    (auto dest: InputOutputIter_next_smaller)

declare InputOutputIter_items.simps [simp del]

section \<open>The memory of a queue\<close>

definition count_ones :: "'a::len word \<Rightarrow> nat" where
  "count_ones w = length (filter (bit w) [0..<LENGTH('a)])"

definition is_power_of_two :: "'a::len word \<Rightarrow> bool" where
  "is_power_of_two w \<longleftrightarrow> count_ones w = 1"

datatype VirtQueueLayout =
    is_LegacyLayout: LegacyLayout (legacy_dma: Dma) (legacy_avail_offset: u64) (legacy_used_offset: u64)
  | ModernLayout (driver_to_device_dma: Dma) (device_to_driver_dma: Dma) (modern_avail_offset: u64)

definition queue_part_sizes :: "u16 \<Rightarrow> (u64 \<times> u64 \<times> u64) option" where
  "queue_part_sizes queue_size = do {
     rust_assert (is_power_of_two queue_size);
     let n = (ucast queue_size :: u64);
     Some (16 * n, 2 * (3 + n), 2 * 3 + 8 * n)
   }"

definition allocate_legacy :: "'h dma_alloc \<Rightarrow> 'h \<Rightarrow> u16 \<Rightarrow> ((Error + VirtQueueLayout) \<times> 'h) option" where
  "allocate_legacy dma_alloc h queue_size = do {
     (dsz, asz, usz) \<leftarrow> queue_part_sizes queue_size;
     front \<leftarrow> align_up (dsz + asz);
     back \<leftarrow> align_up usz;
     sz \<leftarrow> rust_add front back;
     (r, h1) \<leftarrow> Dma_new dma_alloc h (sz div PAGE_SIZE) Both;
     Some (case r of
             Inl e \<Rightarrow> (Inl e, h1)
           | Inr dma \<Rightarrow> (Inr (LegacyLayout dma dsz front), h1))
   }"

definition allocate_flexible ::
    "'h dma_alloc \<Rightarrow> 'h dma_dealloc \<Rightarrow> 'h \<Rightarrow> u16 \<Rightarrow> ((Error + VirtQueueLayout) \<times> 'h) option" where
  "allocate_flexible dma_alloc dma_dealloc h queue_size = do {
     (dsz, asz, usz) \<leftarrow> queue_part_sizes queue_size;
     (r1, h1) \<leftarrow> Dma_new dma_alloc h (pages (dsz + asz)) DriverToDevice;
     (case r1 of
        Inl e \<Rightarrow> Some (Inl e, h1)
      | Inr d2d \<Rightarrow> do {
          (r2, h2) \<leftarrow> Dma_new dma_alloc h1 (pages usz) DeviceToDriver;
          (case r2 of
             Inl e \<Rightarrow> do { h3 \<leftarrow> Dma_drop dma_dealloc h2 d2d; Some (Inl e, h3) }
           | Inr dev \<Rightarrow> Some (Inr (ModernLayout d2d dev dsz), h2))
        })
   }"

fun descriptors_paddr :: "VirtQueueLayout \<Rightarrow> u64" where
  "descriptors_paddr (LegacyLayout dma _ _) = dma_paddr dma"
| "descriptors_paddr (ModernLayout d2d _ _) = dma_paddr d2d"

fun descriptors_vaddr :: "VirtQueueLayout \<Rightarrow> u64 option" where
  "descriptors_vaddr (LegacyLayout dma _ _) = Dma_vaddr dma 0"
| "descriptors_vaddr (ModernLayout d2d _ _) = Dma_vaddr d2d 0"

fun driver_area_paddr :: "VirtQueueLayout \<Rightarrow> u64 option" where
  "driver_area_paddr (LegacyLayout dma avail_offset _) = rust_add (dma_paddr dma) avail_offset"
| "driver_area_paddr (ModernLayout d2d _ avail_offset) = rust_add (dma_paddr d2d) avail_offset"

fun avail_vaddr :: "VirtQueueLayout \<Rightarrow> u64 option" where
  "avail_vaddr (LegacyLayout dma avail_offset _) = Dma_vaddr dma avail_offset"
| "avail_vaddr (ModernLayout d2d _ avail_offset) = Dma_vaddr d2d avail_offset"

fun device_area_paddr :: "VirtQueueLayout \<Rightarrow> u64 option" where
  "device_area_paddr (LegacyLayout dma _ used_offset) = rust_add (dma_paddr dma) used_offset"
| "device_area_paddr (ModernLayout _ dev _) = Some (dma_paddr dev)"

fun used_vaddr :: "VirtQueueLayout \<Rightarrow> u64 option" where
  "used_vaddr (LegacyLayout dma _ used_offset) = Dma_vaddr dma used_offset"
| "used_vaddr (ModernLayout _ dev _) = Dma_vaddr dev 0"

section \<open>The queue\<close>

record VirtQueue =
  layout :: VirtQueueLayout
  desc :: "Descriptor list"
  avail :: AvailRing
  used :: UsedRing
  queue_idx :: u16
  num_used :: u16
  free_head :: u16
  desc_shadow :: "Descriptor list"
  avail_idx :: u16
  last_used_idx :: u16
  event_idx :: bool
  indirect :: bool
  indirect_lists :: "(u64 \<times> Descriptor list) option list"

abbreviation SIZE :: "VirtQueue \<Rightarrow> nat" where
  "SIZE q \<equiv> length (desc_shadow q)"

text \<open>
  \<open>queue_memory\<close> is what the memory of a layout contains when the queue is created, read as a
  descriptor table and two rings.
\<close>

record queue_memory =
  mem_desc :: "Descriptor list"
  mem_avail :: AvailRing
  mem_used :: UsedRing

definition link_descriptors :: "nat \<Rightarrow> Descriptor list \<Rightarrow> Descriptor list" where
  "link_descriptors n ds = foldl (\<lambda>ds i. ds[i := (ds ! i)\<lparr>next := of_nat (i + 1)\<rparr>]) ds [0..<n]"

definition VirtQueue_new ::
    "'t Transport \<Rightarrow> 'h dma_alloc \<Rightarrow> 'h dma_dealloc \<Rightarrow> (VirtQueueLayout \<Rightarrow> queue_memory) \<Rightarrow> nat \<Rightarrow>
     't \<Rightarrow> 'h \<Rightarrow> u16 \<Rightarrow> bool \<Rightarrow> bool \<Rightarrow> ((Error + VirtQueue) \<times> 't \<times> 'h) option" where
  "VirtQueue_new T dma_alloc dma_dealloc mem qsize transport h qi use_indirect use_event_idx = do {
     rust_assert (qsize < 2 ^ 64 \<and> is_power_of_two (of_nat qsize :: u64) \<and> qsize \<le> 65535);
     (in_use, t1) \<leftarrow> queue_used T transport qi;
     if in_use then Some (Inl AlreadyUsed, t1, h)
     else do {
       (max_size, t2) \<leftarrow> max_queue_size T t1 qi;
       if max_size < of_nat qsize then Some (Inl InvalidParam, t2, h)
       else do {
         let sz = (of_nat qsize :: u16);
         (r, h1) \<leftarrow> (if requires_legacy_layout T t2 then allocate_legacy dma_alloc h sz
                    else allocate_flexible dma_alloc dma_dealloc h sz);
         (case r of
            Inl e \<Rightarrow> Some (Inl e, t2, h1)
          | Inr lay \<Rightarrow> do {
              driver_area \<leftarrow> driver_area_paddr lay;
              device_area \<leftarrow> device_area_paddr lay;
              t3 \<leftarrow> queue_set T t2 qi (ucast sz) (descriptors_paddr lay) driver_area device_area;
              desc_ptr \<leftarrow> descriptors_vaddr lay;
              avail_ptr \<leftarrow> avail_vaddr lay;
              used_ptr \<leftarrow> used_vaddr lay;
              Some (Inr \<lparr>layout = lay,
                         desc = link_descriptors (qsize - 1) (mem_desc (mem lay)),
                         avail = mem_avail (mem lay),
                         used = mem_used (mem lay),
                         queue_idx = qi,
                         num_used = 0,
                         free_head = 0,
                         desc_shadow = link_descriptors (qsize - 1) (replicate qsize zero_descriptor),
                         avail_idx = 0,
                         last_used_idx = 0,
                         event_idx = use_event_idx,
                         indirect = use_indirect,
                         indirect_lists = replicate qsize None\<rparr>, t3, h1)
            })
       }
     }
   }"

definition slot :: "VirtQueue \<Rightarrow> u16 \<Rightarrow> nat" where
  "slot self i = unat (i AND (of_nat (SIZE self) - 1))"

definition write_desc :: "VirtQueue \<Rightarrow> u16 \<Rightarrow> VirtQueue option" where
  "write_desc self index = do {
     d \<leftarrow> idx (desc_shadow self) (unat index);
     ds \<leftarrow> upd (desc self) (unat index) d;
     Some (self\<lparr>desc := ds\<rparr>)
   }"

fun add_direct_loop :: "share \<Rightarrow> buffer list \<Rightarrow> u16 \<Rightarrow> VirtQueue \<Rightarrow> (u16 \<times> VirtQueue \<times> hal_call list) option" where
  "add_direct_loop share [] lst self = Some (lst, self, [])"
| "add_direct_loop share ((buffer, direction) # items) lst self = do {
     rust_assert (sl_len buffer \<noteq> 0);
     d \<leftarrow> idx (desc_shadow self) (unat (free_head self));
     d' \<leftarrow> set_buf share d buffer direction NEXT;
     let lst' = free_head self;
     let self1 = self\<lparr>desc_shadow := (desc_shadow self)[unat lst' := d'], free_head := next d'\<rparr>;
     self2 \<leftarrow> write_desc self1 lst';
     (l, self3, calls) \<leftarrow> add_direct_loop share items lst' self2;
     Some (l, self3, Share buffer direction (addr d') # calls)
   }"

definition add_direct ::
    "share \<Rightarrow> VirtQueue \<Rightarrow> slice list \<Rightarrow> slice list \<Rightarrow> (u16 \<times> VirtQueue \<times> hal_call list) option" where
  "add_direct share self inputs outputs = do {
     let head = free_head self;
     (lst, self1, calls) \<leftarrow>
       add_direct_loop share (InputOutputIter_items (inputs, outputs)) (free_head self) self;
     d \<leftarrow> idx (desc_shadow self1) (unat lst);
     let self2 = self1\<lparr>desc_shadow := (desc_shadow self1)[unat lst := d\<lparr>flags := flags d AND NOT NEXT\<rparr>]\<rparr>;
     self3 \<leftarrow> write_desc self2 lst;
     n \<leftarrow> rust_add (num_used self3) (of_nat (length inputs + length outputs));
     Some (head, self3\<lparr>num_used := n\<rparr>, calls)
   }"

fun fill_indirect :: "share \<Rightarrow> nat \<Rightarrow> buffer list \<Rightarrow> Descriptor list \<Rightarrow> (Descriptor list \<times> hal_call list) option" where
  "fill_indirect share i [] l = Some (l, [])"
| "fill_indirect share i ((buffer, direction) # items) l = do {
     d \<leftarrow> idx l i;
     d' \<leftarrow> set_buf share d buffer direction NEXT;
     (l', calls) \<leftarrow> fill_indirect share (Suc i) items (l[i := d'\<lparr>next := of_nat (i + 1)\<rparr>]);
     Some (l', Share buffer direction (addr d') # calls)
   }"

definition add_indirect ::
    "share \<Rightarrow> u64 \<Rightarrow> VirtQueue \<Rightarrow> slice list \<Rightarrow> slice list \<Rightarrow> (u16 \<times> VirtQueue \<times> hal_call list) option" where
  "add_indirect share box_ptr self inputs outputs = do {
     let head = free_head self;
     let n = length inputs + length outputs;
     (l, calls) \<leftarrow> fill_indirect share 0 (InputOutputIter_items (inputs, outputs)) (replicate n zero_descriptor);
     rust_assert (l \<noteq> []);
     let l' = l[length l - 1 := (last l)\<lparr>flags := flags (last l) AND NOT NEXT\<rparr>];
     present \<leftarrow> idx (indirect_lists self) (unat head);
     rust_assert (present = None);
     let self1 = self\<lparr>indirect_lists := (indirect_lists self)[unat head := Some (box_ptr, l')]\<rparr>;
     direct_desc \<leftarrow> idx (desc_shadow self1) (unat head);
     let self2 = self1\<lparr>free_head := next direct_desc\<rparr>;
     let bytes = \<lparr>sl_ptr = box_ptr, sl_len = 16 * n\<rparr>;
     d' \<leftarrow> set_buf share direct_desc bytes DriverToDevice INDIRECT;
     let self3 = self2\<lparr>desc_shadow := (desc_shadow self2)[unat head := d']\<rparr>;
     self4 \<leftarrow> write_desc self3 head;
     m \<leftarrow> rust_add (num_used self4) 1;
     Some (head, self4\<lparr>num_used := m\<rparr>, calls @ [Share bytes DriverToDevice (addr d')])
   }"

definition VirtQueue_add ::
    "share \<Rightarrow> u64 \<Rightarrow> VirtQueue \<Rightarrow> slice list \<Rightarrow> slice list \<Rightarrow> ((Error + u16) \<times> VirtQueue \<times> hal_call list) option" where
  "VirtQueue_add share box_ptr self inputs outputs =
     (if inputs = [] \<and> outputs = [] then Some (Inl InvalidParam, self, [])
      else let descriptors_needed = length inputs + length outputs in
      if unat (num_used self) + 1 > SIZE self
         \<or> descriptors_needed > SIZE self
         \<or> (\<not> indirect self \<and> unat (num_used self) + descriptors_needed > SIZE self)
      then Some (Inl QueueFull, self, [])
      else do {
        (head, self1, calls) \<leftarrow>
          (if indirect self \<and> descriptors_needed > 1 then add_indirect share box_ptr self inputs outputs
           else add_direct share self inputs outputs);
        ring \<leftarrow> upd (avail_ring (avail self1)) (slot self1 (avail_idx self1)) head;
        let i = avail_idx self1 + 1;
        Some (Inr head,
          self1\<lparr>avail := (avail self1)\<lparr>avail_ring := ring, avail_ring_idx := i\<rparr>, avail_idx := i\<rparr>,
          calls)
      })"

section \<open>Notification\<close>

definition set_dev_notify :: "VirtQueue \<Rightarrow> bool \<Rightarrow> VirtQueue" where
  "set_dev_notify self enable =
     (let avail_ring_flags = (if enable then 0 else 1) in
      if \<not> event_idx self then self\<lparr>avail := (avail self)\<lparr>avail_flags := avail_ring_flags\<rparr>\<rparr> else self)"

definition should_notify :: "VirtQueue \<Rightarrow> bool" where
  "should_notify self =
     (if event_idx self then avail_event (used self) + 1 \<le> avail_idx self
      else used_flags (used self) AND 1 = 0)"

section \<open>Taking back used buffers\<close>

definition can_pop :: "VirtQueue \<Rightarrow> bool" where
  "can_pop self \<longleftrightarrow> last_used_idx self \<noteq> used_ring_idx (used self)"

definition peek_used :: "VirtQueue \<Rightarrow> u16 option option" where
  "peek_used self =
     (if can_pop self then do {
        e \<leftarrow> idx (used_ring (used self)) (slot self (last_used_idx self));
        Some (Some (ucast (elem_id e)))
      } else Some None)"

definition available_desc :: "VirtQueue \<Rightarrow> nat" where
  "available_desc self =
     (if indirect self then (if unat (num_used self) = SIZE self then 0 else SIZE self)
      else SIZE self - unat (num_used self))"

fun recycle_direct_loop ::
    "u16 \<Rightarrow> buffer list \<Rightarrow> u16 option \<Rightarrow> VirtQueue \<Rightarrow> (u16 option \<times> VirtQueue \<times> hal_call list) option" where
  "recycle_direct_loop original_free_head [] nxt self = Some (nxt, self, [])"
| "recycle_direct_loop original_free_head ((buffer, direction) # items) nxt self = do {
     rust_assert (sl_len buffer \<noteq> 0);
     desc_index \<leftarrow> nxt;
     d \<leftarrow> idx (desc_shadow self) (unat desc_index);
     let paddr = addr d;
     let d1 = unset_buf d;
     n \<leftarrow> rust_sub (num_used self) 1;
     let nxt' = Descriptor_next d1;
     let d2 = (if nxt' = None then d1\<lparr>next := original_free_head\<rparr> else d1);
     let self1 = self\<lparr>num_used := n, desc_shadow := (desc_shadow self)[unat desc_index := d2]\<rparr>;
     self2 \<leftarrow> write_desc self1 desc_index;
     (r, self3, calls) \<leftarrow> recycle_direct_loop original_free_head items nxt' self2;
     Some (r, self3, Unshare paddr buffer direction # calls)
   }"

fun unshare_indirect :: "Descriptor list \<Rightarrow> nat \<Rightarrow> buffer list \<Rightarrow> hal_call list option" where
  "unshare_indirect l i [] = Some []"
| "unshare_indirect l i ((buffer, direction) # items) = do {
     rust_assert (sl_len buffer \<noteq> 0);
     d \<leftarrow> idx l i;
     calls \<leftarrow> unshare_indirect l (Suc i) items;
     Some (Unshare (addr d) buffer direction # calls)
   }"

definition recycle_descriptors ::
    "VirtQueue \<Rightarrow> u16 \<Rightarrow> slice list \<Rightarrow> slice list \<Rightarrow> (VirtQueue \<times> hal_call list) option" where
  "recycle_descriptors self head inputs outputs = do {
     let original_free_head = free_head self;
     let self0 = self\<lparr>free_head := head\<rparr>;
     head_desc \<leftarrow> idx (desc_shadow self0) (unat head);
     if contains (flags head_desc) INDIRECT then do {
       entry \<leftarrow> idx (indirect_lists self0) (unat head);
       (box_ptr, l) \<leftarrow> entry;
       let paddr = addr head_desc;
       n \<leftarrow> rust_sub (num_used self0) 1;
       let self1 = self0\<lparr>indirect_lists := (indirect_lists self0)[unat head := None],
                         num_used := n,
                         desc_shadow := (desc_shadow self0)[unat head :=
                           (unset_buf head_desc)\<lparr>next := original_free_head\<rparr>]\<rparr>;
       rust_assert (length l = length inputs + length outputs);
       calls \<leftarrow> unshare_indirect l 0 (InputOutputIter_items (inputs, outputs));
       Some (self1, Unshare paddr \<lparr>sl_ptr = box_ptr, sl_len = 16 * length l\<rparr> DriverToDevice # calls)
     } else do {
       (nxt, self1, calls) \<leftarrow>
         recycle_direct_loop original_free_head (InputOutputIter_items (inputs, outputs)) (Some head) self0;
       rust_assert (nxt = None);
       Some (self1, calls)
     }
   }"

definition pop_used ::
    "VirtQueue \<Rightarrow> u16 \<Rightarrow> slice list \<Rightarrow> slice list \<Rightarrow> ((Error + u32) \<times> VirtQueue \<times> hal_call list) option" where
  "pop_used self token inputs outputs =
     (if \<not> can_pop self then Some (Inl NotReady, self, [])
      else do {
        e \<leftarrow> idx (used_ring (used self)) (slot self (last_used_idx self));
        let index = ucast (elem_id e);
        if index \<noteq> token then Some (Inl WrongToken, self, [])
        else do {
          (self1, calls) \<leftarrow> recycle_descriptors self index inputs outputs;
          let i = last_used_idx self1 + 1;
          let self2 = self1\<lparr>last_used_idx := i\<rparr>;
          let self3 = (if event_idx self2 then self2\<lparr>avail := (avail self2)\<lparr>used_event := i\<rparr>\<rparr> else self2);
          Some (Inr (elem_len e), self3, calls)
        }
      })"

text \<open>
  \<^verbatim>\<open>add_notify_wait_pop\<close> spins until the device has written the used ring. \<open>polls\<close> is what the driver
  reads there, one used ring per iteration of the loop; the call does not return while no entry
  shows a new element. The result also says whether the device was notified.
\<close>

fun wait_can_pop :: "UsedRing list \<Rightarrow> VirtQueue \<Rightarrow> VirtQueue option" where
  "wait_can_pop [] self = None"
| "wait_can_pop (u # us) self =
     (if can_pop (self\<lparr>used := u\<rparr>) then Some (self\<lparr>used := u\<rparr>) else wait_can_pop us self)"

definition add_notify_wait_pop ::
    "share \<Rightarrow> u64 \<Rightarrow> UsedRing list \<Rightarrow> VirtQueue \<Rightarrow> slice list \<Rightarrow> slice list \<Rightarrow>
     ((Error + u32) \<times> VirtQueue \<times> hal_call list \<times> bool) option" where
  "add_notify_wait_pop share box_ptr polls self inputs outputs = do {
     (r, self1, calls1) \<leftarrow> VirtQueue_add share box_ptr self inputs outputs;
     (case r of
        Inl e \<Rightarrow> Some (Inl e, self1, calls1, False)
      | Inr token \<Rightarrow> do {
          let notified = should_notify self1;
          self2 \<leftarrow> wait_can_pop polls self1;
          (r', self3, calls2) \<leftarrow> pop_used self2 token inputs outputs;
          Some (r', self3, calls1 @ calls2, notified)
        })
   }"

end
