(* ===== verification/Virt_Queue_Refinement.thy ===== *)
theory Virt_Queue_Refinement
  imports Virt_Queue
begin

text \<open>
  The abstract queue and the proof that \<open>Virt_Queue\<close> implements it.
\<close>

record AbsQueue =
  a_free :: "u16 list"
  a_flight :: "(u16 list \<times> buffer list) list"

fun linked :: "Descriptor list \<Rightarrow> u16 \<Rightarrow> u16 list \<Rightarrow> bool" where
  "linked ds h [] \<longleftrightarrow> True"
| "linked ds h (i # is) \<longleftrightarrow> h = i \<and> unat i < length ds \<and> linked ds (next (ds ! unat i)) is"

definition direct_desc :: "share \<Rightarrow> buffer \<Rightarrow> bool \<Rightarrow> u16 \<Rightarrow> Descriptor" where
  "direct_desc share b chained nx =
     \<lparr>addr = share (fst b) (snd b), len = of_nat (sl_len (fst b)),
      flags = (if chained then NEXT else 0) OR (if snd b = DeviceToDriver then WRITE else 0), next = nx\<rparr>"

definition buffer_ok :: "buffer \<Rightarrow> bool" where
  "buffer_ok b \<longleftrightarrow> 0 < sl_len (fst b) \<and> sl_len (fst b) < 2 ^ 32 \<and> snd b \<noteq> Both"

lemma set_buf_direct:
  assumes "buffer_ok b"
  shows "set_buf share d (fst b) (snd b) NEXT = Some (direct_desc share b True (next d))"
  using assms by (simp add: set_buf_def buffer_ok_def direct_desc_def panic_simps)

lemma linked_update: "i \<notin> set fl \<Longrightarrow> linked (ds[unat i := d]) h fl = linked ds h fl"
  by (induction fl arbitrary: h) auto

lemma add_direct_loop_ok:
  assumes "linked (desc_shadow q) (free_head q) fl" "distinct fl"
    "length items \<le> length fl" "\<forall>b \<in> set items. buffer_ok b"
    "length (desc q) = SIZE q"
  shows "\<exists>ds' D' fh'.
    add_direct_loop share items lst q =
      Some (if items = [] then lst else fl ! (length items - 1),
            q\<lparr>desc_shadow := ds', desc := D', free_head := fh'\<rparr>,
            map (\<lambda>(b, d). Share b d (share b d)) items)
    \<and> length ds' = SIZE q \<and> length D' = SIZE q
    \<and> linked ds' fh' (drop (length items) fl)
    \<and> (\<forall>i. i \<notin> set (take (length items) fl) \<longrightarrow> ds' ! unat i = desc_shadow q ! unat i \<and> D' ! unat i = desc q ! unat i)
    \<and> (\<forall>k < length items. ds' ! unat (fl ! k) = direct_desc share (items ! k) True (next (desc_shadow q ! unat (fl ! k)))
          \<and> D' ! unat (fl ! k) = ds' ! unat (fl ! k))"
  using assms
proof (induction items arbitrary: lst q fl)
  case Nil
  then show ?case
    by (rule_tac exI [of _ "desc_shadow q"], rule_tac exI [of _ "desc q"], rule_tac exI [of _ "free_head q"]) simp
next
  case (Cons it items)
  obtain b d where it: "it = (b, d)" by (cases it)
  from Cons.prems(3) obtain i fl' where fl: "fl = i # fl'"
    by (cases fl) auto
  let ?d = "desc_shadow q ! unat i"
  let ?d' = "direct_desc share it True (next ?d)"
  let ?q = "q\<lparr>desc_shadow := (desc_shadow q)[unat i := ?d'], free_head := next ?d,
              desc := (desc q)[unat i := ?d']\<rparr>"
  from Cons.prems fl have i: "free_head q = i" "unat i < SIZE q" "i \<notin> set fl'"
    and lk: "linked (desc_shadow q) (next ?d) fl'"
    by auto
  have step: "add_direct_loop share (it # items) lst q =
      (case add_direct_loop share items i ?q of None \<Rightarrow> None
       | Some (l, q3, calls) \<Rightarrow> Some (l, q3, Share b d (share b d) # calls))"
    using Cons.prems i set_buf_direct [of it share ?d] it
    by (simp add: panic_simps write_desc_def buffer_ok_def direct_desc_def Let_def split: option.splits)
  have "linked (desc_shadow ?q) (free_head ?q) fl'" "length (desc ?q) = SIZE ?q"
    using lk i Cons.prems(5) by (simp_all add: linked_update)
  then obtain ds' D' fh' where IH:
    "add_direct_loop share items i ?q =
      Some (if items = [] then i else fl' ! (length items - 1),
            ?q\<lparr>desc_shadow := ds', desc := D', free_head := fh'\<rparr>,
            map (\<lambda>(b, d). Share b d (share b d)) items)"
    "length ds' = SIZE ?q" "length D' = SIZE ?q"
    "linked ds' fh' (drop (length items) fl')"
    "\<forall>i. i \<notin> set (take (length items) fl') \<longrightarrow> ds' ! unat i = desc_shadow ?q ! unat i \<and> D' ! unat i = desc ?q ! unat i"
    "\<forall>k < length items. ds' ! unat (fl' ! k) = direct_desc share (items ! k) True (next (desc_shadow ?q ! unat (fl' ! k)))
          \<and> D' ! unat (fl' ! k) = ds' ! unat (fl' ! k)"
    using Cons.IH [of ?q fl' i] Cons.prems fl by auto
  show ?case
  proof (rule exI [of _ ds'], rule exI [of _ D'], rule exI [of _ fh'], intro conjI)
    show "add_direct_loop share (it # items) lst q =
      Some (if it # items = [] then lst else fl ! (length (it # items) - 1),
            q\<lparr>desc_shadow := ds', desc := D', free_head := fh'\<rparr>,
            map (\<lambda>(b, d). Share b d (share b d)) (it # items))"
      unfolding step IH(1) using fl it Cons.prems(3) by (auto simp: nth_Cons')
    show "\<forall>j. j \<notin> set (take (length (it # items)) fl) \<longrightarrow>
        ds' ! unat j = desc_shadow q ! unat j \<and> D' ! unat j = desc q ! unat j"
      using IH(5) fl by auto
    show "\<forall>k < length (it # items). ds' ! unat (fl ! k) = direct_desc share ((it # items) ! k) True (next (desc_shadow q ! unat (fl ! k)))
          \<and> D' ! unat (fl ! k) = ds' ! unat (fl ! k)"
    proof (intro allI impI)
      fix k assume k: "k < length (it # items)"
      show "ds' ! unat (fl ! k) = direct_desc share ((it # items) ! k) True (next (desc_shadow q ! unat (fl ! k)))
          \<and> D' ! unat (fl ! k) = ds' ! unat (fl ! k)"
      proof (cases k)
        case 0
        have "i \<notin> set (take (length items) fl')" using i(3) by (auto dest: in_set_takeD)
        with 0 IH(5) i Cons.prems(5) fl show ?thesis by simp
      next
        case (Suc m)
        have "m < length fl'" using Suc k Cons.prems(3) fl by simp
        then have "fl' ! m \<noteq> i" using i(3) nth_mem by blast
        with Suc IH(6) k fl show ?thesis by simp
      qed
    qed
  qed (use IH fl in simp_all)
qed


lemma InputOutputIter_items_eq:
  "InputOutputIter_items (ins, outs) =
     map (\<lambda>b. (b, DriverToDevice)) ins @ map (\<lambda>b. (b, DeviceToDriver)) outs"
proof (induction ins)
  case Nil
  show ?case
    by (induction outs) (subst InputOutputIter_items.simps, simp add: InputOutputIter_next_def)+
next
  case (Cons a ins)
  then show ?case
    by (subst InputOutputIter_items.simps) (simp add: InputOutputIter_next_def)
qed

lemma length_items [simp]:
  "length (InputOutputIter_items (ins, outs)) = length ins + length outs"
  by (simp add: InputOutputIter_items_eq)

fun direct_chain :: "share \<Rightarrow> Descriptor list \<Rightarrow> u16 list \<Rightarrow> buffer list \<Rightarrow> bool" where
  "direct_chain share ds [i] [b] \<longleftrightarrow>
     unat i < length ds \<and> (\<exists>nx. ds ! unat i = direct_desc share b False nx)"
| "direct_chain share ds (i # j # is) (b # bs) \<longleftrightarrow>
     unat i < length ds \<and> ds ! unat i = direct_desc share b True j \<and> direct_chain share ds (j # is) bs"
| "direct_chain share ds _ _ \<longleftrightarrow> False"

lemma direct_chainI:
  assumes "c \<noteq> []" "length c = length bufs"
    "\<And>k. k < length c \<Longrightarrow> unat (c ! k) < length ds"
    "\<And>k. Suc k < length c \<Longrightarrow> ds ! unat (c ! k) = direct_desc share (bufs ! k) True (c ! Suc k)"
    "\<exists>nx. ds ! unat (last c) = direct_desc share (last bufs) False nx"
  shows "direct_chain share ds c bufs"
  using assms
proof (induction share ds c bufs rule: direct_chain.induct)
  case (1 share ds i b)
  then show ?case by auto
next
  case (2 share ds i j js b bs)
  have "direct_chain share ds (j # js) bs"
  proof (rule "2.IH")
    show "length (j # js) = length bs" using "2.prems"(2) by simp
    show "unat ((j # js) ! k) < length ds" if "k < length (j # js)" for k
      using "2.prems"(3) [of "Suc k"] that by simp
    show "ds ! unat ((j # js) ! k) = direct_desc share (bs ! k) True ((j # js) ! Suc k)"
      if "Suc k < length (j # js)" for k
      using "2.prems"(4) [of "Suc k"] that by simp
    show "\<exists>nx. ds ! unat (last (j # js)) = direct_desc share (last bs) False nx"
      using "2.prems"(2,5) by (cases bs) auto
  qed simp
  then show ?case
    using "2.prems"(3) [of 0] "2.prems"(4) [of 0] by simp
qed auto

lemma linked_nth:
  "linked ds h fl \<Longrightarrow> Suc k < length fl \<Longrightarrow> next (ds ! unat (fl ! k)) = fl ! Suc k"
proof (induction fl arbitrary: h k)
  case (Cons i fl)
  then show ?case by (cases k; cases fl) auto
qed simp

lemma linked_bound: "linked ds h fl \<Longrightarrow> i \<in> set fl \<Longrightarrow> unat i < length ds"
  by (induction fl arbitrary: h) auto

lemma next_clears [simp]: "(NEXT OR f) AND NOT NEXT = f AND NOT NEXT"
  by (rule bit_eqI) (auto simp: bit_simps)

lemma direct_desc_clear:
  "(direct_desc share b True nx)\<lparr>flags := flags (direct_desc share b True nx) AND NOT NEXT\<rparr>
     = direct_desc share b False nx"
  by (simp add: direct_desc_def NEXT_def WRITE_def)

lemma add_direct_ok:
  fixes ins outs :: "slice list"
  defines "n \<equiv> length ins + length outs"
  assumes q: "linked (desc_shadow q) (free_head q) fl" "distinct fl" "length (desc q) = SIZE q"
    and n: "0 < n" "n \<le> length fl" "unat (num_used q) + n < 2 ^ 16"
    and ok: "\<forall>b \<in> set (InputOutputIter_items (ins, outs)). buffer_ok b"
  shows "\<exists>ds D fh.
    add_direct share q ins outs =
      Some (hd fl,
            q\<lparr>desc_shadow := ds, desc := D, free_head := fh, num_used := num_used q + of_nat (n)\<rparr>,
            map (\<lambda>(b, d). Share b d (share b d)) (InputOutputIter_items (ins, outs)))
    \<and> length ds = SIZE q \<and> length D = SIZE q
    \<and> linked ds fh (drop (n) fl)
    \<and> (\<forall>i. i \<notin> set (take (n) fl) \<longrightarrow> ds ! unat i = desc_shadow q ! unat i \<and> D ! unat i = desc q ! unat i)
    \<and> direct_chain share ds (take (n) fl) (InputOutputIter_items (ins, outs))
    \<and> (\<forall>i \<in> set (take (n) fl). D ! unat i = ds ! unat i)"
proof -
  let ?its = "InputOutputIter_items (ins, outs)"
  let ?l = "fl ! (n - 1)"
  have len: "length ?its = n" by (simp add: n_def)
  have ne: "?its \<noteq> []" using n(1) by (auto simp: n_def InputOutputIter_items_eq)
  obtain ds D fh where L:
    "add_direct_loop share ?its (free_head q) q =
      Some (?l, q\<lparr>desc_shadow := ds, desc := D, free_head := fh\<rparr>,
            map (\<lambda>(b, d). Share b d (share b d)) ?its)"
    "length ds = SIZE q" "length D = SIZE q"
    "linked ds fh (drop n fl)"
    "\<And>i. i \<notin> set (take n fl) \<Longrightarrow> ds ! unat i = desc_shadow q ! unat i"
    "\<And>i. i \<notin> set (take n fl) \<Longrightarrow> D ! unat i = desc q ! unat i"
    "\<And>k. k < n \<Longrightarrow> ds ! unat (fl ! k) = direct_desc share (?its ! k) True (next (desc_shadow q ! unat (fl ! k)))"
    "\<And>k. k < n \<Longrightarrow> D ! unat (fl ! k) = ds ! unat (fl ! k)"
    using add_direct_loop_ok [OF q(1,2) _ ok q(3), of share "free_head q"] n ne
    unfolding len by auto
  have lb: "unat ?l < SIZE q"
    using q(1) n by (intro linked_bound [OF q(1)]) auto
  let ?b = "last ?its"
  let ?e = "direct_desc share ?b False (next (desc_shadow q ! unat ?l))"
  have dl: "ds ! unat ?l = direct_desc share ?b True (next (desc_shadow q ! unat ?l))"
    using L(7) [of "n - 1"] n ne len by (simp add: last_conv_nth)
  have nu: "unat (of_nat n :: u16) = n" using n by (simp add: word_nat)
  have run: "add_direct share q ins outs =
      Some (hd fl, q\<lparr>desc_shadow := ds[unat ?l := ?e], desc := D[unat ?l := ?e], free_head := fh,
              num_used := num_used q + of_nat n\<rparr>, map (\<lambda>(b, d). Share b d (share b d)) ?its)"
    using q(1) n lb L(1-3) dl nu direct_desc_clear [of share ?b "next (desc_shadow q ! unat ?l)"]
    by (cases fl) (simp_all add: add_direct_def Let_def panic_simps write_desc_def n_def [symmetric])
  have inl: "?l \<in> set (take n fl)"
    using n by (auto simp: in_set_conv_nth intro!: exI [of _ "n - 1"])
  have "take n fl \<noteq> []" using n by auto
  then have lt: "last (take n fl) = ?l" using n by (simp add: last_conv_nth min_def)
  have neq: "fl ! k \<noteq> ?l" if "Suc k < n" for k
    using that q(2) n(2) by (simp add: nth_eq_iff_index_eq)
  show ?thesis
  proof (rule exI [of _ "ds[unat ?l := ?e]"], rule exI [of _ "D[unat ?l := ?e]"], rule exI [of _ fh],
      intro conjI)
    have "?l \<notin> set (drop n fl)"
      using q(2) n by (metis inl append_take_drop_id distinct_append disjoint_iff)
    then show "linked (ds[unat ?l := ?e]) fh (drop n fl)"
      using L(4) by (simp add: linked_update)
    show "direct_chain share (ds[unat ?l := ?e]) (take n fl) ?its"
    proof (rule direct_chainI)
      show "take n fl \<noteq> []" "length (take n fl) = length ?its" using n len by auto
      show "unat (take n fl ! k) < length (ds[unat ?l := ?e])" if "k < length (take n fl)" for k
        using that n L(2) linked_bound [OF q(1)] by simp
      show "ds[unat ?l := ?e] ! unat (take n fl ! k) = direct_desc share (?its ! k) True (take n fl ! Suc k)"
        if "Suc k < length (take n fl)" for k
        using that n neq [of k] L(7) [of k] linked_nth [OF q(1), of k] by (auto simp: nth_upd_if)
      show "\<exists>nx. ds[unat ?l := ?e] ! unat (last (take n fl)) = direct_desc share ?b False nx"
        using lt lb L(2) by auto
    qed
    show "\<forall>i \<in> set (take n fl). D[unat ?l := ?e] ! unat i = ds[unat ?l := ?e] ! unat i"
    proof
      fix i assume "i \<in> set (take n fl)"
      then obtain k where "k < n" "k < length fl" "i = fl ! k"
        by (auto simp: in_set_conv_nth)
      then show "D[unat ?l := ?e] ! unat i = ds[unat ?l := ?e] ! unat i"
        using L(2,3,8) lb by (auto simp: nth_upd_if)
    qed
  qed (use run L inl in \<open>auto simp: nth_upd_if\<close>)
qed


definition indirect_entry :: "share \<Rightarrow> buffer list \<Rightarrow> nat \<Rightarrow> Descriptor" where
  "indirect_entry share bufs k = direct_desc share (bufs ! k) (Suc k < length bufs) (of_nat (Suc k))"

definition indirect_table :: "share \<Rightarrow> buffer list \<Rightarrow> Descriptor list" where
  "indirect_table share bufs = map (indirect_entry share bufs) [0..<length bufs]"

lemma fill_indirect_ok:
  assumes "\<forall>b \<in> set items. buffer_ok b" "length l = i + length items"
  shows "fill_indirect share i items l =
    Some (take i l @ map (\<lambda>k. direct_desc share (items ! k) True (of_nat (Suc (i + k)))) [0..<length items],
          map (\<lambda>(b, d). Share b d (share b d)) items)"
  using assms
proof (induction items arbitrary: i l)
  case (Cons it items)
  obtain b d where it: "it = (b, d)" by (cases it)
  let ?d = "direct_desc share it True (of_nat (Suc i))"
  have upt: "[0..<Suc (length items)] = 0 # map Suc [0..<length items]"
    by (simp add: upt_conv_Cons map_Suc_upt del: upt_Suc)
  have tk: "take (Suc i) (l[i := ?d]) = take i l @ [?d]"
    using Cons.prems(2) by (simp add: take_Suc_conv_app_nth)
  have sb: "set_buf share (l ! i) b d NEXT = Some (direct_desc share it True (next (l ! i)))"
    using set_buf_direct [of it share "l ! i"] Cons.prems(1) it by simp
  have "(direct_desc share it True (next (l ! i)))\<lparr>next := of_nat (Suc i)\<rparr> = ?d"
    "addr (direct_desc share it True (next (l ! i))) = share b d"
    by (simp_all add: direct_desc_def it)
  then show ?case
    using Cons.prems Cons.IH [of "l[i := ?d]" "Suc i"] sb tk
    by (simp add: it panic_simps upt o_def del: upt_Suc)
qed simp

lemma indirect_table_last:
  fixes share :: share
  assumes "bufs \<noteq> []"
  defines "l \<equiv> map (\<lambda>k. direct_desc share (bufs ! k) True (of_nat (Suc k))) [0..<length bufs]"
  shows "l[length l - 1 := (last l)\<lparr>flags := flags (last l) AND NOT NEXT\<rparr>] = indirect_table share bufs"
proof (rule nth_equalityI)
  fix k assume k: "k < length (l[length l - 1 := (last l)\<lparr>flags := flags (last l) AND NOT NEXT\<rparr>])"
  have suc: "Suc k < length bufs \<longleftrightarrow> k \<noteq> length bufs - 1"
    using k assms(1) by (auto simp: l_def)
  have "last l = direct_desc share (bufs ! (length bufs - 1)) True (of_nat (Suc (length bufs - 1)))"
    using assms(1) by (simp add: l_def last_map del: of_nat_Suc)
  then show "l[length l - 1 := (last l)\<lparr>flags := flags (last l) AND NOT NEXT\<rparr>] ! k = indirect_table share bufs ! k"
    using k suc by (auto simp: l_def indirect_table_def indirect_entry_def nth_upd_if direct_desc_clear simp del: of_nat_Suc)
qed (simp add: l_def indirect_table_def)

definition indirect_head :: "share \<Rightarrow> u64 \<Rightarrow> nat \<Rightarrow> u16 \<Rightarrow> Descriptor" where
  "indirect_head share p n nx =
     \<lparr>addr = share \<lparr>sl_ptr = p, sl_len = 16 * n\<rparr> DriverToDevice, len = of_nat (16 * n),
      flags = INDIRECT, next = nx\<rparr>"

lemma set_buf_indirect:
  assumes "n < 2 ^ 28"
  shows "set_buf share d \<lparr>sl_ptr = p, sl_len = 16 * n\<rparr> DriverToDevice INDIRECT = Some (indirect_head share p n (next d))"
  using assms by (simp add: set_buf_def indirect_head_def panic_simps)

lemma add_indirect_ok:
  fixes ins outs :: "slice list"
  defines "n \<equiv> length ins + length outs"
  assumes q: "linked (desc_shadow q) (free_head q) (i # fl)" "i \<notin> set fl" "length (desc q) = SIZE q"
      "length (indirect_lists q) = SIZE q" "indirect_lists q ! unat i = None"
    and n: "0 < n" "n < 2 ^ 28" "unat (num_used q) + 1 < 2 ^ 16"
    and ok: "\<forall>b \<in> set (InputOutputIter_items (ins, outs)). buffer_ok b"
  shows "let e = indirect_head share p n (next (desc_shadow q ! unat i)) in
    add_indirect share p q ins outs =
      Some (i,
            q\<lparr>desc_shadow := (desc_shadow q)[unat i := e], desc := (desc q)[unat i := e],
              free_head := next e, num_used := num_used q + 1,
              indirect_lists := (indirect_lists q)[unat i :=
                Some (p, indirect_table share (InputOutputIter_items (ins, outs)))]\<rparr>,
            map (\<lambda>(b, d). Share b d (share b d)) (InputOutputIter_items (ins, outs))
              @ [Share \<lparr>sl_ptr = p, sl_len = 16 * n\<rparr> DriverToDevice (share \<lparr>sl_ptr = p, sl_len = 16 * n\<rparr> DriverToDevice)])
    \<and> linked ((desc_shadow q)[unat i := e]) (next e) fl"
proof -
  let ?its = "InputOutputIter_items (ins, outs)"
  have ne: "?its \<noteq> []" using n(1) by (auto simp: n_def InputOutputIter_items_eq)
  have fill: "fill_indirect share 0 ?its (replicate n zero_descriptor) =
     Some (map (\<lambda>k. direct_desc share (?its ! k) True (of_nat (Suc k))) [0..<length ?its],
          map (\<lambda>(b, d). Share b d (share b d)) ?its)"
    using fill_indirect_ok [OF ok, of "replicate n zero_descriptor" 0 share] by (simp add: n_def)
  show ?thesis
    using q n ne fill indirect_table_last [OF ne, of share]
    by (simp add: add_indirect_def Let_def panic_simps write_desc_def set_buf_indirect
        n_def [symmetric] linked_update del: of_nat_Suc) (simp add: indirect_head_def)
qed


lemma direct_desc_simps [simp]:
  "addr (direct_desc share b m nx) = share (fst b) (snd b)"
  "next (direct_desc share b m nx) = nx"
  "contains (flags (direct_desc share b m nx)) NEXT = m"
  "\<not> contains (flags (direct_desc share b m nx)) INDIRECT"
  by (auto simp: direct_desc_def contains_def NEXT_def WRITE_def INDIRECT_def)

lemma indirect_head_simps [simp]:
  "addr (indirect_head share p n nx) = share \<lparr>sl_ptr = p, sl_len = 16 * n\<rparr> DriverToDevice"
  "next (indirect_head share p n nx) = nx"
  "contains (flags (indirect_head share p n nx)) INDIRECT"
  by (auto simp: indirect_head_def contains_def INDIRECT_def)

lemma unset_buf_simps [simp]:
  "next (unset_buf d) = next d" "flags (unset_buf d) = flags d"
  by (simp_all add: unset_buf_def)

lemma direct_chain_nonempty: "direct_chain share ds c bufs \<Longrightarrow> c \<noteq> [] \<and> bufs \<noteq> []"
  by (induction share ds c bufs rule: direct_chain.induct) auto

lemma direct_chain_length: "direct_chain share ds c bufs \<Longrightarrow> length c = length bufs"
  by (induction share ds c bufs rule: direct_chain.induct) auto

lemma direct_chain_bound: "direct_chain share ds c bufs \<Longrightarrow> i \<in> set c \<Longrightarrow> unat i < length ds"
  by (induction share ds c bufs rule: direct_chain.induct) auto

lemma direct_chain_frame:
  assumes "direct_chain share ds c bufs" "length ds' = length ds" "\<And>i. i \<in> set c \<Longrightarrow> ds' ! unat i = ds ! unat i"
  shows "direct_chain share ds' c bufs"
  using assms by (induction share ds c bufs rule: direct_chain.induct) auto

lemma linked_frame:
  assumes "linked ds h fl" "length ds' = length ds" "\<And>i. i \<in> set fl \<Longrightarrow> ds' ! unat i = ds ! unat i"
  shows "linked ds' h fl"
  using assms by (induction fl arbitrary: h) auto

lemma recycle_direct_loop_ok:
  assumes "direct_chain share (desc_shadow q) c bufs" "distinct c" "\<forall>b \<in> set bufs. buffer_ok b"
    "length c \<le> unat (num_used q)" "length (desc q) = SIZE q"
    "linked (desc_shadow q) ofh fl" "set c \<inter> set fl = {}"
  shows "\<exists>ds D.
    recycle_direct_loop ofh bufs (Some (hd c)) q =
      Some (None, q\<lparr>num_used := num_used q - of_nat (length c), desc_shadow := ds, desc := D\<rparr>,
            map (\<lambda>(b, d). Unshare (share b d) b d) bufs)
    \<and> length ds = SIZE q \<and> length D = SIZE q
    \<and> linked ds (hd c) (c @ fl)
    \<and> (\<forall>i. i \<notin> set c \<longrightarrow> ds ! unat i = desc_shadow q ! unat i \<and> D ! unat i = desc q ! unat i)"
  using assms
proof (induction c arbitrary: bufs q)
  case (Cons i c)
  show ?case
  proof (cases c)
  case Nil
  note prems = Cons.prems [unfolded Nil]
  obtain b where bufs: "bufs = [b]" using prems(1) by (cases bufs rule: remdups_adj.cases) auto
  obtain bb d where b: "b = (bb, d)" by (cases b)
  from prems(1) bufs obtain nx where i: "unat i < SIZE q" "desc_shadow q ! unat i = direct_desc share b False nx"
    by auto
  have one: "1 \<le> num_used q" using prems(4) by (simp add: word_le_nat_alt)
  let ?e = "(unset_buf (direct_desc share b False nx))\<lparr>next := ofh\<rparr>"
  have "recycle_direct_loop ofh [b] (Some (hd [i])) q =
    Some (None, q\<lparr>num_used := num_used q - 1, desc_shadow := (desc_shadow q)[unat i := ?e],
                   desc := (desc q)[unat i := ?e]\<rparr>, [Unshare (share bb d) bb d])"
    using prems(3,5) i one b bufs
    by (simp add: panic_simps Let_def write_desc_def Descriptor_next_def buffer_ok_def)
  moreover have "linked ((desc_shadow q)[unat i := ?e]) i ([i] @ fl)"
    using i prems(6,7) by (simp add: linked_update)
  ultimately show ?thesis
    using i prems(5) b bufs Nil
    by (intro exI [of _ "(desc_shadow q)[unat i := ?e]"] exI [of _ "(desc q)[unat i := ?e]"]) (auto simp: nth_upd_if)
next
  case (Cons j js)
  note prems = Cons.prems [unfolded Cons]
  obtain b bs where bufs: "bufs = b # bs" using prems(1) by (cases bufs) auto
  obtain bb d where b: "b = (bb, d)" by (cases b)
  from prems bufs have i: "unat i < SIZE q" "desc_shadow q ! unat i = direct_desc share b True j"
    "i \<noteq> j" "i \<notin> set js" and ch: "direct_chain share (desc_shadow q) (j # js) bs"
    by auto
  have one: "1 \<le> num_used q" using prems(4) by (simp add: word_le_nat_alt)
  have nu: "unat (num_used q - 1) = unat (num_used q) - 1" using one by (simp add: word_nat)
  let ?e = "unset_buf (direct_desc share b True j)"
  let ?q = "q\<lparr>num_used := num_used q - 1, desc_shadow := (desc_shadow q)[unat i := ?e],
                   desc := (desc q)[unat i := ?e]\<rparr>"
  have step: "recycle_direct_loop ofh (b # bs) (Some (hd (i # j # js))) q =
    (case recycle_direct_loop ofh bs (Some j) ?q of None \<Rightarrow> None
     | Some (r, q3, calls) \<Rightarrow> Some (r, q3, Unshare (share bb d) bb d # calls))"
    using prems(3,5) i one b bufs
    by (simp add: panic_simps Let_def write_desc_def Descriptor_next_def buffer_ok_def split: option.splits)
  have le: "Suc (length js) \<le> unat (num_used q - 1)"
    using prems(4) nu by simp
  have "direct_chain share (desc_shadow ?q) (j # js) bs"
    by (rule direct_chain_frame [OF ch]) (use i in \<open>auto simp: nth_upd_if\<close>)
  moreover have "linked (desc_shadow ?q) ofh fl"
    using prems(6,7) by (simp add: linked_update)
  ultimately obtain ds D where IH:
    "recycle_direct_loop ofh bs (Some j) ?q =
      Some (None, ?q\<lparr>num_used := num_used ?q - of_nat (length (j # js)), desc_shadow := ds, desc := D\<rparr>,
            map (\<lambda>(b, d). Unshare (share b d) b d) bs)"
    "length ds = SIZE q" "length D = SIZE q" "linked ds j ((j # js) @ fl)"
    "\<And>k. k \<notin> set (j # js) \<Longrightarrow> ds ! unat k = desc_shadow ?q ! unat k"
    "\<And>k. k \<notin> set (j # js) \<Longrightarrow> D ! unat k = desc ?q ! unat k"
    using Cons.IH [of ?q bs] prems le bufs Cons by auto
  have "ds ! unat i = ?e" using IH(5) [of i] i by simp
  then have "linked ds i ((i # j # js) @ fl)" using IH(2,4) i by simp
  moreover have "recycle_direct_loop ofh bufs (Some (hd (i # c))) q =
      Some (None, q\<lparr>num_used := num_used q - of_nat (length (i # c)), desc_shadow := ds, desc := D\<rparr>,
            map (\<lambda>(b, d). Unshare (share b d) b d) bufs)"
    unfolding bufs Cons step IH(1) using b by (simp add: algebra_simps)
  ultimately show ?thesis
    using IH(2,3,5,6) Cons by - (rule exI [of _ ds], rule exI [of _ D], auto simp: nth_upd_if)
  qed
qed simp

abbreviation flight_idx :: "AbsQueue \<Rightarrow> u16 list" where
  "flight_idx a \<equiv> concat (map fst (a_flight a))"

definition size_ok :: "nat \<Rightarrow> bool" where
  "size_ok n \<longleftrightarrow> (\<exists>k \<le> 15. n = 2 ^ k)"

definition vq_wf :: "VirtQueue \<Rightarrow> bool" where
  "vq_wf q \<longleftrightarrow> size_ok (SIZE q) \<and> length (desc q) = SIZE q \<and> length (avail_ring (avail q)) = SIZE q
     \<and> length (used_ring (used q)) = SIZE q \<and> length (indirect_lists q) = SIZE q
     \<and> avail_ring_idx (avail q) = avail_idx q"

definition entry_ok :: "share \<Rightarrow> VirtQueue \<Rightarrow> u16 list \<times> buffer list \<Rightarrow> bool" where
  "entry_ok share q e \<longleftrightarrow> (case e of (c, bufs) \<Rightarrow>
     bufs \<noteq> [] \<and> (\<forall>b \<in> set bufs. buffer_ok b)
     \<and> (\<forall>i \<in> set c. desc q ! unat i = desc_shadow q ! unat i)
     \<and> (direct_chain share (desc_shadow q) c bufs \<and> (\<forall>i \<in> set c. indirect_lists q ! unat i = None)
        \<or> (\<exists>h p nx. c = [h] \<and> unat h < SIZE q
             \<and> desc_shadow q ! unat h = indirect_head share p (length bufs) nx
             \<and> indirect_lists q ! unat h = Some (p, indirect_table share bufs))))"

definition vq_inv :: "share \<Rightarrow> VirtQueue \<Rightarrow> AbsQueue \<Rightarrow> bool" where
  "vq_inv share q a \<longleftrightarrow> vq_wf q
     \<and> distinct (a_free a @ flight_idx a)
     \<and> length (a_free a) + length (flight_idx a) = SIZE q
     \<and> linked (desc_shadow q) (free_head q) (a_free a)
     \<and> unat (num_used q) = length (flight_idx a)
     \<and> (\<forall>i \<in> set (a_free a). indirect_lists q ! unat i = None)
     \<and> (\<forall>e \<in> set (a_flight a). entry_ok share q e)"

definition needed :: "VirtQueue \<Rightarrow> nat \<Rightarrow> nat" where
  "needed q n = (if indirect q \<and> 1 < n then 1 else n)"

definition abs_add :: "nat \<Rightarrow> buffer list \<Rightarrow> AbsQueue \<Rightarrow> AbsQueue" where
  "abs_add k bufs a =
     a\<lparr>a_free := drop k (a_free a), a_flight := a_flight a @ [(take k (a_free a), bufs)]\<rparr>"

lemma entry_ok_frame:
  assumes "entry_ok share q (c, bufs)" "SIZE q' = SIZE q"
    "\<And>i. i \<in> set c \<Longrightarrow> desc_shadow q' ! unat i = desc_shadow q ! unat i"
    "\<And>i. i \<in> set c \<Longrightarrow> desc q' ! unat i = desc q ! unat i"
    "\<And>i. i \<in> set c \<Longrightarrow> indirect_lists q' ! unat i = indirect_lists q ! unat i"
  shows "entry_ok share q' (c, bufs)"
  using assms direct_chain_frame [of share "desc_shadow q" c bufs "desc_shadow q'"]
  by (auto simp: entry_ok_def)

lemma entry_ok_indirectI:
  assumes "bufs \<noteq> []" "\<forall>b \<in> set bufs. buffer_ok b" "unat h < SIZE q"
    "desc_shadow q ! unat h = indirect_head share p (length bufs) nx"
    "desc q ! unat h = desc_shadow q ! unat h"
    "indirect_lists q ! unat h = Some (p, indirect_table share bufs)"
  shows "entry_ok share q ([h], bufs)"
  unfolding entry_ok_def using assms by auto

lemma entry_ok_directI:
  assumes "bufs \<noteq> []" "\<forall>b \<in> set bufs. buffer_ok b" "direct_chain share (desc_shadow q) c bufs"
    "\<And>i. i \<in> set c \<Longrightarrow> desc q ! unat i = desc_shadow q ! unat i"
    "\<And>i. i \<in> set c \<Longrightarrow> indirect_lists q ! unat i = None"
  shows "entry_ok share q (c, bufs)"
  unfolding entry_ok_def using assms by simp

lemma size_ok_bound: "size_ok n \<Longrightarrow> 0 < n \<and> n \<le> 32768"
proof -
  assume "size_ok n"
  then obtain k where k: "k \<le> 15" "n = 2 ^ k" by (auto simp: size_ok_def)
  then have "n \<le> 2 ^ 15" using power_increasing [of k 15 "2 :: nat"] by simp
  with k show ?thesis by simp
qed

lemma slot_mod:
  assumes "size_ok (SIZE q)"
  shows "slot q i = unat i mod SIZE q"
proof -
  obtain k where k: "k \<le> 15" "SIZE q = 2 ^ k" using assms by (auto simp: size_ok_def)
  then have "(of_nat (SIZE q) :: u16) - 1 = 2 ^ k - 1" by simp
  then show ?thesis using mask_is_mod [of k i] k by (simp add: slot_def)
qed

lemma slot_bound: "size_ok (SIZE q) \<Longrightarrow> slot q i < SIZE q"
  using size_ok_bound [of "SIZE q"] by (simp add: slot_mod)

lemma vq_inv_num_used: "vq_inv share q a \<Longrightarrow> unat (num_used q) + length (a_free a) = SIZE q"
  by (auto simp: vq_inv_def)

lemma full_iff:
  assumes "vq_inv share q a" "0 < n"
  shows "(unat (num_used q) + 1 > SIZE q \<or> n > SIZE q \<or> \<not> indirect q \<and> unat (num_used q) + n > SIZE q)
     \<longleftrightarrow> n > SIZE q \<or> length (a_free a) < needed q n"
  using vq_inv_num_used [OF assms(1)] assms(2) by (cases "a_free a") (auto simp: needed_def)


fun share_call :: "share \<Rightarrow> buffer \<Rightarrow> hal_call" where
  "share_call share (b, d) = Share b d (share b d)"

fun unshare_of :: "hal_call \<Rightarrow> hal_call" where
  "unshare_of (Share b d p) = Unshare p b d"
| "unshare_of (Unshare p b d) = Unshare p b d"

definition entry_shares :: "share \<Rightarrow> VirtQueue \<Rightarrow> u16 \<Rightarrow> buffer list \<Rightarrow> hal_call list" where
  "entry_shares share q token bufs = map (share_call share) bufs @
     (case indirect_lists q ! unat token of None \<Rightarrow> []
      | Some (p, l) \<Rightarrow> [share_call share (\<lparr>sl_ptr = p, sl_len = 16 * length l\<rparr>, DriverToDevice)])"

lemma slot_cong: "SIZE q' = SIZE q \<Longrightarrow> slot q' = slot q"
  by (simp add: slot_def fun_eq_iff)

lemma share_call_eq: "share_call share = (\<lambda>(b, d). Share b d (share b d))"
  by (auto simp: fun_eq_iff)

text \<open>The step both kinds of add share.\<close>

lemma vq_inv_extend:
  assumes inv: "vq_inv share q a" and k: "0 < k" "k \<le> length (a_free a)"
    and size: "SIZE q' = SIZE q" "length (desc q') = SIZE q" "length (indirect_lists q') = SIZE q"
      "length (avail_ring (avail q')) = SIZE q" "used q' = used q" "avail_ring_idx (avail q') = avail_idx q'"
    and lk: "linked (desc_shadow q') (free_head q') (drop k (a_free a))"
    and nu: "unat (num_used q') = unat (num_used q) + k"
    and frame: "\<And>i. i \<notin> set (take k (a_free a)) \<Longrightarrow> desc_shadow q' ! unat i = desc_shadow q ! unat i"
      "\<And>i. i \<notin> set (take k (a_free a)) \<Longrightarrow> desc q' ! unat i = desc q ! unat i"
      "\<And>i. i \<notin> set (take k (a_free a)) \<Longrightarrow> indirect_lists q' ! unat i = indirect_lists q ! unat i"
    and e: "entry_ok share q' (take k (a_free a), bufs)"
  shows "vq_inv share q' (abs_add k bufs a)"
proof -
  have d: "distinct (a_free a @ flight_idx a)" and len: "length (a_free a) + length (flight_idx a) = SIZE q"
    and wf: "vq_wf q" and es: "\<forall>e \<in> set (a_flight a). entry_ok share q e"
    and nuq: "unat (num_used q) = length (flight_idx a)"
    and fr: "\<forall>i \<in> set (a_free a). indirect_lists q ! unat i = None"
    using inv by (auto simp: vq_inv_def)
  have d': "distinct (drop k (a_free a) @ flight_idx a @ take k (a_free a))"
    using distinct_take_drop_move [OF d] .
  have old: "entry_ok share q' e" if "e \<in> set (a_flight a)" for e
  proof -
    obtain c bs where eq: "e = (c, bs)" by (cases e)
    have c: "i \<notin> set (take k (a_free a))" if "i \<in> set c" for i
      using that \<open>e \<in> set (a_flight a)\<close> eq d' by fastforce
    have "entry_ok share q (c, bs)" using es \<open>e \<in> set (a_flight a)\<close> eq by blast
    then show ?thesis
      unfolding eq by (rule entry_ok_frame) (use c frame size in auto)
  qed
  have "indirect_lists q' ! unat i = None" if "i \<in> set (drop k (a_free a))" for i
  proof -
    have "i \<notin> set (take k (a_free a))" using that d' by auto
    then show ?thesis using that frame(3) fr by (simp add: in_set_dropD)
  qed
  with d' len wf nuq nu old e lk size k show ?thesis
    by (auto simp: vq_inv_def abs_add_def vq_wf_def)
qed

lemma VirtQueue_add_publish:
  fixes ins outs :: "slice list"
  defines "n \<equiv> length ins + length outs"
  assumes "\<not> (unat (num_used q) + 1 > SIZE q \<or> n > SIZE q \<or> \<not> indirect q \<and> unat (num_used q) + n > SIZE q)"
    and "0 < n"
    and "(if indirect q \<and> n > 1 then add_indirect share p q ins outs else add_direct share q ins outs)
      = Some (head, q1, calls)"
    and "avail q1 = avail q" "avail_idx q1 = avail_idx q" "SIZE q1 = SIZE q"
    and "slot q (avail_idx q) < length (avail_ring (avail q))"
  shows "VirtQueue_add share p q ins outs = Some (Inr head,
    q1\<lparr>avail := (avail q)\<lparr>avail_ring := (avail_ring (avail q))[slot q (avail_idx q) := head],
                           avail_ring_idx := avail_idx q + 1\<rparr>,
       avail_idx := avail_idx q + 1\<rparr>, calls)"
proof -
  have "\<not> (ins = [] \<and> outs = [])" using assms(3) by (auto simp: n_def)
  then show ?thesis
    using assms slot_cong [of q1 q]
    unfolding VirtQueue_add_def n_def [symmetric] Let_def
    by (simp add: panic_simps del: not_less de_Morgan_disj de_Morgan_conj)
qed

definition same_rings :: "VirtQueue \<Rightarrow> VirtQueue \<Rightarrow> bool" where
  "same_rings q q' \<longleftrightarrow> used q' = used q \<and> last_used_idx q' = last_used_idx q \<and> SIZE q' = SIZE q
     \<and> queue_idx q' = queue_idx q \<and> event_idx q' = event_idx q \<and> indirect q' = indirect q"

lemma vq_inv_publish:
  assumes "vq_inv share q a" "length r = SIZE q"
  shows "vq_inv share (q\<lparr>avail := (avail q)\<lparr>avail_ring := r, avail_ring_idx := i\<rparr>, avail_idx := i\<rparr>) a"
  using assms by (auto simp: vq_inv_def vq_wf_def entry_ok_def)

lemma add_indirect_refines:
  fixes ins outs :: "slice list"
  defines "n \<equiv> length ins + length outs" and "its \<equiv> InputOutputIter_items (ins, outs)"
  assumes inv: "vq_inv share q a" and ok: "\<forall>b \<in> set its. buffer_ok b"
    and n: "0 < n" "n \<le> SIZE q" and fl: "a_free a = tok # fl"
  shows "\<exists>q'. add_indirect share p q ins outs = Some (tok, q', entry_shares share q' tok its)
    \<and> vq_inv share q' (abs_add 1 its a) \<and> same_rings q q' \<and> avail q' = avail q \<and> avail_idx q' = avail_idx q"
proof -
  note v = inv [unfolded vq_inv_def vq_wf_def]
  have sb: "SIZE q \<le> 32768" using v size_ok_bound by simp
  have nu: "unat (num_used q) + 1 < 2 ^ 16" using vq_inv_num_used [OF inv] fl sb by simp
  let ?e = "indirect_head share p n (next (desc_shadow q ! unat tok))"
  let ?q' = "q\<lparr>desc_shadow := (desc_shadow q)[unat tok := ?e], desc := (desc q)[unat tok := ?e],
    free_head := next ?e, num_used := num_used q + 1,
    indirect_lists := (indirect_lists q)[unat tok := Some (p, indirect_table share its)]\<rparr>"
  have b: "unat tok < SIZE q" and len: "length its = n" "length (indirect_table share its) = n"
    using v fl by (simp_all add: indirect_table_def n_def its_def)
  have pre: "linked (desc_shadow q) (free_head q) (tok # fl)" "tok \<notin> set fl" "length (desc q) = SIZE q"
    "length (indirect_lists q) = SIZE q" "indirect_lists q ! unat tok = None"
    using v fl by simp_all
  have n28: "n < 2 ^ 28" using n sb by simp
  have A: "add_indirect share p q ins outs = Some (tok, ?q',
        map (share_call share) its @ [share_call share (\<lparr>sl_ptr = p, sl_len = 16 * n\<rparr>, DriverToDevice)])"
    and lk': "linked ((desc_shadow q)[unat tok := ?e]) (next ?e) fl"
    using add_indirect_ok [where ins = ins and outs = outs and share = share and p = p, unfolded Let_def,
        folded n_def its_def share_call_eq, OF pre n(1) n28 nu ok] by simp_all
  have "entry_ok share ?q' ([tok], its)"
    by (rule entry_ok_indirectI [where p = p]) (use n b v ok len in auto)
  then have "vq_inv share ?q' (abs_add 1 its a)"
    using inv lk' fl v nu by - (rule vq_inv_extend, simp_all add: nth_upd_if word_nat)
  moreover have "entry_shares share ?q' tok its =
      map (share_call share) its @ [share_call share (\<lparr>sl_ptr = p, sl_len = 16 * n\<rparr>, DriverToDevice)]"
    using b v len by (simp add: entry_shares_def)
  ultimately show ?thesis using A by (intro exI [of _ ?q']) (simp add: same_rings_def)
qed

lemma add_direct_refines:
  fixes ins outs :: "slice list"
  defines "n \<equiv> length ins + length outs" and "its \<equiv> InputOutputIter_items (ins, outs)"
  assumes inv: "vq_inv share q a" and ok: "\<forall>b \<in> set its. buffer_ok b"
    and n: "0 < n" "n \<le> length (a_free a)"
  shows "\<exists>q'. add_direct share q ins outs = Some (hd (a_free a), q', entry_shares share q' (hd (a_free a)) its)
    \<and> vq_inv share q' (abs_add n its a) \<and> same_rings q q' \<and> avail q' = avail q \<and> avail_idx q' = avail_idx q"
proof -
  note v = inv [unfolded vq_inv_def vq_wf_def]
  have sb: "SIZE q \<le> 32768" using v size_ok_bound by simp
  have nu: "unat (num_used q) + n < 2 ^ 16" using vq_inv_num_used [OF inv] n sb by simp
  have len: "length its = n" by (simp add: its_def n_def)
  have fr: "\<forall>i \<in> set (a_free a). indirect_lists q ! unat i = None" using v by simp
  have pre: "linked (desc_shadow q) (free_head q) (a_free a)" "distinct (a_free a)" "length (desc q) = SIZE q"
    using v by simp_all
  obtain ds D fh where A:
    "add_direct share q ins outs = Some (hd (a_free a),
       q\<lparr>desc_shadow := ds, desc := D, free_head := fh, num_used := num_used q + of_nat n\<rparr>,
       map (share_call share) its)"
    and lens: "length ds = SIZE q" "length D = SIZE q" and lk: "linked ds fh (drop n (a_free a))"
    and frame: "\<And>i. i \<notin> set (take n (a_free a)) \<Longrightarrow> ds ! unat i = desc_shadow q ! unat i"
      "\<And>i. i \<notin> set (take n (a_free a)) \<Longrightarrow> D ! unat i = desc q ! unat i"
    and chain: "direct_chain share ds (take n (a_free a)) its"
      "\<And>i. i \<in> set (take n (a_free a)) \<Longrightarrow> D ! unat i = ds ! unat i"
    using add_direct_ok [where ins = ins and outs = outs and share = share, folded n_def its_def share_call_eq,
        OF pre n nu ok] by blast
  let ?q' = "q\<lparr>desc_shadow := ds, desc := D, free_head := fh, num_used := num_used q + of_nat n\<rparr>"
  have "entry_ok share ?q' (take n (a_free a), its)"
    by (rule entry_ok_directI) (use n len ok chain fr in \<open>auto dest: in_set_takeD\<close>)
  then have "vq_inv share ?q' (abs_add n its a)"
    using inv lk n v nu lens frame by - (rule vq_inv_extend, simp_all add: word_nat)
  moreover have "entry_shares share ?q' (hd (a_free a)) its = map (share_call share) its"
    using n v by (cases "a_free a") (simp_all add: entry_shares_def)
  ultimately show ?thesis using A lens by (intro exI [of _ ?q']) (simp add: same_rings_def)
qed

lemma VirtQueue_add_refines:
  fixes ins outs :: "slice list"
  defines "n \<equiv> length ins + length outs" and "its \<equiv> InputOutputIter_items (ins, outs)"
  assumes inv: "vq_inv share q a" and ok: "\<forall>b \<in> set its. buffer_ok b"
    and n: "0 < n" "n \<le> SIZE q" "needed q n \<le> length (a_free a)"
  defines "tok \<equiv> hd (a_free a)"
  shows "\<exists>q'.
    VirtQueue_add share p q ins outs = Some (Inr tok, q', entry_shares share q' tok its)
    \<and> vq_inv share q' (abs_add (needed q n) its a) \<and> same_rings q q'
    \<and> avail q' = (avail q)\<lparr>avail_ring := (avail_ring (avail q))[slot q (avail_idx q) := tok],
                           avail_ring_idx := avail_idx q + 1\<rparr>
    \<and> avail_idx q' = avail_idx q + 1"
proof -
  have nf: "\<not> (unat (num_used q) + 1 > SIZE q \<or> n > SIZE q \<or> \<not> indirect q \<and> unat (num_used q) + n > SIZE q)"
    using full_iff [OF inv n(1)] n by simp
  have len: "length (avail_ring (avail q)) = SIZE q" and sl: "slot q (avail_idx q) < length (avail_ring (avail q))"
    using slot_bound [of q] inv by (simp_all add: vq_inv_def vq_wf_def)
  have fl: "a_free a = tok # tl (a_free a)" using n by (cases "a_free a") (auto simp: tok_def needed_def split: if_splits)
  have "\<exists>q1. (if indirect q \<and> n > 1 then add_indirect share p q ins outs else add_direct share q ins outs)
      = Some (tok, q1, entry_shares share q1 tok its)
    \<and> vq_inv share q1 (abs_add (needed q n) its a) \<and> same_rings q q1 \<and> avail q1 = avail q \<and> avail_idx q1 = avail_idx q"
  proof (cases "indirect q \<and> n > 1")
    case True
    with add_indirect_refines [of share q a ins outs tok "tl (a_free a)" p, folded n_def its_def] inv ok n fl
    show ?thesis by (simp add: needed_def)
  next
    case False
    then have "needed q n = n" by (auto simp: needed_def)
    with add_direct_refines [of share q a ins outs, folded n_def its_def] inv ok n
    show ?thesis unfolding if_not_P [OF False] by (simp add: tok_def)
  qed
  then obtain q1 where q1: "(if indirect q \<and> n > 1 then add_indirect share p q ins outs else add_direct share q ins outs)
      = Some (tok, q1, entry_shares share q1 tok its)" "vq_inv share q1 (abs_add (needed q n) its a)"
    and same: "same_rings q q1" "avail q1 = avail q" "avail_idx q1 = avail_idx q" "SIZE q1 = SIZE q"
    by (auto simp: same_rings_def)
  let ?r = "(avail_ring (avail q))[slot q (avail_idx q) := tok]"
  let ?q' = "q1\<lparr>avail := (avail q)\<lparr>avail_ring := ?r, avail_ring_idx := avail_idx q + 1\<rparr>, avail_idx := avail_idx q + 1\<rparr>"
  have "entry_shares share ?q' tok its = entry_shares share q1 tok its" by (simp add: entry_shares_def)
  moreover have "VirtQueue_add share p q ins outs = Some (Inr tok, ?q', entry_shares share q1 tok its)"
    using VirtQueue_add_publish [where ins = ins and outs = outs, folded n_def, OF nf n(1) q1(1) same(2-4) sl] .
  moreover have "vq_inv share ?q' (abs_add (needed q n) its a)"
    using vq_inv_publish [OF q1(2), of ?r] same len by simp
  moreover have "same_rings q ?q'" using same by (simp add: same_rings_def)
  ultimately show ?thesis by (intro exI [of _ ?q']) simp
qed

definition abs_pop :: "u16 list \<times> buffer list \<Rightarrow> AbsQueue \<Rightarrow> AbsQueue" where
  "abs_pop e a = a\<lparr>a_free := fst e @ a_free a, a_flight := remove1 e (a_flight a)\<rparr>"

lemma flight_idx_remove1:
  "e \<in> set (a_flight a) \<Longrightarrow> mset (flight_idx (abs_pop e a)) + mset (fst e) = mset (flight_idx a)"
proof -
  assume "e \<in> set (a_flight a)"
  then obtain xs ys where "a_flight a = xs @ e # ys" "e \<notin> set xs" by (meson split_list_first)
  then show ?thesis by (simp add: abs_pop_def remove1_append)
qed

lemma vq_inv_shrink:
  assumes inv: "vq_inv share q a" and e: "(c, bufs) \<in> set (a_flight a)"
    and size: "SIZE q' = SIZE q" "length (desc q') = SIZE q" "length (indirect_lists q') = SIZE q"
      "length (avail_ring (avail q')) = SIZE q" "used q' = used q" "avail_ring_idx (avail q') = avail_idx q'"
    and lk: "linked (desc_shadow q') (free_head q') (c @ a_free a)"
    and nu: "unat (num_used q') = unat (num_used q) - length c"
    and frame: "\<And>i. i \<notin> set c \<Longrightarrow> desc_shadow q' ! unat i = desc_shadow q ! unat i"
      "\<And>i. i \<notin> set c \<Longrightarrow> desc q' ! unat i = desc q ! unat i"
      "\<And>i. i \<notin> set c \<Longrightarrow> indirect_lists q' ! unat i = indirect_lists q ! unat i"
    and none: "\<And>i. i \<in> set c \<Longrightarrow> indirect_lists q' ! unat i = None"
  shows "vq_inv share q' (abs_pop (c, bufs) a)"
proof -
  let ?a' = "abs_pop (c, bufs) a"
  note v = inv [unfolded vq_inv_def]
  have m: "mset (flight_idx ?a') + mset c = mset (flight_idx a)"
    using flight_idx_remove1 [OF e] by simp
  then have "mset (a_free ?a' @ flight_idx ?a') = mset (a_free a @ flight_idx a)"
    by (simp add: abs_pop_def add.commute)
  then have d: "distinct (a_free ?a' @ flight_idx ?a')" and len: "length (a_free ?a' @ flight_idx ?a') = SIZE q"
    using v by (metis mset_eq_imp_distinct_iff, metis length_append size_mset)
  have l2: "length (flight_idx ?a') + length c = length (flight_idx a)"
    using m by (metis size_mset size_union)
  have fl: "a_free ?a' = c @ a_free a" by (simp add: abs_pop_def)
  have es: "entry_ok share q' e'" if e': "e' \<in> set (a_flight ?a')" for e'
  proof -
    obtain c' bs where eq: "e' = (c', bs)" by (cases e')
    have "set c' \<subseteq> set (flight_idx ?a')" using e' eq by force
    then have c: "i \<notin> set c" if "i \<in> set c'" for i
      using d fl that by (auto simp del: set_concat)
    have "entry_ok share q (c', bs)"
      using v e' eq by (auto simp: abs_pop_def dest: notin_set_remove1)
    then show ?thesis
      unfolding eq by (rule entry_ok_frame) (use c frame size in auto)
  qed
  have nn: "indirect_lists q' ! unat i = None" if "i \<in> set (c @ a_free a)" for i
  proof (cases "i \<in> set c")
    case False
    with that v frame(3) [OF this] show ?thesis by simp
  qed (rule none)
  show ?thesis
    unfolding vq_inv_def
    using d len es nn lk fl v size nu l2 by (simp add: vq_wf_def)
qed

lemma unshare_indirect_ok:
  assumes "\<forall>b \<in> set items. buffer_ok b" "i + length items \<le> length l"
    "\<And>k. k < length items \<Longrightarrow> addr (l ! (i + k)) = share (fst (items ! k)) (snd (items ! k))"
  shows "unshare_indirect l i items = Some (map unshare_of (map (share_call share) items))"
  using assms
proof (induction items arbitrary: i)
  case (Cons it items)
  obtain b d where it: "it = (b, d)" by (cases it)
  have "unshare_indirect l (Suc i) items = Some (map unshare_of (map (share_call share) items))"
  proof (rule Cons.IH)
    show "addr (l ! (Suc i + k)) = share (fst (items ! k)) (snd (items ! k))" if "k < length items" for k
      using Cons.prems(3) [of "Suc k"] that by simp
  qed (use Cons.prems in auto)
  moreover have "addr (l ! i) = share b d" using Cons.prems(3) [of 0] it by simp
  ultimately show ?case
    using Cons.prems it by (simp add: panic_simps buffer_ok_def)
qed simp

lemma addr_indirect_table:
  "k < length bufs \<Longrightarrow> addr (indirect_table share bufs ! k) = share (fst (bufs ! k)) (snd (bufs ! k))"
  by (simp add: indirect_table_def indirect_entry_def direct_desc_def)


lemma unshare_of_share_calls:
  "map unshare_of (map (share_call share) bufs) = map (\<lambda>(b, d). Unshare (share b d) b d) bufs"
  by auto

lemma flight_entry:
  assumes inv: "vq_inv share q a" and e: "(c, bufs) \<in> set (a_flight a)"
  shows "entry_ok share q (c, bufs)" "\<forall>b \<in> set bufs. buffer_ok b" "length c \<le> unat (num_used q)"
    "distinct c" "set c \<inter> set (a_free a) = {}"
proof -
  note v = inv [unfolded vq_inv_def vq_wf_def]
  have m: "mset (flight_idx (abs_pop (c, bufs) a)) + mset c = mset (flight_idx a)"
    using flight_idx_remove1 [OF e] by simp
  show "length c \<le> unat (num_used q)"
    using v arg_cong [OF m, of size] by (simp only: size_mset size_union)
  have "set c \<subseteq> set (flight_idx a)" using e by force
  then show "set c \<inter> set (a_free a) = {}" using v by auto
  have "distinct (flight_idx a)" using v by simp
  then show "distinct c" using e by (auto simp: distinct_concat_iff)
  show "entry_ok share q (c, bufs)" "\<forall>b \<in> set bufs. buffer_ok b" using v e by (auto simp: entry_ok_def)
qed

definition recycled :: "share \<Rightarrow> VirtQueue \<Rightarrow> AbsQueue \<Rightarrow> u16 list \<times> buffer list \<Rightarrow> VirtQueue \<Rightarrow> hal_call list \<Rightarrow> bool" where
  "recycled share q a e q' calls \<longleftrightarrow>
     vq_inv share q' (abs_pop e a) \<and> same_rings q q' \<and> avail q' = avail q \<and> avail_idx q' = avail_idx q
     \<and> mset calls = mset (map unshare_of (entry_shares share q (hd (fst e)) (snd e)))"

lemma recycle_direct_refines:
  fixes ins outs :: "slice list"
  defines "its \<equiv> InputOutputIter_items (ins, outs)"
  assumes inv: "vq_inv share q a" and e: "(c, its) \<in> set (a_flight a)"
    and chain: "direct_chain share (desc_shadow q) c its" "\<forall>i \<in> set c. indirect_lists q ! unat i = None"
  shows "\<exists>q' calls. recycle_descriptors q (hd c) ins outs = Some (q', calls) \<and> recycled share q a (c, its) q' calls"
proof -
  note v = inv [unfolded vq_inv_def vq_wf_def] and f = flight_entry [OF inv e]
  have lk: "linked (desc_shadow q) (free_head q) (a_free a)" and ldq: "length (desc q) = SIZE q"
    using v by simp_all
  let ?q0 = "q\<lparr>free_head := hd c\<rparr>" and ?u = "map unshare_of (map (share_call share) its)"
  obtain ds D where R:
    "recycle_direct_loop (free_head q) its (Some (hd c)) ?q0 =
      Some (None, ?q0\<lparr>num_used := num_used q - of_nat (length c), desc_shadow := ds, desc := D\<rparr>, ?u)"
    "length ds = SIZE q" "length D = SIZE q" "linked ds (hd c) (c @ a_free a)"
    "\<And>i. i \<notin> set c \<Longrightarrow> ds ! unat i = desc_shadow q ! unat i"
    "\<And>i. i \<notin> set c \<Longrightarrow> D ! unat i = desc q ! unat i"
    using recycle_direct_loop_ok [of share ?q0 c its "free_head q" "a_free a"] chain(1) f ldq lk
    unfolding unshare_of_share_calls by auto
  let ?q' = "?q0\<lparr>num_used := num_used q - of_nat (length c), desc_shadow := ds, desc := D\<rparr>"
  have hd: "unat (hd c) < SIZE q" "\<not> contains (flags (desc_shadow q ! unat (hd c))) INDIRECT"
    using chain(1) by (cases "(share, desc_shadow q, c, its)" rule: direct_chain.cases; auto)+
  have "recycle_descriptors q (hd c) ins outs = Some (?q', ?u)"
    using hd R(1) by (simp add: recycle_descriptors_def its_def Let_def panic_simps)
  moreover have "vq_inv share ?q' (abs_pop (c, its) a)"
  proof (rule vq_inv_shrink [OF inv e])
    have "length c < 2 ^ 16" using f(3) unat_u16_less [of "num_used q"] by simp
    then show "unat (num_used ?q') = unat (num_used q) - length c"
      using f(3) by (simp add: word_nat word_le_nat_alt)
  qed (use R v chain(2) in simp_all)
  moreover have "entry_shares share q (hd c) its = map (share_call share) its"
    using chain(2) direct_chain_nonempty [OF chain(1)] by (cases c) (simp_all add: entry_shares_def)
  ultimately show ?thesis using R(2)
    by - (rule exI [of _ ?q'], simp add: same_rings_def recycled_def)
qed

lemma recycle_indirect_refines:
  fixes ins outs :: "slice list"
  defines "its \<equiv> InputOutputIter_items (ins, outs)"
  assumes inv: "vq_inv share q a" and e: "([h], its) \<in> set (a_flight a)"
    and head: "unat h < SIZE q" "desc_shadow q ! unat h = indirect_head share p (length its) nx"
      "indirect_lists q ! unat h = Some (p, indirect_table share its)"
  shows "\<exists>q' calls. recycle_descriptors q h ins outs = Some (q', calls) \<and> recycled share q a ([h], its) q' calls"
proof -
  note v = inv [unfolded vq_inv_def vq_wf_def] and f = flight_entry [OF inv e]
  let ?d = "(unset_buf (desc_shadow q ! unat h))\<lparr>next := free_head q\<rparr>"
  let ?q' = "q\<lparr>free_head := h, indirect_lists := (indirect_lists q)[unat h := None],
    num_used := num_used q - 1, desc_shadow := (desc_shadow q)[unat h := ?d]\<rparr>"
  let ?u = "map unshare_of (map (share_call share) its)" and ?t = "\<lparr>sl_ptr = p, sl_len = 16 * length its\<rparr>"
  have len: "length (indirect_table share its) = length its" by (simp add: indirect_table_def)
  have "unshare_indirect (indirect_table share its) 0 its = Some ?u"
    by (rule unshare_indirect_ok) (use f(2) len in \<open>simp_all add: addr_indirect_table\<close>)
  moreover have "1 \<le> num_used q" using f(3) by (simp add: word_le_nat_alt)
  moreover have "length its = length ins + length outs" by (simp add: its_def)
  ultimately have "recycle_descriptors q h ins outs =
      Some (?q', Unshare (share ?t DriverToDevice) ?t DriverToDevice # ?u)"
    using head len v unfolding recycle_descriptors_def
    by (simp add: its_def [symmetric] Let_def panic_simps)
  moreover have "vq_inv share ?q' (abs_pop ([h], its) a)"
  proof (rule vq_inv_shrink [OF inv e])
    show "linked (desc_shadow ?q') (free_head ?q') ([h] @ a_free a)"
      using head v f(5) by (simp add: linked_update)
    show "unat (num_used ?q') = unat (num_used q) - length [h]"
      using f(3) by (simp add: word_nat word_le_nat_alt)
  qed (use v head in \<open>simp_all add: nth_upd_if\<close>)
  ultimately show ?thesis
    using head len by - (rule exI [of _ ?q'], simp add: same_rings_def recycled_def entry_shares_def)
qed

lemma recycle_refines:
  fixes ins outs :: "slice list"
  defines "its \<equiv> InputOutputIter_items (ins, outs)"
  assumes inv: "vq_inv share q a" and e: "(c, its) \<in> set (a_flight a)"
  shows "\<exists>q' calls. recycle_descriptors q (hd c) ins outs = Some (q', calls) \<and> recycled share q a (c, its) q' calls"
  using flight_entry(1) [OF inv e] recycle_direct_refines [of share q a c ins outs, folded its_def, OF inv e]
    recycle_indirect_refines [of share q a _ ins outs, folded its_def, OF inv] e
  unfolding entry_ok_def by auto

text \<open>What \<^verbatim>\<open>pop_used\<close> does besides recycling: it moves to the next element of the used ring.\<close>

definition popped :: "VirtQueue \<Rightarrow> VirtQueue \<Rightarrow> bool" where
  "popped q q' \<longleftrightarrow> last_used_idx q' = last_used_idx q + 1
     \<and> used q' = used q \<and> SIZE q' = SIZE q \<and> queue_idx q' = queue_idx q \<and> event_idx q' = event_idx q
     \<and> indirect q' = indirect q \<and> avail_idx q' = avail_idx q
     \<and> avail q' = (if event_idx q then (avail q)\<lparr>used_event := last_used_idx q + 1\<rparr> else avail q)"

lemma vq_inv_popped:
  "vq_inv share q a \<Longrightarrow> vq_inv share (q\<lparr>last_used_idx := i\<rparr>) a"
  "vq_inv share q a \<Longrightarrow> avail q = av \<Longrightarrow> vq_inv share (q\<lparr>last_used_idx := i, avail := av\<lparr>used_event := j\<rparr>\<rparr>) a"
  by (auto simp: vq_inv_def vq_wf_def entry_ok_def)

lemma pop_used_refines:
  fixes ins outs :: "slice list"
  defines "its \<equiv> InputOutputIter_items (ins, outs)"
  assumes inv: "vq_inv share q a" and e: "(c, its) \<in> set (a_flight a)" and ready: "can_pop q"
    and el: "ucast (elem_id (used_ring (used q) ! slot q (last_used_idx q))) = hd c"
  shows "\<exists>q' calls. pop_used q (hd c) ins outs =
      Some (Inr (elem_len (used_ring (used q) ! slot q (last_used_idx q))), q', calls)
    \<and> vq_inv share q' (abs_pop (c, its) a) \<and> popped q q'
    \<and> mset calls = mset (map unshare_of (entry_shares share q (hd c) its))"
proof -
  obtain q1 calls where R: "recycle_descriptors q (hd c) ins outs = Some (q1, calls)"
      "recycled share q a (c, its) q1 calls"
    using recycle_refines [of share q a c ins outs, folded its_def, OF inv e] by blast
  have "slot q (last_used_idx q) < length (used_ring (used q))"
    using inv slot_bound [of q] by (simp add: vq_inv_def vq_wf_def)
  then have i: "idx (used_ring (used q)) (slot q (last_used_idx q)) = Some (used_ring (used q) ! slot q (last_used_idx q))"
    by (simp add: panic_simps)
  show ?thesis
    using R ready el i vq_inv_popped
    by (auto simp: pop_used_def Let_def recycled_def same_rings_def popped_def)
qed

end
