(* ===== verification/Virt_Queue_Layout.thy ===== *)
theory Virt_Queue_Layout
  imports Virt_Queue_Refinement
begin

text \<open>
  The memory layout of a virtqueue and what \<^verbatim>\<open>VirtQueue::new\<close> builds. The parts of a queue never
  have a size that is a multiple of the page size, so \<open>align_up\<close> rounds them up to the next page and
  no further; every area of a layout lies inside the DMA region it was allocated for, whichever
  layout the transport asks for; a new queue over zeroed memory implements the abstract queue in
  which every descriptor is free.
\<close>

section \<open>Sizes of the parts\<close>

lemma is_power_of_two_D:
  assumes "is_power_of_two (w :: 'a::len word)"
  shows "\<exists>k < LENGTH('a). w = 2 ^ k"
proof -
  from assms obtain k where k: "filter (bit w) [0..<LENGTH('a)] = [k]"
    by (auto simp: is_power_of_two_def count_ones_def length_Suc_conv)
  then have "set (filter (bit w) [0..<LENGTH('a)]) = {k}" by simp
  then have bits: "{i. i < LENGTH('a) \<and> bit w i} = {k}" by auto
  then have "w = 2 ^ k"
    by (intro bit_word_eqI) (auto simp: bit_simps)
  with bits show ?thesis by blast
qed

lemma is_power_of_two_power:
  assumes "k < LENGTH('a)"
  shows "is_power_of_two (2 ^ k :: 'a::len word)"
proof -
  have "filter (bit (2 ^ k :: 'a word)) [0..<LENGTH('a)] = filter (\<lambda>i. i = k) [0..<LENGTH('a)]"
    using assms by (intro filter_cong) (auto simp: bit_simps)
  also have "length \<dots> = 1"
  proof -
    have "[0..<LENGTH('a)] = [0..<k] @ k # [Suc k..<LENGTH('a)]"
      using assms by (metis less_imp_add_positive upt_add_eq_append upt_conv_Cons zero_le less_imp_le le_add_diff_inverse)
    moreover have "filter (\<lambda>i. i = k) [0..<k] = []" "filter (\<lambda>i. i = k) [Suc k..<LENGTH('a)] = []"
      by (auto simp: filter_empty_conv)
    ultimately show ?thesis by simp
  qed
  finally show ?thesis by (simp add: is_power_of_two_def count_ones_def)
qed

lemma size_ok_iff:
  "n < 2 ^ 64 \<and> is_power_of_two (of_nat n :: u64) \<and> n \<le> 65535 \<longleftrightarrow> size_ok n"
proof
  assume n: "n < 2 ^ 64 \<and> is_power_of_two (of_nat n :: u64) \<and> n \<le> 65535"
  then obtain k where k: "k < 64" "(of_nat n :: u64) = 2 ^ k" using is_power_of_two_D by fastforce
  then have "(of_nat n :: u64) = of_nat (2 ^ k)" by simp
  moreover have "(2 :: nat) ^ k < 2 ^ 64" using k(1) by (rule power_strict_increasing) simp
  ultimately have "n = 2 ^ k" using n unat_of_nat_bound [where 'a = 64, of n]
      unat_of_nat_bound [where 'a = 64, of "2 ^ k"] by simp
  moreover have "k \<le> 15"
  proof (rule ccontr)
    assume "\<not> k \<le> 15"
    then have "(2 :: nat) ^ 16 \<le> 2 ^ k" by (intro power_increasing) simp_all
    with n \<open>n = 2 ^ k\<close> show False by simp
  qed
  ultimately show "size_ok n" by (auto simp: size_ok_def)
next
  assume s: "size_ok n"
  then obtain k where "k \<le> 15" "n = 2 ^ k" by (auto simp: size_ok_def)
  with size_ok_bound [OF s] show "n < 2 ^ 64 \<and> is_power_of_two (of_nat n :: u64) \<and> n \<le> 65535"
    using is_power_of_two_power [where 'a = 64, of k] by simp
qed

lemma queue_part_sizes_ok:
  assumes "size_ok n"
  shows "queue_part_sizes (of_nat n) = Some (of_nat (16 * n), of_nat (6 + 2 * n), of_nat (6 + 8 * n))"
proof -
  obtain k where k: "k \<le> 15" "n = 2 ^ k" using assms by (auto simp: size_ok_def)
  have "(ucast (of_nat n :: u16) :: u64) = of_nat n"
    using size_ok_bound [OF assms] by (simp add: word_unat_eq_iff word_nat)
  then show ?thesis
    using is_power_of_two_power [where 'a = 16, of k] k by (simp add: queue_part_sizes_def panic_simps Let_def)
qed

text \<open>\<open>align_up\<close> adds a page to a size that is a multiple of the page size; no part of a queue is.\<close>

lemma part_sizes_unaligned:
  assumes "size_ok n"
  shows "(18 * n + 6) mod 4096 \<noteq> 0" "(8 * n + 6) mod 4096 \<noteq> 0"
proof -
  obtain k where k: "n = 2 ^ k" using assms by (auto simp: size_ok_def)
  show "(18 * n + 6) mod 4096 \<noteq> 0"
  proof (cases k)
    case (Suc j)
    have "\<not> 4 dvd 36 * m + (6 :: nat)" for m by presburger
    moreover have "18 * n + 6 = 36 * 2 ^ j + 6" using k Suc by simp
    moreover have "(4 :: nat) dvd 4096" by simp
    ultimately show ?thesis by (metis dvd_trans mod_0_imp_dvd)
  qed (simp add: k)
  show "(8 * n + 6) mod 4096 \<noteq> 0"
  proof
    assume "(8 * n + 6) mod 4096 = 0"
    moreover have "(8 :: nat) dvd 4096" by simp
    ultimately have "8 dvd 8 * n + (6 :: nat)" by (meson dvd_trans mod_0_imp_dvd)
    then show False by presburger
  qed
qed


lemma align_up_unaligned:
  assumes "unat s + 4096 < 2 ^ 64" "unat s mod 4096 \<noteq> 0"
  shows "align_up s = Some (of_nat ((unat s + 4095) div 4096 * 4096))"
proof -
  obtain t where t: "align_up s = Some t" "unat t = (unat s + 4095) div 4096 * 4096"
    using align_up_Some [OF assms(1)] ceil_div [of 4096 "unat s"] assms(2) by auto
  have "t = of_nat (unat t)" by simp
  with t show ?thesis by metis
qed

definition front_pages :: "nat \<Rightarrow> nat" where
  "front_pages n = (18 * n + 6 + 4095) div 4096"

definition back_pages :: "nat \<Rightarrow> nat" where
  "back_pages n = (8 * n + 6 + 4095) div 4096"

lemma legacy_parts:
  assumes "size_ok n"
  shows "align_up (of_nat (16 * n) + of_nat (6 + 2 * n)) = Some (of_nat (front_pages n * 4096))"
    and "align_up (of_nat (6 + 8 * n)) = Some (of_nat (back_pages n * 4096))"
    and "18 * n + 6 \<le> front_pages n * 4096" "8 * n + 6 \<le> back_pages n * 4096"
    and "front_pages n * 4096 < 2 ^ 20" "back_pages n * 4096 < 2 ^ 20"
proof -
  have b: "n \<le> 32768" using size_ok_bound [OF assms] by simp
  have "(of_nat (16 * n) + of_nat (6 + 2 * n) :: u64) = of_nat (18 * n + 6)" by simp
  then have "unat (of_nat (16 * n) + of_nat (6 + 2 * n) :: u64) = 18 * n + 6"
    using unat_of_nat_bound [where 'a = 64, of "18 * n + 6"] b by (simp only:) simp
  then show "align_up (of_nat (16 * n) + of_nat (6 + 2 * n)) = Some (of_nat (front_pages n * 4096))"
    using align_up_unaligned [of "of_nat (16 * n) + of_nat (6 + 2 * n)"] part_sizes_unaligned [OF assms] b
    unfolding front_pages_def by simp
  have "unat (of_nat (6 + 8 * n) :: u64) = 8 * n + 6"
    using unat_of_nat_bound [where 'a = 64, of "6 + 8 * n"] b by simp
  then show "align_up (of_nat (6 + 8 * n)) = Some (of_nat (back_pages n * 4096))"
    using align_up_unaligned [of "of_nat (6 + 8 * n)"] part_sizes_unaligned [OF assms] b
    unfolding back_pages_def by simp
  show "18 * n + 6 \<le> front_pages n * 4096" "8 * n + 6 \<le> back_pages n * 4096"
    and "front_pages n * 4096 < 2 ^ 20" "back_pages n * 4096 < 2 ^ 20"
    using round_up_bounds [of 4096 "18 * n + 6"] round_up_bounds [of 4096 "8 * n + 6"] b
    by (simp_all add: front_pages_def back_pages_def)
qed


section \<open>The areas of a layout\<close>

text \<open>
  For a queue of \<open>n\<close> descriptors the descriptor table has \<open>16 * n\<close> bytes, the available ring
  \<open>6 + 2 * n\<close> and the used ring \<open>6 + 8 * n\<close>. \<open>layout_ok\<close> says that they lie one after the other
  inside the allocated regions, the used ring on a page of its own.
\<close>

fun layout_ok :: "nat \<Rightarrow> VirtQueueLayout \<Rightarrow> bool" where
  "layout_ok n (LegacyLayout dma ao uo) \<longleftrightarrow>
     region_ok (dma_paddr dma) (dma_pages dma) \<and> region_ok (dma_vaddr dma) (dma_pages dma)
     \<and> unat ao = 16 * n \<and> unat uo = front_pages n * 4096 \<and> unat ao + (6 + 2 * n) \<le> unat uo
     \<and> unat uo + (6 + 8 * n) \<le> unat (dma_pages dma) * 4096"
| "layout_ok n (ModernLayout d2d dev ao) \<longleftrightarrow>
     region_ok (dma_paddr d2d) (dma_pages d2d) \<and> region_ok (dma_vaddr d2d) (dma_pages d2d)
     \<and> region_ok (dma_paddr dev) (dma_pages dev) \<and> region_ok (dma_vaddr dev) (dma_pages dev)
     \<and> unat ao = 16 * n \<and> unat ao + (6 + 2 * n) \<le> unat (dma_pages d2d) * 4096
     \<and> 6 + 8 * n \<le> unat (dma_pages dev) * 4096"

lemma Dma_vaddr_ok:
  assumes "region_ok (dma_vaddr dma) (dma_pages dma)" "unat off < unat (dma_pages dma) * 4096"
  shows "Dma_vaddr dma off = Some (dma_vaddr dma + off)"
proof -
  have b: "unat (dma_vaddr dma) + unat (dma_pages dma) * 4096 < 2 ^ 64" using assms(1) by (simp add: region_ok_def)
  then have "unat (dma_pages dma * PAGE_SIZE) = unat (dma_pages dma) * 4096"
    by (simp add: PAGE_SIZE_def unat_word_ariths)
  then have "off < dma_pages dma * PAGE_SIZE" using assms(2) by (simp add: word_less_nat_alt)
  moreover have "unat (dma_vaddr dma + off) = unat (dma_vaddr dma) + unat off"
    using b assms(2) by (simp add: word_nat)
  moreover have "0 < unat (dma_vaddr dma)" using assms(1) by (simp add: region_ok_def unat_gt_0)
  ultimately have "dma_vaddr dma + off \<noteq> 0" by (metis add_is_0 less_numeral_extra(3) unat_0)
  with \<open>off < _\<close> b assms(2) show ?thesis by (simp add: Dma_vaddr_def panic_simps)
qed

lemma layout_accessors:
  assumes "layout_ok n lay" "size_ok n"
  shows "\<exists>p. driver_area_paddr lay = Some p \<and> unat p = unat (descriptors_paddr lay) + 16 * n"
    and "\<exists>p. device_area_paddr lay = Some p"
    and "\<exists>v. descriptors_vaddr lay = Some v" "\<exists>v. avail_vaddr lay = Some v" "\<exists>v. used_vaddr lay = Some v"
  using assms size_ok_bound [OF assms(2)]
  by (cases lay; auto simp: region_ok_def rust_add_def word_nat Dma_vaddr_ok)+

lemma legacy_page_count:
  fixes n :: nat
  defines "f \<equiv> of_nat (front_pages n * 4096) :: u64" and "b \<equiv> of_nat (back_pages n * 4096) :: u64"
  assumes "size_ok n"
  shows "0 < (f + b) div PAGE_SIZE" "unat ((f + b) div PAGE_SIZE) = front_pages n + back_pages n"
    "unat f = front_pages n * 4096" "unat b = back_pages n * 4096"
proof -
  note L = legacy_parts [OF assms(3)]
  show f: "unat f = front_pages n * 4096" "unat b = back_pages n * 4096"
    using L(5,6) unat_of_nat_bound [where 'a = 64, of "front_pages n * 4096"]
      unat_of_nat_bound [where 'a = 64, of "back_pages n * 4096"] by (simp_all add: f_def b_def)
  have "unat ((f + b) div PAGE_SIZE) = unat (f + b) div 4096" by (simp add: unat_div PAGE_SIZE_def)
  also have "unat (f + b) = front_pages n * 4096 + back_pages n * 4096"
    using f L(5,6) by (subst unat_add_no_wrap) simp_all
  finally show p: "unat ((f + b) div PAGE_SIZE) = front_pages n + back_pages n"
    unfolding distrib_right [symmetric] by simp
  show "0 < (f + b) div PAGE_SIZE" using p L(3) by (simp add: word_less_nat_alt)
qed

lemma allocate_legacy_eq:
  assumes "size_ok n"
  shows "allocate_legacy dma_alloc h (of_nat n) = do {
      (r, h1) \<leftarrow> Dma_new dma_alloc h ((of_nat (front_pages n * 4096) + of_nat (back_pages n * 4096)) div PAGE_SIZE) Both;
      Some (case r of Inl e \<Rightarrow> (Inl e, h1)
            | Inr dma \<Rightarrow> (Inr (LegacyLayout dma (of_nat (16 * n)) (of_nat (front_pages n * 4096))), h1)) }"
  unfolding allocate_legacy_def queue_part_sizes_ok [OF assms]
  using legacy_parts [OF assms] legacy_page_count [OF assms]
  by (simp add: panic_simps del: of_nat_mult of_nat_add)

lemma flexible_page_count:
  assumes "size_ok n"
  shows "0 < pages (of_nat (16 * n) + of_nat (6 + 2 * n))" "unat (pages (of_nat (16 * n) + of_nat (6 + 2 * n))) = front_pages n"
    "0 < pages (of_nat (6 + 8 * n))" "unat (pages (of_nat (6 + 8 * n))) = back_pages n"
proof -
  have b: "n \<le> 32768" using size_ok_bound [OF assms] by simp
  have "(of_nat (16 * n) + of_nat (6 + 2 * n) :: u64) = of_nat (18 * n + 6)" by simp
  then show p: "unat (pages (of_nat (16 * n) + of_nat (6 + 2 * n))) = front_pages n" "unat (pages (of_nat (6 + 8 * n))) = back_pages n"
    using b unat_of_nat_bound [where 'a = 64, of "18 * n + 6"] unat_of_nat_bound [where 'a = 64, of "6 + 8 * n"]
    by (simp_all only: unat_pages) (simp_all add: front_pages_def back_pages_def)
  show "0 < pages (of_nat (16 * n) + of_nat (6 + 2 * n))" "0 < pages (of_nat (6 + 8 * n))"
    using p legacy_parts(3,4) [OF assms] by (simp_all add: word_less_nat_alt)
qed

context dma_provider
begin

lemma allocate_legacy_ok:
  assumes "hal_inv h" "size_ok n" "allocate_legacy dma_alloc h (of_nat n) = Some (r, h')"
  shows "hal_inv h'" "r = Inl DmaError \<or> (\<exists>lay. r = Inr lay \<and> layout_ok n lay \<and> is_LegacyLayout lay)"
proof -
  note L = legacy_parts [OF assms(2)] and P = legacy_page_count [OF assms(2)]
  let ?f = "of_nat (front_pages n * 4096) :: u64" and ?b = "of_nat (back_pages n * 4096) :: u64"
  let ?dma = "Dma_new dma_alloc h ((?f + ?b) div PAGE_SIZE) Both"
  have d: "unat (of_nat (16 * n) :: u64) = 16 * n"
    using size_ok_bound [OF assms(2)] unat_of_nat_bound [where 'a = 64, of "16 * n"] by simp
  from assms(3) obtain r' where r': "?dma = Some (r', h')"
    "r = (case r' of Inl e \<Rightarrow> Inl e | Inr dma \<Rightarrow> Inr (LegacyLayout dma (of_nat (16 * n)) ?f))"
    unfolding allocate_legacy_eq [OF assms(2)]
    by (cases ?dma) (auto simp del: of_nat_mult of_nat_add split: sum.splits)
  show "hal_inv h'" "r = Inl DmaError \<or> (\<exists>lay. r = Inr lay \<and> layout_ok n lay \<and> is_LegacyLayout lay)"
    using r' Dma_new_region [OF assms(1) P(1)] Dma_new_error [OF assms(1) P(1)] L(3,4) P d
    by (cases r'; auto simp del: of_nat_mult of_nat_add)+
qed

lemma allocate_flexible_ok:
  assumes "hal_inv h" "size_ok n" "allocate_flexible dma_alloc dma_dealloc h (of_nat n) = Some (Inr lay, h')"
  shows "hal_inv h'" "layout_ok n lay" "\<not> is_LegacyLayout lay"
proof -
  note L = legacy_parts(3,4) [OF assms(2)] and P = flexible_page_count [OF assms(2)]
  let ?p = "pages (of_nat (16 * n) + of_nat (6 + 2 * n))" and ?q = "pages (of_nat (6 + 8 * n))"
  have d: "unat (of_nat (16 * n) :: u64) = 16 * n"
    using size_ok_bound [OF assms(2)] unat_of_nat_bound [where 'a = 64, of "16 * n"] by simp
  from assms(3) obtain d2d h1 dev where
    D: "Dma_new dma_alloc h ?p DriverToDevice = Some (Inr d2d, h1)"
       "Dma_new dma_alloc h1 ?q DeviceToDriver = Some (Inr dev, h')" "lay = ModernLayout d2d dev (of_nat (16 * n))"
    unfolding allocate_flexible_def queue_part_sizes_ok [OF assms(2)]
    by (auto simp: bind_eq_Some_conv case_result_eq_Some simp del: of_nat_mult of_nat_add)
  note R1 = Dma_new_region [OF assms(1) P(1) D(1)]
  note R2 = Dma_new_region [OF R1(4) P(3) D(2)]
  show "hal_inv h'" "layout_ok n lay" "\<not> is_LegacyLayout lay"
    using R1 R2 D(3) P L d by (simp_all del: of_nat_mult of_nat_add)
qed

end

section \<open>What a new queue contains\<close>

definition zeroed :: "nat \<Rightarrow> queue_memory \<Rightarrow> bool" where
  "zeroed n m \<longleftrightarrow> mem_desc m = replicate n zero_descriptor
     \<and> mem_avail m = \<lparr>avail_flags = 0, avail_ring_idx = 0, avail_ring = replicate n 0, used_event = 0\<rparr>
     \<and> mem_used m = \<lparr>used_flags = 0, used_ring_idx = 0,
          used_ring = replicate n \<lparr>elem_id = 0, elem_len = 0\<rparr>, avail_event = 0\<rparr>"

definition abs_new :: "nat \<Rightarrow> AbsQueue" where
  "abs_new n = \<lparr>a_free = map of_nat [0..<n], a_flight = []\<rparr>"

lemma link_descriptors_nth:
  "length (link_descriptors n ds) = length ds"
  "n \<le> length ds \<Longrightarrow> link_descriptors n ds ! j =
     (if j < n then (ds ! j)\<lparr>next := of_nat (Suc j)\<rparr> else ds ! j)"
proof (induction n)
  case (Suc n)
  { case 1 show ?case using Suc by (simp add: link_descriptors_def) }
  { case 2 then show ?case using Suc by (auto simp: link_descriptors_def nth_upd_if less_Suc_eq) }
qed (simp_all add: link_descriptors_def)

lemma linked_upt:
  assumes "n = length ds" "n < 2 ^ 16" "\<And>j. Suc j < n \<Longrightarrow> next (ds ! j) = of_nat (Suc j)" "i \<le> n"
  shows "i < n \<Longrightarrow> linked ds (of_nat i) (map of_nat [i..<n])"
  using assms
proof (induction "n - i" arbitrary: i)
  case (Suc k)
  have u: "[i..<n] = i # [Suc i..<n]" using Suc.prems by (simp add: upt_conv_Cons)
  have "unat (of_nat i :: u16) = i" using Suc.prems by (intro unat_of_nat_bound) simp
  then show ?case
    unfolding u using Suc.prems Suc.hyps(1) [of "Suc i"] Suc.hyps(2)
    by (cases "Suc i < n") (auto simp del: upt_Suc of_nat_Suc)
qed simp

lemma vq_inv_new:
  assumes "size_ok n"
    and "desc_shadow q = link_descriptors (n - 1) (replicate n zero_descriptor)" "free_head q = 0"
      "num_used q = 0" "length (desc q) = n" "avail q = mem_avail m" "used q = mem_used m" "avail_idx q = 0"
      "indirect_lists q = replicate n None" "zeroed n m"
  shows "vq_inv share q (abs_new n)"
proof -
  have b: "0 < n" "n \<le> 32768" using size_ok_bound [OF assms(1)] by simp_all
  have un: "unat (of_nat x :: u16) = x" if "x < n" for x
    using that b by (intro unat_of_nat_bound) simp
  have "inj_on (of_nat :: nat \<Rightarrow> u16) (set [0..<n])"
    by (rule inj_onI) (metis un atLeastLessThan_iff set_upt)
  then have "distinct (map of_nat [0..<n] :: u16 list)"
    by (simp only: distinct_map distinct_upt)
  moreover have "linked (desc_shadow q) (of_nat 0) (map of_nat [0..<n])"
    using b assms by (intro linked_upt) (auto simp: link_descriptors_nth)
  ultimately show ?thesis
    using assms un by (simp add: vq_inv_def vq_wf_def abs_new_def zeroed_def link_descriptors_nth(1))
qed


text \<open>\<^verbatim>\<open>VirtQueue::new\<close> on its successful path, and the errors it can return.\<close>

lemma VirtQueue_new_returns:
  assumes n: "size_ok n"
    and T: "queue_used T t qi = Some (False, t1)" "max_queue_size T t1 qi = Some (mx, t2)" "of_nat n \<le> mx"
    and lay: "(if requires_legacy_layout T t2 then allocate_legacy dma_alloc h (of_nat n)
               else allocate_flexible dma_alloc dma_dealloc h (of_nat n)) = Some (Inr lay, h1)" "layout_ok n lay"
    and set: "driver_area_paddr lay = Some da" "device_area_paddr lay = Some dv"
      "queue_set T t2 qi (of_nat n) (descriptors_paddr lay) da dv = Some t3"
    and mem: "length (mem_desc (mem lay)) = n"
  shows "\<exists>q. VirtQueue_new T dma_alloc dma_dealloc mem n t h qi ind ev = Some (Inr q, t3, h1)
    \<and> layout q = lay \<and> SIZE q = n \<and> queue_idx q = qi \<and> indirect q = ind \<and> event_idx q = ev
    \<and> last_used_idx q = 0 \<and> used q = mem_used (mem lay)
    \<and> (zeroed n (mem lay) \<longrightarrow> vq_inv share q (abs_new n))"
proof -
  have b: "n \<le> 32768" using size_ok_bound [OF n] by simp
  have "(ucast (of_nat n :: u16) :: u32) = of_nat n"
    using b by (simp add: word_unat_eq_iff word_nat)
  moreover obtain v1 v2 v3 where "descriptors_vaddr lay = Some v1" "avail_vaddr lay = Some v2" "used_vaddr lay = Some v3"
    using layout_accessors [OF lay(2) n] by blast
  moreover note size_ok_iff [of n] n T lay set
  ultimately show ?thesis
    unfolding VirtQueue_new_def
    by (simp add: panic_simps link_descriptors_nth not_less vq_inv_new [OF n] mem)
qed

lemma VirtQueue_new_errors:
  assumes "VirtQueue_new T dma_alloc dma_dealloc mem n t h qi ind ev = Some (Inl e, t', h')"
  shows "e = AlreadyUsed \<or> e = InvalidParam \<or> e = DmaError"
  using assms
  by (auto simp: VirtQueue_new_def allocate_legacy_def allocate_flexible_def Dma_new_def bind_eq_Some_conv
      case_result_eq_Some Let_def split: if_splits sum.split_asm)

lemma Mmio_queue_set_legacy:
  assumes "layout_ok n lay" "is_LegacyLayout lay" "size_ok n" "unat (descriptors_paddr lay) < 2 ^ 44"
    and "driver_area_paddr lay = Some da" "device_area_paddr lay = Some dv"
  shows "\<exists>t. Mmio_queue_set dev self qi (of_nat n) (descriptors_paddr lay) da dv = Some t"
proof (cases "mmio_version self")
  case Legacy
  obtain dma ao uo where lay: "lay = LegacyLayout dma ao uo" using assms(2) by (cases lay) auto
  have b: "n \<le> 32768" using size_ok_bound [OF assms(3)] by simp
  have u: "(ucast (of_nat n :: u32) :: u64) = of_nat n" using b by (simp add: word_unat_eq_iff word_nat)
  have r: "region_ok (dma_paddr dma) (dma_pages dma)" "unat ao = 16 * n" "unat uo = front_pages n * 4096"
    using assms(1) lay by simp_all
  then have a: "da = dma_paddr dma + ao" "dv = dma_paddr dma + uo"
    "unat da = unat (dma_paddr dma) + 16 * n" "unat dv = unat (dma_paddr dma) + front_pages n * 4096"
    using assms(5,6) lay by (auto simp: rust_add_def word_nat split: if_splits)
  have "da - dma_paddr dma = 16 * of_nat n" using a(1) r(2) by (metis add_diff_cancel_left' of_nat_mult of_nat_numeral of_nat_unat ucast_id)
  moreover have "align_up_phys (16 * of_nat n + 2 * (of_nat n + 3)) = Some uo"
    using legacy_parts(1) [OF assms(3)] r(3) unfolding align_up_phys_eq by (simp add: algebra_simps) (metis of_nat_unat ucast_id of_nat_mult of_nat_numeral)
  moreover have "dma_paddr dma div PAGE_SIZE * PAGE_SIZE = dma_paddr dma"
  proof -
    have "unat (dma_paddr dma div PAGE_SIZE) * 4096 = unat (dma_paddr dma)"
      using r(1) by (simp add: region_ok_def PAGE_SIZE_def unat_div mod_0_imp_dvd)
    then have "of_nat (unat (dma_paddr dma div PAGE_SIZE) * 4096) = (of_nat (unat (dma_paddr dma)) :: u64)"
      by simp
    then show ?thesis by (simp add: PAGE_SIZE_def)
  qed
  moreover have "unat (dma_paddr dma div PAGE_SIZE) < 2 ^ 32"
    using assms(4) lay by (simp add: unat_div PAGE_SIZE_def)
  ultimately show ?thesis
    using a Legacy lay by (simp add: Mmio_queue_set_def u rust_sub_def word_le_nat_alt panic_simps Let_def)
qed (simp add: Mmio_queue_set_def)

end
