(* ===== verification/Virt_Queue_Protocol.thy ===== *)
theory Virt_Queue_Protocol
  imports Virt_Queue_Layout
begin

text \<open>
  The virtqueue between a driver and a device that work on it at the same time. \<open>vq_step\<close> is one
  step of either side, in any order: the driver adds buffers, takes back used ones or switches
  notifications; the device takes the next chain from the available ring, returns any chain it
  holds through the used ring, or changes its notification fields. The device is only assumed to
  follow the protocol: it returns chains it has taken, each once, in any order. \<open>system_inv\<close>
  accounts for every outstanding request: it is in the available ring, held by the device or in the
  used ring, and nowhere twice.
\<close>

section \<open>Rings with free-running indices\<close>


text \<open>The elements of a ring from a free-running index on.\<close>

definition window :: "nat \<Rightarrow> 'a list \<Rightarrow> u16 \<Rightarrow> nat \<Rightarrow> 'a list" where
  "window n ring i k = map (\<lambda>j. ring ! ((unat i + j) mod n)) [0..<k]"

lemma slot_add:
  assumes "size_ok (SIZE q)"
  shows "slot q (i + of_nat j) = (unat i + j) mod SIZE q"
proof -
  obtain k where k: "k \<le> 15" "SIZE q = 2 ^ k" using assms by (auto simp: size_ok_def)
  have "(2 :: nat) ^ k dvd 2 ^ 16" using k by (intro le_imp_power_dvd) simp
  then show ?thesis
    unfolding slot_mod [OF assms] k(2)
    by (simp add: unat_word_ariths unat_of_nat take_bit_eq_mod mod_mod_cancel mod_add_right_eq
        flip: power_numeral)
qed

lemma ring_slots_differ:
  assumes "j < k" "k < (n :: nat)"
  shows "(i + j) mod n \<noteq> (i + k) mod n"
proof
  assume "(i + j) mod n = (i + k) mod n"
  then have "n dvd (i + k) - (i + j)" using assms by (metis mod_eq_dvd_iff_nat add_le_cancel_left less_imp_le)
  then show False using assms by (auto dest: dvd_imp_le)
qed

lemma window_push:
  assumes "k < n" "length ring = n"
  shows "window n (ring[(unat i + k) mod n := x]) i (Suc k) = window n ring i k @ [x]"
proof -
  have "window n (ring[(unat i + k) mod n := x]) i k = window n ring i k"
    unfolding window_def using ring_slots_differ [OF _ assms(1), of _ "unat i"]
    by (intro map_cong refl nth_list_update_neq) (metis atLeastLessThan_iff set_upt)
  moreover have "(unat i + k) mod n < length ring" using assms by simp
  ultimately show ?thesis by (simp add: window_def)
qed

lemma window_pop:
  assumes "2 ^ m = n" "m \<le> 16"
  shows "window n ring i (Suc k) = ring ! (unat i mod n) # window n ring (i + 1) k"
proof -
  have d: "n dvd 2 ^ 16" using assms le_imp_power_dvd by blast
  have "(unat (i + 1) + j) mod n = (unat i + Suc j) mod n" for j
  proof -
    have "unat (i + 1) mod n = (unat i + 1) mod n"
      using d by (simp add: unat_word_ariths mod_mod_cancel)
    then show ?thesis by (metis add_Suc_shift add.commute mod_add_left_eq plus_1_eq_Suc)
  qed
  then have "map (\<lambda>j. ring ! ((unat (i + 1) + j) mod n)) [0..<k] = map (\<lambda>j. ring ! ((unat i + j) mod n)) (map Suc [0..<k])"
    by simp
  then show ?thesis unfolding window_def by (simp add: upt_conv_Cons map_Suc_upt del: upt_Suc map_map)
qed


section \<open>When adding and popping succeed\<close>

lemma VirtQueue_add_errors:
  fixes ins outs :: "slice list"
  defines "n \<equiv> length ins + length outs"
  assumes inv: "vq_inv share q a"
  shows "n = 0 \<Longrightarrow> VirtQueue_add share p q ins outs = Some (Inl InvalidParam, q, [])"
    and "0 < n \<Longrightarrow> n > SIZE q \<or> length (a_free a) < needed q n \<Longrightarrow>
      VirtQueue_add share p q ins outs = Some (Inl QueueFull, q, [])"
proof -
  show "n = 0 \<Longrightarrow> VirtQueue_add share p q ins outs = Some (Inl InvalidParam, q, [])"
    by (simp add: VirtQueue_add_def n_def)
  assume n: "0 < n" and full: "n > SIZE q \<or> length (a_free a) < needed q n"
  have "\<not> (ins = [] \<and> outs = [])" using n by (auto simp: n_def)
  with full_iff [OF inv n] full show "VirtQueue_add share p q ins outs = Some (Inl QueueFull, q, [])"
    unfolding VirtQueue_add_def n_def [symmetric] Let_def by simp
qed

lemma VirtQueue_add_cases:
  fixes ins outs :: "slice list"
  defines "n \<equiv> length ins + length outs"
  assumes inv: "vq_inv share q a" and "VirtQueue_add share p q ins outs = Some (Inr tok, q', calls)"
  shows "0 < n" "n \<le> SIZE q" "needed q n \<le> length (a_free a)"
  using VirtQueue_add_errors [OF inv, of ins outs p, folded n_def] assms(3)
  by (cases "n = 0"; cases "n > SIZE q \<or> length (a_free a) < needed q n"; auto)+

lemma flight_bound: "vq_inv share q a \<Longrightarrow> length (a_flight a) + length (a_free a) \<le> SIZE q"
proof -
  assume inv: "vq_inv share q a"
  have "length es \<le> length (concat (map fst es))" if "\<forall>e \<in> set es. entry_ok share q e" for es
    using that
  proof (induction es)
    case (Cons e es)
    have "fst e \<noteq> []" using Cons.prems direct_chain_nonempty [of share _ "fst e"]
      by (cases e) (auto simp: entry_ok_def)
    with Cons show ?case by (cases "fst e") auto
  qed simp
  with inv show ?thesis by (fastforce simp: vq_inv_def)
qed

section \<open>The driver, the device and the rings between them\<close>

record vq_system =
  vq :: VirtQueue
  dev_seen :: u16
  dev_held :: "u16 list"
  requests :: "(u16 \<times> slice list \<times> slice list) list"

definition device_uses :: "VirtQueue \<Rightarrow> u16 \<Rightarrow> u32 \<Rightarrow> VirtQueue" where
  "device_uses q token l = q\<lparr>used := (used q)
     \<lparr>used_ring := (used_ring (used q))[slot q (used_ring_idx (used q)) := \<lparr>elem_id = ucast token, elem_len = l\<rparr>],
      used_ring_idx := used_ring_idx (used q) + 1\<rparr>\<rparr>"

inductive vq_step :: "share \<Rightarrow> vq_system \<Rightarrow> vq_system \<Rightarrow> bool" for share where
  driver_add: "\<lbrakk>\<forall>b \<in> set (InputOutputIter_items (ins, outs)). buffer_ok b;
      VirtQueue_add share p (vq s) ins outs = Some (Inr token, q', calls)\<rbrakk> \<Longrightarrow>
    vq_step share s (s\<lparr>vq := q', requests := requests s @ [(token, ins, outs)]\<rparr>)"
| driver_set_dev_notify: "vq_step share s (s\<lparr>vq := set_dev_notify (vq s) enable\<rparr>)"
| driver_pop: "\<lbrakk>(token, ins, outs) \<in> set (requests s);
      pop_used (vq s) token ins outs = Some (Inr l, q', calls)\<rbrakk> \<Longrightarrow>
    vq_step share s (s\<lparr>vq := q', requests := remove1 (token, ins, outs) (requests s)\<rparr>)"
| device_take: "\<lbrakk>dev_seen s \<noteq> avail_ring_idx (avail (vq s));
      token = avail_ring (avail (vq s)) ! slot (vq s) (dev_seen s)\<rbrakk> \<Longrightarrow>
    vq_step share s (s\<lparr>dev_seen := dev_seen s + 1, dev_held := dev_held s @ [token]\<rparr>)"
| device_use: "token \<in> set (dev_held s) \<Longrightarrow>
    vq_step share s (s\<lparr>vq := device_uses (vq s) token l, dev_held := remove1 token (dev_held s)\<rparr>)"
| device_suppress:
    "vq_step share s (s\<lparr>vq := (vq s)\<lparr>used := (used (vq s))\<lparr>used_flags := f, avail_event := e\<rparr>\<rparr>\<rparr>)"

abbreviation vq_reachable :: "share \<Rightarrow> vq_system \<Rightarrow> vq_system \<Rightarrow> bool" where
  "vq_reachable share \<equiv> (vq_step share)\<^sup>*\<^sup>*"

definition chain_head :: "u16 list \<times> buffer list \<Rightarrow> u16 \<times> buffer list" where
  "chain_head e = (hd (fst e), snd e)"

definition request_head :: "u16 \<times> slice list \<times> slice list \<Rightarrow> u16 \<times> buffer list" where
  "request_head r = (fst r, InputOutputIter_items (snd r))"

definition used_tokens :: "VirtQueue \<Rightarrow> nat \<Rightarrow> u16 list" where
  "used_tokens q u = map (\<lambda>e. ucast (elem_id e)) (window (SIZE q) (used_ring (used q)) (last_used_idx q) u)"

definition accounted :: "vq_system \<Rightarrow> AbsQueue \<Rightarrow> nat \<Rightarrow> nat \<Rightarrow> bool" where
  "accounted s a k u \<longleftrightarrow>
     avail_idx (vq s) = dev_seen s + of_nat k
     \<and> used_ring_idx (used (vq s)) = last_used_idx (vq s) + of_nat u
     \<and> mset (map request_head (requests s)) = mset (map chain_head (a_flight a))
     \<and> mset (map fst (requests s)) =
         mset (window (SIZE (vq s)) (avail_ring (avail (vq s))) (dev_seen s) k) + mset (dev_held s)
           + mset (used_tokens (vq s) u)"

definition system_inv :: "share \<Rightarrow> nat \<Rightarrow> vq_system \<Rightarrow> bool" where
  "system_inv share n s \<longleftrightarrow> SIZE (vq s) = n \<and> (\<exists>a k u. vq_inv share (vq s) a \<and> accounted s a k u)"

lemma accounted_count:
  assumes "vq_inv share (vq s) a" "accounted s a k u"
  shows "k + length (dev_held s) + u = length (a_flight a)" "length (requests s) = length (a_flight a)"
    "length (a_flight a) + length (a_free a) \<le> SIZE (vq s)"
proof -
  have m: "length (requests s) = length (a_flight a)"
    using assms(2) unfolding accounted_def by (metis length_map size_mset)
  have "size (mset (map fst (requests s))) = k + length (dev_held s) + u"
    using assms(2) unfolding accounted_def by (simp add: window_def used_tokens_def)
  with m show "k + length (dev_held s) + u = length (a_flight a)" "length (requests s) = length (a_flight a)"
    by simp_all
qed (rule flight_bound [OF assms(1)])


section \<open>Every step keeps the invariant\<close>

lemma system_inv_add:
  assumes inv: "vq_inv share (vq s) a" and acc: "accounted s a k u"
    and ok: "\<forall>b \<in> set (InputOutputIter_items (ins, outs)). buffer_ok b"
    and add: "VirtQueue_add share p (vq s) ins outs = Some (Inr token, q', calls)"
  shows "\<exists>a'. SIZE q' = SIZE (vq s) \<and> vq_inv share q' a' \<and>
    accounted (s\<lparr>vq := q', requests := requests s @ [(token, ins, outs)]\<rparr>) a' (Suc k) u"
proof -
  let ?q = "vq s" and ?n = "length ins + length outs" and ?its = "InputOutputIter_items (ins, outs)"
  note c = VirtQueue_add_cases [OF inv add]
  obtain q'' where R: "VirtQueue_add share p ?q ins outs = Some (Inr (hd (a_free a)), q'', entry_shares share q'' (hd (a_free a)) ?its)"
    "vq_inv share q'' (abs_add (needed ?q ?n) ?its a)" "same_rings ?q q''"
    "avail q'' = (avail ?q)\<lparr>avail_ring := (avail_ring (avail ?q))[slot ?q (avail_idx ?q) := hd (a_free a)],
       avail_ring_idx := avail_idx ?q + 1\<rparr>"
    "avail_idx q'' = avail_idx ?q + 1"
    using VirtQueue_add_refines [OF inv ok c] by blast
  have eq: "token = hd (a_free a)" "q' = q''" using R(1) add by simp_all
  have sz: "size_ok (SIZE ?q)" and len: "length (avail_ring (avail ?q)) = SIZE ?q"
    using inv by (simp_all add: vq_inv_def vq_wf_def)
  have pos: "0 < needed ?q ?n" using c by (simp add: needed_def)
  have "k < SIZE ?q" using accounted_count [OF inv acc] c(3) pos by linarith
  have av: "avail_idx ?q = dev_seen s + of_nat k" using acc by (simp add: accounted_def)
  have same: "SIZE q' = SIZE ?q" "used q' = used ?q" "last_used_idx q' = last_used_idx ?q"
    using R(3) eq by (simp_all add: same_rings_def)
  have "window (SIZE q') (avail_ring (avail q')) (dev_seen s) (Suc k) =
      window (SIZE ?q) (avail_ring (avail ?q)) (dev_seen s) k @ [token]"
    using window_push [OF \<open>k < SIZE ?q\<close> len, of "dev_seen s" token] slot_add [OF sz, of "dev_seen s" k] av R(4) eq same
    by simp
  moreover have "hd (take (needed ?q ?n) (a_free a)) = token" using eq c(3) pos by (simp add: hd_take)
  ultimately have "accounted (s\<lparr>vq := q', requests := requests s @ [(token, ins, outs)]\<rparr>)
      (abs_add (needed ?q ?n) ?its a) (Suc k) u"
    using acc av R(5) eq same
    by (simp add: accounted_def abs_add_def request_head_def chain_head_def used_tokens_def)
  with R(2) eq same show ?thesis by blast
qed

lemma system_inv_pop:
  assumes inv: "vq_inv share (vq s) a" and acc: "accounted s a k u"
    and req: "(token, ins, outs) \<in> set (requests s)"
    and pop: "pop_used (vq s) token ins outs = Some (Inr l, q', calls)"
  shows "\<exists>a' u'. SIZE q' = SIZE (vq s) \<and> u = Suc u' \<and> vq_inv share q' a' \<and>
    accounted (s\<lparr>vq := q', requests := remove1 (token, ins, outs) (requests s)\<rparr>) a' k u'"
proof -
  let ?q = "vq s" and ?its = "InputOutputIter_items (ins, outs)"
  let ?e = "used_ring (used ?q) ! slot ?q (last_used_idx ?q)"
  have sz: "size_ok (SIZE ?q)" and len: "length (used_ring (used ?q)) = SIZE ?q"
    using inv by (simp_all add: vq_inv_def vq_wf_def)
  have cp: "can_pop ?q" and tok: "ucast (elem_id ?e) = token"
    using pop slot_bound [OF sz] len
    by (auto simp: pop_used_def panic_simps Let_def bind_eq_Some_conv split: if_splits)
  obtain u' where u: "u = Suc u'" using cp acc by (cases u) (auto simp: can_pop_def accounted_def)
  have "(token, ?its) \<in> set (map chain_head (a_flight a))"
  proof -
    have "(token, ?its) \<in> set (map request_head (requests s))"
      using req by (force simp: request_head_def)
    moreover have "set (map request_head (requests s)) = set (map chain_head (a_flight a))"
      using acc unfolding accounted_def by (metis set_mset_mset)
    ultimately show ?thesis by simp
  qed
  then obtain c where e: "(c, ?its) \<in> set (a_flight a)" and hd: "hd c = token" by (auto simp: chain_head_def)
  obtain q'' where R: "pop_used ?q token ins outs = Some (Inr (elem_len ?e), q'', calls)"
      "vq_inv share q'' (abs_pop (c, ?its) a)" "popped ?q q''"
    using pop_used_refines [OF inv e cp] tok hd pop by fastforce
  have eq: "q' = q''" using R(1) pop by simp
  have same: "SIZE q' = SIZE ?q" "used q' = used ?q" "last_used_idx q' = last_used_idx ?q + 1"
      "avail_idx q' = avail_idx ?q" "avail_ring (avail q') = avail_ring (avail ?q)"
    using R(3) eq by (simp_all add: popped_def)
  obtain m where m: "2 ^ m = SIZE ?q" "m \<le> 16" using sz by (auto simp: size_ok_def intro: le_trans)
  have "used_tokens ?q u = token # used_tokens q' u'"
    using window_pop [OF m, of "used_ring (used ?q)" "last_used_idx ?q" u'] tok same u slot_mod [OF sz]
    by (simp add: used_tokens_def)
  moreover have "mset (map chain_head (a_flight a)) =
      add_mset (token, ?its) (mset (map chain_head (a_flight (abs_pop (c, ?its) a))))"
    using mset_map_remove1 [OF e, of chain_head] hd by (simp add: abs_pop_def chain_head_def del: mset_map)
  moreover note mset_map_remove1 [OF req, of request_head] mset_map_remove1 [OF req, of fst]
  ultimately have "accounted (s\<lparr>vq := q', requests := remove1 (token, ins, outs) (requests s)\<rparr>)
      (abs_pop (c, ?its) a) k u'"
    using acc same u by (simp add: accounted_def request_head_def del: mset_map)
  with R(2) eq u same show ?thesis by blast
qed


lemma system_inv_take:
  assumes inv: "vq_inv share (vq s) a" and acc: "accounted s a k u"
    and more: "dev_seen s \<noteq> avail_ring_idx (avail (vq s))"
    and token: "token = avail_ring (avail (vq s)) ! slot (vq s) (dev_seen s)"
  shows "\<exists>k'. k = Suc k' \<and> accounted (s\<lparr>dev_seen := dev_seen s + 1, dev_held := dev_held s @ [token]\<rparr>) a k' u"
proof -
  have sz: "size_ok (SIZE (vq s))" and "avail_ring_idx (avail (vq s)) = avail_idx (vq s)"
    using inv by (simp_all add: vq_inv_def vq_wf_def)
  then obtain k' where k: "k = Suc k'" using more acc by (cases k) (auto simp: accounted_def)
  obtain m where m: "2 ^ m = SIZE (vq s)" "m \<le> 16" using sz by (auto simp: size_ok_def intro: le_trans)
  show ?thesis
    using window_pop [OF m, of "avail_ring (avail (vq s))" "dev_seen s" k'] acc k token slot_mod [OF sz]
    by (simp add: accounted_def used_tokens_def)
qed

lemma vq_inv_used:
  assumes "vq_inv share q a" "length (used_ring u) = SIZE q"
  shows "vq_inv share (q\<lparr>used := u\<rparr>) a"
  using assms by (auto simp: vq_inv_def vq_wf_def entry_ok_def)

lemma system_inv_use:
  assumes inv: "vq_inv share (vq s) a" and acc: "accounted s a k u" and held: "token \<in> set (dev_held s)"
  shows "vq_inv share (device_uses (vq s) token l) a"
    "accounted (s\<lparr>vq := device_uses (vq s) token l, dev_held := remove1 token (dev_held s)\<rparr>) a k (Suc u)"
proof -
  let ?q = "vq s"
  have sz: "size_ok (SIZE ?q)" and len: "length (used_ring (used ?q)) = SIZE ?q"
    using inv by (simp_all add: vq_inv_def vq_wf_def)
  show "vq_inv share (device_uses (vq s) token l) a"
    unfolding device_uses_def using len by (intro vq_inv_used [OF inv]) simp
  have "0 < length (dev_held s)" using held by (cases "dev_held s") auto
  then have "u < SIZE ?q" using accounted_count [OF inv acc] by linarith
  note window_push [OF this len, of "last_used_idx ?q" "\<lparr>elem_id = ucast token, elem_len = l\<rparr>"]
  moreover have "slot ?q (used_ring_idx (used ?q)) = (unat (last_used_idx ?q) + u) mod SIZE ?q"
    using acc slot_add [OF sz, of "last_used_idx ?q" u] by (simp add: accounted_def)
  moreover have "(ucast (ucast token :: u32) :: u16) = token" by (rule ucast_u32_u16)
  ultimately have "used_tokens (device_uses ?q token l) (Suc u) = used_tokens ?q u @ [token]"
    by (simp add: used_tokens_def device_uses_def)
  moreover have "mset (dev_held s) = add_mset token (mset (remove1 token (dev_held s)))" using held by simp
  ultimately show
    "accounted (s\<lparr>vq := device_uses ?q token l, dev_held := remove1 token (dev_held s)\<rparr>) a k (Suc u)"
    using acc by (simp add: accounted_def device_uses_def)
qed

lemma vq_inv_set_dev_notify: "vq_inv share q a \<Longrightarrow> vq_inv share (set_dev_notify q enable) a"
  by (auto simp: set_dev_notify_def vq_inv_def vq_wf_def entry_ok_def Let_def)

lemma system_inv_step:
  assumes "vq_step share s s'" "system_inv share n s"
  shows "system_inv share n s'"
proof -
  from assms(2) obtain a k u where inv: "vq_inv share (vq s) a" and acc: "accounted s a k u" and n: "SIZE (vq s) = n"
    by (auto simp: system_inv_def)
  from assms(1) show ?thesis
  proof cases
    case (driver_add ins outs p token q' calls)
    from system_inv_add [OF inv acc driver_add(2,3)] driver_add(1) n show ?thesis by (auto simp: system_inv_def)
  next
    case (driver_set_dev_notify enable)
    then show ?thesis
      using vq_inv_set_dev_notify [OF inv, of enable] acc n
      by (auto simp: system_inv_def accounted_def set_dev_notify_def used_tokens_def Let_def intro!: exI [of _ a])
  next
    case (driver_pop token ins outs l q' calls)
    from system_inv_pop [OF inv acc driver_pop(2,3)] driver_pop(1) n show ?thesis by (auto simp: system_inv_def)
  next
    case (device_take token)
    from system_inv_take [OF inv acc device_take(2,3)] inv device_take(1) n show ?thesis by (auto simp: system_inv_def)
  next
    case (device_use token l)
    from system_inv_use [OF inv acc device_use(2), of l] device_use(1) n show ?thesis
      unfolding system_inv_def by (intro exI [of _ a] exI [of _ k] exI [of _ "Suc u"] conjI) (simp_all add: device_uses_def)
  next
    case (device_suppress e f)
    have "vq_inv share ((vq s)\<lparr>used := (used (vq s))\<lparr>used_flags := f, avail_event := e\<rparr>\<rparr>) a"
      using inv by (intro vq_inv_used) (simp_all add: vq_inv_def vq_wf_def)
    then show ?thesis
      using acc n device_suppress by (auto simp: system_inv_def accounted_def used_tokens_def intro!: exI [of _ a])
  qed
qed

lemma system_inv_reachable: "vq_reachable share s s' \<Longrightarrow> system_inv share n s \<Longrightarrow> system_inv share n s'"
  by (induction rule: rtranclp_induct) (auto intro: system_inv_step)

lemma system_inv_new:
  assumes "vq_inv share q (abs_new n)" "last_used_idx q = 0" "used_ring_idx (used q) = 0" "avail_idx q = 0" "SIZE q = n"
  shows "system_inv share n \<lparr>vq = q, dev_seen = 0, dev_held = [], requests = []\<rparr>"
  unfolding system_inv_def accounted_def
  using assms by (intro conjI exI [of _ "abs_new n"] exI [of _ 0]) (simp_all add: abs_new_def window_def used_tokens_def)


section \<open>What every interleaving guarantees\<close>

definition zeroed_queue :: "VirtQueueLayout \<Rightarrow> nat \<Rightarrow> u16 \<Rightarrow> bool \<Rightarrow> bool \<Rightarrow> VirtQueue" where
  "zeroed_queue lay n qi ind ev = \<lparr>layout = lay, desc = link_descriptors (n - 1) (replicate n zero_descriptor),
     avail = \<lparr>avail_flags = 0, avail_ring_idx = 0, avail_ring = replicate n 0, used_event = 0\<rparr>,
     used = \<lparr>used_flags = 0, used_ring_idx = 0, used_ring = replicate n \<lparr>elem_id = 0, elem_len = 0\<rparr>, avail_event = 0\<rparr>,
     queue_idx = qi, num_used = 0, free_head = 0,
     desc_shadow = link_descriptors (n - 1) (replicate n zero_descriptor), avail_idx = 0, last_used_idx = 0,
     event_idx = ev, indirect = ind, indirect_lists = replicate n None\<rparr>"

definition initial_system :: "VirtQueue \<Rightarrow> vq_system" where
  "initial_system q = \<lparr>vq = q, dev_seen = 0, dev_held = [], requests = []\<rparr>"

lemma zeroed_queue_inv:
  assumes "size_ok n"
  shows "vq_inv share (zeroed_queue lay n qi ind ev) (abs_new n)"
    "system_inv share n (initial_system (zeroed_queue lay n qi ind ev))"
proof -
  show i: "vq_inv share (zeroed_queue lay n qi ind ev) (abs_new n)"
    by (rule vq_inv_new [where m = "\<lparr>mem_desc = replicate n zero_descriptor,
          mem_avail = avail (zeroed_queue lay n qi ind ev), mem_used = used (zeroed_queue lay n qi ind ev)\<rparr>"])
      (use assms in \<open>simp_all add: zeroed_queue_def zeroed_def link_descriptors_nth\<close>)
  show "system_inv share n (initial_system (zeroed_queue lay n qi ind ev))"
    unfolding initial_system_def by (rule system_inv_new [OF i]) (simp_all add: zeroed_queue_def link_descriptors_nth)
qed

end
