(* ===== verification/Virt_Queue_Properties.thy ===== *)
theory Virt_Queue_Properties
  imports Virt_Queue_Protocol
begin

text \<open>
  What the virtqueue guarantees to its users. The lemmas connect the invariant of the protocol with
  the operations of the driver; the properties state the results.
\<close>

section \<open>Reading the rings\<close>

lemma system_inv_add_returns:
  assumes "vq_inv share q a" "\<forall>b \<in> set (InputOutputIter_items (ins, outs)). buffer_ok b"
  shows "VirtQueue_add share p q ins outs \<noteq> None"
proof -
  let ?n = "length ins + length outs"
  consider "?n = 0" | "0 < ?n" "?n > SIZE q \<or> length (a_free a) < needed q ?n"
    | "0 < ?n" "?n \<le> SIZE q" "needed q ?n \<le> length (a_free a)" by linarith
  then show ?thesis
  proof cases
    case 3
    with VirtQueue_add_refines [OF assms 3, of p] show ?thesis by auto
  qed (use VirtQueue_add_errors [OF assms(1), of ins outs p] in auto)
qed

lemma used_head:
  assumes inv: "vq_inv share (vq s) a" and acc: "accounted s a k u" and cp: "can_pop (vq s)"
  shows "\<exists>token ins outs. peek_used (vq s) = Some (Some token) \<and> (token, ins, outs) \<in> set (requests s)
    \<and> ucast (elem_id (used_ring (used (vq s)) ! slot (vq s) (last_used_idx (vq s)))) = token"
proof -
  let ?q = "vq s"
  have sz: "size_ok (SIZE ?q)" and len: "length (used_ring (used ?q)) = SIZE ?q"
    using inv by (simp_all add: vq_inv_def vq_wf_def)
  obtain u' where u: "u = Suc u'" using cp acc by (cases u) (auto simp: can_pop_def accounted_def)
  obtain m where m: "2 ^ m = SIZE ?q" "m \<le> 16" using sz by (auto simp: size_ok_def intro: le_trans)
  define token where "token = (ucast (elem_id (used_ring (used ?q) ! slot ?q (last_used_idx ?q))) :: u16)"
  have "token \<in> set (used_tokens ?q u)"
    using window_pop [OF m, of "used_ring (used ?q)" "last_used_idx ?q" u'] u slot_mod [OF sz]
    by (simp add: used_tokens_def token_def)
  then have "token \<in> set (map fst (requests s))"
    using acc unfolding accounted_def by (metis set_mset_mset union_iff)
  then obtain ins outs where "(token, ins, outs) \<in> set (requests s)" by auto
  moreover have "peek_used ?q = Some (Some token)"
    using cp slot_bound [OF sz] len by (simp add: peek_used_def panic_simps token_def)
  ultimately show ?thesis using token_def by blast
qed

lemma request_entry:
  assumes acc: "accounted s a k u" and req: "(token, ins, outs) \<in> set (requests s)"
  shows "\<exists>c. (c, InputOutputIter_items (ins, outs)) \<in> set (a_flight a) \<and> hd c = token"
proof -
  have "(token, InputOutputIter_items (ins, outs)) \<in> set (map request_head (requests s))"
    using req by (force simp: request_head_def)
  moreover have "set (map request_head (requests s)) = set (map chain_head (a_flight a))"
    using acc unfolding accounted_def by (metis set_mset_mset)
  ultimately show ?thesis by (auto simp: chain_head_def)
qed

lemma take_head:
  assumes inv: "vq_inv share (vq s) a" and acc: "accounted s a k u"
    and more: "dev_seen s \<noteq> avail_ring_idx (avail (vq s))"
  shows "avail_ring (avail (vq s)) ! slot (vq s) (dev_seen s) \<in> fst ` set (requests s)"
proof -
  obtain k' where "accounted (s\<lparr>dev_seen := dev_seen s + 1,
      dev_held := dev_held s @ [avail_ring (avail (vq s)) ! slot (vq s) (dev_seen s)]\<rparr>) a k' u"
    using system_inv_take [OF inv acc more refl] by blast
  then have "avail_ring (avail (vq s)) ! slot (vq s) (dev_seen s) \<in># mset (map fst (requests s))"
    unfolding accounted_def by simp
  then show ?thesis by simp
qed

lemma pop_head:
  assumes inv: "vq_inv share (vq s) a" and acc: "accounted s a k u" and cp: "can_pop (vq s)"
  shows "\<exists>token ins outs l q' calls. peek_used (vq s) = Some (Some token) \<and> (token, ins, outs) \<in> set (requests s)
    \<and> pop_used (vq s) token ins outs = Some (Inr l, q', calls)"
proof -
  obtain token ins outs where t: "peek_used (vq s) = Some (Some token)" "(token, ins, outs) \<in> set (requests s)"
    "ucast (elem_id (used_ring (used (vq s)) ! slot (vq s) (last_used_idx (vq s)))) = token"
    using used_head [OF inv acc cp] by blast
  obtain c where c: "(c, InputOutputIter_items (ins, outs)) \<in> set (a_flight a)" "hd c = token"
    using request_entry [OF acc t(2)] by blast
  obtain l q' calls where "pop_used (vq s) token ins outs = Some (Inr l, q', calls)"
    using pop_used_refines [OF inv c(1) cp] t(3) c(2) by auto
  with t(1,2) show ?thesis by blast
qed

lemmas queue_eval = VirtQueue_add_def add_direct_def zeroed_queue_def link_descriptors_def upt_conv_Cons
  InputOutputIter_items.simps InputOutputIter_next_def panic_simps set_buf_def write_desc_def slot_def
  zero_descriptor_def Let_def NEXT_def WRITE_def numeral_3_eq_3

lemma size_ok_4: "size_ok 4"
  unfolding size_ok_def by (rule exI [of _ 2]) simp

definition sample_layout :: VirtQueueLayout where
  "sample_layout = ModernLayout \<lparr>dma_paddr = 4096, dma_vaddr = 4096, dma_pages = 1\<rparr>
     \<lparr>dma_paddr = 8192, dma_vaddr = 8192, dma_pages = 1\<rparr> 64"

abbreviation sample_queue :: VirtQueue where
  "sample_queue \<equiv> zeroed_queue sample_layout 4 0 False False"

abbreviation sample_share :: share where
  "sample_share \<equiv> \<lambda>b d. sl_ptr b"

lemma zeroed_queue_simps [simp]:
  "SIZE (zeroed_queue lay n qi ind ev) = n" "indirect (zeroed_queue lay n qi ind ev) = ind"
  "event_idx (zeroed_queue lay n qi ind ev) = ev" "last_used_idx (zeroed_queue lay n qi ind ev) = 0"
  "avail_idx (zeroed_queue lay n qi ind ev) = 0" "used_ring_idx (used (zeroed_queue lay n qi ind ev)) = 0"
  "used_ring (used (zeroed_queue lay n qi ind ev)) = replicate n \<lparr>elem_id = 0, elem_len = 0\<rparr>"
  by (simp_all add: zeroed_queue_def link_descriptors_nth)

lemma abs_new_simps [simp]:
  "length (a_free (abs_new n)) = n" "0 < n \<Longrightarrow> hd (a_free (abs_new n)) = 0"
  by (simp_all add: abs_new_def hd_map)

lemma sample_add:
  "\<exists>q' calls. VirtQueue_add sample_share 0 sample_queue [\<lparr>sl_ptr = 64, sl_len = 16\<rparr>] [\<lparr>sl_ptr = 128, sl_len = 512\<rparr>]
     = Some (Inr 0, q', calls)"
  by (simp add: queue_eval)

section \<open>Synchronous requests and notification\<close>

lemma wait_can_pop_ok:
  assumes "\<forall>u \<in> set us. used_ring_idx u = last_used_idx q" "used_ring_idx u \<noteq> last_used_idx q"
  shows "wait_can_pop (us @ u # rest) q = Some (q\<lparr>used := u\<rparr>)"
  using assms by (induction us) (auto simp: can_pop_def)

lemma abs_pop_add:
  assumes "vq_inv share q a" "0 < k" "k \<le> length (a_free a)"
  shows "abs_pop (take k (a_free a), bufs) (abs_add k bufs a) = a"
proof -
  have d: "distinct (a_free a @ flight_idx a)" using assms(1) by (simp add: vq_inv_def)
  have "(take k (a_free a), bufs) \<notin> set (a_flight a)"
  proof
    assume e: "(take k (a_free a), bufs) \<in> set (a_flight a)"
    have "hd (a_free a) \<in> set (take k (a_free a))" using assms(2,3) by (cases "a_free a"; cases k) auto
    with flight_entry(5) [OF assms(1) e] show False by (auto dest: in_set_takeD)
  qed
  then show ?thesis by (simp add: abs_pop_def abs_add_def remove1_append)
qed

lemma add_notify_wait_pop_ok:
  assumes inv: "vq_inv share q a" and ok: "\<forall>b \<in> set (InputOutputIter_items (ins, outs)). buffer_ok b"
    and n: "0 < length ins + length outs" "length ins + length outs \<le> SIZE q"
      "needed q (length ins + length outs) \<le> length (a_free a)"
    and polls: "\<forall>u \<in> set us. used_ring_idx u = last_used_idx q"
      "used_ring_idx u \<noteq> last_used_idx q" "length (used_ring u) = SIZE q"
      "used_ring u ! (unat (last_used_idx q) mod SIZE q) = \<lparr>elem_id = ucast (hd (a_free a)), elem_len = l\<rparr>"
  shows "\<exists>q' calls notified. add_notify_wait_pop share p (us @ u # rest) q ins outs = Some (Inr l, q', calls, notified)
    \<and> vq_inv share q' a \<and> last_used_idx q' = last_used_idx q + 1"
proof -
  let ?its = "InputOutputIter_items (ins, outs)" and ?k = "needed q (length ins + length outs)"
  obtain q1 where A: "VirtQueue_add share p q ins outs = Some (Inr (hd (a_free a)), q1, entry_shares share q1 (hd (a_free a)) ?its)"
    "vq_inv share q1 (abs_add ?k ?its a)" "same_rings q q1"
    using VirtQueue_add_refines [OF inv ok n, of p] by blast
  let ?q2 = "q1\<lparr>used := u\<rparr>"
  have same: "SIZE q1 = SIZE q" "last_used_idx q1 = last_used_idx q" using A(3) by (simp_all add: same_rings_def)
  have inv2: "vq_inv share ?q2 (abs_add ?k ?its a)" using A(2) polls(3) same by (intro vq_inv_used) simp_all
  have k: "0 < ?k" using n by (simp add: needed_def)
  then have hd: "hd (take ?k (a_free a)) = hd (a_free a)" by (simp add: hd_take)
  have e: "(take ?k (a_free a), ?its) \<in> set (a_flight (abs_add ?k ?its a))" by (simp add: abs_add_def)
  have sz: "size_ok (SIZE ?q2)" using inv same by (simp add: vq_inv_def vq_wf_def)
  have tok: "(ucast (ucast (hd (a_free a)) :: u32) :: u16) = hd (a_free a)" by (rule ucast_u32_u16)
  have cp: "can_pop ?q2" using polls(2) same by (simp add: can_pop_def)
  have el: "used_ring (used ?q2) ! slot ?q2 (last_used_idx ?q2) = \<lparr>elem_id = ucast (hd (a_free a)), elem_len = l\<rparr>"
    using polls(4) same slot_mod [OF sz] by simp
  obtain q3 calls where P: "pop_used ?q2 (hd (a_free a)) ins outs = Some (Inr l, q3, calls)"
    "vq_inv share q3 (abs_pop (take ?k (a_free a), ?its) (abs_add ?k ?its a))" "popped ?q2 q3"
    using pop_used_refines [OF inv2 e cp] el tok hd by auto
  have "wait_can_pop (us @ u # rest) q1 = Some ?q2"
    using wait_can_pop_ok [of us q1 u rest] polls same by simp
  with A(1) P same show ?thesis
    unfolding abs_pop_add [OF inv k n(3)] by (simp add: add_notify_wait_pop_def Let_def popped_def)
qed

text \<open>When the VirtIO event index asks for a notification after the index moved from \<open>old\<close> to \<open>new\<close>.\<close>

definition need_event :: "u16 \<Rightarrow> u16 \<Rightarrow> u16 \<Rightarrow> bool" where
  "need_event event new old \<longleftrightarrow> new - event - 1 < new - old"

text \<open>
  After several additions the comparison in \<^verbatim>\<open>should_notify\<close> is not the one of the specification:
  with the index wrapped from 65534 to 1 and the event at 65534 the device must be notified and is not.
\<close>

lemma should_notify_misses_wrapped_batch:
  "\<exists>q old. event_idx q \<and> need_event (avail_event (used q)) (avail_idx q) old \<and> \<not> should_notify q"
  by (rule exI [of _ "sample_queue\<lparr>event_idx := True, avail_idx := 1, used := (used sample_queue)\<lparr>avail_event := 65534\<rparr>\<rparr>"],
      rule exI [of _ 65534]) (simp add: need_event_def should_notify_def word_le_nat_alt word_less_nat_alt)

section \<open>Properties\<close>

text \<open>
  C1. Safety of the split ring under every interleaving of driver and device: in each state that can be
  reached from a new queue, \<^verbatim>\<open>add\<close> of non-empty buffers returns (no panic, no index out of range),
  whenever the used ring is not empty \<^verbatim>\<open>peek_used\<close> names an outstanding request and \<^verbatim>\<open>pop_used\<close> with
  the buffers of that request succeeds, the device only ever finds heads of outstanding requests in
  the available ring, and there are never more requests than descriptors.
\<close>

theorem virtqueue_protocol_safe:
  assumes "size_ok n" "vq_reachable share (initial_system (zeroed_queue lay n qi ind ev)) s"
  shows "(\<forall>ins outs p. (\<forall>b \<in> set (InputOutputIter_items (ins, outs)). buffer_ok b) \<longrightarrow>
            VirtQueue_add share p (vq s) ins outs \<noteq> None)
    \<and> (can_pop (vq s) \<longrightarrow> (\<exists>token ins outs l q' calls.
            peek_used (vq s) = Some (Some token) \<and> (token, ins, outs) \<in> set (requests s)
            \<and> pop_used (vq s) token ins outs = Some (Inr l, q', calls)))
    \<and> (dev_seen s \<noteq> avail_ring_idx (avail (vq s)) \<longrightarrow>
            avail_ring (avail (vq s)) ! slot (vq s) (dev_seen s) \<in> fst ` set (requests s))
    \<and> length (requests s) \<le> n"
proof -
  obtain a k u where inv: "vq_inv share (vq s) a" and acc: "accounted s a k u" and n: "SIZE (vq s) = n"
    using system_inv_reachable [OF assms(2) zeroed_queue_inv(2) [OF assms(1)]] by (auto simp: system_inv_def)
  show ?thesis
    using system_inv_add_returns [OF inv] pop_head [OF inv acc] take_head [OF inv acc]
      accounted_count [OF inv acc] n by simp
qed

theorem virtqueue_protocol_safe_witness:
  "\<exists>s. vq_reachable sample_share (initial_system sample_queue) s \<and> requests s \<noteq> [] \<and> length (requests s) \<le> 4"
proof -
  obtain q' calls where add: "VirtQueue_add sample_share 0 sample_queue [\<lparr>sl_ptr = 64, sl_len = 16\<rparr>]
      [\<lparr>sl_ptr = 128, sl_len = 512\<rparr>] = Some (Inr 0, q', calls)"
    using sample_add by blast
  let ?s = "initial_system sample_queue"
  let ?s' = "?s\<lparr>vq := q', requests := requests ?s @ [(0, [\<lparr>sl_ptr = 64, sl_len = 16\<rparr>], [\<lparr>sl_ptr = 128, sl_len = 512\<rparr>])]\<rparr>"
  have "vq_step sample_share ?s ?s'"
    by (rule vq_step.driver_add [where p = 0])
      (use add in \<open>simp_all add: initial_system_def InputOutputIter_items.simps InputOutputIter_next_def buffer_ok_def\<close>)
  then have r: "vq_reachable sample_share ?s ?s'" by simp
  with virtqueue_protocol_safe [OF size_ok_4 r] show ?thesis by (intro exI [of _ ?s']) simp
qed



text \<open>
  C3. \<^verbatim>\<open>add\<close> implements the abstract queue: with room for the request it takes the first free
  descriptors (one for an indirect list), records the buffers under them in order, returns the first
  as the token, writes the token to the next slot of the available ring, publishes the index one
  higher, modulo 2^16, and shares exactly the buffers of the request (and the indirect list) with
  the device.
\<close>

theorem add_refines_abstract_queue:
  assumes "vq_inv share q a" "\<forall>b \<in> set (InputOutputIter_items (ins, outs)). buffer_ok b"
    and "0 < length ins + length outs" "length ins + length outs \<le> SIZE q"
      "needed q (length ins + length outs) \<le> length (a_free a)"
  shows "\<exists>q'. VirtQueue_add share p q ins outs =
      Some (Inr (hd (a_free a)), q', entry_shares share q' (hd (a_free a)) (InputOutputIter_items (ins, outs)))
    \<and> vq_inv share q' (abs_add (needed q (length ins + length outs)) (InputOutputIter_items (ins, outs)) a)
    \<and> avail_ring (avail q') = (avail_ring (avail q))[unat (avail_idx q) mod SIZE q := hd (a_free a)]
    \<and> avail_ring_idx (avail q') = avail_idx q + 1 \<and> used q' = used q"
proof -
  have "size_ok (SIZE q)" using assms(1) by (simp add: vq_inv_def vq_wf_def)
  with VirtQueue_add_refines [OF assms, of p] slot_mod [of q] show ?thesis
    by (auto simp: same_rings_def)
qed

theorem add_refines_abstract_queue_witness:
  "\<exists>q'. VirtQueue_add sample_share 0 sample_queue [\<lparr>sl_ptr = 64, sl_len = 16\<rparr>] [\<lparr>sl_ptr = 128, sl_len = 512\<rparr>] =
      Some (Inr 0, q', entry_shares sample_share q' 0 [(\<lparr>sl_ptr = 64, sl_len = 16\<rparr>, DriverToDevice), (\<lparr>sl_ptr = 128, sl_len = 512\<rparr>, DeviceToDriver)])
    \<and> avail_ring_idx (avail q') = 1"
  using add_refines_abstract_queue [OF zeroed_queue_inv(1) [OF size_ok_4, of sample_share sample_layout 0 False False],
      of "[\<lparr>sl_ptr = 64, sl_len = 16\<rparr>]" "[\<lparr>sl_ptr = 128, sl_len = 512\<rparr>]" 0]
  by (auto simp: buffer_ok_def needed_def InputOutputIter_items.simps InputOutputIter_next_def)

text \<open>
  C6. The errors of \<^verbatim>\<open>add\<close>: an empty request is \<^verbatim>\<open>InvalidParam\<close>; a request with more buffers than
  the queue has descriptors, or more than the free ones can hold, is \<^verbatim>\<open>QueueFull\<close>; in both cases the
  queue is unchanged and nothing is shared. There is no other error.
\<close>

theorem add_errors:
  assumes "vq_inv share q a" "\<forall>b \<in> set (InputOutputIter_items (ins, outs)). buffer_ok b"
  shows "VirtQueue_add share p q ins outs = Some (Inl e, q', calls) \<longleftrightarrow>
    q' = q \<and> calls = [] \<and>
    (ins = [] \<and> outs = [] \<and> e = InvalidParam
     \<or> \<not> (ins = [] \<and> outs = []) \<and> e = QueueFull
       \<and> (SIZE q < length ins + length outs \<or> length (a_free a) < needed q (length ins + length outs)))"
proof -
  let ?n = "length ins + length outs"
  have z: "?n = 0 \<longleftrightarrow> ins = [] \<and> outs = []" by auto
  consider "?n = 0" | "0 < ?n" "?n > SIZE q \<or> length (a_free a) < needed q ?n"
    | "0 < ?n" "?n \<le> SIZE q" "needed q ?n \<le> length (a_free a)" by linarith
  then show ?thesis
  proof cases
    case 3
    with VirtQueue_add_refines [OF assms 3, of p] show ?thesis using z by fastforce
  qed (use VirtQueue_add_errors [OF assms(1), of ins outs p] z in auto)
qed

theorem add_errors_witness:
  "VirtQueue_add sample_share 0 sample_queue [] (replicate 5 \<lparr>sl_ptr = 64, sl_len = 16\<rparr>) = Some (Inl QueueFull, sample_queue, [])"
  using add_errors [OF zeroed_queue_inv(1) [OF size_ok_4, of sample_share sample_layout 0 False False],
      of "[]" "replicate 5 \<lparr>sl_ptr = 64, sl_len = 16\<rparr>" 0 QueueFull sample_queue "[]"]
  by (simp add: buffer_ok_def InputOutputIter_items_eq)

text \<open>
  C4. \<^verbatim>\<open>pop_used\<close> undoes \<^verbatim>\<open>add\<close>: for an outstanding request whose head the used ring reports next it
  returns the length the device wrote, puts the descriptors of the request back at the front of the
  free list, forgets the request, and unshares exactly what \<^verbatim>\<open>add\<close> shared for it, with the same
  physical addresses.
\<close>

theorem pop_used_refines_abstract_queue:
  assumes "vq_inv share q a" "(c, InputOutputIter_items (ins, outs)) \<in> set (a_flight a)" "can_pop q"
    and "used_ring (used q) ! slot q (last_used_idx q) = \<lparr>elem_id = ucast (hd c), elem_len = l\<rparr>"
  shows "\<exists>q' calls. pop_used q (hd c) ins outs = Some (Inr l, q', calls)
    \<and> vq_inv share q' (abs_pop (c, InputOutputIter_items (ins, outs)) a)
    \<and> last_used_idx q' = last_used_idx q + 1
    \<and> mset calls = mset (map unshare_of (entry_shares share q (hd c) (InputOutputIter_items (ins, outs))))"
proof -
  have "(ucast (ucast (hd c) :: u32) :: u16) = hd c" by (rule ucast_u32_u16)
  with pop_used_refines [OF assms(1-3)] assms(4) show ?thesis by (auto simp: popped_def)
qed

theorem pop_used_refines_abstract_queue_witness:
  "\<exists>q1 calls1 q2 calls2.
     VirtQueue_add sample_share 0 sample_queue [\<lparr>sl_ptr = 64, sl_len = 16\<rparr>] [\<lparr>sl_ptr = 128, sl_len = 512\<rparr>] = Some (Inr 0, q1, calls1)
     \<and> pop_used (device_uses q1 0 512) 0 [\<lparr>sl_ptr = 64, sl_len = 16\<rparr>] [\<lparr>sl_ptr = 128, sl_len = 512\<rparr>] = Some (Inr 512, q2, calls2)"
proof -
  let ?i = "[\<lparr>sl_ptr = 64, sl_len = 16\<rparr>]" and ?o = "[\<lparr>sl_ptr = 128, sl_len = 512\<rparr>]"
  have a: "\<forall>b \<in> set (InputOutputIter_items (?i, ?o)). buffer_ok b"
    by (simp add: buffer_ok_def InputOutputIter_items.simps InputOutputIter_next_def)
  obtain q1 where q1: "VirtQueue_add sample_share 0 sample_queue ?i ?o =
      Some (Inr 0, q1, entry_shares sample_share q1 0 (InputOutputIter_items (?i, ?o)))"
    "vq_inv sample_share q1 (abs_add 2 (InputOutputIter_items (?i, ?o)) (abs_new 4))"
    "same_rings sample_queue q1"
    using VirtQueue_add_refines [OF zeroed_queue_inv(1) [OF size_ok_4, of _ sample_layout 0 False False] a, where p = 0]
    by (auto simp: needed_def numeral_2_eq_2)
  let ?q = "device_uses q1 0 512"
  have inv: "vq_inv sample_share ?q (abs_add 2 (InputOutputIter_items (?i, ?o)) (abs_new 4))"
    unfolding device_uses_def using q1(2) by (intro vq_inv_used) (simp_all add: vq_inv_def vq_wf_def)
  have e: "([0, 1], InputOutputIter_items (?i, ?o)) \<in> set (a_flight (abs_add 2 (InputOutputIter_items (?i, ?o)) (abs_new 4)))"
    by (simp add: abs_add_def abs_new_def upt_conv_Cons numeral_2_eq_2)
  have u: "can_pop ?q" "used_ring (used ?q) ! slot ?q (last_used_idx ?q) = \<lparr>elem_id = ucast (hd [0, 1 :: u16]), elem_len = 512\<rparr>"
    using q1(3) by (simp_all add: can_pop_def device_uses_def same_rings_def slot_def)
  from pop_used_refines_abstract_queue [OF inv e u] q1(1) show ?thesis by auto
qed

text \<open>
  \<^verbatim>\<open>pop_used\<close> reports \<^verbatim>\<open>NotReady\<close> when the used ring holds nothing new and \<^verbatim>\<open>WrongToken\<close> when its
  next element is another request; the queue is unchanged and nothing is unshared. On a well-formed
  queue these are the only errors and the test itself cannot panic.
\<close>

theorem pop_used_errors:
  assumes "vq_inv share q a"
  shows "(\<not> can_pop q \<longrightarrow> pop_used q token ins outs = Some (Inl NotReady, q, []))
    \<and> (can_pop q \<and> peek_used q \<noteq> Some (Some token) \<longrightarrow> pop_used q token ins outs = Some (Inl WrongToken, q, []))"
proof -
  have "slot q (last_used_idx q) < length (used_ring (used q))"
    using assms slot_bound [of q] by (simp add: vq_inv_def vq_wf_def)
  then show ?thesis by (auto simp: pop_used_def peek_used_def panic_simps)
qed

theorem pop_used_errors_witness:
  "pop_used sample_queue 3 [] [] = Some (Inl NotReady, sample_queue, [])"
  using pop_used_errors [OF zeroed_queue_inv(1) [OF size_ok_4, of sample_share sample_layout 0 False False], of 3 "[]" "[]"]
  by (simp add: can_pop_def)

text \<open>
  C5. \<^verbatim>\<open>add_notify_wait_pop\<close> returns as soon as the device answers: if the used ring the driver polls is
  at first unchanged and then shows the token of this request, the call ends (the spin loop
  terminates), returns the length the device reported and leaves the abstract queue as it was, with
  every descriptor of the request free again, also while other requests are outstanding.
\<close>

theorem add_notify_wait_pop_returns:
  assumes "vq_inv share q a" "\<forall>b \<in> set (InputOutputIter_items (ins, outs)). buffer_ok b"
    and "0 < length ins + length outs" "length ins + length outs \<le> SIZE q"
      "needed q (length ins + length outs) \<le> length (a_free a)"
    and "\<forall>u \<in> set us. used_ring_idx u = last_used_idx q"
      "used_ring_idx u \<noteq> last_used_idx q" "length (used_ring u) = SIZE q"
      "used_ring u ! (unat (last_used_idx q) mod SIZE q) = \<lparr>elem_id = ucast (hd (a_free a)), elem_len = l\<rparr>"
  shows "\<exists>q' calls notified. add_notify_wait_pop share p (us @ u # rest) q ins outs = Some (Inr l, q', calls, notified)
    \<and> vq_inv share q' a \<and> last_used_idx q' = last_used_idx q + 1"
  by (rule add_notify_wait_pop_ok [OF assms])

theorem add_notify_wait_pop_returns_witness:
  "\<exists>q' calls notified. add_notify_wait_pop sample_share 0
     [used sample_queue, \<lparr>used_flags = 0, used_ring_idx = 1, used_ring = replicate 4 \<lparr>elem_id = 0, elem_len = 7\<rparr>, avail_event = 0\<rparr>]
     sample_queue [\<lparr>sl_ptr = 64, sl_len = 16\<rparr>] [\<lparr>sl_ptr = 128, sl_len = 512\<rparr>] = Some (Inr 7, q', calls, notified)"
  using add_notify_wait_pop_returns [OF zeroed_queue_inv(1) [OF size_ok_4, of sample_share sample_layout 0 False False],
      of "[\<lparr>sl_ptr = 64, sl_len = 16\<rparr>]" "[\<lparr>sl_ptr = 128, sl_len = 512\<rparr>]" "[used sample_queue]"
        "\<lparr>used_flags = 0, used_ring_idx = 1, used_ring = replicate 4 \<lparr>elem_id = 0, elem_len = 7\<rparr>, avail_event = 0\<rparr>" 7 0 "[]"]
  by (simp add: buffer_ok_def InputOutputIter_items.simps InputOutputIter_next_def needed_def) blast

text \<open>
  No wake-up is lost when the driver asks after every addition: whenever the event index of the
  device requires a notification for the one buffer just added, \<^verbatim>\<open>should_notify\<close> says so, also when the
  16-bit index has just wrapped; without event indices it follows the flag of the used ring.
\<close>

theorem should_notify_after_add:
  assumes "VirtQueue_add share p q ins outs = Some (Inr token, q', calls)" "vq_inv share q a"
    "\<forall>b \<in> set (InputOutputIter_items (ins, outs)). buffer_ok b"
  shows "(event_idx q \<and> need_event (avail_event (used q')) (avail_idx q') (avail_idx q) \<longrightarrow> should_notify q')
    \<and> (\<not> event_idx q \<longrightarrow> should_notify q' = (used_flags (used q') AND 1 = 0))"
proof -
  obtain q'' where "VirtQueue_add share p q ins outs = Some (Inr (hd (a_free a)), q'', entry_shares share q'' (hd (a_free a)) (InputOutputIter_items (ins, outs)))"
    "same_rings q q''" "avail_idx q'' = avail_idx q + 1"
    using VirtQueue_add_refines [OF assms(2,3) VirtQueue_add_cases [OF assms(2,1)], of p] by blast
  then have "avail_idx q' = avail_idx q + 1" "event_idx q' = event_idx q"
    using assms(1) by (simp_all add: same_rings_def)
  moreover have "avail_idx q = e" if "avail_idx q - e < 1" for e :: u16
    using that by (simp add: word_less_nat_alt unat_eq_zero)
  ultimately show ?thesis by (auto simp: should_notify_def need_event_def)
qed

theorem should_notify_after_add_witness:
  "\<exists>q' calls. VirtQueue_add sample_share 0 (sample_queue\<lparr>event_idx := True\<rparr>) [\<lparr>sl_ptr = 64, sl_len = 16\<rparr>] [] = Some (Inr 0, q', calls)
     \<and> should_notify q'"
proof -
  let ?q = "zeroed_queue sample_layout 4 0 False True" and ?i = "[\<lparr>sl_ptr = 64, sl_len = 16\<rparr>]"
  have eq: "sample_queue\<lparr>event_idx := True\<rparr> = ?q" by (simp add: zeroed_queue_def)
  obtain q' calls where r: "VirtQueue_add sample_share 0 ?q ?i [] = Some (Inr 0, q', calls)"
    "event_idx ?q \<and> need_event (avail_event (used q')) (avail_idx q') (avail_idx ?q)"
    by (simp add: queue_eval need_event_def)
  have "\<forall>b \<in> set (InputOutputIter_items (?i, [])). buffer_ok b"
    by (simp add: buffer_ok_def InputOutputIter_items.simps InputOutputIter_next_def)
  from should_notify_after_add [OF r(1) zeroed_queue_inv(1) [OF size_ok_4] this] r eq show ?thesis by auto
qed

end
