(* ===== verification/Frame_Allocator.thy ===== *)
theory Frame_Allocator
  imports D3OS_Prelude
begin

text \<open>
  The page frame allocator of the kernel (\<^verbatim>\<open>kernel/src/memory/frames.rs\<close>). A frame is its number, its
  physical address divided by 4096; \<^verbatim>\<open>PhysAddr\<close> has 52 bits, so adding to a frame panics at
  \<open>2 ^ 40\<close>. The free list is a chain of nodes, each at the first frame of the block it describes and
  owned by its predecessor, so its state is the list of the blocks with the addresses of the nodes as
  their starts. The dummy node \<^verbatim>\<open>head\<close> is the beginning of the list.
\<close>

section \<open>Frames and ranges\<close>

record PhysFrameRange =
  fr_start :: nat
  fr_end :: nat

definition frame_add :: "nat \<Rightarrow> nat \<Rightarrow> nat option" where
  "frame_add f n = (if f + n < 2 ^ 40 then Some (f + n) else None)"

definition frame_sub :: "nat \<Rightarrow> nat \<Rightarrow> nat option" where
  "frame_sub a b = (if b \<le> a then Some (a - b) else None)"

record PageFrameNode =
  node_start :: nat
  frame_count :: nat

definition node_end :: "PageFrameNode \<Rightarrow> nat option" where
  "node_end self = frame_add (node_start self) (frame_count self)"

section \<open>The list allocator\<close>

text \<open>\<^verbatim>\<open>insert\<close>: the node for \<open>frames\<close> goes before the first block that starts above it.\<close>

fun insert_node :: "PageFrameNode \<Rightarrow> PageFrameNode list \<Rightarrow> PageFrameNode list" where
  "insert_node new_block [] = [new_block]"
| "insert_node new_block (block # rest) =
     (if node_start block > node_start new_block then new_block # block # rest
      else block # insert_node new_block rest)"

definition list_insert :: "PhysFrameRange \<Rightarrow> PageFrameNode list \<Rightarrow> PageFrameNode list option" where
  "list_insert frames free_list = do {
     n \<leftarrow> frame_sub (fr_end frames) (fr_start frames);
     Some (insert_node \<lparr>node_start = fr_start frames, frame_count = n\<rparr> free_list)
   }"

fun find_free_block :: "nat \<Rightarrow> PageFrameNode list \<Rightarrow> (PageFrameNode \<times> PageFrameNode list) option" where
  "find_free_block n [] = None"
| "find_free_block n (block # rest) =
     (if frame_count block \<ge> n then Some (block, rest)
      else map_option (\<lambda>(b, r). (b, block # r)) (find_free_block n rest))"

definition alloc_block :: "nat \<Rightarrow> PageFrameNode list \<Rightarrow> (PhysFrameRange \<times> PageFrameNode list) option" where
  "alloc_block n free_list =
     (case find_free_block n free_list of
        Some (block, rest) \<Rightarrow> do {
          rem_start \<leftarrow> frame_add (node_start block) n;
          rem_end \<leftarrow> node_end block;
          remaining \<leftarrow> frame_sub rem_end rem_start;
          free_list' \<leftarrow> (if remaining > 0 then list_insert \<lparr>fr_start = rem_start, fr_end = rem_end\<rparr> rest
                        else Some rest);
          Some (\<lparr>fr_start = node_start block, fr_end = rem_start\<rparr>, free_list')
        }
      | None \<Rightarrow> None)"

text \<open>
  The walk of \<^verbatim>\<open>free_block\<close>: \<open>Some (Some l)\<close> when the range was fused with a block, \<open>Some None\<close> when
  the loop ends without fusion and the range gets a node of its own.
\<close>

fun free_walk :: "PhysFrameRange \<Rightarrow> PageFrameNode list \<Rightarrow> PageFrameNode list option option" where
  "free_walk frames [] = Some None"
| "free_walk frames (block # rest) = do {
     apart \<leftarrow> (if fr_end frames \<le> node_start block then Some True
              else do { block_end \<leftarrow> node_end block; Some (fr_start frames \<ge> block_end) });
     if \<not> apart then None
     else if fr_end frames = node_start block then do {
       n \<leftarrow> frame_sub (fr_end frames) (fr_start frames);
       Some (Some (\<lparr>node_start = fr_start frames, frame_count = frame_count block + n\<rparr> # rest))
     }
     else do {
       block_end \<leftarrow> node_end block;
       if block_end = fr_start frames then do {
         n \<leftarrow> frame_sub (fr_end frames) (fr_start frames);
         let block1 = block\<lparr>frame_count := frame_count block + n\<rparr>;
         end1 \<leftarrow> node_end block1;
         (case rest of
            nxt # rest' \<Rightarrow>
              if end1 = node_start nxt
              then Some (Some (block1\<lparr>frame_count := frame_count block1 + frame_count nxt\<rparr> # rest'))
              else Some (Some (block1 # rest))
          | [] \<Rightarrow> Some (Some (block1 # rest)))
       }
       else if block_end > fr_start frames then Some None
       else do {
         r \<leftarrow> free_walk frames rest;
         Some (map_option (\<lambda>l. block # l) r)
       }
     }
   }"

definition free_block :: "PhysFrameRange \<Rightarrow> PageFrameNode list \<Rightarrow> PageFrameNode list option" where
  "free_block frames free_list = do {
     r \<leftarrow> free_walk frames free_list;
     (case r of Some l \<Rightarrow> Some l | None \<Rightarrow> list_insert frames free_list)
   }"

text \<open>
  \<^verbatim>\<open>reserve_block\<close>. The list is what follows \<^verbatim>\<open>current\<close>; when the first block is removed, \<^verbatim>\<open>current\<close> moves
  on to the block after it, which must exist.
\<close>

partial_function (option) reserve_block :: "PhysFrameRange \<Rightarrow> PageFrameNode list \<Rightarrow> PageFrameNode list option" where
  "reserve_block reserved free_list =
     (case free_list of
        [] \<Rightarrow> Some []
      | block # rest \<Rightarrow>
          if node_start block > fr_end reserved then Some (block # rest)
          else do {
            block_end \<leftarrow> node_end block;
            if node_start block < fr_start reserved \<and> block_end \<ge> fr_start reserved then
              (if block_end \<le> fr_end reserved then do {
                 rest' \<leftarrow> reserve_block reserved rest;
                 Some (block\<lparr>frame_count := frame_count block - (block_end - fr_start reserved)\<rparr> # rest')
               }
               else do {
                 rest' \<leftarrow> reserve_block reserved
                   (\<lparr>node_start = fr_end reserved, frame_count = block_end - fr_end reserved\<rparr> # rest);
                 Some (block\<lparr>frame_count := fr_start reserved - node_start block\<rparr> # rest')
               })
            else if node_start block \<le> fr_end reserved \<and> block_end \<ge> fr_start reserved then
              (if block_end \<le> fr_end reserved then
                 (case rest of
                    [] \<Rightarrow> None
                  | nxt # rest' \<Rightarrow> do { l \<leftarrow> reserve_block reserved rest'; Some (nxt # l) })
               else do {
                 let overlapping = fr_end reserved - node_start block;
                 rest' \<leftarrow> reserve_block reserved rest;
                 Some (\<lparr>node_start = node_start block + overlapping,
                        frame_count = frame_count block - overlapping\<rparr> # rest')
               })
            else do { rest' \<leftarrow> reserve_block reserved rest; Some (block # rest') }
          })"

section \<open>The module\<close>

record frames_state =
  PAGE_FRAME_ALLOCATOR :: "PageFrameNode list"
  PHYS_LIMIT :: nat

text \<open>\<^verbatim>\<open>frame_from_u64\<close>: the frame of an address rounded up to a page, for 52-bit addresses.\<close>

definition frame_from_u64 :: "u64 \<Rightarrow> nat option" where
  "frame_from_u64 addr = do {
     rust_assert (unat addr < 2 ^ 52);
     let aligned = (unat addr + 4095) div 4096 * 4096;
     rust_assert (aligned < 2 ^ 52);
     Some (aligned div 4096)
   }"

definition frames_free :: "PhysFrameRange \<Rightarrow> frames_state \<Rightarrow> frames_state option" where
  "frames_free frames s = do {
     l \<leftarrow> free_block frames (PAGE_FRAME_ALLOCATOR s);
     Some (s\<lparr>PAGE_FRAME_ALLOCATOR := l\<rparr>)
   }"

definition frames_alloc :: "nat \<Rightarrow> frames_state \<Rightarrow> (PhysFrameRange \<times> frames_state) option" where
  "frames_alloc n s = do {
     (r, l) \<leftarrow> alloc_block n (PAGE_FRAME_ALLOCATOR s);
     Some (r, s\<lparr>PAGE_FRAME_ALLOCATOR := l\<rparr>)
   }"

definition frames_reserve :: "PhysFrameRange \<Rightarrow> frames_state \<Rightarrow> frames_state option" where
  "frames_reserve frames s = do {
     l \<leftarrow> reserve_block frames (PAGE_FRAME_ALLOCATOR s);
     Some (s\<lparr>PAGE_FRAME_ALLOCATOR := l\<rparr>)
   }"

definition frames_insert :: "PhysFrameRange \<Rightarrow> frames_state \<Rightarrow> frames_state option" where
  "frames_insert region s =
     (if fr_start region = 0 \<and> fr_end region \<le> 1 then Some s
      else do {
        let region' = (if fr_start region = 0 then region\<lparr>fr_start := 1\<rparr> else region);
        let s' = (if fr_end region' > PHYS_LIMIT s then s\<lparr>PHYS_LIMIT := fr_end region'\<rparr> else s);
        frames_free region' s'
      })"

end
