(* ===== verification/Frame_Allocator_Correctness.thy ===== *)
theory Frame_Allocator_Correctness
  imports Frame_Allocator
begin

text \<open>
  Correctness of the page frame allocator. \<open>fl_wf\<close> says that the free list is sorted, that its blocks
  are not empty, fit in the physical address space and leave a gap to each other; \<open>frames_of\<close> is the
  set of free frames. Allocating takes a range out of that set, freeing puts it back, reserving cuts a
  range out, and the list is always the one canonical list of its set.
\<close>

section \<open>The free list and its frames\<close>

abbreviation end_of :: "PageFrameNode \<Rightarrow> nat" where
  "end_of b \<equiv> node_start b + frame_count b"

fun fl_wf :: "nat \<Rightarrow> PageFrameNode list \<Rightarrow> bool" where
  "fl_wf lo [] \<longleftrightarrow> True"
| "fl_wf lo (b # bs) \<longleftrightarrow> lo \<le> node_start b \<and> 0 < frame_count b \<and> end_of b < 2 ^ 40 \<and> fl_wf (Suc (end_of b)) bs"

definition frames_of :: "PageFrameNode list \<Rightarrow> nat set" where
  "frames_of fl = (\<Union>b \<in> set fl. {node_start b..<end_of b})"

lemma frames_of_simps [simp]:
  "frames_of [] = {}" "frames_of (b # bs) = {node_start b..<end_of b} \<union> frames_of bs"
  "frames_of (xs @ ys) = frames_of xs \<union> frames_of ys"
  by (auto simp: frames_of_def)

lemma fl_wf_mono: "fl_wf lo fl \<Longrightarrow> lo' \<le> lo \<Longrightarrow> fl_wf lo' fl"
  by (cases fl) auto

lemma fl_wf_lower: "fl_wf lo fl \<Longrightarrow> b \<in> set fl \<Longrightarrow> lo \<le> node_start b \<and> 0 < frame_count b \<and> end_of b < 2 ^ 40"
  by (induction fl arbitrary: lo) (auto dest: fl_wf_mono, fastforce dest: fl_wf_mono)

lemma frames_of_lower: "fl_wf lo fl \<Longrightarrow> x \<in> frames_of fl \<Longrightarrow> lo \<le> x"
  using fl_wf_lower by (fastforce simp: frames_of_def)

lemma fl_wf_split:
  assumes "fl_wf lo (pre @ b # post)"
  shows "fl_wf lo (pre @ post)" "\<forall>c \<in> set pre. end_of c < node_start b" "\<forall>c \<in> set post. end_of b < node_start c"
    "lo \<le> node_start b" "0 < frame_count b" "end_of b < 2 ^ 40"
  using assms
proof (induction pre arbitrary: lo)
  case Nil
  { case 1 then show ?case by (cases post) auto }
  { case 3 then show ?case using fl_wf_lower by fastforce }
qed (fastforce dest: fl_wf_lower)+

lemma insert_node_wf:
  assumes "fl_wf lo fl" "lo \<le> node_start r" "0 < frame_count r" "end_of r < 2 ^ 40"
    "\<forall>c \<in> set fl. end_of c < node_start r \<or> end_of r < node_start c"
  shows "fl_wf lo (insert_node r fl)" "frames_of (insert_node r fl) = {node_start r..<end_of r} \<union> frames_of fl"
  using assms by (induction fl arbitrary: lo) auto

lemma find_free_block_split:
  "find_free_block n fl = Some (b, rest) \<Longrightarrow>
     \<exists>pre post. fl = pre @ b # post \<and> rest = pre @ post \<and> n \<le> frame_count b \<and> (\<forall>c \<in> set pre. frame_count c < n)"
proof (induction fl arbitrary: rest)
  case (Cons c fl)
  show ?case
  proof (cases "frame_count c \<ge> n")
    case False
    with Cons.prems obtain r where r: "find_free_block n fl = Some (b, r)" "rest = c # r" by auto
    with Cons.IH obtain pre post where "fl = pre @ b # post" "r = pre @ post" "n \<le> frame_count b"
      "\<forall>c \<in> set pre. frame_count c < n" by blast
    with r False show ?thesis by (intro exI [of _ "c # pre"] exI [of _ post]) auto
  qed (use Cons.prems in \<open>auto intro: exI [of _ "[]"]\<close>)
qed simp

lemma find_free_block_None: "find_free_block n fl = None \<longleftrightarrow> (\<forall>b \<in> set fl. frame_count b < n)"
  by (induction fl) (auto split: if_splits)

lemma frames_disjoint_split:
  assumes "fl_wf lo (pre @ b # post)"
  shows "{node_start b..<end_of b} \<inter> frames_of (pre @ post) = {}"
  using fl_wf_split [OF assms] by (fastforce simp: frames_of_def)

lemma alloc_block_ok:
  assumes wf: "fl_wf lo fl" and n: "0 < n" and b: "\<exists>b \<in> set fl. n \<le> frame_count b"
  shows "\<exists>s fl'. alloc_block n fl = Some (\<lparr>fr_start = s, fr_end = s + n\<rparr>, fl')
    \<and> fl_wf lo fl' \<and> {s..<s + n} \<subseteq> frames_of fl \<and> frames_of fl' = frames_of fl - {s..<s + n}
    \<and> lo \<le> s \<and> s + n < 2 ^ 40"
proof -
  obtain b rest where f: "find_free_block n fl = Some (b, rest)"
    using b find_free_block_None [of n fl] by fastforce
  then obtain pre post where fl: "fl = pre @ b # post" and rest: "rest = pre @ post" and nb: "n \<le> frame_count b"
    using find_free_block_split by blast
  note S = fl_wf_split [OF wf [unfolded fl]]
  have e: "node_end b = Some (end_of b)" "frame_add (node_start b) n = Some (node_start b + n)"
    using S nb by (auto simp: node_end_def frame_add_def)
  have d: "{node_start b..<end_of b} \<inter> frames_of rest = {}"
    using frames_disjoint_split [OF wf [unfolded fl]] rest by simp
  show ?thesis
  proof (cases "frame_count b = n")
    case True
    have "alloc_block n fl = Some (\<lparr>fr_start = node_start b, fr_end = node_start b + n\<rparr>, rest)"
      using True e f by (simp add: alloc_block_def frame_sub_def)
    with S fl rest d True show ?thesis by (intro exI conjI) auto
  next
    case False
    let ?r = "\<lparr>node_start = node_start b + n, frame_count = frame_count b - n\<rparr>"
    have "alloc_block n fl = Some (\<lparr>fr_start = node_start b, fr_end = node_start b + n\<rparr>, insert_node ?r rest)"
      using False nb e f by (simp add: alloc_block_def frame_sub_def list_insert_def)
    moreover have "end_of c < node_start ?r \<or> end_of ?r < node_start c" if "c \<in> set rest" for c
    proof -
      have "c \<in> set pre \<or> c \<in> set post" using that rest by simp
      then show ?thesis
      proof
        assume "c \<in> set pre"
        then have "end_of c < node_start b" using S(2) by blast
        then show ?thesis by simp
      next
        assume "c \<in> set post"
        then have "end_of b < node_start c" using S(3) by blast
        then show ?thesis using nb by simp
      qed
    qed
    then have "fl_wf lo (insert_node ?r rest)"
      "frames_of (insert_node ?r rest) = {node_start b + n..<end_of b} \<union> frames_of rest"
      using insert_node_wf [of lo rest ?r] S(1,4,5,6) rest False nb by simp_all
    moreover have "{node_start b + n..<end_of b} \<union> frames_of rest = frames_of fl - {node_start b..<node_start b + n}"
    proof -
      have "x \<notin> frames_of rest" if "x \<in> {node_start b..<node_start b + n}" for x
      proof -
        have "x \<in> {node_start b..<end_of b}" using that nb by simp
        with d show ?thesis by blast
      qed
      moreover have "frames_of fl = {node_start b..<end_of b} \<union> frames_of rest" using fl rest by auto
      ultimately show ?thesis by auto
    qed
    ultimately show ?thesis using S fl nb by (intro exI conjI) auto
  qed
qed


definition block_of :: "nat \<Rightarrow> nat \<Rightarrow> PageFrameNode" where
  "block_of s e = \<lparr>node_start = s, frame_count = e - s\<rparr>"

lemma block_of_simps [simp]:
  "node_start (block_of s e) = s" "frame_count (block_of s e) = e - s"
  by (simp_all add: block_of_def)

lemma free_walk_fuse_top:
  assumes wf: "fl_wf lo (b # bs)" and 2: "end_of b = s" and se: "s < e" and e40: "e < 2 ^ 40"
    and tl: "{s..<e} \<inter> frames_of bs = {}"
  shows "\<exists>l. free_walk \<lparr>fr_start = s, fr_end = e\<rparr> (b # bs) = Some (Some l) \<and> fl_wf lo l
    \<and> frames_of l = frames_of (b # bs) \<union> {s..<e}"
proof -
  let ?f = "\<lparr>fr_start = s, fr_end = e\<rparr>"
  have b: "lo \<le> node_start b" "0 < frame_count b" "end_of b < 2 ^ 40" "fl_wf (Suc (end_of b)) bs"
    using wf by simp_all
  have e: "node_end b = Some (end_of b)" using b by (simp add: node_end_def frame_add_def)
  have be: "e \<noteq> node_start b" using 2 b se by simp
  let ?b1 = "block_of (node_start b) e"
  have le: "node_start b < e" using 2 b(2) se by simp
  have b1: "b\<lparr>frame_count := frame_count b + e - s\<rparr> = ?b1" "b\<lparr>frame_count := frame_count b + (e - s)\<rparr> = ?b1" using 2 se by (cases b; auto simp: block_of_def)+
  have e1: "node_end ?b1 = Some e" using le e40 by (simp add: node_end_def frame_add_def block_of_def)
  have iv: "{node_start b..<e} = {node_start b..<end_of b} \<union> {s..<e}" using 2 se by auto
  show ?thesis
  proof (cases bs)
    case Nil
    have "free_walk ?f (b # bs) = Some (Some [?b1])"
      using 2 be e Nil se by (simp add: frame_sub_def Let_def b1 e1)
    then show ?thesis using le iv b Nil se e40 by (simp del: free_walk.simps)
  next
    case (Cons nxt bs')
    have n: "s < node_start nxt" "0 < frame_count nxt" "fl_wf (Suc (end_of nxt)) bs'" "end_of nxt < 2 ^ 40"
      using b(4) 2 Cons by auto
    have en: "e \<le> node_start nxt"
    proof (rule ccontr)
      assume "\<not> ?thesis"
      then have "node_start nxt \<in> {s..<e}" "node_start nxt \<in> frames_of bs" using n Cons by auto
      with tl show False by blast
    qed
    have w: "free_walk ?f (b # bs) = Some (Some (if e = node_start nxt
        then ?b1\<lparr>frame_count := frame_count ?b1 + frame_count nxt\<rparr> # bs' else ?b1 # bs))"
    proof -
      have "free_walk ?f (b # bs) = (let block1 = b\<lparr>frame_count := frame_count b + (e - s)\<rparr> in do {
          end1 \<leftarrow> node_end block1;
          (case bs of
             nxt # rest' \<Rightarrow>
               if end1 = node_start nxt
               then Some (Some (block1\<lparr>frame_count := frame_count block1 + frame_count nxt\<rparr> # rest'))
               else Some (Some (block1 # bs))
           | [] \<Rightarrow> Some (Some (block1 # bs))) })"
        using 2 be e se by (simp add: frame_sub_def)
      then show ?thesis unfolding b1(2) Let_def e1 Cons by simp
    qed
    show ?thesis
    proof (cases "e = node_start nxt")
      case True
      have "?b1\<lparr>frame_count := frame_count ?b1 + frame_count nxt\<rparr> = block_of (node_start b) (end_of nxt)"
        using le True by (simp add: block_of_def)
      with w True have "free_walk ?f (b # bs) = Some (Some (block_of (node_start b) (end_of nxt) # bs'))" by simp
      moreover have "{node_start b..<end_of nxt} = {node_start b..<e} \<union> {node_start nxt..<end_of nxt}"
        using True le by auto
      ultimately show ?thesis using iv b n Cons True le by (auto simp del: free_walk.simps)
    next
      case False
      then show ?thesis using w iv b n Cons en le e40 by (auto simp del: free_walk.simps)
    qed
  qed
qed

lemma free_walk_ok:
  assumes "fl_wf lo fl" "lo \<le> s" "s < e" "e < 2 ^ 40" "{s..<e} \<inter> frames_of fl = {}"
  shows "\<exists>r. free_walk \<lparr>fr_start = s, fr_end = e\<rparr> fl = Some r \<and>
    (case r of Some l \<Rightarrow> fl_wf lo l \<and> frames_of l = frames_of fl \<union> {s..<e}
     | None \<Rightarrow> \<forall>c \<in> set fl. end_of c < s \<or> e < node_start c)"
  using assms
proof (induction fl arbitrary: lo)
  case (Cons b bs)
  let ?f = "\<lparr>fr_start = s, fr_end = e\<rparr>"
  have b: "lo \<le> node_start b" "0 < frame_count b" "end_of b < 2 ^ 40" "fl_wf (Suc (end_of b)) bs"
    using Cons.prems by simp_all
  have e: "node_end b = Some (end_of b)" using b by (simp add: node_end_def frame_add_def)
  have nb: "x \<notin> {s..<e}" if "x \<in> {node_start b..<end_of b}" for x using Cons.prems(5) that by auto
  have ap: "e \<le> node_start b \<or> end_of b \<le> s"
  proof (rule ccontr)
    assume "\<not> ?thesis"
    then have "max s (node_start b) \<in> {node_start b..<end_of b}" "max s (node_start b) \<in> {s..<e}"
      using b Cons.prems by auto
    with nb show False by blast
  qed
  have tl: "{s..<e} \<inter> frames_of bs = {}" using Cons.prems(5) by auto
  have after: "end_of b < node_start c" if "c \<in> set bs" for c using fl_wf_lower [OF b(4) that] by simp
  consider "e = node_start b" | "end_of b = s" "e \<noteq> node_start b" | "e < node_start b" | "end_of b < s"
    using ap by linarith
  then show ?case
  proof cases
    case 1
    then have "free_walk ?f (b # bs) = Some (Some (\<lparr>node_start = s, frame_count = frame_count b + (e - s)\<rparr> # bs))"
      using Cons.prems by (simp add: frame_sub_def)
    then show ?thesis using 1 b Cons.prems by (auto simp: add.commute)
  next
    case 2
    from free_walk_fuse_top [OF Cons.prems(1) 2(1) Cons.prems(3,4) tl] show ?thesis
      by (auto simp del: free_walk.simps frames_of_simps)
  next
    case 3
    then have "free_walk ?f (b # bs) = Some None" using e b Cons.prems by simp
    moreover have "e < node_start c" if "c \<in> set bs" for c using after [OF that] 3 by simp
    ultimately show ?thesis using 3 by simp
  next
    case 4
    obtain r where r: "free_walk ?f bs = Some r"
      "case r of Some l \<Rightarrow> fl_wf (Suc (end_of b)) l \<and> frames_of l = frames_of bs \<union> {s..<e}
       | None \<Rightarrow> \<forall>c \<in> set bs. end_of c < s \<or> e < node_start c"
      using Cons.IH [OF b(4) _ Cons.prems(3,4) tl] 4 by auto
    have "free_walk ?f (b # bs) = Some (map_option (\<lambda>l. b # l) r)" using 4 e r Cons.prems by simp
    then show ?thesis using r(2) b 4 by (cases r) auto
  qed
qed simp

lemma free_block_ok:
  assumes "fl_wf lo fl" "lo \<le> s" "s < e" "e < 2 ^ 40" "{s..<e} \<inter> frames_of fl = {}"
  shows "\<exists>fl'. free_block \<lparr>fr_start = s, fr_end = e\<rparr> fl = Some fl' \<and> fl_wf lo fl' \<and> frames_of fl' = frames_of fl \<union> {s..<e}"
proof -
  obtain r where r: "free_walk \<lparr>fr_start = s, fr_end = e\<rparr> fl = Some r"
    "case r of Some l \<Rightarrow> fl_wf lo l \<and> frames_of l = frames_of fl \<union> {s..<e}
     | None \<Rightarrow> \<forall>c \<in> set fl. end_of c < s \<or> e < node_start c"
    using free_walk_ok [OF assms] by blast
  show ?thesis
  proof (cases r)
    case None
    with r(2) insert_node_wf [of lo fl "\<lparr>node_start = s, frame_count = e - s\<rparr>"] assms
    have "fl_wf lo (insert_node \<lparr>node_start = s, frame_count = e - s\<rparr> fl)"
      "frames_of (insert_node \<lparr>node_start = s, frame_count = e - s\<rparr> fl) = {s..<e} \<union> frames_of fl" by auto
    with None r(1) assms(3) show ?thesis
      by (auto simp: free_block_def list_insert_def frame_sub_def)
  qed (use r in \<open>auto simp: free_block_def\<close>)
qed


text \<open>The free list is the only well-formed list for its set of frames.\<close>

lemma fl_wf_unique:
  assumes "fl_wf lo fl" "fl_wf lo fl'" "frames_of fl = frames_of fl'"
  shows "fl = fl'"
  using assms
proof (induction fl arbitrary: lo fl')
  case Nil
  then show ?case by (cases fl') auto
next
  case (Cons b bs)
  from Cons.prems obtain c cs where fl': "fl' = c # cs" by (cases fl') auto
  note wb = Cons.prems(1) and wc = Cons.prems(2) [unfolded fl'] and eq = Cons.prems(3) [unfolded fl']
  have start: "node_start x \<le> node_start y" if "fl_wf lo (x # xs)" "fl_wf lo (y # ys)" "frames_of (x # xs) = frames_of (y # ys)" for x xs y ys
  proof -
    have "node_start y \<in> frames_of (x # xs)" using that by auto
    then show ?thesis using frames_of_lower [of "Suc (end_of x)" xs "node_start y"] that by auto
  qed
  have s: "node_start b = node_start c"
    by (rule le_antisym [OF start [OF wb wc eq] start [OF wc wb eq [symmetric]]])
  have stop: "end_of y \<le> end_of x" if "fl_wf lo (x # xs)" "fl_wf lo (y # ys)" "frames_of (x # xs) = frames_of (y # ys)" "node_start x = node_start y" for x xs y ys
  proof (rule ccontr)
    assume "\<not> ?thesis"
    then have "end_of x \<in> frames_of (y # ys)" using that by auto
    then have "end_of x \<in> frames_of xs" using that by auto
    then show False using frames_of_lower [of "Suc (end_of x)" xs "end_of x"] that by simp
  qed
  have e: "end_of b = end_of c"
    by (rule le_antisym [OF stop [OF wc wb eq [symmetric] s [symmetric]] stop [OF wb wc eq s]])
  have "frames_of xs = frames_of (x # xs) - {node_start x..<end_of x}" if "fl_wf lo (x # xs)" for x xs
    using frames_of_lower [of "Suc (end_of x)" xs] that by fastforce
  then have "frames_of bs = frames_of cs" using wb wc eq s e by metis
  moreover have "b = c" using s e by (cases b; cases c) simp
  ultimately show ?case using Cons.IH [of "Suc (end_of b)" cs] wb wc fl' by simp
qed


lemma reserve_block_above:
  "fl_wf lo fl \<Longrightarrow> e < lo \<Longrightarrow> reserve_block \<lparr>fr_start = s, fr_end = e\<rparr> fl = Some fl"
  by (cases fl) (simp_all add: reserve_block.simps)

lemma reserve_block_ok:
  assumes "fl_wf lo fl" "s < e" "\<forall>b \<in> set fl. \<not> (s \<le> node_start b \<and> end_of b \<le> e)"
  shows "\<exists>fl'. reserve_block \<lparr>fr_start = s, fr_end = e\<rparr> fl = Some fl' \<and> fl_wf lo fl'
    \<and> frames_of fl' = frames_of fl - {s..<e}"
  using assms
proof (induction fl arbitrary: lo)
  case (Cons b bs)
  let ?r = "\<lparr>fr_start = s, fr_end = e\<rparr>"
  have b: "lo \<le> node_start b" "0 < frame_count b" "end_of b < 2 ^ 40" "fl_wf (Suc (end_of b)) bs"
    using Cons.prems by simp_all
  have n: "node_end b = Some (end_of b)" using b by (simp add: node_end_def frame_add_def)
  obtain bs' where bs': "reserve_block ?r bs = Some bs'" "fl_wf (Suc (end_of b)) bs'"
      "frames_of bs' = frames_of bs - {s..<e}"
    using Cons.IH [OF b(4) Cons.prems(2)] Cons.prems(3) by auto
  note step = reserve_block.simps [of ?r "b # bs"]
  have above: "frames_of bs - {s..<e} = frames_of bs" if "e \<le> end_of b"
    using frames_of_lower [OF b(4)] that by fastforce
  have nf: "\<not> (s \<le> node_start b \<and> end_of b \<le> e)" using Cons.prems(3) by simp
  consider (over) "node_start b > e" | (tail) "node_start b < s" "s \<le> end_of b" "end_of b \<le> e"
    | (split) "node_start b < s" "e < end_of b" | (front) "s \<le> node_start b" "node_start b \<le> e" "e < end_of b"
    | (below) "end_of b < s"
    using nf Cons.prems(2) by linarith
  then show ?case
  proof cases
    case over
    then have "reserve_block ?r (b # bs) = Some (b # bs)" using step by simp
    moreover have "{node_start b..<end_of b} - {s..<e} = {node_start b..<end_of b}" using over by auto
    ultimately show ?thesis using over above Cons.prems(1) by (simp add: Un_Diff)
  next
    case tail
    have "b\<lparr>frame_count := frame_count b - (end_of b - s)\<rparr> = block_of (node_start b) s"
      using tail by (cases b) (auto simp: block_of_def)
    with step tail n bs' Cons.prems(2) have "reserve_block ?r (b # bs) = Some (block_of (node_start b) s # bs')" by simp
    moreover have "fl_wf (Suc s) bs'" using fl_wf_mono [OF bs'(2)] tail by simp
    moreover have "{node_start b..<end_of b} - {s..<e} = {node_start b..<s}" using tail by auto
    ultimately show ?thesis using tail b bs'(3) by (simp add: Un_Diff)
  next
    case split
    let ?a = "block_of e (end_of b)"
    have a: "node_end ?a = Some (end_of b)" using split b by (simp add: node_end_def frame_add_def)
    have rs: "reserve_block ?r bs = Some bs" using reserve_block_above [OF b(4)] split by simp
    have "reserve_block ?r (?a # bs) = Some (?a # bs)"
      using reserve_block.simps [of ?r "?a # bs"] a rs split Cons.prems(2) by (simp add: block_of_def)
    moreover have "b\<lparr>frame_count := s - node_start b\<rparr> = block_of (node_start b) s" by (cases b) (simp add: block_of_def)
    ultimately have "reserve_block ?r (b # bs) = Some (block_of (node_start b) s # ?a # bs)"
      using step split n Cons.prems(2) by (simp add: block_of_def)
    moreover have "{node_start b..<end_of b} - {s..<e} = {node_start b..<s} \<union> {e..<end_of b}"
      using split Cons.prems(2) by auto
    ultimately show ?thesis using split above b Cons.prems(2) by (simp add: Un_Diff Un_assoc)
  next
    case front
    have "\<lparr>node_start = node_start b + (e - node_start b), frame_count = frame_count b - (e - node_start b)\<rparr> = block_of e (end_of b)"
      using front by (simp add: block_of_def)
    with step front n bs' Cons.prems(2) have "reserve_block ?r (b # bs) = Some (block_of e (end_of b) # bs')"
      by (simp add: Let_def)
    moreover have "{node_start b..<end_of b} - {s..<e} = {e..<end_of b}" using front by auto
    ultimately show ?thesis using front b bs' by (simp add: Un_Diff)
  next
    case below
    then have "reserve_block ?r (b # bs) = Some (b # bs')" using step n bs' Cons.prems(2) b by simp
    moreover have "{node_start b..<end_of b} - {s..<e} = {node_start b..<end_of b}" using below by auto
    ultimately show ?thesis using below b bs' by (simp add: Un_Diff)
  qed
qed (simp add: reserve_block.simps)


section \<open>The module\<close>

text \<open>Frame 0 is never handed to the allocator.\<close>

definition frames_inv :: "frames_state \<Rightarrow> bool" where
  "frames_inv s \<longleftrightarrow> fl_wf 1 (PAGE_FRAME_ALLOCATOR s)"

definition free_frames :: "frames_state \<Rightarrow> nat set" where
  "free_frames s = frames_of (PAGE_FRAME_ALLOCATOR s)"

lemma frames_alloc_ok:
  assumes "frames_inv s" "0 < n" "\<exists>b \<in> set (PAGE_FRAME_ALLOCATOR s). n \<le> frame_count b"
  shows "\<exists>f s'. frames_alloc n s = Some (\<lparr>fr_start = f, fr_end = f + n\<rparr>, s') \<and> frames_inv s'
    \<and> {f..<f + n} \<subseteq> free_frames s \<and> free_frames s' = free_frames s - {f..<f + n} \<and> PHYS_LIMIT s' = PHYS_LIMIT s
    \<and> 1 \<le> f \<and> f + n < 2 ^ 40"
  using alloc_block_ok [of 1 "PAGE_FRAME_ALLOCATOR s" n] assms
  by (auto simp: frames_alloc_def frames_inv_def free_frames_def)

lemma frames_alloc_None:
  assumes "\<forall>b \<in> set (PAGE_FRAME_ALLOCATOR s). frame_count b < n"
  shows "frames_alloc n s = None"
  using find_free_block_None [of n "PAGE_FRAME_ALLOCATOR s"] assms
  by (simp add: frames_alloc_def alloc_block_def)

lemma frames_alloc_cases:
  assumes "frames_inv s" "0 < n" "frames_alloc n s = Some (r, s')"
  shows "\<exists>f. r = \<lparr>fr_start = f, fr_end = f + n\<rparr> \<and> frames_inv s'
    \<and> {f..<f + n} \<subseteq> free_frames s \<and> free_frames s' = free_frames s - {f..<f + n} \<and> 1 \<le> f \<and> f + n < 2 ^ 40"
proof -
  have "\<exists>b \<in> set (PAGE_FRAME_ALLOCATOR s). n \<le> frame_count b"
    using frames_alloc_None [of s n] assms(3) by (fastforce simp: not_less)
  from frames_alloc_ok [OF assms(1,2) this] assms(3) show ?thesis by auto
qed

lemma frames_free_ok:
  assumes "frames_inv s" "1 \<le> f" "f < e" "e < 2 ^ 40" "{f..<e} \<inter> free_frames s = {}"
  shows "\<exists>s'. frames_free \<lparr>fr_start = f, fr_end = e\<rparr> s = Some s' \<and> frames_inv s'
    \<and> free_frames s' = free_frames s \<union> {f..<e} \<and> PHYS_LIMIT s' = PHYS_LIMIT s"
  using free_block_ok [of 1 "PAGE_FRAME_ALLOCATOR s" f e] assms
  by (auto simp: frames_free_def frames_inv_def free_frames_def)

lemma frames_unique:
  assumes "frames_inv s" "frames_inv s'" "free_frames s = free_frames s'" "PHYS_LIMIT s = PHYS_LIMIT s'"
  shows "s = s'"
  using fl_wf_unique [of 1 "PAGE_FRAME_ALLOCATOR s" "PAGE_FRAME_ALLOCATOR s'"] assms
  by (cases s; cases s') (simp add: frames_inv_def free_frames_def)

lemma frames_restore:
  assumes "frames_inv s" "0 < n" "frames_alloc n s = Some (r, s')"
  shows "frames_free r s' = Some s"
proof -
  obtain f where r: "r = \<lparr>fr_start = f, fr_end = f + n\<rparr>" "frames_inv s'" "{f..<f + n} \<subseteq> free_frames s"
    "free_frames s' = free_frames s - {f..<f + n}" "1 \<le> f" "f + n < 2 ^ 40"
    using frames_alloc_cases [OF assms] by blast
  have "PHYS_LIMIT s' = PHYS_LIMIT s" using assms(3) by (auto simp: frames_alloc_def bind_eq_Some_conv)
  moreover obtain s'' where "frames_free r s' = Some s''" "frames_inv s''" "free_frames s'' = free_frames s' \<union> {f..<f + n}"
    "PHYS_LIMIT s'' = PHYS_LIMIT s'"
    using frames_free_ok [OF r(2,5) _ r(6)] r assms(2) by auto
  moreover have "free_frames s'' = free_frames s" using r(3,4) calculation(4) by auto
  ultimately show ?thesis using frames_unique [of s'' s] assms(1) by simp
qed

text \<open>
  Two things the walks over the list do not catch. A block that lies inside the reserved range is
  removed and the block after it is then not looked at, so that its reserved frames stay free; there
  is no block to move on to when the removed block was the last. A range that extends a block and
  reaches into the next free block is not reported as a double free.
\<close>

lemma reserve_block_skips_successor:
  "reserve_block \<lparr>fr_start = 1, fr_end = 10\<rparr>
     [\<lparr>node_start = 2, frame_count = 2\<rparr>, \<lparr>node_start = 5, frame_count = 2\<rparr>, \<lparr>node_start = 20, frame_count = 1\<rparr>] =
     Some [\<lparr>node_start = 5, frame_count = 2\<rparr>, \<lparr>node_start = 20, frame_count = 1\<rparr>]"
  "reserve_block \<lparr>fr_start = 1, fr_end = 10\<rparr> [\<lparr>node_start = 2, frame_count = 2\<rparr>] = None"
  by (simp_all add: reserve_block.simps node_end_def frame_add_def)

lemma free_block_misses_overlap:
  "free_block \<lparr>fr_start = 3, fr_end = 6\<rparr>
     [\<lparr>node_start = 1, frame_count = 2\<rparr>, \<lparr>node_start = 5, frame_count = 2\<rparr>] =
     Some [\<lparr>node_start = 1, frame_count = 5\<rparr>, \<lparr>node_start = 5, frame_count = 2\<rparr>]"
  by (simp add: free_block_def node_end_def frame_add_def frame_sub_def)

definition sample_frames :: frames_state where
  "sample_frames = \<lparr>PAGE_FRAME_ALLOCATOR = [\<lparr>node_start = 1, frame_count = 2\<rparr>, \<lparr>node_start = 8, frame_count = 9\<rparr>], PHYS_LIMIT = 17\<rparr>"

lemma sample_frames_inv: "frames_inv sample_frames"
  by (simp add: sample_frames_def frames_inv_def)

lemma sample_frames_free: "{3..<8} \<inter> free_frames sample_frames = {}"
  by (auto simp: sample_frames_def free_frames_def)

section \<open>Properties\<close>

text \<open>
  C7. Allocation returns memory that was free and nothing else changes: whenever some free block has at
  least \<open>n\<close> frames the call succeeds with exactly \<open>n\<close> contiguous frames, which were all free, never
  include frame 0, and are the only ones no longer free; otherwise it panics. The free list stays
  sorted, gap-separated and inside the physical address space.
\<close>

theorem frames_alloc_correct:
  assumes "frames_inv s" "0 < n"
  shows "((\<exists>b \<in> set (PAGE_FRAME_ALLOCATOR s). n \<le> frame_count b) \<longrightarrow>
      (\<exists>f s'. frames_alloc n s = Some (\<lparr>fr_start = f, fr_end = f + n\<rparr>, s') \<and> frames_inv s' \<and> f \<noteq> 0
        \<and> {f..<f + n} \<subseteq> free_frames s \<and> free_frames s' = free_frames s - {f..<f + n}))
    \<and> ((\<forall>b \<in> set (PAGE_FRAME_ALLOCATOR s). frame_count b < n) \<longrightarrow> frames_alloc n s = None)"
proof (intro conjI impI)
  assume "\<exists>b \<in> set (PAGE_FRAME_ALLOCATOR s). n \<le> frame_count b"
  from frames_alloc_ok [OF assms this] show
    "\<exists>f s'. frames_alloc n s = Some (\<lparr>fr_start = f, fr_end = f + n\<rparr>, s') \<and> frames_inv s' \<and> f \<noteq> 0
       \<and> {f..<f + n} \<subseteq> free_frames s \<and> free_frames s' = free_frames s - {f..<f + n}" by fastforce
qed (rule frames_alloc_None)

theorem frames_alloc_correct_witness:
  "\<exists>f s'. frames_alloc 3 sample_frames
     = Some (\<lparr>fr_start = f, fr_end = f + 3\<rparr>, s') \<and> frames_inv s'"
  using frames_alloc_correct [of sample_frames 3]
  using sample_frames_inv by (auto simp: sample_frames_def)

text \<open>
  C8. Freeing a range that is in use returns, makes exactly its frames free again and fuses it with its
  neighbours, so that the list stays in its canonical form.
\<close>

theorem frames_free_correct:
  assumes "frames_inv s" "1 \<le> f" "f < e" "e < 2 ^ 40" "{f..<e} \<inter> free_frames s = {}"
  shows "\<exists>s'. frames_free \<lparr>fr_start = f, fr_end = e\<rparr> s = Some s' \<and> frames_inv s'
    \<and> free_frames s' = free_frames s \<union> {f..<e}"
  using frames_free_ok [OF assms] by blast

theorem frames_free_correct_witness:
  "\<exists>s'. frames_free \<lparr>fr_start = 3, fr_end = 8\<rparr>
      sample_frames = Some s'
    \<and> frames_inv s'"
  using frames_free_correct [of sample_frames 3 8]
  using sample_frames_inv sample_frames_free by auto

text \<open>
  Freeing what was just allocated restores the allocator completely: the free list is the very same
  list of blocks as before.
\<close>

theorem frames_alloc_free_roundtrip:
  assumes "frames_inv s" "0 < n" "frames_alloc n s = Some (r, s')"
  shows "frames_free r s' = Some s"
  by (rule frames_restore [OF assms])

theorem frames_alloc_free_roundtrip_witness:
  "\<exists>r s'. frames_alloc 3 sample_frames = Some (r, s')
     \<and> frames_free r s' = Some sample_frames"
proof -
  obtain r s' where "frames_alloc 3 sample_frames = Some (r, s')"
    using frames_alloc_ok [OF sample_frames_inv, of 3] by (auto simp: sample_frames_def)
  with frames_alloc_free_roundtrip [OF sample_frames_inv _ this] show ?thesis by auto
qed

text \<open>
  Reserving a range of which no free block is a part removes exactly the frames of that range from the
  free ones, whether the range cuts the end, the beginning or the middle of a block.
\<close>

theorem frames_reserve_correct:
  assumes "frames_inv s" "f < e" "\<forall>b \<in> set (PAGE_FRAME_ALLOCATOR s). node_start b < f \<or> e < node_start b + frame_count b"
  shows "\<exists>s'. frames_reserve \<lparr>fr_start = f, fr_end = e\<rparr> s = Some s' \<and> frames_inv s'
    \<and> free_frames s' = free_frames s - {f..<e}"
  using reserve_block_ok [of 1 "PAGE_FRAME_ALLOCATOR s" f e] assms
  by (force simp: frames_reserve_def frames_inv_def free_frames_def not_le)

theorem frames_reserve_correct_witness:
  "\<exists>s'. frames_reserve \<lparr>fr_start = 2, fr_end = 10\<rparr>
      sample_frames = Some s'
    \<and> frames_inv s'"
  using frames_reserve_correct [of sample_frames 2 10]
  using sample_frames_inv by (auto simp: sample_frames_def)

end
