(* ===== verification/Kernel_Hal.thy ===== *)
theory Kernel_Hal
  imports Frame_Allocator_Correctness Virt_Queue_Layout
begin

text \<open>
  How the kernel implements the hardware abstraction of the driver library
  (\<^verbatim>\<open>kernel/src/hal.rs\<close>, \<^verbatim>\<open>kernel/src/dma/mod.rs\<close>): DMA memory comes from the page frame allocator and
  is mapped at its physical address. Marking the pages as uncached in the address space of the kernel
  process is the argument \<open>set_flags\<close>, which changes the state \<^verbatim>\<open>kernel_vas\<close>.
\<close>

section \<open>The implementation\<close>

record kernel_Dma =
  kdma_paddr :: u64
  kdma_vaddr :: u64
  kdma_size :: nat
  kdma_pages :: nat

record 'v hal_state =
  hal_frames :: frames_state
  kernel_vas :: 'v

text \<open>\<^verbatim>\<open>VirtAddr::new\<close> panics for addresses that are not canonical.\<close>

definition VirtAddr_new :: "u64 \<Rightarrow> u64 option" where
  "VirtAddr_new a = (if unat a < 2 ^ 47 \<or> 2 ^ 64 - 2 ^ 47 \<le> unat a then Some a else None)"

type_synonym 'v set_flags = "'v \<Rightarrow> u64 \<Rightarrow> u64 \<Rightarrow> 'v option"

definition kernel_Dma_new :: "'v set_flags \<Rightarrow> 'v hal_state \<Rightarrow> nat \<Rightarrow> (kernel_Dma \<times> 'v hal_state) option" where
  "kernel_Dma_new set_flags h n = do {
     rust_assert (n > 0);
     (phys_frames, fs) \<leftarrow> frames_alloc n (hal_frames h);
     let paddr = (of_nat (fr_start phys_frames * 4096) :: u64);
     first \<leftarrow> VirtAddr_new paddr;
     past \<leftarrow> VirtAddr_new (of_nat (fr_end phys_frames * 4096));
     vas \<leftarrow> set_flags (kernel_vas h) first past;
     rust_assert (paddr \<noteq> 0);
     Some (\<lparr>kdma_paddr = paddr, kdma_vaddr = paddr, kdma_size = n * 4096, kdma_pages = n\<rparr>,
           \<lparr>hal_frames = fs, kernel_vas = vas\<rparr>)
   }"

definition kernel_Dma_vaddr :: "kernel_Dma \<Rightarrow> nat \<Rightarrow> u64 option" where
  "kernel_Dma_vaddr self offset = do {
     rust_assert (offset < kdma_size self);
     Some (kdma_vaddr self + of_nat offset)
   }"

definition kernel_Dma_raw_slice :: "kernel_Dma \<Rightarrow> slice option" where
  "kernel_Dma_raw_slice self = do {
     v \<leftarrow> kernel_Dma_vaddr self 0;
     Some \<lparr>sl_ptr = v, sl_len = kdma_size self\<rparr>
   }"

definition HalImpl_dma_alloc :: "'v set_flags \<Rightarrow> 'v hal_state dma_alloc" where
  "HalImpl_dma_alloc set_flags h n direction = do {
     (dma, h') \<leftarrow> kernel_Dma_new set_flags h (unat n);
     vaddr \<leftarrow> kernel_Dma_vaddr dma 0;
     Some ((kdma_paddr dma, vaddr), h')
   }"

text \<open>The frame range of a region; the address must be that of a frame.\<close>

definition dma_frame_range :: "u64 \<Rightarrow> nat \<Rightarrow> PhysFrameRange option" where
  "dma_frame_range paddr n = do {
     rust_assert (unat paddr < 2 ^ 52);
     rust_assert (unat paddr mod 4096 = 0);
     e \<leftarrow> frame_add (unat paddr div 4096) n;
     Some \<lparr>fr_start = unat paddr div 4096, fr_end = e\<rparr>
   }"

definition HalImpl_dma_dealloc :: "'v hal_state dma_dealloc" where
  "HalImpl_dma_dealloc h paddr vaddr n = do {
     frame_range \<leftarrow> dma_frame_range paddr (unat n);
     fs \<leftarrow> frames_free frame_range (hal_frames h);
     Some (0, h\<lparr>hal_frames := fs\<rparr>)
   }"

definition kernel_Dma_drop :: "'v hal_state \<Rightarrow> kernel_Dma \<Rightarrow> 'v hal_state option" where
  "kernel_Dma_drop h self = do {
     frame_range \<leftarrow> dma_frame_range (kdma_paddr self) (kdma_pages self);
     fs \<leftarrow> frames_free frame_range (hal_frames h);
     Some (h\<lparr>hal_frames := fs\<rparr>)
   }"

definition HalImpl_mmio_phys_to_virt :: "u64 \<Rightarrow> u64 \<Rightarrow> u64 option" where
  "HalImpl_mmio_phys_to_virt paddr sz = do { rust_assert (paddr \<noteq> 0); Some paddr }"

definition HalImpl_share :: "slice \<Rightarrow> BufferDirection \<Rightarrow> u64" where
  "HalImpl_share buffer direction = sl_ptr buffer"

section \<open>It provides DMA memory\<close>

definition hal_ok :: "'v hal_state \<Rightarrow> bool" where
  "hal_ok h \<longleftrightarrow> frames_inv (hal_frames h)"

lemma unat_frame_addr:
  assumes "f < 2 ^ 40"
  shows "unat (of_nat (f * 4096) :: u64) = f * 4096"
  using assms unat_of_nat_bound [where 'a = 64, of "f * 4096"] by simp

lemma HalImpl_dma_alloc_cases:
  assumes "hal_ok h" "0 < n" "HalImpl_dma_alloc set_flags h n d = Some ((p, v), h')"
  shows "\<exists>f. frames_alloc (unat n) (hal_frames h) = Some (\<lparr>fr_start = f, fr_end = f + unat n\<rparr>, hal_frames h')
    \<and> p = of_nat (f * 4096) \<and> v = p \<and> unat p = f * 4096 \<and> 1 \<le> f \<and> f + unat n < 2 ^ 40 \<and> hal_ok h'
    \<and> {f..<f + unat n} \<subseteq> free_frames (hal_frames h)
    \<and> free_frames (hal_frames h') = free_frames (hal_frames h) - {f..<f + unat n}"
proof -
  have n: "0 < unat n" using assms(2) by (simp add: word_less_nat_alt)
  from assms(3) obtain r where r: "frames_alloc (unat n) (hal_frames h) = Some (r, hal_frames h')"
    "p = of_nat (fr_start r * 4096)" "v = p"
    by (auto simp: HalImpl_dma_alloc_def kernel_Dma_new_def kernel_Dma_vaddr_def bind_eq_Some_conv Let_def)
  from frames_alloc_cases [OF _ n r(1)] assms(1) obtain f where
    f: "r = \<lparr>fr_start = f, fr_end = f + unat n\<rparr>" "frames_inv (hal_frames h')" "1 \<le> f" "f + unat n < 2 ^ 40"
      "{f..<f + unat n} \<subseteq> free_frames (hal_frames h)"
      "free_frames (hal_frames h') = free_frames (hal_frames h) - {f..<f + unat n}"
    by (auto simp: hal_ok_def)
  then show ?thesis using r unat_frame_addr [of f] by (simp add: hal_ok_def)
qed

interpretation HalImpl: dma_provider "HalImpl_dma_alloc set_flags" hal_ok
proof
  fix h :: "'a hal_state" and n d p v h'
  assume a: "hal_ok h" "0 < n" "HalImpl_dma_alloc set_flags h n d = Some ((p, v), h')"
  then obtain f where f: "unat p = f * 4096" "v = p" "1 \<le> f" "f + unat n < 2 ^ 40" "hal_ok h'"
    using HalImpl_dma_alloc_cases by blast
  show "hal_ok h'" by (rule f(5))
  have "p \<noteq> 0" using f by auto
  moreover have "unat p + unat n * 4096 < 2 ^ 64" using f by simp
  ultimately show "region_ok p n \<and> region_ok v n" using f by (simp add: region_ok_def)
qed

section \<open>A queue on kernel memory\<close>

text \<open>Memory below 16 TiB: every frame number fits the 32-bit page number of a legacy queue.\<close>

definition frames_below :: "frames_state \<Rightarrow> bool" where
  "frames_below s \<longleftrightarrow> (\<forall>b \<in> set (PAGE_FRAME_ALLOCATOR s). end_of b \<le> 2 ^ 32)"

definition has_block :: "frames_state \<Rightarrow> nat \<Rightarrow> bool" where
  "has_block s n \<longleftrightarrow> (\<exists>b \<in> set (PAGE_FRAME_ALLOCATOR s). n \<le> frame_count b)"

lemma set_insert_node: "set (insert_node r fl) = insert r (set fl)"
  by (induction fl) auto

lemma frames_alloc_leaves:
  assumes "frames_alloc n s = Some (r, s')" "frames_below s"
  shows "frames_below s'" "has_block s (n + k) \<Longrightarrow> 0 < k \<Longrightarrow> has_block s' k" "fr_end r \<le> 2 ^ 32"
proof -
  from assms(1) obtain b rest where f: "find_free_block n (PAGE_FRAME_ALLOCATOR s) = Some (b, rest)"
    by (auto simp: frames_alloc_def alloc_block_def bind_eq_Some_conv split: option.splits)
  then obtain pre post where fl: "PAGE_FRAME_ALLOCATOR s = pre @ b # post" and rest: "rest = pre @ post" and nb: "n \<le> frame_count b"
    using find_free_block_split by blast
  let ?r = "\<lparr>node_start = node_start b + n, frame_count = frame_count b - n\<rparr>"
  have s': "set (PAGE_FRAME_ALLOCATOR s') = (if n < frame_count b then insert ?r (set rest) else set rest)"
    and r: "fr_start r = node_start b" "fr_end r = node_start b + n"
    using assms(1) f nb
    by (auto simp: frames_alloc_def alloc_block_def bind_eq_Some_conv frame_add_def frame_sub_def node_end_def
        list_insert_def set_insert_node split: if_splits)
  have bb: "end_of b \<le> 2 ^ 32" using assms(2) fl by (simp add: frames_below_def)
  show "frames_below s'" using assms(2) s' fl rest nb bb by (auto simp: frames_below_def)
  show "fr_end r \<le> 2 ^ 32" using r bb nb by simp
  show "has_block s' k" if "has_block s (n + k)" "0 < k"
  proof -
    from that obtain c where c: "c \<in> set (PAGE_FRAME_ALLOCATOR s)" "n + k \<le> frame_count c" by (auto simp: has_block_def)
    show ?thesis
    proof (cases "c = b")
      case True
      then show ?thesis using s' c that(2) by (auto simp: has_block_def)
    next
      case False
      then have "c \<in> set rest" using c(1) fl rest by auto
      then have "c \<in> set (PAGE_FRAME_ALLOCATOR s')" using s' by auto
      moreover have "k \<le> frame_count c" using c(2) by simp
      ultimately show ?thesis by (auto simp: has_block_def)
    qed
  qed
qed


lemma HalImpl_dma_alloc_succeeds:
  assumes "hal_ok h" "0 < n" "has_block (hal_frames h) (unat n)" "frames_below (hal_frames h)"
    and "\<And>v a b. set_flags v a b \<noteq> None"
  shows "\<exists>p h'. HalImpl_dma_alloc set_flags h n d = Some ((p, p), h') \<and> p \<noteq> 0 \<and> unat p < 2 ^ 44 \<and> hal_ok h'
    \<and> frames_below (hal_frames h')
    \<and> (\<forall>k. has_block (hal_frames h) (unat n + k) \<and> 0 < k \<longrightarrow> has_block (hal_frames h') k)"
proof -
  have n: "0 < unat n" using assms(2) by (simp add: word_less_nat_alt)
  obtain f s' where A: "frames_alloc (unat n) (hal_frames h) = Some (\<lparr>fr_start = f, fr_end = f + unat n\<rparr>, s')"
    "frames_inv s'" "1 \<le> f" "f + unat n < 2 ^ 40"
    using frames_alloc_ok [OF assms(1) [unfolded hal_ok_def] n assms(3) [unfolded has_block_def]] by blast
  note B = frames_alloc_leaves [OF A(1) assms(4)]
  have f: "f + unat n \<le> 2 ^ 32" using B(3) by simp
  have u: "unat (of_nat (f * 4096) :: u64) = f * 4096" "unat (of_nat ((f + unat n) * 4096) :: u64) = (f + unat n) * 4096"
    using unat_frame_addr A(4) by (simp_all only:)
  have v: "VirtAddr_new (of_nat (f * 4096)) = Some (of_nat (f * 4096))"
    "VirtAddr_new (of_nat ((f + unat n) * 4096)) = Some (of_nat ((f + unat n) * 4096))"
    using f unfolding VirtAddr_new_def u by simp_all
  obtain vas where vas: "set_flags (kernel_vas h) (of_nat (f * 4096)) (of_nat ((f + unat n) * 4096)) = Some vas"
    using assms(5) by blast
  have p0: "(of_nat (f * 4096) :: u64) \<noteq> 0" using u(1) A(3) by (metis mult_eq_0_iff not_one_le_zero unat_0 zero_neq_numeral)
  let ?h' = "\<lparr>hal_frames = s', kernel_vas = vas\<rparr>"
  have "HalImpl_dma_alloc set_flags h n d = Some ((of_nat (f * 4096), of_nat (f * 4096)), ?h')"
    using A(1) n v vas p0
    by (simp add: HalImpl_dma_alloc_def kernel_Dma_new_def kernel_Dma_vaddr_def Let_def panic_simps del: of_nat_mult)
  moreover have "unat (of_nat (f * 4096) :: u64) < 2 ^ 44" unfolding u(1) using f n by simp
  ultimately show ?thesis using p0 A(2) B(1,2) by (intro exI [of _ "of_nat (f * 4096)"] exI [of _ ?h']) (simp add: hal_ok_def del: of_nat_mult)
qed

lemma Dma_new_succeeds:
  assumes "hal_ok h" "0 < n" "has_block (hal_frames h) (unat n)" "frames_below (hal_frames h)"
    and "\<And>v a b. set_flags v a b \<noteq> None"
  shows "\<exists>dma h'. Dma_new (HalImpl_dma_alloc set_flags) h n d = Some (Inr dma, h') \<and> unat (dma_paddr dma) < 2 ^ 44
    \<and> frames_below (hal_frames h') \<and> hal_ok h'
    \<and> (\<forall>k. has_block (hal_frames h) (unat n + k) \<and> 0 < k \<longrightarrow> has_block (hal_frames h') k)"
proof -
  obtain p h' where "HalImpl_dma_alloc set_flags h n d = Some ((p, p), h')" "p \<noteq> 0" "unat p < 2 ^ 44" "hal_ok h'"
    "frames_below (hal_frames h')" "\<forall>k. has_block (hal_frames h) (unat n + k) \<and> 0 < k \<longrightarrow> has_block (hal_frames h') k"
    using HalImpl_dma_alloc_succeeds [where set_flags = set_flags, OF assms] by blast
  then show ?thesis
    by (intro exI [of _ "\<lparr>dma_paddr = p, dma_vaddr = p, dma_pages = n\<rparr>"] exI [of _ h']) (simp add: Dma_new_def)
qed


lemma has_block_mono: "has_block s n \<Longrightarrow> m \<le> n \<Longrightarrow> has_block s m"
  by (force simp: has_block_def)

lemma allocate_kernel:
  assumes "hal_ok h" "size_ok n" "has_block (hal_frames h) (front_pages n + back_pages n)" "frames_below (hal_frames h)"
    and sf: "\<And>v a b. set_flags v a b \<noteq> None"
  shows "\<exists>lay h'. (if legacy then allocate_legacy (HalImpl_dma_alloc set_flags) h (of_nat n)
      else allocate_flexible (HalImpl_dma_alloc set_flags) dealloc h (of_nat n)) = Some (Inr lay, h')
    \<and> layout_ok n lay \<and> is_LegacyLayout lay = legacy \<and> unat (descriptors_paddr lay) < 2 ^ 44 \<and> hal_ok h'"
proof (cases legacy)
  case True
  let ?n = "(of_nat (front_pages n * 4096) + of_nat (back_pages n * 4096)) div PAGE_SIZE :: u64"
  have p: "0 < ?n" "unat ?n = front_pages n + back_pages n" using legacy_page_count [OF assms(2)] by blast+
  obtain dma h' where D: "Dma_new (HalImpl_dma_alloc set_flags) h ?n Both = Some (Inr dma, h')" "unat (dma_paddr dma) < 2 ^ 44"
    using Dma_new_succeeds [where set_flags = set_flags and d = Both, OF assms(1) p(1) _ assms(4) sf] assms(3) p(2) by auto
  let ?lay = "LegacyLayout dma (of_nat (16 * n)) (of_nat (front_pages n * 4096))"
  have A: "allocate_legacy (HalImpl_dma_alloc set_flags) h (of_nat n) = Some (Inr ?lay, h')"
    using D(1) unfolding allocate_legacy_eq [OF assms(2)] by simp
  from HalImpl.allocate_legacy_ok [OF assms(1,2) A] A D(2) True show ?thesis by auto
next
  case False
  have bp: "0 < back_pages n" using legacy_parts(4) [OF assms(2)] by (cases "back_pages n") auto
  obtain d2d h1 where D: "Dma_new (HalImpl_dma_alloc set_flags) h (pages (of_nat (16 * n) + of_nat (6 + 2 * n))) DriverToDevice = Some (Inr d2d, h1)"
    "unat (dma_paddr d2d) < 2 ^ 44" "frames_below (hal_frames h1)" "hal_ok h1" "has_block (hal_frames h1) (back_pages n)"
    using Dma_new_succeeds [where set_flags = set_flags and d = DriverToDevice, OF assms(1) flexible_page_count(1) [OF assms(2)] _ assms(4) sf]
      flexible_page_count [OF assms(2)] assms(3) has_block_mono [OF assms(3), of "front_pages n"] bp by auto
  obtain dev h2 where E: "Dma_new (HalImpl_dma_alloc set_flags) h1 (pages (of_nat (6 + 8 * n))) DeviceToDriver = Some (Inr dev, h2)"
    using Dma_new_succeeds [where set_flags = set_flags and d = DeviceToDriver, OF D(4) flexible_page_count(3) [OF assms(2)] _ D(3) sf]
      flexible_page_count [OF assms(2)] D(5) by auto
  have A: "allocate_flexible (HalImpl_dma_alloc set_flags) dealloc h (of_nat n) = Some (Inr (ModernLayout d2d dev (of_nat (16 * n))), h2)"
    using D(1) E unfolding allocate_flexible_def queue_part_sizes_ok [OF assms(2)] by (simp del: of_nat_mult of_nat_add)
  from HalImpl.allocate_flexible_ok [OF assms(1,2) A] A D(2) False show ?thesis by auto
qed


text \<open>
  The trait asks \<^verbatim>\<open>dma_alloc\<close> for zeroed pages; the kernel returns the frames as they are. What the used
  ring of a new queue reports depends on it: with anything but 0 in its index field the queue
  believes that the device has already returned a buffer.
\<close>

lemma new_queue_can_pop:
  assumes "VirtQueue_new T dma_alloc dma_dealloc mem n t h qi ind ev = Some (Inr q, t', h')"
  shows "can_pop q \<longleftrightarrow> used_ring_idx (mem_used (mem (layout q))) \<noteq> 0"
  using assms
  by (auto simp: VirtQueue_new_def bind_eq_Some_conv case_result_eq_Some Let_def can_pop_def split: if_splits)

section \<open>A concrete machine\<close>

definition zeroed_memory :: "nat \<Rightarrow> queue_memory" where
  "zeroed_memory n = \<lparr>mem_desc = replicate n zero_descriptor,
     mem_avail = \<lparr>avail_flags = 0, avail_ring_idx = 0, avail_ring = replicate n 0, used_event = 0\<rparr>,
     mem_used = \<lparr>used_flags = 0, used_ring_idx = 0, used_ring = replicate n \<lparr>elem_id = 0, elem_len = 0\<rparr>, avail_event = 0\<rparr>\<rparr>"

definition sample_device :: "unit mmio_device" where
  "sample_device = \<lparr>reg_read = (\<lambda>d r. if r = Queue_num_max then 256 else 0), reg_write = (\<lambda>d r v. d),
     cfg_read = (\<lambda>d i n. replicate n 0), cfg_write = (\<lambda>d i bs. d)\<rparr>"

definition sample_transport :: "unit MmioTransport" where
  "sample_transport = \<lparr>header = (), config_space_len = 256, mmio_version = Legacy, mmio_device_type = Block\<rparr>"

definition sample_hal :: "unit hal_state" where
  "sample_hal = \<lparr>hal_frames = \<lparr>PAGE_FRAME_ALLOCATOR = [\<lparr>node_start = 1, frame_count = 100\<rparr>], PHYS_LIMIT = 101\<rparr>, kernel_vas = ()\<rparr>"

lemma sample_size_ok: "size_ok 4"
  unfolding size_ok_def by (rule exI [of _ 2]) simp

section \<open>Properties\<close>



text \<open>
  DMA memory handed out by the kernel is exclusive and can be returned: the region is page aligned,
  not at address 0, was free and is free no longer, and \<^verbatim>\<open>dma_dealloc\<close> with the values that
  \<^verbatim>\<open>dma_alloc\<close> returned succeeds and restores the frame allocator exactly.
\<close>

theorem dma_alloc_dealloc_roundtrip:
  assumes "hal_ok h" "0 < n" "HalImpl_dma_alloc set_flags h n d = Some ((p, v), h')"
  shows "unat p mod 4096 = 0 \<and> p \<noteq> 0 \<and> v = p
    \<and> {unat p div 4096..<unat p div 4096 + unat n} \<subseteq> free_frames (hal_frames h)
    \<and> {unat p div 4096..<unat p div 4096 + unat n} \<inter> free_frames (hal_frames h') = {}
    \<and> HalImpl_dma_dealloc h' p v n = Some (0, h'\<lparr>hal_frames := hal_frames h\<rparr>)"
proof -
  obtain f where f: "frames_alloc (unat n) (hal_frames h) = Some (\<lparr>fr_start = f, fr_end = f + unat n\<rparr>, hal_frames h')"
    "v = p" "unat p = f * 4096" "1 \<le> f" "f + unat n < 2 ^ 40" "hal_ok h'"
    "{f..<f + unat n} \<subseteq> free_frames (hal_frames h)"
    "free_frames (hal_frames h') = free_frames (hal_frames h) - {f..<f + unat n}"
    using HalImpl_dma_alloc_cases [OF assms] by blast
  have n: "0 < unat n" using assms(2) by (simp add: word_less_nat_alt)
  have "frames_free \<lparr>fr_start = f, fr_end = f + unat n\<rparr> (hal_frames h') = Some (hal_frames h)"
    using frames_restore [OF _ n f(1)] assms(1) by (simp add: hal_ok_def)
  then have "HalImpl_dma_dealloc h' p v n = Some (0, h'\<lparr>hal_frames := hal_frames h\<rparr>)"
    using f by (simp add: HalImpl_dma_dealloc_def dma_frame_range_def frame_add_def panic_simps)
  moreover have "p \<noteq> 0" using f by auto
  ultimately show ?thesis using f by auto
qed

theorem dma_alloc_dealloc_roundtrip_witness:
  "\<exists>p h'. HalImpl_dma_alloc (\<lambda>v a b. Some v) sample_hal 3 Both = Some ((p, p), h')
     \<and> HalImpl_dma_dealloc h' p p 3 = Some (0, h'\<lparr>hal_frames := hal_frames sample_hal\<rparr>)"
proof -
  have ok: "hal_ok sample_hal" by (simp add: sample_hal_def hal_ok_def frames_inv_def)
  obtain p h' where a: "HalImpl_dma_alloc (\<lambda>v a b. Some v) sample_hal 3 Both = Some ((p, p), h')"
    using HalImpl_dma_alloc_succeeds [where set_flags = "\<lambda>v a b. Some v", OF ok, of 3 Both]
    by (auto simp: sample_hal_def has_block_def frames_below_def)
  from dma_alloc_dealloc_roundtrip [OF ok _ a] a show ?thesis by auto
qed

end
