(* ===== verification/Token_Queue.thy ===== *)
theory Token_Queue
  imports Virt_Queue_Properties
begin

text \<open>
  The interface between a virtqueue and the device drivers on top of it. A driver identifies a
  request by the token that \<^verbatim>\<open>add\<close> returned; the laws say which token that is, that a request can be
  taken back with its token and buffers, and what becomes of the free descriptors. Drivers that keep
  a buffer per token (input events, received packets, the owning queue) rely on the consequence that
  a buffer which is taken back and added again at once keeps its token.
\<close>

section \<open>The interface\<close>

type_synonym request = "u16 list \<times> slice list \<times> slice list"

locale token_queue =
  fixes add :: "'q \<Rightarrow> slice list \<Rightarrow> slice list \<Rightarrow> ((Error + u16) \<times> 'q \<times> hal_call list) option"
    and peek :: "'q \<Rightarrow> u16 option option"
    and pop :: "'q \<Rightarrow> u16 \<Rightarrow> slice list \<Rightarrow> slice list \<Rightarrow> ((Error + u32) \<times> 'q \<times> hal_call list) option"
    and used_length :: "'q \<Rightarrow> u32"
    and capacity :: "'q \<Rightarrow> nat"
    and chain_length :: "'q \<Rightarrow> nat \<Rightarrow> nat"
    and holds :: "'q \<Rightarrow> u16 list \<Rightarrow> request list \<Rightarrow> bool"
  assumes chain_length_pos: "0 < n \<Longrightarrow> 0 < chain_length q n"
    and add_law: "\<lbrakk>holds q free rs; \<forall>b \<in> set (ins @ outs). 0 < sl_len b \<and> sl_len b < 2 ^ 32;
        0 < length ins + length outs; length ins + length outs \<le> capacity q;
        chain_length q (length ins + length outs) \<le> length free\<rbrakk> \<Longrightarrow>
      \<exists>q' calls. add q ins outs = Some (Inr (hd free), q', calls)
        \<and> holds q' (drop (chain_length q (length ins + length outs)) free)
            (rs @ [(take (chain_length q (length ins + length outs)) free, ins, outs)])
        \<and> capacity q' = capacity q \<and> chain_length q' = chain_length q"
    and pop_law: "\<lbrakk>holds q free rs; (c, ins, outs) \<in> set rs; peek q = Some (Some (hd c))\<rbrakk> \<Longrightarrow>
      \<exists>q' calls. pop q (hd c) ins outs = Some (Inr (used_length q), q', calls)
        \<and> holds q' (c @ free) (remove1 (c, ins, outs) rs)
        \<and> capacity q' = capacity q \<and> chain_length q' = chain_length q"
begin

text \<open>Taking a request back and adding the same buffers again yields the same token.\<close>

lemma recycle_same_token:
  assumes "holds q free rs" "(c, ins, outs) \<in> set rs" "peek q = Some (Some (hd c))"
    and "\<forall>b \<in> set (ins @ outs). 0 < sl_len b \<and> sl_len b < 2 ^ 32"
    and "0 < length ins + length outs" "length ins + length outs \<le> capacity q"
    and "length c = chain_length q (length ins + length outs)"
  shows "\<exists>q1 calls1 q2 calls2. pop q (hd c) ins outs = Some (Inr (used_length q), q1, calls1)
    \<and> add q1 ins outs = Some (Inr (hd c), q2, calls2)
    \<and> holds q2 free (remove1 (c, ins, outs) rs @ [(c, ins, outs)])
    \<and> capacity q2 = capacity q \<and> chain_length q2 = chain_length q"
proof -
  obtain q1 calls1 where P: "pop q (hd c) ins outs = Some (Inr (used_length q), q1, calls1)"
    "holds q1 (c @ free) (remove1 (c, ins, outs) rs)" "capacity q1 = capacity q" "chain_length q1 = chain_length q"
    using pop_law [OF assms(1-3)] by blast
  have "c \<noteq> []" using chain_length_pos [OF assms(5), of q] assms(7) by auto
  then obtain q2 calls2 where "add q1 ins outs = Some (Inr (hd c), q2, calls2)"
    "holds q2 free (remove1 (c, ins, outs) rs @ [(c, ins, outs)])" "capacity q2 = capacity q1" "chain_length q2 = chain_length q1"
    using add_law [OF P(2) assms(4,5)] P(3,4) assms(6,7) by auto
  with P show ?thesis by auto
qed

text \<open>A driver can fill an empty queue with requests of one buffer each and gets the tokens in order.\<close>

lemma add_in_order:
  assumes "holds q (t # free) rs" "0 < sl_len b" "sl_len b < 2 ^ 32" "1 \<le> capacity q" "chain_length q 1 = 1"
  shows "\<exists>q' calls. add q [] [b] = Some (Inr t, q', calls) \<and> holds q' free (rs @ [([t], [], [b])])
    \<and> capacity q' = capacity q \<and> chain_length q' = chain_length q"
  using add_law [OF assms(1), of "[]" "[b]"] assms(2-5) by auto

end

section \<open>The virtqueue provides it\<close>

definition request_entry_of :: "request \<Rightarrow> u16 list \<times> buffer list" where
  "request_entry_of r = (fst r, InputOutputIter_items (snd r))"

definition vq_holds :: "share \<Rightarrow> VirtQueue \<Rightarrow> u16 list \<Rightarrow> request list \<Rightarrow> bool" where
  "vq_holds share q free rs \<longleftrightarrow> vq_inv share q \<lparr>a_free = free, a_flight = map request_entry_of rs\<rparr>"

lemma inj_request_entry_of: "inj request_entry_of"
proof (rule injI)
  fix x y :: request
  assume eq: "request_entry_of x = request_entry_of y"
  have split: "map fst (filter (\<lambda>b. snd b = DriverToDevice) (InputOutputIter_items (i, out))) = i"
    "map fst (filter (\<lambda>b. snd b = DeviceToDriver) (InputOutputIter_items (i, out))) = out" for i out
    by (simp_all add: InputOutputIter_items_eq filter_map o_def)
  have "fst x = fst y" and items: "InputOutputIter_items (snd x) = InputOutputIter_items (snd y)"
    using eq by (simp_all add: request_entry_of_def)
  moreover have "fst (snd x) = fst (snd y)" using items split(1) by (metis prod.collapse)
  moreover have "snd (snd x) = snd (snd y)" using items split(2) by (metis prod.collapse)
  ultimately show "x = y" by (simp add: prod_eq_iff)
qed

lemma map_remove1_inj: "inj f \<Longrightarrow> remove1 (f x) (map f xs) = map f (remove1 x xs)"
  by (induction xs) (auto dest: injD)

lemma buffers_ok_items:
  "\<forall>b \<in> set (ins @ outs). 0 < sl_len b \<and> sl_len b < 2 ^ 32 \<Longrightarrow> \<forall>b \<in> set (InputOutputIter_items (ins, outs)). buffer_ok b"
  by (auto simp: InputOutputIter_items_eq buffer_ok_def)

lemma peek_used_D:
  assumes "peek_used q = Some (Some t)"
  shows "can_pop q" "ucast (elem_id (used_ring (used q) ! slot q (last_used_idx q))) = t"
  using assms by (auto simp: peek_used_def idx_def split: if_splits)

text \<open>The number of bytes that the device reports for the next element of the used ring.\<close>

definition next_used_len :: "VirtQueue \<Rightarrow> u32" where
  "next_used_len q = elem_len (used_ring (used q) ! slot q (last_used_idx q))"

interpretation vq: token_queue "VirtQueue_add share p" peek_used pop_used next_used_len "\<lambda>q. SIZE q" needed "vq_holds share"
proof
  fix q :: VirtQueue and n :: nat
  show "0 < n \<Longrightarrow> 0 < needed q n" by (simp add: needed_def)
next
  fix q free rs and ins outs :: "slice list"
  let ?n = "length ins + length outs"
  assume h: "vq_holds share q free rs" and b: "\<forall>b \<in> set (ins @ outs). 0 < sl_len b \<and> sl_len b < 2 ^ 32"
    and n: "0 < ?n" "?n \<le> SIZE q" "needed q ?n \<le> length free"
  let ?a = "\<lparr>a_free = free, a_flight = map request_entry_of rs\<rparr>"
  have "abs_add (needed q ?n) (InputOutputIter_items (ins, outs)) ?a =
      \<lparr>a_free = drop (needed q ?n) free, a_flight = map request_entry_of (rs @ [(take (needed q ?n) free, ins, outs)])\<rparr>"
    by (simp add: abs_add_def request_entry_of_def)
  with VirtQueue_add_refines [OF h [unfolded vq_holds_def] buffers_ok_items [OF b] n(1,2)] n(3)
  show "\<exists>q' calls. VirtQueue_add share p q ins outs = Some (Inr (hd free), q', calls)
      \<and> vq_holds share q' (drop (needed q ?n) free) (rs @ [(take (needed q ?n) free, ins, outs)])
      \<and> SIZE q' = SIZE q \<and> needed q' = needed q"
    by (fastforce simp: vq_holds_def same_rings_def needed_def fun_eq_iff)
next
  fix q free rs c and ins outs :: "slice list"
  assume h: "vq_holds share q free rs" and r: "(c, ins, outs) \<in> set rs" and p: "peek_used q = Some (Some (hd c))"
  let ?a = "\<lparr>a_free = free, a_flight = map request_entry_of rs\<rparr>"
  have e: "(c, InputOutputIter_items (ins, outs)) \<in> set (a_flight ?a)"
    using r by (force simp: request_entry_of_def)
  have "abs_pop (c, InputOutputIter_items (ins, outs)) ?a =
      \<lparr>a_free = c @ free, a_flight = map request_entry_of (remove1 (c, ins, outs) rs)\<rparr>"
    using map_remove1_inj [OF inj_request_entry_of, of "(c, ins, outs)" rs] by (simp add: abs_pop_def request_entry_of_def)
  with pop_used_refines [OF h [unfolded vq_holds_def] e] peek_used_D [OF p]
  show "\<exists>q' calls. pop_used q (hd c) ins outs = Some (Inr (next_used_len q), q', calls)
      \<and> vq_holds share q' (c @ free) (remove1 (c, ins, outs) rs) \<and> SIZE q' = SIZE q \<and> needed q' = needed q"
    by (fastforce simp: vq_holds_def popped_def needed_def fun_eq_iff next_used_len_def)
qed

end
