(* ===== verification/Owning_Queue.thy ===== *)
theory Owning_Queue
  imports Token_Queue
begin

text \<open>
  The queue that owns its buffers (\<^verbatim>\<open>virtio-drivers/src/queue/owning.rs\<close>). The addresses at which the
  global allocator places the buffers are an argument of \<open>OwningQueue_new\<close>; \<open>mem\<close> is what memory holds
  when the driver looks at a buffer. A handler may capture state of its caller, so it is a function
  on such a state.
\<close>

section \<open>The operations\<close>

record OwningQueue =
  oq_queue :: VirtQueue
  oq_buffers :: "u64 list"

abbreviation oq_slice :: "nat \<Rightarrow> u64 \<Rightarrow> slice" where
  "oq_slice BUFFER_SIZE p \<equiv> \<lparr>sl_ptr = p, sl_len = BUFFER_SIZE\<rparr>"

text \<open>The loop of \<^verbatim>\<open>new\<close>, from buffer \<open>i\<close> on.\<close>

fun OwningQueue_fill :: "share \<Rightarrow> nat \<Rightarrow> nat \<Rightarrow> u64 list \<Rightarrow> VirtQueue \<Rightarrow> (Error + VirtQueue) option" where
  "OwningQueue_fill share BUFFER_SIZE i [] queue = Some (Inr queue)"
| "OwningQueue_fill share BUFFER_SIZE i (buffer # buffers) queue = do {
     (r, queue1, calls) \<leftarrow> VirtQueue_add share 0 queue [] [oq_slice BUFFER_SIZE buffer];
     (case r of
        Inl e \<Rightarrow> Some (Inl e)
      | Inr token \<Rightarrow> do {
          rust_assert (i = unat token);
          OwningQueue_fill share BUFFER_SIZE (Suc i) buffers queue1
        })
   }"

definition OwningQueue_new :: "share \<Rightarrow> nat \<Rightarrow> u64 list \<Rightarrow> VirtQueue \<Rightarrow> (Error + OwningQueue) option" where
  "OwningQueue_new share BUFFER_SIZE boxes queue = do {
     let bs = take (SIZE queue) boxes;
     r \<leftarrow> OwningQueue_fill share BUFFER_SIZE 0 bs queue;
     (case r of
        Inl e \<Rightarrow> Some (Inl e)
      | Inr queue1 \<Rightarrow> do {
          rust_assert (0 \<notin> set bs);
          Some (Inr \<lparr>oq_queue = queue1, oq_buffers = bs\<rparr>)
        })
   }"

definition OwningQueue_should_notify :: "OwningQueue \<Rightarrow> bool" where
  "OwningQueue_should_notify self = should_notify (oq_queue self)"

definition OwningQueue_set_dev_notify :: "OwningQueue \<Rightarrow> bool \<Rightarrow> OwningQueue" where
  "OwningQueue_set_dev_notify self enable = self\<lparr>oq_queue := set_dev_notify (oq_queue self) enable\<rparr>"

definition add_buffer_to_queue ::
    "share \<Rightarrow> 't Transport \<Rightarrow> nat \<Rightarrow> OwningQueue \<Rightarrow> u16 \<Rightarrow> 't \<Rightarrow> ((Error + unit) \<times> OwningQueue \<times> 't) option" where
  "add_buffer_to_queue share T BUFFER_SIZE self index transport =
     (if unat index < length (oq_buffers self) then do {
        (r, queue1, calls) \<leftarrow>
          VirtQueue_add share 0 (oq_queue self) [] [oq_slice BUFFER_SIZE (oq_buffers self ! unat index)];
        (case r of
           Inl e \<Rightarrow> Some (Inl e, self\<lparr>oq_queue := queue1\<rparr>, transport)
         | Inr new_token \<Rightarrow> do {
             rust_assert (new_token = index);
             transport1 \<leftarrow>
               (if should_notify queue1 then notify T transport (queue_idx queue1) else Some transport);
             Some (Inr (), self\<lparr>oq_queue := queue1\<rparr>, transport1)
           })
      }
      else Some (Inl WrongToken, self, transport))"

definition OwningQueue_pop ::
    "(u64 \<Rightarrow> nat \<Rightarrow> u8 list) \<Rightarrow> nat \<Rightarrow> OwningQueue \<Rightarrow> ((Error + (u8 list \<times> u16) option) \<times> OwningQueue) option" where
  "OwningQueue_pop mem BUFFER_SIZE self = do {
     t \<leftarrow> peek_used (oq_queue self);
     (case t of
        None \<Rightarrow> Some (Inr None, self)
      | Some token \<Rightarrow> do {
          buffer \<leftarrow> idx (oq_buffers self) (unat token);
          (r, queue1, calls) \<leftarrow> pop_used (oq_queue self) token [] [oq_slice BUFFER_SIZE buffer];
          (case r of
             Inl e \<Rightarrow> Some (Inl e, self\<lparr>oq_queue := queue1\<rparr>)
           | Inr l \<Rightarrow> do {
               rust_assert (unat l \<le> BUFFER_SIZE);
               Some (Inr (Some (mem buffer (unat l), token)), self\<lparr>oq_queue := queue1\<rparr>)
             })
        })
   }"

definition OwningQueue_poll ::
    "share \<Rightarrow> 't Transport \<Rightarrow> (u64 \<Rightarrow> nat \<Rightarrow> u8 list) \<Rightarrow> nat \<Rightarrow>
     ('s \<Rightarrow> u8 list \<Rightarrow> ((Error + 'r option) \<times> 's) option) \<Rightarrow> OwningQueue \<Rightarrow> 't \<Rightarrow> 's \<Rightarrow>
     ((Error + 'r option) \<times> OwningQueue \<times> 't \<times> 's) option" where
  "OwningQueue_poll share T mem BUFFER_SIZE handler self transport s = do {
     (r, self1) \<leftarrow> OwningQueue_pop mem BUFFER_SIZE self;
     (case r of
        Inl e \<Rightarrow> Some (Inl e, self1, transport, s)
      | Inr None \<Rightarrow> Some (Inr None, self1, transport, s)
      | Inr (Some (buffer, token)) \<Rightarrow> do {
          (result, s1) \<leftarrow> handler s buffer;
          (r2, self2, transport1) \<leftarrow> add_buffer_to_queue share T BUFFER_SIZE self1 token transport;
          Some (case r2 of Inl e \<Rightarrow> (Inl e, self2, transport1, s1)
                | Inr u \<Rightarrow> (result, self2, transport1, s1))
        })
   }"

section \<open>Every buffer is with the device\<close>

definition oq_requests :: "nat \<Rightarrow> u64 list \<Rightarrow> request list" where
  "oq_requests bsz bs = map (\<lambda>i. ([of_nat i], [], [oq_slice bsz (bs ! i)])) [0..<length bs]"

definition oq_inv :: "share \<Rightarrow> nat \<Rightarrow> OwningQueue \<Rightarrow> bool" where
  "oq_inv share bsz self \<longleftrightarrow> length (oq_buffers self) = SIZE (oq_queue self)
     \<and> (\<exists>rs. vq_holds share (oq_queue self) [] rs \<and> mset rs = mset (oq_requests bsz (oq_buffers self)))"

lemma needed_one: "needed q (Suc 0) = 1"
  by (simp add: needed_def)

lemma OwningQueue_fill_ok:
  assumes "vq_holds share q (map of_nat [i..<i + length bs]) rs" "0 < bsz" "bsz < 2 ^ 32"
    and "i + length bs \<le> SIZE q" "SIZE q \<le> 32768"
  shows "\<exists>q'. OwningQueue_fill share bsz i bs q = Some (Inr q') \<and> SIZE q' = SIZE q
    \<and> vq_holds share q' [] (rs @ map (\<lambda>j. ([of_nat (i + j)], [], [oq_slice bsz (bs ! j)])) [0..<length bs])"
  using assms
proof (induction bs arbitrary: i q rs)
  case (Cons b bs)
  have u: "[i..<i + length (b # bs)] = i # [Suc i..<Suc i + length bs]" by (simp add: upt_conv_Cons del: upt_Suc)
  have h: "vq_holds share q (of_nat i # map of_nat [Suc i..<Suc i + length bs]) rs"
    using Cons.prems(1) unfolding u by simp
  obtain q1 calls where A: "VirtQueue_add share 0 q [] [oq_slice bsz b] = Some (Inr (of_nat i), q1, calls)"
    "vq_holds share q1 (map of_nat [Suc i..<Suc i + length bs]) (rs @ [([of_nat i], [], [oq_slice bsz b])])" "SIZE q1 = SIZE q"
    using vq.add_in_order [OF h, of "oq_slice bsz b" 0] Cons.prems by (auto simp: needed_one)
  have i: "unat (of_nat i :: u16) = i" using Cons.prems by (intro unat_of_nat_bound) simp
  obtain q' where Q: "OwningQueue_fill share bsz (Suc i) bs q1 = Some (Inr q')" "SIZE q' = SIZE q1"
    "vq_holds share q' [] ((rs @ [([of_nat i], [], [oq_slice bsz b])]) @
        map (\<lambda>j. ([of_nat (Suc i + j)], [], [oq_slice bsz (bs ! j)])) [0..<length bs])"
    using Cons.IH [OF A(2) Cons.prems(2,3)] Cons.prems(4,5) A(3) by auto
  have M: "map (\<lambda>j. ([of_nat (i + j) :: u16], [] :: slice list, [oq_slice bsz ((b # bs) ! j)])) [0..<length (b # bs)] =
      ([of_nat i], [], [oq_slice bsz b]) # map (\<lambda>j. ([of_nat (Suc i + j)], [], [oq_slice bsz (bs ! j)])) [0..<length bs]"
    by (simp add: upt_conv_Cons map_Suc_upt [symmetric] ac_simps del: upt_Suc)
  have F: "OwningQueue_fill share bsz i (b # bs) q = Some (Inr q')" using A(1) Q(1) i by (simp add: panic_simps)
  show ?case unfolding M using F Q(2,3) A(3) by (intro exI [of _ q']) simp
qed simp

lemma OwningQueue_new_ok:
  assumes "vq_inv share q (abs_new n)" "SIZE q = n" "0 < bsz" "bsz < 2 ^ 32" "length boxes = n" "0 \<notin> set boxes"
  shows "\<exists>self. OwningQueue_new share bsz boxes q = Some (Inr self) \<and> oq_inv share bsz self \<and> oq_buffers self = boxes"
proof -
  have "size_ok n" using assms(1,2) by (simp add: vq_inv_def vq_wf_def)
  then have b: "n \<le> 32768" using size_ok_bound by simp
  have h: "vq_holds share q (map of_nat [0..<0 + length boxes]) []"
    using assms(1,5) by (simp add: vq_holds_def abs_new_def)
  obtain q' where "OwningQueue_fill share bsz 0 boxes q = Some (Inr q')" "SIZE q' = SIZE q"
    "vq_holds share q' [] (oq_requests bsz boxes)"
    using OwningQueue_fill_ok [OF h assms(3,4)] assms(2,5) b by (auto simp: oq_requests_def)
  then show ?thesis
    using assms(2,5,6) by (auto simp: OwningQueue_new_def oq_inv_def panic_simps Let_def)
qed

lemma oq_request_nth:
  assumes "unat t < length bs" "length bs \<le> 32768"
  shows "([t], [], [oq_slice bsz (bs ! unat t)]) \<in> set (oq_requests bsz bs)"
  using assms by (force simp: oq_requests_def)

text \<open>The token of the next used element names a buffer, and the length fits into it.\<close>

definition device_keeps_to_buffers :: "nat \<Rightarrow> OwningQueue \<Rightarrow> bool" where
  "device_keeps_to_buffers bsz self \<longleftrightarrow>
     (case peek_used (oq_queue self) of
        Some (Some t) \<Rightarrow> unat t < SIZE (oq_queue self) \<and> unat (next_used_len (oq_queue self)) \<le> bsz
      | _ \<Rightarrow> True)"

lemma oq_invE:
  assumes "oq_inv share bsz self"
  obtains rs where "length (oq_buffers self) = SIZE (oq_queue self)" "vq_holds share (oq_queue self) [] rs"
    "mset rs = mset (oq_requests bsz (oq_buffers self))" "size_ok (SIZE (oq_queue self))"
    "length (used_ring (used (oq_queue self))) = SIZE (oq_queue self)"
  using assms by (auto simp: oq_inv_def vq_holds_def vq_inv_def vq_wf_def)

lemma peek_used_total:
  assumes "oq_inv share bsz self"
  shows "\<exists>t. peek_used (oq_queue self) = Some t"
  using oq_invE [OF assms] by (metis peek_used_def idx_def slot_bound bind.bind_lunit)

lemma OwningQueue_poll_idle:
  assumes "peek_used (oq_queue self) = Some None"
  shows "OwningQueue_poll share T mem bsz handler self t s = Some (Inr None, self, t, s)"
  using assms by (simp add: OwningQueue_poll_def OwningQueue_pop_def)

text \<open>A buffer that is taken back and added again at once keeps its token.\<close>

lemma oq_recycle:
  assumes inv: "oq_inv share bsz self" and bsz: "0 < bsz" "bsz < 2 ^ 32"
    and peek: "peek_used (oq_queue self) = Some (Some token)" and tok: "unat token < length (oq_buffers self)"
  shows "\<exists>q1 c1 q2 c2. pop_used (oq_queue self) token [] [oq_slice bsz (oq_buffers self ! unat token)] =
      Some (Inr (next_used_len (oq_queue self)), q1, c1)
    \<and> VirtQueue_add share 0 q1 [] [oq_slice bsz (oq_buffers self ! unat token)] = Some (Inr token, q2, c2)
    \<and> oq_inv share bsz (self\<lparr>oq_queue := q2\<rparr>)"
proof -
  let ?q = "oq_queue self" and ?b = "oq_slice bsz (oq_buffers self ! unat token)"
  obtain rs where I: "length (oq_buffers self) = SIZE ?q" "vq_holds share ?q [] rs"
    "mset rs = mset (oq_requests bsz (oq_buffers self))" "size_ok (SIZE ?q)" using oq_invE [OF inv] by blast
  have "([token], [], [?b]) \<in> set (oq_requests bsz (oq_buffers self))"
    using oq_request_nth [OF tok] I(1,4) size_ok_bound by simp
  then have r: "([token], [], [?b]) \<in> set rs" using I(3) by (metis set_mset_mset)
  obtain q1 c1 q2 c2 where S: "pop_used ?q token [] [?b] = Some (Inr (next_used_len ?q), q1, c1)"
    "VirtQueue_add share 0 q1 [] [?b] = Some (Inr token, q2, c2)"
    "vq_holds share q2 [] (remove1 ([token], [], [?b]) rs @ [([token], [], [?b])])" "SIZE q2 = SIZE ?q"
    using vq.recycle_same_token [OF I(2) r, where p = 0] peek bsz tok I(1) by (auto simp: needed_one)
  have "mset (remove1 ([token], [], [?b]) rs @ [([token], [], [?b])]) = mset rs" using r by simp
  then have "oq_inv share bsz (self\<lparr>oq_queue := q2\<rparr>)" using S(3,4) I(1,3) by (auto simp: oq_inv_def)
  with S(1,2) show ?thesis by blast
qed

lemma OwningQueue_poll_step:
  assumes inv: "oq_inv share bsz self" and bsz: "0 < bsz" "bsz < 2 ^ 32"
    and peek: "peek_used (oq_queue self) = Some (Some token)" and dev: "device_keeps_to_buffers bsz self"
    and h: "handler s (mem (oq_buffers self ! unat token) (unat (next_used_len (oq_queue self)))) = Some (r, s')"
    and n: "\<And>q. notify T t q \<noteq> None"
  shows "\<exists>self' t'. OwningQueue_poll share T mem bsz handler self t s = Some (r, self', t', s')
    \<and> oq_inv share bsz self' \<and> oq_buffers self' = oq_buffers self"
proof -
  let ?b = "oq_slice bsz (oq_buffers self ! unat token)"
  have b: "unat token < length (oq_buffers self)" "unat (next_used_len (oq_queue self)) \<le> bsz"
    using dev peek inv by (simp_all add: device_keeps_to_buffers_def oq_inv_def)
  obtain q1 c1 q2 c2 where S: "pop_used (oq_queue self) token [] [?b] = Some (Inr (next_used_len (oq_queue self)), q1, c1)"
    "VirtQueue_add share 0 q1 [] [?b] = Some (Inr token, q2, c2)" "oq_inv share bsz (self\<lparr>oq_queue := q2\<rparr>)"
    using oq_recycle [OF inv bsz peek b(1)] by blast
  obtain t' where t': "(if should_notify q2 then notify T t (queue_idx q2) else Some t) = Some t'"
    using n [of "queue_idx q2"] by (cases "should_notify q2") auto
  have "OwningQueue_poll share T mem bsz handler self t s = Some (r, self\<lparr>oq_queue := q2\<rparr>, t', s')"
    using peek b S(1,2) h t'
    by (simp add: OwningQueue_poll_def OwningQueue_pop_def add_buffer_to_queue_def panic_simps split: if_splits)
  with S(3) show ?thesis by auto
qed

section \<open>Properties\<close>

text \<open>
  A new owning queue: on a fresh virtqueue of \<open>n\<close> descriptors \<^verbatim>\<open>OwningQueue::new\<close> returns, none of
  its assertions on the tokens fires, and every one of its \<open>n\<close> buffers is with the device as the
  request whose token is the position of the buffer.
\<close>

theorem OwningQueue_new_fills_queue:
  assumes "vq_inv share q (abs_new n)" "SIZE q = n" "0 < bsz" "bsz < 2 ^ 32" "length boxes = n" "0 \<notin> set boxes"
  shows "\<exists>self. OwningQueue_new share bsz boxes q = Some (Inr self) \<and> oq_inv share bsz self \<and> oq_buffers self = boxes"
  using OwningQueue_new_ok [OF assms] .

theorem OwningQueue_new_fills_queue_witness:
  "\<exists>self. OwningQueue_new sample_share 512 [4096, 8192, 12288, 16384] sample_queue = Some (Inr self) \<and> length (oq_buffers self) = 4"
  using OwningQueue_new_fills_queue [OF zeroed_queue_inv(1) [OF size_ok_4, of sample_share sample_layout 0 False False], of 512 "[4096, 8192, 12288, 16384]"]
  by auto

text \<open>
  Polling: as long as the device reports tokens below the queue size and lengths that fit the
  buffers, \<^verbatim>\<open>OwningQueue::poll\<close> returns for every handler that returns; with an empty used ring it answers
  \<^verbatim>\<open>Ok(None)\<close> and changes nothing, otherwise it answers what the handler makes of the received bytes.
  In both cases every buffer is with the device again under its own token.
\<close>

theorem OwningQueue_poll_correct:
  assumes "oq_inv share bsz self" "0 < bsz" "bsz < 2 ^ 32" "device_keeps_to_buffers bsz self"
    and "\<And>x. handler s x \<noteq> None" "\<And>q. notify T t q \<noteq> None"
  shows "\<exists>r self' t' s'. OwningQueue_poll share T mem bsz handler self t s = Some (r, self', t', s')
    \<and> oq_inv share bsz self' \<and> oq_buffers self' = oq_buffers self
    \<and> (if can_pop (oq_queue self)
       then (\<exists>token. peek_used (oq_queue self) = Some (Some token)
          \<and> handler s (mem (oq_buffers self ! unat token) (unat (next_used_len (oq_queue self)))) = Some (r, s'))
       else r = Inr None \<and> self' = self \<and> t' = t \<and> s' = s)"
proof (cases "can_pop (oq_queue self)")
  case True
  then obtain token where p: "peek_used (oq_queue self) = Some (Some token)"
    using peek_used_total [OF assms(1)] by (fastforce simp: peek_used_def idx_def split: if_splits)
  obtain r s' where "handler s (mem (oq_buffers self ! unat token) (unat (next_used_len (oq_queue self)))) = Some (r, s')"
    using assms(5) by fastforce
  with OwningQueue_poll_step [where T = T and handler = handler and mem = mem, OF assms(1-3) p assms(4) this assms(6)] True p show ?thesis by auto
next
  case False
  then have "peek_used (oq_queue self) = Some None" by (simp add: peek_used_def)
  from OwningQueue_poll_idle [OF this] False assms(1) show ?thesis by auto
qed

definition sample_transport_impl :: "nat Transport" where
  "sample_transport_impl = \<lparr>device_type = (\<lambda>t. Block), read_device_features = (\<lambda>t. Some (0, t)),
     write_driver_features = (\<lambda>t f. Some t), max_queue_size = (\<lambda>t q. Some (4, t)), notify = (\<lambda>t q. Some (Suc t)),
     get_status = (\<lambda>t. 0), set_status = (\<lambda>t s. Some t), set_guest_page_size = (\<lambda>t s. Some t),
     requires_legacy_layout = (\<lambda>t. False), queue_set = (\<lambda>t q n a b c. Some t), queue_unset = (\<lambda>t q. Some t),
     queue_used = (\<lambda>t q. Some (False, t)), ack_interrupt = (\<lambda>t. Some (0, t)), read_config_generation = (\<lambda>t. 0),
     read_config_space = (\<lambda>t a n k. Some (Inr (replicate n 0))), write_config_space = (\<lambda>t a k bs. Some (Inr (), t))\<rparr>"

text \<open>The device has returned buffer 2 with 7 bytes.\<close>

definition sample_used :: "OwningQueue \<Rightarrow> OwningQueue" where
  "sample_used self = self\<lparr>oq_queue := oq_queue self\<lparr>used := \<lparr>used_flags = 0,
     used_ring_idx = last_used_idx (oq_queue self) + 1, used_ring = replicate 4 \<lparr>elem_id = 2, elem_len = 7\<rparr>, avail_event = 0\<rparr>\<rparr>\<rparr>"

lemma sample_used_ok:
  assumes "oq_inv share 512 self" "SIZE (oq_queue self) = 4"
  shows "oq_inv share 512 (sample_used self)" "peek_used (oq_queue (sample_used self)) = Some (Some 2)"
    "next_used_len (oq_queue (sample_used self)) = 7"
proof -
  have "slot (oq_queue (sample_used self)) i < 4" for i
    using slot_bound [of "oq_queue (sample_used self)"] assms(2) size_ok_4 by (simp add: sample_used_def)
  then show "peek_used (oq_queue (sample_used self)) = Some (Some 2)" "next_used_len (oq_queue (sample_used self)) = 7"
    by (simp_all add: peek_used_def next_used_len_def sample_used_def can_pop_def panic_simps)
  show "oq_inv share 512 (sample_used self)"
    using assms by (fastforce simp: oq_inv_def sample_used_def vq_holds_def intro!: vq_inv_used)
qed

theorem OwningQueue_poll_correct_witness:
  "\<exists>self self' t'. OwningQueue_new sample_share 512 [4096, 8192, 12288, 16384] sample_queue = Some (Inr self)
     \<and> OwningQueue_poll sample_share sample_transport_impl (\<lambda>p n. replicate n 1) 512 (\<lambda>s b. Some (Inr (Some (length b)), s))
         (sample_used self) 0 () = Some (Inr (Some 7), self', t', ())"
proof -
  obtain self where s: "OwningQueue_new sample_share 512 [4096, 8192, 12288, 16384] sample_queue = Some (Inr self)"
    "oq_inv sample_share 512 self" "oq_buffers self = [4096, 8192, 12288, 16384]"
    using OwningQueue_new_ok [OF zeroed_queue_inv(1) [OF size_ok_4, of sample_share sample_layout 0 False False], of 512 "[4096, 8192, 12288, 16384]"]
    by auto
  have "SIZE (oq_queue self) = 4" using s(2,3) by (simp add: oq_inv_def)
  note u = sample_used_ok [OF s(2) this]
  have "device_keeps_to_buffers 512 (sample_used self)" "can_pop (oq_queue (sample_used self))"
    using u(2,3) \<open>SIZE (oq_queue self) = 4\<close> by (simp_all add: device_keeps_to_buffers_def sample_used_def can_pop_def)
  then have "\<exists>self' t'. OwningQueue_poll sample_share sample_transport_impl (\<lambda>p n. replicate n 1) 512
      (\<lambda>s b. Some (Inr (Some (length b)), s)) (sample_used self) 0 () = Some (Inr (Some 7), self', t', ())"
    using OwningQueue_poll_correct [OF u(1), of "\<lambda>s b. Some (Inr (Some (length b)), s)" "()" sample_transport_impl 0 "\<lambda>p n. replicate n 1"] u(3)
    by (auto simp: sample_transport_impl_def)
  with s(1) show ?thesis by blast
qed

end
