(* ===== verification/Vsock_Protocol.thy ===== *)
theory Vsock_Protocol
  imports Virtio_Core
begin

text \<open>
  Packets and events of the VirtIO socket device (\<^verbatim>\<open>virtio-drivers/src/device/socket/protocol.rs\<close> and
  the types of \<^verbatim>\<open>vsock.rs\<close>): the packet header and its layout in memory, the operations, the events a
  driver reports and the credit information of a connection.
\<close>

section \<open>Packets\<close>

definition VMADDR_CID_HOST :: u64 where "VMADDR_CID_HOST = 2"

datatype SocketType = Stream | SeqPacket

fun SocketType_into :: "SocketType \<Rightarrow> u16" where
  "SocketType_into Stream = 1"
| "SocketType_into SeqPacket = 2"

record VirtioVsockHdr =
  hdr_src_cid :: u64
  hdr_dst_cid :: u64
  hdr_src_port :: u32
  hdr_dst_port :: u32
  hdr_len :: u32
  hdr_socket_type :: u16
  hdr_op :: u16
  hdr_flags :: u32
  hdr_buf_alloc :: u32
  hdr_fwd_cnt :: u32

definition VirtioVsockHdr_default :: VirtioVsockHdr where
  "VirtioVsockHdr_default = \<lparr>hdr_src_cid = 0, hdr_dst_cid = 0, hdr_src_port = 0, hdr_dst_port = 0, hdr_len = 0,
     hdr_socket_type = SocketType_into Stream, hdr_op = 0, hdr_flags = 0, hdr_buf_alloc = 0, hdr_fwd_cnt = 0\<rparr>"

text \<open>
  The struct is \<^verbatim>\<open>repr(C, packed)\<close> with little endian fields: \<^verbatim>\<open>as_bytes\<close> lists them in order, and
  \<^verbatim>\<open>read_from_prefix\<close> reads them back from the front of a slice that is long enough.
\<close>

definition size_of_VirtioVsockHdr :: nat where "size_of_VirtioVsockHdr = 44"

definition VirtioVsockHdr_as_bytes :: "VirtioVsockHdr \<Rightarrow> u8 list" where
  "VirtioVsockHdr_as_bytes h =
     to_le 8 (hdr_src_cid h) @ to_le 8 (hdr_dst_cid h) @ to_le 4 (hdr_src_port h) @ to_le 4 (hdr_dst_port h) @
     to_le 4 (hdr_len h) @ to_le 2 (hdr_socket_type h) @ to_le 2 (hdr_op h) @ to_le 4 (hdr_flags h) @
     to_le 4 (hdr_buf_alloc h) @ to_le 4 (hdr_fwd_cnt h)"

definition VirtioVsockHdr_read_from_prefix :: "u8 list \<Rightarrow> (VirtioVsockHdr \<times> u8 list) option" where
  "VirtioVsockHdr_read_from_prefix bs =
     (if length bs < size_of_VirtioVsockHdr then None
      else Some (\<lparr>hdr_src_cid = from_le (take 8 bs), hdr_dst_cid = from_le (take 8 (drop 8 bs)),
                  hdr_src_port = from_le (take 4 (drop 16 bs)), hdr_dst_port = from_le (take 4 (drop 20 bs)),
                  hdr_len = from_le (take 4 (drop 24 bs)), hdr_socket_type = from_le (take 2 (drop 28 bs)),
                  hdr_op = from_le (take 2 (drop 30 bs)), hdr_flags = from_le (take 4 (drop 32 bs)),
                  hdr_buf_alloc = from_le (take 4 (drop 36 bs)), hdr_fwd_cnt = from_le (take 4 (drop 40 bs))\<rparr>,
                 drop size_of_VirtioVsockHdr bs))"

datatype VirtioVsockOp = Invalid | Request | Response | Rst | Shutdown | Rw | CreditUpdate | CreditRequest

fun VirtioVsockOp_into :: "VirtioVsockOp \<Rightarrow> u16" where
  "VirtioVsockOp_into Invalid = 0"
| "VirtioVsockOp_into Request = 1"
| "VirtioVsockOp_into Response = 2"
| "VirtioVsockOp_into Rst = 3"
| "VirtioVsockOp_into Shutdown = 4"
| "VirtioVsockOp_into Rw = 5"
| "VirtioVsockOp_into CreditUpdate = 6"
| "VirtioVsockOp_into CreditRequest = 7"

definition VirtioVsockOp_try_from :: "u16 \<Rightarrow> SocketError + VirtioVsockOp" where
  "VirtioVsockOp_try_from v =
     (if v = 0 then Inr Invalid
      else if v = 1 then Inr Request
      else if v = 2 then Inr Response
      else if v = 3 then Inr Rst
      else if v = 4 then Inr Shutdown
      else if v = 5 then Inr Rw
      else if v = 6 then Inr CreditUpdate
      else if v = 7 then Inr CreditRequest
      else Inl (UnknownOperation v))"

record VsockAddr =
  cid :: u64
  port :: u32

definition hdr_source :: "VirtioVsockHdr \<Rightarrow> VsockAddr" where
  "hdr_source self = \<lparr>cid = hdr_src_cid self, port = hdr_src_port self\<rparr>"

definition hdr_destination :: "VirtioVsockHdr \<Rightarrow> VsockAddr" where
  "hdr_destination self = \<lparr>cid = hdr_dst_cid self, port = hdr_dst_port self\<rparr>"

definition check_data_is_empty :: "VirtioVsockHdr \<Rightarrow> SocketError + unit" where
  "check_data_is_empty self = (if hdr_len self = 0 then Inr () else Inl UnexpectedDataInPacket)"

definition StreamShutdown_RECEIVE :: u32 where "StreamShutdown_RECEIVE = 1"
definition StreamShutdown_SEND :: u32 where "StreamShutdown_SEND = 2"

text \<open>The bits of \<^verbatim>\<open>Feature\<close>, of which \<^verbatim>\<open>from_bits_truncate\<close> keeps those that are declared.\<close>

definition vsock_Feature_all :: u64 where
  "vsock_Feature_all = foldr (\<lambda>i b. b OR push_bit i 1) [0, 1, 24, 27, 28, 29, 30, 32, 33, 34, 35, 36, 37, 38] 0"

definition RING_INDIRECT_DESC :: u64 where "RING_INDIRECT_DESC = push_bit 28 1"
definition RING_EVENT_IDX :: u64 where "RING_EVENT_IDX = push_bit 29 1"

section \<open>Connections and events\<close>

record ConnectionInfo =
  ci_dst :: VsockAddr
  ci_src_port :: u32
  ci_peer_buf_alloc :: u32
  ci_peer_fwd_cnt :: u32
  ci_tx_cnt :: u32
  ci_buf_alloc :: u32
  ci_fwd_cnt :: u32
  ci_has_pending_credit_request :: bool

definition ConnectionInfo_new :: "VsockAddr \<Rightarrow> u32 \<Rightarrow> ConnectionInfo" where
  "ConnectionInfo_new destination src_port = \<lparr>ci_dst = destination, ci_src_port = src_port, ci_peer_buf_alloc = 0,
     ci_peer_fwd_cnt = 0, ci_tx_cnt = 0, ci_buf_alloc = 0, ci_fwd_cnt = 0, ci_has_pending_credit_request = False\<rparr>"

record VsockBufferStatus =
  buffer_allocation :: u32
  forward_count :: u32

datatype DisconnectReason = Reset | ShutdownByPeer

datatype VsockEventType =
    ConnectionRequested
  | Connected
  | Disconnected DisconnectReason
  | Received nat
  | CreditRequested
  | CreditUpdated

record VsockEvent =
  ev_source :: VsockAddr
  ev_destination :: VsockAddr
  ev_buffer_status :: VsockBufferStatus
  ev_event_type :: VsockEventType

definition update_for_event :: "ConnectionInfo \<Rightarrow> VsockEvent \<Rightarrow> ConnectionInfo" where
  "update_for_event self event =
     (let self1 = self\<lparr>ci_peer_buf_alloc := buffer_allocation (ev_buffer_status event),
                       ci_peer_fwd_cnt := forward_count (ev_buffer_status event)\<rparr> in
      if ev_event_type event = CreditUpdated then self1\<lparr>ci_has_pending_credit_request := False\<rparr> else self1)"

definition done_forwarding :: "ConnectionInfo \<Rightarrow> nat \<Rightarrow> ConnectionInfo option" where
  "done_forwarding self l = do { c \<leftarrow> rust_add (ci_fwd_cnt self) (of_nat l); Some (self\<lparr>ci_fwd_cnt := c\<rparr>) }"

definition peer_free :: "ConnectionInfo \<Rightarrow> u32 option" where
  "peer_free self = do {
     in_flight \<leftarrow> rust_sub (ci_tx_cnt self) (ci_peer_fwd_cnt self);
     rust_sub (ci_peer_buf_alloc self) in_flight
   }"

definition new_header :: "ConnectionInfo \<Rightarrow> u64 \<Rightarrow> VirtioVsockHdr" where
  "new_header self src_cid = VirtioVsockHdr_default\<lparr>hdr_src_cid := src_cid, hdr_dst_cid := cid (ci_dst self),
     hdr_src_port := ci_src_port self, hdr_dst_port := port (ci_dst self),
     hdr_buf_alloc := ci_buf_alloc self, hdr_fwd_cnt := ci_fwd_cnt self\<rparr>"

definition matches_connection :: "VsockEvent \<Rightarrow> ConnectionInfo \<Rightarrow> u64 \<Rightarrow> bool" where
  "matches_connection self connection_info guest_cid \<longleftrightarrow>
     ev_source self = ci_dst connection_info
     \<and> cid (ev_destination self) = guest_cid
     \<and> port (ev_destination self) = ci_src_port connection_info"

text \<open>A \<^verbatim>\<open>SocketError\<close> becomes an \<^verbatim>\<open>Error\<close> by \<^verbatim>\<open>?\<close> or \<^verbatim>\<open>into\<close>.\<close>

abbreviation socket_result :: "SocketError + 'a \<Rightarrow> Error + 'a" where
  "socket_result \<equiv> map_sum SocketDeviceError id"

definition VsockEvent_from_header :: "VirtioVsockHdr \<Rightarrow> Error + VsockEvent" where
  "VsockEvent_from_header header =
     try_bind (socket_result (VirtioVsockOp_try_from (hdr_op header))) (\<lambda>op.
       let buffer_status = \<lparr>buffer_allocation = hdr_buf_alloc header, forward_count = hdr_fwd_cnt header\<rparr>;
           data_empty = socket_result (check_data_is_empty header) in
       try_bind
         (case op of
            Request \<Rightarrow> try_bind data_empty (\<lambda>_. Inr ConnectionRequested)
          | Response \<Rightarrow> try_bind data_empty (\<lambda>_. Inr Connected)
          | CreditUpdate \<Rightarrow> try_bind data_empty (\<lambda>_. Inr CreditUpdated)
          | Rst \<Rightarrow> try_bind data_empty (\<lambda>_. Inr (Disconnected Reset))
          | Shutdown \<Rightarrow> try_bind data_empty (\<lambda>_. Inr (Disconnected ShutdownByPeer))
          | Rw \<Rightarrow> Inr (Received (unat (hdr_len header)))
          | CreditRequest \<Rightarrow> try_bind data_empty (\<lambda>_. Inr CreditRequested)
          | Invalid \<Rightarrow> Inl (SocketDeviceError InvalidOperation))
         (\<lambda>event_type. Inr \<lparr>ev_source = hdr_source header, ev_destination = hdr_destination header,
            ev_buffer_status = buffer_status, ev_event_type = event_type\<rparr>))"

definition read_header_and_body :: "u8 list \<Rightarrow> Error + (VirtioVsockHdr \<times> u8 list)" where
  "read_header_and_body buffer =
     (case VirtioVsockHdr_read_from_prefix buffer of
        None \<Rightarrow> Inl (SocketDeviceError BufferTooShort)
      | Some (header, _) \<Rightarrow>
          (case usize_add size_of_VirtioVsockHdr (unat (hdr_len header)) of
             None \<Rightarrow> Inl (SocketDeviceError InvalidNumber)
           | Some data_end \<Rightarrow>
               (case slice_get buffer size_of_VirtioVsockHdr data_end of
                  None \<Rightarrow> Inl (SocketDeviceError BufferTooShort)
                | Some body \<Rightarrow> Inr (header, body))))"

section \<open>Facts\<close>

lemma VirtioVsockHdr_length [simp]: "length (VirtioVsockHdr_as_bytes h) = size_of_VirtioVsockHdr"
  by (simp add: VirtioVsockHdr_as_bytes_def size_of_VirtioVsockHdr_def)

lemma VirtioVsockHdr_roundtrip [simp]: "VirtioVsockHdr_read_from_prefix (VirtioVsockHdr_as_bytes h @ rest) = Some (h, rest)"
proof -
  have "\<not> length (VirtioVsockHdr_as_bytes h @ rest) < size_of_VirtioVsockHdr" by simp
  then show ?thesis
    by (simp add: VirtioVsockHdr_read_from_prefix_def)
       (simp add: VirtioVsockHdr_as_bytes_def size_of_VirtioVsockHdr_def)
qed

lemma VirtioVsockOp_roundtrip [simp]: "VirtioVsockOp_try_from (VirtioVsockOp_into op) = Inr op"
  by (cases op) (simp_all add: VirtioVsockOp_try_from_def)

lemma read_packet:
  assumes "unat (hdr_len h) = length body"
  shows "read_header_and_body (VirtioVsockHdr_as_bytes h @ body @ rest) = Inr (h, body)"
proof -
  have "unat (hdr_len h) < 2 ^ 32" using unsigned_less [of "hdr_len h", where ?'a = nat] by simp
  then have "usize_add size_of_VirtioVsockHdr (length body) = Some (size_of_VirtioVsockHdr + length body)"
    using assms by (intro usize_add_Some) (simp add: size_of_VirtioVsockHdr_def)
  with assms show ?thesis by (simp add: read_header_and_body_def panic_simps)
qed

text \<open>Whatever the device puts into a buffer, the body is the part behind the header that the header announces.\<close>

lemma read_header_and_body_Inr:
  assumes "read_header_and_body buffer = Inr (header, body)"
  shows "length body = unat (hdr_len header)" "size_of_VirtioVsockHdr + unat (hdr_len header) \<le> length buffer"
    "body = take (unat (hdr_len header)) (drop size_of_VirtioVsockHdr buffer)"
  using assms by (auto simp: read_header_and_body_def slice_get_def usize_add_eq_Some split: option.splits if_splits prod.splits)

lemma VsockEvent_from_header_Inr:
  assumes "VsockEvent_from_header h = Inr ev"
  shows "ev_source ev = hdr_source h" "ev_destination ev = hdr_destination h"
    "ev_event_type ev = Received n \<Longrightarrow> n = unat (hdr_len h)"
    "(\<forall>n. ev_event_type ev \<noteq> Received n) \<Longrightarrow> hdr_len h = 0"
proof -
  obtain op where "VirtioVsockOp_try_from (hdr_op h) = Inr op"
    using assms by (cases "VirtioVsockOp_try_from (hdr_op h)") (simp_all add: VsockEvent_from_header_def)
  with assms show "ev_source ev = hdr_source h" "ev_destination ev = hdr_destination h"
    "ev_event_type ev = Received n \<Longrightarrow> n = unat (hdr_len h)"
    "(\<forall>n. ev_event_type ev \<noteq> Received n) \<Longrightarrow> hdr_len h = 0"
    by (cases op; auto simp: VsockEvent_from_header_def try_bind_eq_Inr check_data_is_empty_def Let_def split: if_splits)+
qed

end
