(* ===== verification/Device_Common.thy ===== *)
theory Device_Common
  imports Virt_Queue_Properties
begin

text \<open>
  What the device drivers of the virtio-drivers library share: creating their queues one after the
  other, where an early return drops the queues created so far, and sending a request and waiting
  for its answer on a queue that has no other request.
\<close>

section \<open>Creating queues\<close>

text \<open>A dropped virtqueue returns its DMA regions, in the order of the fields of its layout.\<close>

definition VirtQueue_drop :: "'h dma_dealloc \<Rightarrow> 'h \<Rightarrow> VirtQueue \<Rightarrow> 'h option" where
  "VirtQueue_drop dma_dealloc h self =
     (case layout self of
        LegacyLayout dma _ _ \<Rightarrow> Dma_drop dma_dealloc h dma
      | ModernLayout d2d dev _ \<Rightarrow> do { h1 \<leftarrow> Dma_drop dma_dealloc h d2d; Dma_drop dma_dealloc h1 dev })"

fun drop_queues :: "'h dma_dealloc \<Rightarrow> VirtQueue list \<Rightarrow> 'h \<Rightarrow> 'h option" where
  "drop_queues dma_dealloc [] h = Some h"
| "drop_queues dma_dealloc (q # qs) h = do { h1 \<leftarrow> VirtQueue_drop dma_dealloc h q; drop_queues dma_dealloc qs h1 }"

text \<open>
  An early return with error \<open>e\<close>: the queues in \<open>held\<close> go out of scope, the newest first.
\<close>

definition return_error ::
    "'h dma_dealloc \<Rightarrow> VirtQueue list \<Rightarrow> Error \<Rightarrow> 't \<Rightarrow> 'h \<Rightarrow> ((Error + 'd) \<times> 't \<times> 'h) option" where
  "return_error dma_dealloc held e t h = do { h1 \<leftarrow> drop_queues dma_dealloc held h; Some (Inl e, t, h1) }"

text \<open>\<^verbatim>\<open>let q = VirtQueue::new(..)?;\<close> followed by the rest \<open>k\<close> of the constructor.\<close>

definition let_queue ::
    "'t Transport \<Rightarrow> 'h dma_alloc \<Rightarrow> 'h dma_dealloc \<Rightarrow> (VirtQueueLayout \<Rightarrow> queue_memory) \<Rightarrow> nat \<Rightarrow> bool \<Rightarrow> bool \<Rightarrow>
     VirtQueue list \<Rightarrow> u16 \<Rightarrow> 't \<Rightarrow> 'h \<Rightarrow> (VirtQueue \<Rightarrow> 't \<Rightarrow> 'h \<Rightarrow> ((Error + 'd) \<times> 't \<times> 'h) option) \<Rightarrow>
     ((Error + 'd) \<times> 't \<times> 'h) option" where
  "let_queue T dma_alloc dma_dealloc mem n ind ev held qi t h k = do {
     (r, t1, h1) \<leftarrow> VirtQueue_new T dma_alloc dma_dealloc mem n t h qi ind ev;
     (case r of
        Inl e \<Rightarrow> return_error dma_dealloc held e t1 h1
      | Inr q \<Rightarrow> k q t1 h1)
   }"

text \<open>\<^verbatim>\<open>negotiated_features.contains(f)\<close>\<close>

definition contains :: "u64 \<Rightarrow> u64 \<Rightarrow> bool" where
  "contains features f \<longleftrightarrow> features AND f = f"

section \<open>Requests that are waited for\<close>

text \<open>The queue works and nothing is in flight.\<close>

definition idle :: "share \<Rightarrow> VirtQueue \<Rightarrow> bool" where
  "idle share q \<longleftrightarrow> (\<exists>a. vq_inv share q a \<and> a_flight a = [])"

text \<open>
  The device answers the next request on \<open>q\<close> with \<open>l\<close> written bytes: the driver sees some used rings
  without a new element and then one with the element for the request.
\<close>

definition answered_at :: "UsedRing list \<Rightarrow> nat \<Rightarrow> u16 \<Rightarrow> u16 \<Rightarrow> u32 \<Rightarrow> bool" where
  "answered_at polls n i token l \<longleftrightarrow> (\<exists>us u rest. polls = us @ u # rest
     \<and> (\<forall>v \<in> set us. used_ring_idx v = i) \<and> used_ring_idx u \<noteq> i \<and> length (used_ring u) = n
     \<and> used_ring u ! (unat i mod n) = \<lparr>elem_id = ucast token, elem_len = l\<rparr>)"

definition answered :: "UsedRing list \<Rightarrow> VirtQueue \<Rightarrow> u32 \<Rightarrow> bool" where
  "answered polls q l \<longleftrightarrow> answered_at polls (SIZE q) (last_used_idx q) (free_head q) l"

lemma idle_new: "vq_inv share q (abs_new n) \<Longrightarrow> idle share q"
  by (auto simp: idle_def abs_new_def)

lemma idle_size: "idle share q \<Longrightarrow> size_ok (SIZE q)"
  by (auto simp: idle_def vq_inv_def vq_wf_def)

lemma idle_free:
  assumes "vq_inv share q a" "a_flight a = []"
  shows "length (a_free a) = SIZE q" "hd (a_free a) = free_head q"
proof -
  show len: "length (a_free a) = SIZE q" using assms by (simp add: vq_inv_def)
  have "0 < SIZE q" using assms(1) by (auto simp: vq_inv_def vq_wf_def size_ok_def)
  with len show "hd (a_free a) = free_head q" using assms(1) by (cases "a_free a") (auto simp: vq_inv_def)
qed

lemma request_answered:
  assumes "idle share q" "\<forall>b \<in> set (ins @ outs). 0 < sl_len b \<and> sl_len b < 2 ^ 32"
    and "0 < length ins + length outs" "length ins + length outs \<le> SIZE q" "answered polls q l"
  shows "\<exists>q' calls notified. add_notify_wait_pop share p polls q ins outs = Some (Inr l, q', calls, notified)
    \<and> idle share q' \<and> SIZE q' = SIZE q \<and> last_used_idx q' = last_used_idx q + 1 \<and> free_head q' = free_head q"
proof -
  obtain a where a: "vq_inv share q a" "a_flight a = []" using assms(1) by (auto simp: idle_def)
  note f = idle_free [OF a]
  obtain us u rest where polls: "polls = us @ u # rest" "\<forall>v \<in> set us. used_ring_idx v = last_used_idx q"
    "used_ring_idx u \<noteq> last_used_idx q" "length (used_ring u) = SIZE q"
    "used_ring u ! (unat (last_used_idx q) mod SIZE q) = \<lparr>elem_id = ucast (hd (a_free a)), elem_len = l\<rparr>"
    using assms(5) unfolding f(2) answered_def answered_at_def by blast
  have ok: "\<forall>b \<in> set (InputOutputIter_items (ins, outs)). buffer_ok b"
    using assms(2) by (auto simp: InputOutputIter_items_eq buffer_ok_def)
  have n: "needed q (length ins + length outs) \<le> length (a_free a)" using assms(4) f(1) by (simp add: needed_def)
  obtain q' calls notified where r: "add_notify_wait_pop share p polls q ins outs = Some (Inr l, q', calls, notified)"
    "vq_inv share q' a" "last_used_idx q' = last_used_idx q + 1"
    using add_notify_wait_pop_ok [OF a(1) ok assms(3,4) n polls(2-5), of p rest] unfolding polls(1) by blast
  moreover have "SIZE q' = SIZE q" "free_head q' = free_head q" using idle_free [OF r(2) a(2)] f by simp_all
  ultimately show ?thesis using a(2) by (auto simp: idle_def)
qed

text \<open>
  \<^verbatim>\<open>queue.add_notify_wait_pop(ins, outs, &mut transport)\<close> from a driver: the queue says whether the device
  is to be notified, the transport does it.
\<close>

record wait_env =
  we_box :: u64
  we_polls :: "UsedRing list"

definition queue_request ::
    "share \<Rightarrow> 't Transport \<Rightarrow> wait_env \<Rightarrow> VirtQueue \<Rightarrow> 't \<Rightarrow> slice list \<Rightarrow> slice list \<Rightarrow>
     ((Error + u32) \<times> VirtQueue \<times> 't) option" where
  "queue_request share T env q t inputs outputs = do {
     (r, q1, calls, notified) \<leftarrow> add_notify_wait_pop share (we_box env) (we_polls env) q inputs outputs;
     t1 \<leftarrow> (if notified then notify T t (queue_idx q) else Some t);
     Some (r, q1, t1)
   }"

definition notify_total :: "'t Transport \<Rightarrow> bool" where
  "notify_total T \<longleftrightarrow> (\<forall>t q. notify T t q \<noteq> None)"

lemma notify_totalD: "notify_total T \<Longrightarrow> \<exists>t'. notify T t q = Some t'"
  by (simp add: notify_total_def)

lemma queue_request_ok:
  assumes "idle share q" "\<forall>b \<in> set (ins @ outs). 0 < sl_len b \<and> sl_len b < 2 ^ 32"
    and "0 < length ins + length outs" "length ins + length outs \<le> SIZE q" "answered (we_polls env) q l" "notify_total T"
  shows "\<exists>q' t'. queue_request share T env q t ins outs = Some (Inr l, q', t') \<and> idle share q' \<and> SIZE q' = SIZE q
    \<and> last_used_idx q' = last_used_idx q + 1 \<and> free_head q' = free_head q"
proof -
  obtain q' calls n where q: "add_notify_wait_pop share (we_box env) (we_polls env) q ins outs = Some (Inr l, q', calls, n)"
    "idle share q'" "SIZE q' = SIZE q" "last_used_idx q' = last_used_idx q + 1" "free_head q' = free_head q"
    using request_answered [OF assms(1-5), of "we_box env"] by blast
  obtain t' where "(if n then notify T t (queue_idx q) else Some t) = Some t'"
    using notify_totalD [OF assms(6)] by (cases n) auto
  with q show ?thesis by (simp add: queue_request_def)
qed

end
