(* ===== verification/Vsock_Driver.thy ===== *)
theory Vsock_Driver
  imports Vsock_Protocol Owning_Queue Device_Common
begin

text \<open>
  The low-level driver of the socket device (\<^verbatim>\<open>VirtIOSocket\<close> in
  \<^verbatim>\<open>virtio-drivers/src/device/socket/vsock.rs\<close>). Every packet is sent and waited for on the transmit
  queue; \<open>packet_env\<close> has the addresses of the header and the body of the packet, of an indirect
  descriptor table, and the used rings the driver sees while it waits. The operations also return the
  packets that they put on the transmit queue, as bytes.
\<close>

section \<open>The driver\<close>

definition RX_QUEUE_IDX :: u16 where "RX_QUEUE_IDX = 0"
definition TX_QUEUE_IDX :: u16 where "TX_QUEUE_IDX = 1"
definition EVENT_QUEUE_IDX :: u16 where "EVENT_QUEUE_IDX = 2"
definition vsock_QUEUE_SIZE :: nat where "vsock_QUEUE_SIZE = 8"

definition vsock_SUPPORTED_FEATURES :: u64 where
  "vsock_SUPPORTED_FEATURES = RING_EVENT_IDX OR RING_INDIRECT_DESC OR VERSION_1"

record 't VirtIOSocket =
  sock_transport :: 't
  sock_rx :: OwningQueue
  sock_tx :: VirtQueue
  sock_event :: VirtQueue
  sock_guest_cid :: u64

record packet_env =
  pe_header :: u64
  pe_body :: u64
  pe_wait :: wait_env

definition VirtIOSocket_drop :: "'t Transport \<Rightarrow> 't VirtIOSocket \<Rightarrow> 't VirtIOSocket option" where
  "VirtIOSocket_drop T self = do {
     t1 \<leftarrow> queue_unset T (sock_transport self) RX_QUEUE_IDX;
     t2 \<leftarrow> queue_unset T t1 TX_QUEUE_IDX;
     t3 \<leftarrow> queue_unset T t2 EVENT_QUEUE_IDX;
     Some (self\<lparr>sock_transport := t3\<rparr>)
   }"

text \<open>The two halves of the guest CID, at the offsets 0 and 4 of \<^verbatim>\<open>VirtioVsockConfig\<close>.\<close>

definition read_guest_cid :: "'t Transport \<Rightarrow> 't \<Rightarrow> (Error + u64) option" where
  "read_guest_cid T t = do {
     r1 \<leftarrow> read_config T t 0;
     (case r1 of
        Inl e \<Rightarrow> Some (Inl e)
      | Inr low \<Rightarrow> do {
          r2 \<leftarrow> read_config T t 4;
          Some (try_bind r2 (\<lambda>high. Inr ((ucast (low :: u32) :: u64) OR push_bit 32 (ucast (high :: u32)))))
        })
   }"

definition VirtIOSocket_new ::
    "share \<Rightarrow> 't Transport \<Rightarrow> 'h dma_alloc \<Rightarrow> 'h dma_dealloc \<Rightarrow> (VirtQueueLayout \<Rightarrow> queue_memory) \<Rightarrow> nat \<Rightarrow>
     u64 list \<Rightarrow> ('t \<times> 't \<times> 't) list \<Rightarrow> 't \<Rightarrow> 'h \<Rightarrow> ((Error + 't VirtIOSocket) \<times> 't \<times> 'h) option" where
  "VirtIOSocket_new share T dma_alloc dma_dealloc mem RX_BUFFER_SIZE boxes gens transport h = do {
     rust_assert (RX_BUFFER_SIZE > size_of_VirtioVsockHdr);
     (negotiated_features, t1) \<leftarrow> begin_init T vsock_Feature_all transport vsock_SUPPORTED_FEATURES;
     c \<leftarrow> read_consistent (map (observe T (read_guest_cid T)) gens);
     cid_result \<leftarrow> c;
     (case cid_result of
        Inl e \<Rightarrow> Some (Inl e, t1, h)
      | Inr guest_cid \<Rightarrow> do {
          let new_queue = let_queue T dma_alloc dma_dealloc mem vsock_QUEUE_SIZE
            (contains negotiated_features RING_INDIRECT_DESC) (contains negotiated_features RING_EVENT_IDX);
          new_queue [] RX_QUEUE_IDX t1 h (\<lambda>rx t2 h2.
          new_queue [rx] TX_QUEUE_IDX t2 h2 (\<lambda>tx t3 h3.
          new_queue [tx, rx] EVENT_QUEUE_IDX t3 h3 (\<lambda>event t4 h4. do {
            r \<leftarrow> OwningQueue_new share RX_BUFFER_SIZE boxes rx;
            (case r of
               Inl e \<Rightarrow> return_error dma_dealloc [rx, event, tx] e t4 h4
             | Inr orx \<Rightarrow> do {
                 t5 \<leftarrow> finish_init T t4;
                 t6 \<leftarrow> (if OwningQueue_should_notify orx then notify T t5 RX_QUEUE_IDX else Some t5);
                 Some (Inr \<lparr>sock_transport = t6, sock_rx = orx, sock_tx = tx, sock_event = event,
                            sock_guest_cid = guest_cid\<rparr>, t6, h4)
               })
          })))
        })
   }"

definition send_packet_to_tx_queue ::
    "share \<Rightarrow> 't Transport \<Rightarrow> packet_env \<Rightarrow> 't VirtIOSocket \<Rightarrow> VirtioVsockHdr \<Rightarrow> u8 list \<Rightarrow>
     ((Error + unit) \<times> 't VirtIOSocket \<times> u8 list list) option" where
  "send_packet_to_tx_queue share T env self hdr buffer = do {
     let header_slice = \<lparr>sl_ptr = pe_header env, sl_len = length (VirtioVsockHdr_as_bytes hdr)\<rparr>;
     (r, tx1, t1) \<leftarrow>
       (if buffer = [] then queue_request share T (pe_wait env) (sock_tx self) (sock_transport self) [header_slice] []
        else queue_request share T (pe_wait env) (sock_tx self) (sock_transport self)
               [header_slice, \<lparr>sl_ptr = pe_body env, sl_len = length buffer\<rparr>] []);
     Some (map_sum id (\<lambda>_. ()) r, self\<lparr>sock_tx := tx1, sock_transport := t1\<rparr>, [VirtioVsockHdr_as_bytes hdr @ buffer])
   }"

text \<open>\<^verbatim>\<open>connect\<close>, \<^verbatim>\<open>accept\<close>, \<^verbatim>\<open>request_credit\<close>, \<^verbatim>\<open>credit_update\<close> and \<^verbatim>\<open>force_close\<close> send a bare header.\<close>

type_synonym 't header_op =
  "share \<Rightarrow> 't Transport \<Rightarrow> packet_env \<Rightarrow> 't VirtIOSocket \<Rightarrow> ConnectionInfo \<Rightarrow>
   ((Error + unit) \<times> 't VirtIOSocket \<times> u8 list list) option"

definition VirtIOSocket_connect :: "'t header_op" where
  "VirtIOSocket_connect share T env self connection_info =
     send_packet_to_tx_queue share T env self
       ((new_header connection_info (sock_guest_cid self))\<lparr>hdr_op := VirtioVsockOp_into Request\<rparr>) []"

definition VirtIOSocket_accept :: "'t header_op" where
  "VirtIOSocket_accept share T env self connection_info =
     send_packet_to_tx_queue share T env self
       ((new_header connection_info (sock_guest_cid self))\<lparr>hdr_op := VirtioVsockOp_into Response\<rparr>) []"

definition VirtIOSocket_request_credit :: "'t header_op" where
  "VirtIOSocket_request_credit share T env self connection_info =
     send_packet_to_tx_queue share T env self
       ((new_header connection_info (sock_guest_cid self))\<lparr>hdr_op := VirtioVsockOp_into CreditRequest\<rparr>) []"

definition VirtIOSocket_credit_update :: "'t header_op" where
  "VirtIOSocket_credit_update share T env self connection_info =
     send_packet_to_tx_queue share T env self
       ((new_header connection_info (sock_guest_cid self))\<lparr>hdr_op := VirtioVsockOp_into CreditUpdate\<rparr>) []"

definition VirtIOSocket_force_close :: "'t header_op" where
  "VirtIOSocket_force_close share T env self connection_info =
     send_packet_to_tx_queue share T env self
       ((new_header connection_info (sock_guest_cid self))\<lparr>hdr_op := VirtioVsockOp_into Rst\<rparr>) []"

definition VirtIOSocket_shutdown_with_hints ::
    "share \<Rightarrow> 't Transport \<Rightarrow> packet_env \<Rightarrow> 't VirtIOSocket \<Rightarrow> ConnectionInfo \<Rightarrow> u32 \<Rightarrow>
     ((Error + unit) \<times> 't VirtIOSocket \<times> u8 list list) option" where
  "VirtIOSocket_shutdown_with_hints share T env self connection_info hints =
     send_packet_to_tx_queue share T env self
       ((new_header connection_info (sock_guest_cid self))\<lparr>hdr_op := VirtioVsockOp_into Shutdown, hdr_flags := hints\<rparr>) []"

definition VirtIOSocket_shutdown :: "'t header_op" where
  "VirtIOSocket_shutdown share T env self connection_info =
     VirtIOSocket_shutdown_with_hints share T env self connection_info (StreamShutdown_SEND OR StreamShutdown_RECEIVE)"

definition check_peer_buffer_is_sufficient ::
    "share \<Rightarrow> 't Transport \<Rightarrow> packet_env \<Rightarrow> 't VirtIOSocket \<Rightarrow> ConnectionInfo \<Rightarrow> nat \<Rightarrow>
     ((Error + unit) \<times> 't VirtIOSocket \<times> ConnectionInfo \<times> u8 list list) option" where
  "check_peer_buffer_is_sufficient share T env self connection_info buffer_len = do {
     free \<leftarrow> peer_free connection_info;
     if unat free \<ge> buffer_len then Some (Inr (), self, connection_info, [])
     else if ci_has_pending_credit_request connection_info
     then Some (Inl (SocketDeviceError InsufficientBufferSpaceInPeer), self, connection_info, [])
     else do {
       (r, self1, sent) \<leftarrow> VirtIOSocket_request_credit share T env self connection_info;
       Some (case r of
           Inl e \<Rightarrow> (Inl e, self1, connection_info, sent)
         | Inr _ \<Rightarrow> (Inl (SocketDeviceError InsufficientBufferSpaceInPeer), self1,
                     connection_info\<lparr>ci_has_pending_credit_request := True\<rparr>, sent))
     }
   }"

definition VirtIOSocket_send ::
    "share \<Rightarrow> 't Transport \<Rightarrow> packet_env \<Rightarrow> 't VirtIOSocket \<Rightarrow> u8 list \<Rightarrow> ConnectionInfo \<Rightarrow>
     ((Error + unit) \<times> 't VirtIOSocket \<times> ConnectionInfo \<times> u8 list list) option" where
  "VirtIOSocket_send share T env self buffer connection_info = do {
     (r, self1, info1, sent) \<leftarrow> check_peer_buffer_is_sufficient share T env self connection_info (length buffer);
     (case r of
        Inl e \<Rightarrow> Some (Inl e, self1, info1, sent)
      | Inr _ \<Rightarrow> do {
          let l = of_nat (length buffer);
          let hdr = (new_header info1 (sock_guest_cid self1))\<lparr>hdr_op := VirtioVsockOp_into Rw, hdr_len := l\<rparr>;
          tx_cnt \<leftarrow> rust_add (ci_tx_cnt info1) l;
          (r2, self2, sent2) \<leftarrow> send_packet_to_tx_queue share T env self1 hdr buffer;
          Some (r2, self2, info1\<lparr>ci_tx_cnt := tx_cnt\<rparr>, sent @ sent2)
        })
   }"

text \<open>The handler of \<^verbatim>\<open>poll\<close> works on a state \<open>s\<close> of its caller.\<close>

definition VirtIOSocket_poll ::
    "share \<Rightarrow> 't Transport \<Rightarrow> (u64 \<Rightarrow> nat \<Rightarrow> u8 list) \<Rightarrow> nat \<Rightarrow>
     ('s \<Rightarrow> VsockEvent \<Rightarrow> u8 list \<Rightarrow> ((Error + VsockEvent option) \<times> 's) option) \<Rightarrow> 't VirtIOSocket \<Rightarrow> 's \<Rightarrow>
     ((Error + VsockEvent option) \<times> 't VirtIOSocket \<times> 's) option" where
  "VirtIOSocket_poll share T mem RX_BUFFER_SIZE handler self s = do {
     (r, rx1, t1, s1) \<leftarrow> OwningQueue_poll share T mem RX_BUFFER_SIZE
       (\<lambda>s buffer.
          case read_header_and_body buffer of
            Inl e \<Rightarrow> Some (Inl e, s)
          | Inr (hdr, body) \<Rightarrow>
              (case VsockEvent_from_header hdr of
                 Inl e \<Rightarrow> Some (Inl e, s)
               | Inr event \<Rightarrow> handler s event body))
       (sock_rx self) (sock_transport self) s;
     Some (r, self\<lparr>sock_rx := rx1, sock_transport := t1\<rparr>, s1)
   }"

section \<open>The driver works\<close>

definition socket_inv :: "share \<Rightarrow> nat \<Rightarrow> 't VirtIOSocket \<Rightarrow> bool" where
  "socket_inv share bsz self \<longleftrightarrow> oq_inv share bsz (sock_rx self) \<and> idle share (sock_tx self)
     \<and> SIZE (sock_tx self) = vsock_QUEUE_SIZE \<and> 0 < bsz \<and> bsz < 2 ^ 32"

text \<open>What the driver needs from its surroundings to send: a device that takes the packet.\<close>

definition packet_taken :: "packet_env \<Rightarrow> 't VirtIOSocket \<Rightarrow> bool" where
  "packet_taken env self \<longleftrightarrow> (\<exists>l. answered (we_polls (pe_wait env)) (sock_tx self) l)"

lemma send_packet_ok:
  assumes inv: "socket_inv share bsz self" and dev: "packet_taken env self" "notify_total T" and len: "length buffer < 2 ^ 32"
  shows "\<exists>self'. send_packet_to_tx_queue share T env self hdr buffer
      = Some (Inr (), self', [VirtioVsockHdr_as_bytes hdr @ buffer])
    \<and> socket_inv share bsz self' \<and> sock_rx self' = sock_rx self \<and> sock_guest_cid self' = sock_guest_cid self"
proof -
  obtain l where l: "answered (we_polls (pe_wait env)) (sock_tx self) l" using dev(1) by (auto simp: packet_taken_def)
  define ins where "ins = (if buffer = [] then [\<lparr>sl_ptr = pe_header env, sl_len = length (VirtioVsockHdr_as_bytes hdr)\<rparr>]
    else [\<lparr>sl_ptr = pe_header env, sl_len = length (VirtioVsockHdr_as_bytes hdr)\<rparr>, \<lparr>sl_ptr = pe_body env, sl_len = length buffer\<rparr>])"
  have i: "\<forall>b \<in> set (ins @ []). 0 < sl_len b \<and> sl_len b < 2 ^ 32" "0 < length ins + length []"
    "length ins + length [] \<le> SIZE (sock_tx self)"
    using len inv by (auto simp: ins_def size_of_VirtioVsockHdr_def socket_inv_def vsock_QUEUE_SIZE_def)
  obtain q t where "queue_request share T (pe_wait env) (sock_tx self) (sock_transport self) ins [] = Some (Inr l, q, t)"
    "idle share q" "SIZE q = SIZE (sock_tx self)"
    using queue_request_ok [OF _ i l dev(2), of share] inv unfolding socket_inv_def by blast
  with inv show ?thesis
    by (cases "buffer = []") (simp_all add: send_packet_to_tx_queue_def ins_def socket_inv_def)
qed

text \<open>The credit the peer has given us covers what it has not yet processed.\<close>

definition credit_ok :: "ConnectionInfo \<Rightarrow> bool" where
  "credit_ok info \<longleftrightarrow> unat (ci_peer_fwd_cnt info) \<le> unat (ci_tx_cnt info)
     \<and> unat (ci_tx_cnt info) \<le> unat (ci_peer_fwd_cnt info) + unat (ci_peer_buf_alloc info)"

definition window_of :: "ConnectionInfo \<Rightarrow> nat" where
  "window_of info = unat (ci_peer_fwd_cnt info) + unat (ci_peer_buf_alloc info) - unat (ci_tx_cnt info)"

lemma peer_free_iff: "peer_free info \<noteq> None \<longleftrightarrow> credit_ok info"
  by (auto simp: peer_free_def rust_sub_def credit_ok_def word_le_nat_alt unat_sub_no_wrap)

lemma peer_free_ok: "credit_ok info \<Longrightarrow> \<exists>w. peer_free info = Some w \<and> unat w = window_of info"
  by (auto simp: peer_free_def rust_sub_def credit_ok_def window_of_def word_le_nat_alt unat_sub_no_wrap)

lemma send_within_window:
  assumes inv: "socket_inv share bsz self" and dev: "packet_taken env self" "notify_total T"
    and c: "credit_ok info" "length buffer \<le> window_of info" "unat (ci_tx_cnt info) + length buffer < 2 ^ 32"
  shows "\<exists>self' info'. VirtIOSocket_send share T env self buffer info = Some (Inr (), self', info',
      [VirtioVsockHdr_as_bytes ((new_header info (sock_guest_cid self))
        \<lparr>hdr_op := VirtioVsockOp_into Rw, hdr_len := of_nat (length buffer)\<rparr>) @ buffer])
    \<and> socket_inv share bsz self' \<and> sock_rx self' = sock_rx self \<and> sock_guest_cid self' = sock_guest_cid self
    \<and> info' = info\<lparr>ci_tx_cnt := ci_tx_cnt info + of_nat (length buffer)\<rparr>
    \<and> credit_ok info' \<and> window_of info' = window_of info - length buffer"
proof -
  have l: "length buffer < 2 ^ 32" using c(3) by simp
  have u: "unat (of_nat (length buffer) :: u32) = length buffer" using l by (simp add: unat_of_nat_bound)
  then have a: "unat (ci_tx_cnt info + of_nat (length buffer)) = unat (ci_tx_cnt info) + length buffer"
    using c(3) by (simp add: unat_add_no_wrap)
  obtain w where w: "peer_free info = Some w" "unat w = window_of info" using peer_free_ok [OF c(1)] by blast
  let ?h = "(new_header info (sock_guest_cid self))\<lparr>hdr_op := VirtioVsockOp_into Rw, hdr_len := of_nat (length buffer)\<rparr>"
  obtain self' where s: "send_packet_to_tx_queue share T env self ?h buffer = Some (Inr (), self', [VirtioVsockHdr_as_bytes ?h @ buffer])"
    "socket_inv share bsz self'" "sock_rx self' = sock_rx self" "sock_guest_cid self' = sock_guest_cid self"
    using send_packet_ok [OF inv dev l, of ?h] by blast
  have "rust_add (ci_tx_cnt info) (of_nat (length buffer)) = Some (ci_tx_cnt info + of_nat (length buffer))"
    using c(3) u by (simp add: rust_add_def)
  then have "VirtIOSocket_send share T env self buffer info = Some (Inr (), self',
      info\<lparr>ci_tx_cnt := ci_tx_cnt info + of_nat (length buffer)\<rparr>, [VirtioVsockHdr_as_bytes ?h @ buffer])"
    using w c(2) s(1) by (simp add: VirtIOSocket_send_def check_peer_buffer_is_sufficient_def Let_def)
  with c a s(2-4) show ?thesis by (auto simp: credit_ok_def window_of_def)
qed

lemma send_beyond_window:
  assumes inv: "socket_inv share bsz self" and dev: "packet_taken env self" "notify_total T"
    and c: "credit_ok info" "window_of info < length buffer"
  shows "\<exists>self'. VirtIOSocket_send share T env self buffer info
      = Some (Inl (SocketDeviceError InsufficientBufferSpaceInPeer), self', info\<lparr>ci_has_pending_credit_request := True\<rparr>,
          if ci_has_pending_credit_request info then []
          else [VirtioVsockHdr_as_bytes ((new_header info (sock_guest_cid self))\<lparr>hdr_op := VirtioVsockOp_into CreditRequest\<rparr>)])
    \<and> socket_inv share bsz self' \<and> sock_rx self' = sock_rx self \<and> sock_guest_cid self' = sock_guest_cid self"
proof -
  obtain w where w: "peer_free info = Some w" "unat w = window_of info" using peer_free_ok [OF c(1)] by blast
  show ?thesis
  proof (cases "ci_has_pending_credit_request info")
    case True
    then have "info\<lparr>ci_has_pending_credit_request := True\<rparr> = info" by (cases info) simp
    with True w c(2) inv show ?thesis by (auto simp: VirtIOSocket_send_def check_peer_buffer_is_sufficient_def)
  next
    case False
    let ?h = "(new_header info (sock_guest_cid self))\<lparr>hdr_op := VirtioVsockOp_into CreditRequest\<rparr>"
    obtain self' where "send_packet_to_tx_queue share T env self ?h [] = Some (Inr (), self', [VirtioVsockHdr_as_bytes ?h])"
      "socket_inv share bsz self'" "sock_rx self' = sock_rx self" "sock_guest_cid self' = sock_guest_cid self"
      using send_packet_ok [OF inv dev, of "[]" ?h] by auto
    with False w c(2) show ?thesis
      by (simp add: VirtIOSocket_send_def check_peer_buffer_is_sufficient_def VirtIOSocket_request_credit_def)
  qed
qed

end
