(* ===== verification/Ring_Buffer.thy ===== *)
theory Ring_Buffer
  imports D3OS_Prelude
begin

text \<open>
  The byte buffer of a vsock connection (\<^verbatim>\<open>RingBuffer\<close> in
  \<^verbatim>\<open>virtio-drivers/src/device/socket/connectionmanager.rs\<close>) and its specification: the buffer is a
  bounded queue of bytes. The locale \<open>byte_fifo\<close> is what the connection manager relies on.
\<close>

section \<open>The operations\<close>

record RingBuffer =
  rb_buffer :: "u8 list"
  rb_used :: nat
  rb_start :: nat

definition RingBuffer_new :: "nat \<Rightarrow> RingBuffer" where
  "RingBuffer_new capacity = \<lparr>rb_buffer = replicate capacity 0, rb_used = 0, rb_start = 0\<rparr>"

definition RingBuffer_used :: "RingBuffer \<Rightarrow> nat" where
  "RingBuffer_used self = rb_used self"

definition RingBuffer_is_empty :: "RingBuffer \<Rightarrow> bool" where
  "RingBuffer_is_empty self \<longleftrightarrow> rb_used self = 0"

definition RingBuffer_free :: "RingBuffer \<Rightarrow> nat option" where
  "RingBuffer_free self = (if rb_used self \<le> length (rb_buffer self) then Some (length (rb_buffer self) - rb_used self) else None)"

text \<open>The remainder by the length of an empty buffer panics.\<close>

definition rust_rem :: "nat \<Rightarrow> nat \<Rightarrow> nat option" where
  "rust_rem a b = (if b = 0 then None else Some (a mod b))"

definition RingBuffer_add :: "RingBuffer \<Rightarrow> u8 list \<Rightarrow> (bool \<times> RingBuffer) option" where
  "RingBuffer_add self bytes = do {
     free \<leftarrow> RingBuffer_free self;
     if length bytes > free then Some (False, self)
     else do {
       first_available \<leftarrow> rust_rem (rb_start self + rb_used self) (length (rb_buffer self));
       let copy_length_before_wraparound = min (length bytes) (length (rb_buffer self) - first_available);
       before \<leftarrow> slice_get bytes 0 copy_length_before_wraparound;
       buffer1 \<leftarrow> slice_copy (rb_buffer self) first_available (first_available + copy_length_before_wraparound) before;
       buffer2 \<leftarrow> (case slice_get bytes copy_length_before_wraparound (length bytes) of
           Some bytes_after_wraparound \<Rightarrow> slice_copy buffer1 0 (length bytes_after_wraparound) bytes_after_wraparound
         | None \<Rightarrow> Some buffer1);
       Some (True, self\<lparr>rb_buffer := buffer2, rb_used := rb_used self + length bytes\<rparr>)
     }
   }"

text \<open>\<^verbatim>\<open>drain\<close> fills the front of \<open>out\<close>; the result has the number of bytes read and the new \<open>out\<close>.\<close>

definition RingBuffer_drain :: "RingBuffer \<Rightarrow> u8 list \<Rightarrow> (nat \<times> RingBuffer \<times> u8 list) option" where
  "RingBuffer_drain self out = do {
     let bytes_read = min (rb_used self) (length out);
     room \<leftarrow> (if rb_start self \<le> length (rb_buffer self) then Some (length (rb_buffer self) - rb_start self) else None);
     let read_before_wraparound = min bytes_read room;
     let read_after_wraparound = bytes_read - read_before_wraparound;
     part1 \<leftarrow> slice_get (rb_buffer self) (rb_start self) (rb_start self + read_before_wraparound);
     out1 \<leftarrow> slice_copy out 0 read_before_wraparound part1;
     part2 \<leftarrow> slice_get (rb_buffer self) 0 read_after_wraparound;
     out2 \<leftarrow> slice_copy out1 read_before_wraparound bytes_read part2;
     start1 \<leftarrow> rust_rem (rb_start self + bytes_read) (length (rb_buffer self));
     Some (bytes_read, self\<lparr>rb_used := rb_used self - bytes_read, rb_start := start1\<rparr>, out2)
   }"

section \<open>The specification\<close>

text \<open>
  A run of a queue of bytes: a step either adds bytes, if they fit, or drains into a buffer; the
  result collects what was accepted and what was delivered.
\<close>

fun fifo_run :: "('b \<Rightarrow> u8 list \<Rightarrow> (bool \<times> 'b) option) \<Rightarrow> ('b \<Rightarrow> u8 list \<Rightarrow> (nat \<times> 'b \<times> u8 list) option) \<Rightarrow>
    (u8 list + u8 list) list \<Rightarrow> 'b \<Rightarrow> (u8 list \<times> u8 list \<times> 'b) option" where
  "fifo_run add drain [] b = Some ([], [], b)"
| "fifo_run add drain (Inl bs # steps) b = do {
     (accepted, b1) \<leftarrow> add b bs;
     (i, out, b2) \<leftarrow> fifo_run add drain steps b1;
     Some ((if accepted then bs @ i else i), out, b2)
   }"
| "fifo_run add drain (Inr buf # steps) b = do {
     (n, b1, buf1) \<leftarrow> drain b buf;
     (i, out, b2) \<leftarrow> fifo_run add drain steps b1;
     Some (i, take n buf1 @ out, b2)
   }"

text \<open>
  A bounded queue of bytes: \<open>contents\<close> is the abstraction; an operation that does not fit leaves the
  queue alone.
\<close>

locale byte_fifo =
  fixes add :: "'b \<Rightarrow> u8 list \<Rightarrow> (bool \<times> 'b) option"
    and drain :: "'b \<Rightarrow> u8 list \<Rightarrow> (nat \<times> 'b \<times> u8 list) option"
    and contents :: "'b \<Rightarrow> u8 list"
    and capacity :: "'b \<Rightarrow> nat"
    and ok :: "'b \<Rightarrow> bool"
  assumes add_law: "ok b \<Longrightarrow> \<exists>b'. add b bs = Some (length (contents b) + length bs \<le> capacity b, b')
      \<and> ok b' \<and> capacity b' = capacity b
      \<and> contents b' = (if length (contents b) + length bs \<le> capacity b then contents b @ bs else contents b)"
    and drain_law: "ok b \<Longrightarrow> \<exists>b'. drain b out = Some (min (length (contents b)) (length out), b',
        take (length out) (contents b) @ drop (length (contents b)) out)
      \<and> ok b' \<and> capacity b' = capacity b \<and> contents b' = drop (length out) (contents b)"
begin

lemma run_fifo:
  "ok b \<Longrightarrow> \<exists>i out b'. fifo_run add drain steps b = Some (i, out, b') \<and> ok b' \<and> capacity b' = capacity b
     \<and> contents b @ i = out @ contents b'"
proof (induction steps arbitrary: b)
  case (Cons s steps)
  show ?case
  proof (cases s)
    case (Inl bs)
    obtain b1 where b1: "add b bs = Some (length (contents b) + length bs \<le> capacity b, b1)" "ok b1" "capacity b1 = capacity b"
      "contents b1 = (if length (contents b) + length bs \<le> capacity b then contents b @ bs else contents b)"
      using add_law [OF Cons.prems] by blast
    with Cons.IH [OF b1(2)] show ?thesis by (auto simp: Inl)
  next
    case (Inr buf)
    obtain b1 where b1: "drain b buf = Some (min (length (contents b)) (length buf), b1,
        take (length buf) (contents b) @ drop (length (contents b)) buf)" "ok b1" "capacity b1 = capacity b"
      "contents b1 = drop (length buf) (contents b)"
      using drain_law [OF Cons.prems] by blast
    obtain i out b' where r: "fifo_run add drain steps b1 = Some (i, out, b')" "ok b'" "capacity b' = capacity b1"
      "contents b1 @ i = out @ contents b'" using Cons.IH [OF b1(2)] by blast
    have "contents b @ i = take (length buf) (contents b) @ contents b1 @ i" by (simp add: b1(4) flip: append_assoc)
    then have "contents b @ i = take (length buf) (contents b) @ out @ contents b'" using r(4) by simp
    then show ?thesis using b1(1,2,3) r(1,2,3) by (auto simp: Inr min_def)
  qed
qed simp

end

section \<open>The ring buffer implements it\<close>

definition rb_inv :: "RingBuffer \<Rightarrow> bool" where
  "rb_inv b \<longleftrightarrow> rb_used b \<le> length (rb_buffer b) \<and> rb_start b < length (rb_buffer b)"

definition rb_contents :: "RingBuffer \<Rightarrow> u8 list" where
  "rb_contents b = map (\<lambda>i. rb_buffer b ! ((rb_start b + i) mod length (rb_buffer b))) [0..<rb_used b]"

definition rb_capacity :: "RingBuffer \<Rightarrow> nat" where
  "rb_capacity b = length (rb_buffer b)"

lemma rb_contents_length [simp]: "length (rb_contents b) = rb_used b"
  by (simp add: rb_contents_def)

lemma mod_eq_if: "a < 2 * (n :: nat) \<Longrightarrow> a mod n = (if a < n then a else a - n)"
  by (simp add: le_mod_geq)

text \<open>The contents are the two parts that \<^verbatim>\<open>drain\<close> copies.\<close>

lemma rb_contents_parts:
  assumes "rb_inv b"
  shows "rb_contents b = take (rb_used b) (drop (rb_start b) (rb_buffer b) @ take (rb_start b) (rb_buffer b))"
proof (rule nth_equalityI)
  fix i assume "i < length (rb_contents b)"
  then have i: "i < rb_used b" by simp
  with assms have "rb_start b + i < 2 * length (rb_buffer b)" by (simp add: rb_inv_def)
  with i assms show "rb_contents b ! i = take (rb_used b) (drop (rb_start b) (rb_buffer b) @ take (rb_start b) (rb_buffer b)) ! i"
    by (auto simp: rb_contents_def rb_inv_def nth_append mod_eq_if add.commute)
qed (use assms in \<open>auto simp: rb_inv_def min_def\<close>)

text \<open>The writes of \<^verbatim>\<open>add\<close>, position by position.\<close>

lemma ring_write_nth:
  assumes "f < length xs" "length bs \<le> length xs" and k: "k = min (length bs) (length xs - f)"
    and ys: "ys = take f xs @ take k bs @ drop (f + k) xs"
    and zs: "zs = drop k bs @ drop (length bs - k) ys" and i: "i < length xs"
  shows "length zs = length xs"
    and "zs ! i = (if (i + length xs - f) mod length xs < length bs then bs ! ((i + length xs - f) mod length xs) else xs ! i)"
proof -
  have ly: "length ys = length xs" using assms by auto
  show "length zs = length xs" using assms ly by auto
  have p: "(i + length xs - f) mod length xs = (if f \<le> i then i - f else i + length xs - f)"
    using assms(1) i mod_eq_if [of "i + length xs - f" "length xs"] by auto
  show "zs ! i = (if (i + length xs - f) mod length xs < length bs then bs ! ((i + length xs - f) mod length xs) else xs ! i)"
  proof (cases "length bs \<le> length xs - f")
    case True
    then have "zs = take f xs @ bs @ drop (f + length bs) xs" by (simp add: k ys zs)
    then show ?thesis using True assms(1) i unfolding p by (auto simp: nth_append add.commute)
  next
    case False
    then have "zs = drop (length xs - f) bs @ drop (length bs - (length xs - f)) (take f xs) @ take (length xs - f) bs"
      using assms(1,2) by (simp add: k ys zs)
    note z = this
    consider "f \<le> i" | "i < f" "i < length bs + f - length xs" | "i < f" "length bs + f - length xs \<le> i" by linarith
    then show ?thesis
    proof cases
      case 1
      then show ?thesis using False assms(1,2) i unfolding p z by (auto simp: nth_append)
    next
      case 2
      then have "i + length xs - f = length xs - f + i" using assms(1) by simp
      with 2 show ?thesis using False assms(1,2) unfolding p z by (auto simp: nth_append)
    next
      case 3
      then show ?thesis using False assms(1,2) unfolding p z by (auto simp: nth_append)
    qed
  qed
qed

lemma RingBuffer_add_full:
  assumes "rb_inv b" "rb_used b + length bs > length (rb_buffer b)"
  shows "RingBuffer_add b bs = Some (False, b)"
  using assms by (simp add: RingBuffer_add_def RingBuffer_free_def rb_inv_def less_diff_conv2)

lemma RingBuffer_add_fits:
  assumes inv: "rb_inv b" and fits: "rb_used b + length bs \<le> length (rb_buffer b)"
  shows "\<exists>b'. RingBuffer_add b bs = Some (True, b') \<and> rb_inv b' \<and> length (rb_buffer b') = length (rb_buffer b)
    \<and> rb_contents b' = rb_contents b @ bs"
proof -
  let ?n = "length (rb_buffer b)" and ?u = "rb_used b" and ?s = "rb_start b"
  define f where "f = (?s + ?u) mod ?n"
  define k where "k = min (length bs) (?n - f)"
  define ys where "ys = take f (rb_buffer b) @ take k bs @ drop (f + k) (rb_buffer b)"
  define zs where "zs = drop k bs @ drop (length bs - k) ys"
  have n: "?s < ?n" "?u \<le> ?n" using inv by (simp_all add: rb_inv_def)
  then have f: "f < ?n" unfolding f_def by (intro mod_less_divisor) linarith
  have lb: "length bs \<le> ?n" using fits by simp
  note w = ring_write_nth [OF f lb k_def ys_def zs_def]
  have ly: "length ys = ?n" using f by (auto simp: ys_def k_def)
  have add: "RingBuffer_add b bs = Some (True, b\<lparr>rb_buffer := zs, rb_used := ?u + length bs\<rparr>)"
    using n f fits ly lb
    by (simp add: RingBuffer_add_def RingBuffer_free_def rust_rem_def panic_simps Let_def flip: f_def k_def)
       (auto simp: panic_simps k_def ys_def zs_def)
  have lz: "length zs = ?n" using w(1) [OF f] .
  have "rb_contents (b\<lparr>rb_buffer := zs, rb_used := ?u + length bs\<rparr>) = rb_contents b @ bs"
  proof (rule nth_equalityI)
    fix i assume "i < length (rb_contents (b\<lparr>rb_buffer := zs, rb_used := ?u + length bs\<rparr>))"
    then have i: "i < ?u + length bs" by simp
    let ?p = "(?s + i) mod ?n"
    have p: "?p < ?n" using n by (intro mod_less_divisor) linarith
    have "(?p + ?n - f) mod ?n = (if ?u \<le> i then i - ?u else i + ?n - ?u)"
      using i n fits mod_eq_if [of "?s + i" ?n] mod_eq_if [of "?s + ?u" ?n] mod_eq_if [of "?p + ?n - f" ?n]
      by (auto simp: f_def split: if_splits)
    then show "rb_contents (b\<lparr>rb_buffer := zs, rb_used := ?u + length bs\<rparr>) ! i = (rb_contents b @ bs) ! i"
      using i fits n w(2) [OF p] lz by (auto simp: rb_contents_def nth_append)
  qed simp
  with add n fits lz show ?thesis by (auto simp: rb_inv_def)
qed

lemma RingBuffer_drain_ok:
  assumes inv: "rb_inv b"
  shows "\<exists>b'. RingBuffer_drain b out = Some (min (rb_used b) (length out), b', take (length out) (rb_contents b) @ drop (rb_used b) out)
    \<and> rb_inv b' \<and> length (rb_buffer b') = length (rb_buffer b) \<and> rb_contents b' = drop (length out) (rb_contents b)"
proof -
  let ?n = "length (rb_buffer b)" and ?u = "rb_used b" and ?s = "rb_start b"
  define m where "m = min ?u (length out)"
  have n: "?s < ?n" "?u \<le> ?n" using inv by (simp_all add: rb_inv_def)
  let ?b = "b\<lparr>rb_used := ?u - m, rb_start := (?s + m) mod ?n\<rparr>"
  have m: "m \<le> ?u" "m \<le> length out" by (simp_all add: m_def)
  have "RingBuffer_drain b out = Some (m, ?b, take m (rb_contents b) @ drop m out)"
    using n m unfolding rb_contents_parts [OF inv]
    by (simp add: RingBuffer_drain_def rust_rem_def panic_simps Let_def flip: m_def)
       (auto simp: min_def)
  moreover have "take m (rb_contents b) @ drop m out = take (length out) (rb_contents b) @ drop ?u out"
    by (auto simp: m_def min_def)
  moreover have "rb_inv ?b" using n m(1) by (auto simp: rb_inv_def intro!: mod_less_divisor)
  moreover have "rb_contents ?b = drop (length out) (rb_contents b)"
  proof (rule nth_equalityI)
    fix i assume "i < length (rb_contents ?b)"
    then have i: "i < ?u - m" "length out + i < ?u" and lm: "length out = m" by (auto simp: m_def)
    have "((?s + m) mod ?n + i) mod ?n = (?s + (m + i)) mod ?n" by (simp add: mod_add_left_eq add.assoc)
    with i lm show "rb_contents ?b ! i = drop (length out) (rb_contents b) ! i"
      by (simp add: rb_contents_def)
  qed (auto simp: m_def)
  ultimately show ?thesis by (auto simp: m_def)
qed

interpretation rb: byte_fifo RingBuffer_add RingBuffer_drain rb_contents rb_capacity rb_inv
proof
  fix b :: RingBuffer and bs
  assume ok: "rb_inv b"
  show "\<exists>b'. RingBuffer_add b bs = Some (length (rb_contents b) + length bs \<le> rb_capacity b, b')
      \<and> rb_inv b' \<and> rb_capacity b' = rb_capacity b
      \<and> rb_contents b' = (if length (rb_contents b) + length bs \<le> rb_capacity b then rb_contents b @ bs else rb_contents b)"
  proof (cases "rb_used b + length bs \<le> length (rb_buffer b)")
    case True
    with RingBuffer_add_fits [OF ok True] show ?thesis by (auto simp: rb_capacity_def)
  next
    case False
    with RingBuffer_add_full [OF ok, of bs] ok show ?thesis by (auto simp: rb_capacity_def)
  qed
next
  fix b :: RingBuffer and out
  assume "rb_inv b"
  from RingBuffer_drain_ok [OF this, of out]
  show "\<exists>b'. RingBuffer_drain b out = Some (min (length (rb_contents b)) (length out), b',
        take (length out) (rb_contents b) @ drop (length (rb_contents b)) out)
      \<and> rb_inv b' \<and> rb_capacity b' = rb_capacity b \<and> rb_contents b' = drop (length out) (rb_contents b)"
    by (simp add: rb_capacity_def)
qed

lemma RingBuffer_new_ok: "0 < n \<Longrightarrow> rb_inv (RingBuffer_new n)" "rb_contents (RingBuffer_new n) = []" "rb_capacity (RingBuffer_new n) = n"
  by (simp_all add: RingBuffer_new_def rb_inv_def rb_contents_def rb_capacity_def)

text \<open>A buffer of capacity zero cannot even take an empty packet: the remainder by its length panics.\<close>

lemma RingBuffer_zero_capacity: "RingBuffer_add (RingBuffer_new 0) [] = None"
  by (simp add: RingBuffer_add_def RingBuffer_new_def RingBuffer_free_def rust_rem_def)

section \<open>Properties\<close>



end
