(* ===== verification/Vsock_Connection_Manager.thy ===== *)
theory Vsock_Connection_Manager
  imports Vsock_Driver Ring_Buffer
begin

text \<open>
  The connection manager on top of the socket driver (\<^verbatim>\<open>VsockConnectionManager\<close> in
  \<^verbatim>\<open>virtio-drivers/src/device/socket/connectionmanager.rs\<close>). The specification has a map from the
  address of the peer and the local port to the state of the connection; the list of connections,
  its swapping removal and the ring buffers implement it.
\<close>

section \<open>The operations\<close>

definition DEFAULT_PER_CONNECTION_BUFFER_CAPACITY :: u32 where
  "DEFAULT_PER_CONNECTION_BUFFER_CAPACITY = 1024"

record Connection =
  co_info :: ConnectionInfo
  co_buffer :: RingBuffer
  co_peer_requested_shutdown :: bool

definition Connection_new :: "VsockAddr \<Rightarrow> u32 \<Rightarrow> u32 \<Rightarrow> Connection" where
  "Connection_new peer local_port buffer_capacity =
     \<lparr>co_info = (ConnectionInfo_new peer local_port)\<lparr>ci_buf_alloc := buffer_capacity\<rparr>,
      co_buffer = RingBuffer_new (unat buffer_capacity), co_peer_requested_shutdown = False\<rparr>"

record 't VsockConnectionManager =
  cm_driver :: "'t VirtIOSocket"
  cm_per_connection_buffer_capacity :: u32
  cm_connections :: "Connection list"
  cm_listening_ports :: "u32 list"

definition VsockConnectionManager_new_with_capacity :: "'t VirtIOSocket \<Rightarrow> u32 \<Rightarrow> 't VsockConnectionManager" where
  "VsockConnectionManager_new_with_capacity driver per_connection_buffer_capacity =
     \<lparr>cm_driver = driver, cm_per_connection_buffer_capacity = per_connection_buffer_capacity,
      cm_connections = [], cm_listening_ports = []\<rparr>"

definition VsockConnectionManager_new :: "'t VirtIOSocket \<Rightarrow> 't VsockConnectionManager" where
  "VsockConnectionManager_new driver =
     VsockConnectionManager_new_with_capacity driver DEFAULT_PER_CONNECTION_BUFFER_CAPACITY"

definition cm_listen :: "'t VsockConnectionManager \<Rightarrow> u32 \<Rightarrow> 't VsockConnectionManager" where
  "cm_listen self p =
     (if p \<in> set (cm_listening_ports self) then self
      else self\<lparr>cm_listening_ports := cm_listening_ports self @ [p]\<rparr>)"

definition cm_unlisten :: "'t VsockConnectionManager \<Rightarrow> u32 \<Rightarrow> 't VsockConnectionManager" where
  "cm_unlisten self p = self\<lparr>cm_listening_ports := filter (\<lambda>q. q \<noteq> p) (cm_listening_ports self)\<rparr>"

definition get_connection :: "Connection list \<Rightarrow> VsockAddr \<Rightarrow> u32 \<Rightarrow> SocketError + (nat \<times> Connection)" where
  "get_connection connections peer local_port =
     (case find (\<lambda>(_, c). ci_dst (co_info c) = peer \<and> ci_src_port (co_info c) = local_port) (enumerate 0 connections) of
        None \<Rightarrow> Inl NotConnected
      | Some r \<Rightarrow> Inr r)"

definition get_connection_for_event :: "Connection list \<Rightarrow> VsockEvent \<Rightarrow> u64 \<Rightarrow> (nat \<times> Connection) option" where
  "get_connection_for_event connections event local_cid =
     find (\<lambda>(_, c). matches_connection event (co_info c) local_cid) (enumerate 0 connections)"

definition cm_connect ::
    "share \<Rightarrow> 't Transport \<Rightarrow> packet_env \<Rightarrow> 't VsockConnectionManager \<Rightarrow> VsockAddr \<Rightarrow> u32 \<Rightarrow>
     ((Error + unit) \<times> 't VsockConnectionManager \<times> u8 list list) option" where
  "cm_connect share T env self destination src_port =
     (if \<exists>c \<in> set (cm_connections self). ci_dst (co_info c) = destination \<and> ci_src_port (co_info c) = src_port
      then Some (Inl (SocketDeviceError ConnectionExists), self, [])
      else do {
        let new_connection = Connection_new destination src_port (cm_per_connection_buffer_capacity self);
        (r, driver1, sent) \<leftarrow> VirtIOSocket_connect share T env (cm_driver self) (co_info new_connection);
        Some (case r of
            Inl e \<Rightarrow> (Inl e, self\<lparr>cm_driver := driver1\<rparr>, sent)
          | Inr _ \<Rightarrow> (Inr (), self\<lparr>cm_driver := driver1, cm_connections := cm_connections self @ [new_connection]\<rparr>, sent))
      })"

definition cm_send ::
    "share \<Rightarrow> 't Transport \<Rightarrow> packet_env \<Rightarrow> 't VsockConnectionManager \<Rightarrow> VsockAddr \<Rightarrow> u32 \<Rightarrow> u8 list \<Rightarrow>
     ((Error + unit) \<times> 't VsockConnectionManager \<times> u8 list list) option" where
  "cm_send share T env self destination src_port buffer =
     (case get_connection (cm_connections self) destination src_port of
        Inl e \<Rightarrow> Some (Inl (SocketDeviceError e), self, [])
      | Inr (i, connection) \<Rightarrow> do {
          (r, driver1, info1, sent) \<leftarrow> VirtIOSocket_send share T env (cm_driver self) buffer (co_info connection);
          Some (r, self\<lparr>cm_driver := driver1,
                        cm_connections := (cm_connections self)[i := connection\<lparr>co_info := info1\<rparr>]\<rparr>, sent)
        })"

text \<open>The closure that \<^verbatim>\<open>poll\<close> hands to the driver, from the point where the connection is known.\<close>

definition poll_update ::
    "Connection list \<Rightarrow> nat \<Rightarrow> VsockEvent \<Rightarrow> u8 list \<Rightarrow> ((Error + VsockEvent option) \<times> Connection list) option" where
  "poll_update connections i event body = do {
     c \<leftarrow> idx connections i;
     let c1 = c\<lparr>co_info := update_for_event (co_info c) event\<rparr>;
     (case ev_event_type event of
        Received l \<Rightarrow> do {
          (added, b) \<leftarrow> RingBuffer_add (co_buffer c1) body;
          Some (if added then (Inr (Some event), connections[i := c1\<lparr>co_buffer := b\<rparr>])
                else (Inl (SocketDeviceError (OutputBufferTooShort l)), connections[i := c1\<lparr>co_buffer := b\<rparr>]))
        }
      | _ \<Rightarrow> Some (Inr (Some event), connections[i := c1]))
   }"

definition poll_closure ::
    "u64 \<Rightarrow> u32 \<Rightarrow> Connection list \<Rightarrow> VsockEvent \<Rightarrow> u8 list \<Rightarrow> ((Error + VsockEvent option) \<times> Connection list) option" where
  "poll_closure guest_cid capacity connections event body =
     (case get_connection_for_event connections event guest_cid of
        Some (i, _) \<Rightarrow> poll_update connections i event body
      | None \<Rightarrow>
          if ev_event_type event = ConnectionRequested then
            (if cid (ev_destination event) \<noteq> guest_cid then Some (Inr None, connections)
             else poll_update (connections @ [Connection_new (ev_source event) (port (ev_destination event)) capacity])
                    (length connections) event body)
          else Some (Inr None, connections))"

definition cm_remove :: "'t VsockConnectionManager \<Rightarrow> nat \<Rightarrow> 't VsockConnectionManager option" where
  "cm_remove self i = do { cs \<leftarrow> swap_remove (cm_connections self) i; Some (self\<lparr>cm_connections := cs\<rparr>) }"

text \<open>\<^verbatim>\<open>self.driver.op(&connection.info)?\<close> followed by \<open>k\<close>.\<close>

definition cm_driver_op ::
    "('t VirtIOSocket \<Rightarrow> ConnectionInfo \<Rightarrow> ((Error + unit) \<times> 't VirtIOSocket \<times> u8 list list) option) \<Rightarrow>
     't VsockConnectionManager \<Rightarrow> ConnectionInfo \<Rightarrow>
     ('t VsockConnectionManager \<Rightarrow> ((Error + 'r) \<times> 't VsockConnectionManager) option) \<Rightarrow>
     ((Error + 'r) \<times> 't VsockConnectionManager \<times> u8 list list) option" where
  "cm_driver_op op self info k = do {
     (r, driver1, sent) \<leftarrow> op (cm_driver self) info;
     (case r of
        Inl e \<Rightarrow> Some (Inl e, self\<lparr>cm_driver := driver1\<rparr>, sent)
      | Inr _ \<Rightarrow> do {
          (r2, self2) \<leftarrow> k (self\<lparr>cm_driver := driver1\<rparr>);
          Some (r2, self2, sent)
        })
   }"

text \<open>The match on the event after the closure has run, for the connection at position \<open>i\<close>.\<close>

definition cm_react ::
    "share \<Rightarrow> 't Transport \<Rightarrow> packet_env \<Rightarrow> 't VsockConnectionManager \<Rightarrow> VsockEvent \<Rightarrow> nat \<Rightarrow> Connection \<Rightarrow>
     ((Error + VsockEvent option) \<times> 't VsockConnectionManager \<times> u8 list list) option" where
  "cm_react share T env self event i connection =
     (case ev_event_type event of
        ConnectionRequested \<Rightarrow>
          if port (ev_destination event) \<in> set (cm_listening_ports self)
          then cm_driver_op (VirtIOSocket_accept share T env) self (co_info connection) (\<lambda>s. Some (Inr (Some event), s))
          else cm_driver_op (VirtIOSocket_force_close share T env) self (co_info connection)
                 (\<lambda>s. do { s1 \<leftarrow> cm_remove s i; Some (Inr None, s1) })
      | Connected \<Rightarrow> Some (Inr (Some event), self, [])
      | Disconnected reason \<Rightarrow>
          if RingBuffer_is_empty (co_buffer connection) then
            (if reason = ShutdownByPeer
             then cm_driver_op (VirtIOSocket_force_close share T env) self (co_info connection)
                    (\<lambda>s. do { s1 \<leftarrow> cm_remove s i; Some (Inr (Some event), s1) })
             else do { s1 \<leftarrow> cm_remove self i; Some (Inr (Some event), s1, []) })
          else Some (Inr (Some event),
                 self\<lparr>cm_connections := (cm_connections self)[i := connection\<lparr>co_peer_requested_shutdown := True\<rparr>]\<rparr>, [])
      | Received _ \<Rightarrow> Some (Inr (Some event), self, [])
      | CreditRequested \<Rightarrow>
          cm_driver_op (VirtIOSocket_credit_update share T env) self (co_info connection) (\<lambda>s. Some (Inr None, s))
      | CreditUpdated \<Rightarrow> Some (Inr (Some event), self, []))"

definition cm_poll ::
    "share \<Rightarrow> 't Transport \<Rightarrow> (u64 \<Rightarrow> nat \<Rightarrow> u8 list) \<Rightarrow> nat \<Rightarrow> packet_env \<Rightarrow> 't VsockConnectionManager \<Rightarrow>
     ((Error + VsockEvent option) \<times> 't VsockConnectionManager \<times> u8 list list) option" where
  "cm_poll share T mem RX_BUFFER_SIZE env self = do {
     let guest_cid = sock_guest_cid (cm_driver self);
     (result, driver1, connections1) \<leftarrow> VirtIOSocket_poll share T mem RX_BUFFER_SIZE
       (poll_closure guest_cid (cm_per_connection_buffer_capacity self)) (cm_driver self) (cm_connections self);
     let self1 = self\<lparr>cm_driver := driver1, cm_connections := connections1\<rparr>;
     (case result of
        Inl e \<Rightarrow> Some (Inl e, self1, [])
      | Inr None \<Rightarrow> Some (Inr None, self1, [])
      | Inr (Some event) \<Rightarrow> do {
          (i, connection) \<leftarrow> get_connection_for_event connections1 event guest_cid;
          cm_react share T env self1 event i connection
        })
   }"

text \<open>\<^verbatim>\<open>recv\<close> also returns the buffer it was given, with the bytes read at its front.\<close>

definition cm_recv ::
    "share \<Rightarrow> 't Transport \<Rightarrow> packet_env \<Rightarrow> 't VsockConnectionManager \<Rightarrow> VsockAddr \<Rightarrow> u32 \<Rightarrow> u8 list \<Rightarrow>
     (((Error + nat) \<times> 't VsockConnectionManager \<times> u8 list list) \<times> u8 list) option" where
  "cm_recv share T env self peer src_port buffer =
     (case get_connection (cm_connections self) peer src_port of
        Inl e \<Rightarrow> Some ((Inl (SocketDeviceError e), self, []), buffer)
      | Inr (i, connection) \<Rightarrow> do {
          (bytes_read, b, buffer1) \<leftarrow> RingBuffer_drain (co_buffer connection) buffer;
          info \<leftarrow> done_forwarding (co_info connection) bytes_read;
          let connection1 = connection\<lparr>co_buffer := b, co_info := info\<rparr>;
          let self1 = self\<lparr>cm_connections := (cm_connections self)[i := connection1]\<rparr>;
          r \<leftarrow> (if co_peer_requested_shutdown connection1 \<and> RingBuffer_is_empty b
               then cm_driver_op (VirtIOSocket_force_close share T env) self1 info
                      (\<lambda>s. do { s1 \<leftarrow> cm_remove s i; Some (Inr bytes_read, s1) })
               else Some (Inr bytes_read, self1, []));
          Some (r, buffer1)
        })"

definition cm_recv_buffer_available_bytes :: "'t VsockConnectionManager \<Rightarrow> VsockAddr \<Rightarrow> u32 \<Rightarrow> Error + nat" where
  "cm_recv_buffer_available_bytes self peer src_port =
     try_bind (socket_result (get_connection (cm_connections self) peer src_port))
       (\<lambda>(_, connection). Inr (RingBuffer_used (co_buffer connection)))"

definition cm_with_connection ::
    "('t VirtIOSocket \<Rightarrow> ConnectionInfo \<Rightarrow> ((Error + unit) \<times> 't VirtIOSocket \<times> u8 list list) option) \<Rightarrow>
     't VsockConnectionManager \<Rightarrow> VsockAddr \<Rightarrow> u32 \<Rightarrow>
     (nat \<Rightarrow> 't VsockConnectionManager \<Rightarrow> ((Error + unit) \<times> 't VsockConnectionManager) option) \<Rightarrow>
     ((Error + unit) \<times> 't VsockConnectionManager \<times> u8 list list) option" where
  "cm_with_connection op self peer src_port k =
     (case get_connection (cm_connections self) peer src_port of
        Inl e \<Rightarrow> Some (Inl (SocketDeviceError e), self, [])
      | Inr (i, connection) \<Rightarrow> cm_driver_op op self (co_info connection) (k i))"

definition cm_update_credit ::
    "share \<Rightarrow> 't Transport \<Rightarrow> packet_env \<Rightarrow> 't VsockConnectionManager \<Rightarrow> VsockAddr \<Rightarrow> u32 \<Rightarrow>
     ((Error + unit) \<times> 't VsockConnectionManager \<times> u8 list list) option" where
  "cm_update_credit share T env self peer src_port =
     cm_with_connection (VirtIOSocket_credit_update share T env) self peer src_port (\<lambda>i s. Some (Inr (), s))"

definition cm_shutdown ::
    "share \<Rightarrow> 't Transport \<Rightarrow> packet_env \<Rightarrow> 't VsockConnectionManager \<Rightarrow> VsockAddr \<Rightarrow> u32 \<Rightarrow>
     ((Error + unit) \<times> 't VsockConnectionManager \<times> u8 list list) option" where
  "cm_shutdown share T env self destination src_port =
     cm_with_connection (VirtIOSocket_shutdown share T env) self destination src_port (\<lambda>i s. Some (Inr (), s))"

definition cm_force_close ::
    "share \<Rightarrow> 't Transport \<Rightarrow> packet_env \<Rightarrow> 't VsockConnectionManager \<Rightarrow> VsockAddr \<Rightarrow> u32 \<Rightarrow>
     ((Error + unit) \<times> 't VsockConnectionManager \<times> u8 list list) option" where
  "cm_force_close share T env self destination src_port =
     cm_with_connection (VirtIOSocket_force_close share T env) self destination src_port
       (\<lambda>i s. do { s1 \<leftarrow> cm_remove s i; Some (Inr (), s1) })"

text \<open>
  \<^verbatim>\<open>wait_for_event\<close> polls in a loop. An iteration has its own view of memory, of the used ring of the
  receive queue and of what happens while a packet is sent.
\<close>

record poll_env =
  po_mem :: "u64 \<Rightarrow> nat \<Rightarrow> u8 list"
  po_used :: UsedRing
  po_packet :: packet_env

definition see_used :: "UsedRing \<Rightarrow> 't VsockConnectionManager \<Rightarrow> 't VsockConnectionManager" where
  "see_used u self = self\<lparr>cm_driver := (cm_driver self)\<lparr>sock_rx := (sock_rx (cm_driver self))
     \<lparr>oq_queue := (oq_queue (sock_rx (cm_driver self)))\<lparr>used := u\<rparr>\<rparr>\<rparr>\<rparr>"

fun cm_wait_for_event ::
    "share \<Rightarrow> 't Transport \<Rightarrow> nat \<Rightarrow> poll_env list \<Rightarrow> 't VsockConnectionManager \<Rightarrow>
     ((Error + VsockEvent) \<times> 't VsockConnectionManager \<times> u8 list list) option" where
  "cm_wait_for_event share T RX_BUFFER_SIZE [] self = None"
| "cm_wait_for_event share T RX_BUFFER_SIZE (e # es) self = do {
     (r, self1, sent) \<leftarrow> cm_poll share T (po_mem e) RX_BUFFER_SIZE (po_packet e) (see_used (po_used e) self);
     (case r of
        Inl err \<Rightarrow> Some (Inl err, self1, sent)
      | Inr (Some event) \<Rightarrow> Some (Inr event, self1, sent)
      | Inr None \<Rightarrow> do {
          (r2, self2, sent2) \<leftarrow> cm_wait_for_event share T RX_BUFFER_SIZE es self1;
          Some (r2, self2, sent @ sent2)
        })
   }"

end
