(* ===== verification/Vsock_Connection_Refinement.thy ===== *)
theory Vsock_Connection_Refinement
  imports Vsock_Connection_Manager
begin

text \<open>
  The connection manager implements a map of connections. \<open>spec_event\<close> says what an event from the
  device does to the map, what is reported to the client and which packet is answered; the lemmas
  relate the list of connections to the map, operation by operation.
\<close>

section \<open>The map of connections\<close>

type_synonym conn_key = "VsockAddr \<times> u32"
type_synonym conn_state = "ConnectionInfo \<times> u8 list \<times> bool"

definition conn_key :: "Connection \<Rightarrow> conn_key" where
  "conn_key c = (ci_dst (co_info c), ci_src_port (co_info c))"

definition conn_state :: "Connection \<Rightarrow> conn_state" where
  "conn_state c = (co_info c, rb_contents (co_buffer c), co_peer_requested_shutdown c)"

definition conn_map :: "Connection list \<Rightarrow> conn_key \<rightharpoonup> conn_state" where
  "conn_map cs = map_of (map (\<lambda>c. (conn_key c, conn_state c)) cs)"

definition conn_ok :: "u32 \<Rightarrow> Connection \<Rightarrow> bool" where
  "conn_ok cap c \<longleftrightarrow> rb_inv (co_buffer c) \<and> rb_capacity (co_buffer c) = unat cap \<and> ci_buf_alloc (co_info c) = cap"

definition conns_ok :: "u32 \<Rightarrow> Connection list \<Rightarrow> bool" where
  "conns_ok cap cs \<longleftrightarrow> distinct (map conn_key cs) \<and> (\<forall>c \<in> set cs. conn_ok cap c)"

definition cm_inv :: "share \<Rightarrow> nat \<Rightarrow> 't VsockConnectionManager \<Rightarrow> bool" where
  "cm_inv share bsz m \<longleftrightarrow> socket_inv share bsz (cm_driver m)
     \<and> conns_ok (cm_per_connection_buffer_capacity m) (cm_connections m) \<and> 0 < cm_per_connection_buffer_capacity m"

lemma find_enumerate_Some:
  "find (\<lambda>(_, x). P x) (enumerate n xs) = Some (i, x) \<Longrightarrow> n \<le> i \<and> i - n < length xs \<and> xs ! (i - n) = x \<and> P x"
proof (induction xs arbitrary: n)
  case (Cons y ys)
  show ?case
  proof (cases "P y")
    case False
    with Cons.prems have "find (\<lambda>(_, x). P x) (enumerate (Suc n) ys) = Some (i, x)" by simp
    from Cons.IH [OF this] have "Suc n \<le> i" "i - Suc n < length ys" "ys ! (i - Suc n) = x" "P x" by auto
    moreover from this(1) have "i - n = Suc (i - Suc n)" by simp
    ultimately show ?thesis by simp
  qed (use Cons.prems in auto)
qed simp

lemma find_enumerate_None: "find (\<lambda>(_, x). P x) (enumerate n xs) = None \<longleftrightarrow> (\<forall>x \<in> set xs. \<not> P x)"
  by (induction xs arbitrary: n) auto

lemma conn_map_Cons: "conn_map (c # cs) = (conn_map cs)(conn_key c \<mapsto> conn_state c)"
  by (simp add: conn_map_def)

lemma conn_map_nth:
  assumes "distinct (map conn_key cs)" "i < length cs"
  shows "conn_map cs (conn_key (cs ! i)) = Some (conn_state (cs ! i))"
  using assms by (simp add: conn_map_def o_def)

lemma conn_map_None: "conn_map cs k = None \<longleftrightarrow> k \<notin> conn_key ` set cs"
  by (force simp: conn_map_def map_of_eq_None_iff)

lemma conn_map_mset:
  assumes "mset cs = mset cs'" "distinct (map conn_key cs)"
  shows "conn_map cs = conn_map cs'"
proof -
  have "distinct (map conn_key cs')" using assms by (metis mset_eq_imp_distinct_iff mset_map)
  with assms show ?thesis unfolding conn_map_def
    by (intro map_of_inject_set [THEN iffD2]) (auto simp: o_def dest: mset_eq_setD)
qed

lemma conn_map_update:
  assumes "distinct (map conn_key cs)" "i < length cs" "conn_key c = conn_key (cs ! i)"
  shows "conn_map (cs[i := c]) = (conn_map cs)(conn_key c \<mapsto> conn_state c)"
  using assms
proof (induction cs arbitrary: i)
  case (Cons d cs)
  show ?case
  proof (cases i)
    case 0
    then show ?thesis using Cons.prems by (auto simp: conn_map_Cons fun_eq_iff)
  next
    case (Suc j)
    with Cons.prems have j: "conn_key c = conn_key (cs ! j)" "j < length cs" "conn_key d \<noteq> conn_key c" "distinct (map conn_key cs)"
      by auto
    have "conn_map ((d # cs)[i := c]) = (conn_map cs)(conn_key c \<mapsto> conn_state c, conn_key d \<mapsto> conn_state d)"
      by (simp only: Suc list_update_code(3) conn_map_Cons Cons.IH [OF j(4,2,1)])
    then show ?thesis unfolding conn_map_Cons fun_upd_twist [OF j(3)] .
  qed
qed simp

lemma conn_map_snoc:
  assumes "conn_key c \<notin> conn_key ` set cs"
  shows "conn_map (cs @ [c]) = (conn_map cs)(conn_key c \<mapsto> conn_state c)"
  using assms
proof (induction cs)
  case (Cons d cs)
  then have "conn_key d \<noteq> conn_key c" and IH: "conn_map (cs @ [c]) = (conn_map cs)(conn_key c \<mapsto> conn_state c)" by auto
  then show ?case by (simp only: append_Cons conn_map_Cons IH fun_upd_twist not_False_eq_True)
qed (simp add: conn_map_def)

lemma mset_swap_remove:
  assumes "i < length xs"
  shows "\<exists>ys. swap_remove xs i = Some ys \<and> mset xs = add_mset (xs ! i) (mset ys)"
proof -
  have ne: "xs \<noteq> []" using assms by auto
  then have xs: "mset xs = add_mset (last xs) (mset (butlast xs))"
    by (metis append_butlast_last_id mset.simps(2) mset_append union_mset_add_mset_right add.right_neutral mset.simps(1))
  show ?thesis
  proof (cases "i = length xs - 1")
    case True
    then show ?thesis using ne xs assms by (simp add: swap_remove_def last_conv_nth list_update_beyond)
  next
    case False
    then have i: "i < length (butlast xs)" "butlast xs ! i = xs ! i" using assms by (simp_all add: nth_butlast)
    then have "xs ! i \<in># mset (butlast xs)" by (metis nth_mem set_mset_mset)
    with i xs assms show ?thesis by (simp add: swap_remove_def mset_update)
  qed
qed

lemma conns_ok_swap_remove:
  assumes "conns_ok cap cs" "i < length cs"
  shows "\<exists>cs'. swap_remove cs i = Some cs' \<and> conns_ok cap cs' \<and> conn_map cs' = (conn_map cs)(conn_key (cs ! i) := None)"
proof -
  obtain ys where ys: "swap_remove cs i = Some ys" "mset cs = mset (cs ! i # ys)"
    using mset_swap_remove [OF assms(2)] by auto
  have d: "distinct (map conn_key (cs ! i # ys))"
    using assms(1) ys(2) by (metis conns_ok_def mset_eq_imp_distinct_iff mset_map)
  have "conn_map cs = conn_map (cs ! i # ys)" using conn_map_mset [OF ys(2)] assms(1) by (simp add: conns_ok_def)
  moreover have "conn_map ys (conn_key (cs ! i)) = None" using d by (simp add: conn_map_None)
  ultimately have "conn_map ys = (conn_map cs)(conn_key (cs ! i) := None)" by (auto simp: conn_map_def fun_eq_iff)
  moreover have "set ys \<subseteq> set cs" using ys(2) by (metis mset_eq_setD set_subset_Cons)
  ultimately show ?thesis using ys(1) d assms(1) by (auto simp: conns_ok_def)
qed

lemma conns_ok_update:
  assumes "conns_ok cap cs" "i < length cs" "conn_key c = conn_key (cs ! i)" "conn_ok cap c"
  shows "conns_ok cap (cs[i := c])" "conn_map (cs[i := c]) = (conn_map cs)(conn_key c \<mapsto> conn_state c)"
proof -
  have "map conn_key (cs[i := c]) = map conn_key cs" using assms(2,3) by (simp add: map_update list_update_same_conv)
  with assms show "conns_ok cap (cs[i := c])" by (auto simp: conns_ok_def dest: set_update_subset_insert [THEN subsetD])
  show "conn_map (cs[i := c]) = (conn_map cs)(conn_key c \<mapsto> conn_state c)"
    using assms conn_map_update by (simp add: conns_ok_def)
qed

lemma conns_ok_snoc:
  assumes "conns_ok cap cs" "conn_key c \<notin> conn_key ` set cs" "conn_ok cap c"
  shows "conns_ok cap (cs @ [c])" "conn_map (cs @ [c]) = (conn_map cs)(conn_key c \<mapsto> conn_state c)"
  using assms conn_map_snoc by (auto simp: conns_ok_def)

lemma get_connection_Inr:
  assumes "get_connection cs peer p = Inr (i, c)"
  shows "i < length cs" "cs ! i = c" "conn_key c = (peer, p)"
  using assms find_enumerate_Some [of "\<lambda>c. ci_dst (co_info c) = peer \<and> ci_src_port (co_info c) = p" 0 cs i c]
  by (auto simp: get_connection_def conn_key_def split: option.splits)

lemma get_connection_Inl: "get_connection cs peer p = Inl e \<longleftrightarrow> e = NotConnected \<and> conn_map cs (peer, p) = None"
  using find_enumerate_None [of "\<lambda>c. ci_dst (co_info c) = peer \<and> ci_src_port (co_info c) = p" 0 cs]
  by (auto simp: get_connection_def conn_map_None conn_key_def split: option.splits)

lemma get_connection_for_event_Some:
  assumes "get_connection_for_event cs ev g = Some (i, c)"
  shows "i < length cs" "cs ! i = c" "conn_key c = (ev_source ev, port (ev_destination ev))" "cid (ev_destination ev) = g"
  using find_enumerate_Some [OF assms [unfolded get_connection_for_event_def]]
  by (auto simp: conn_key_def matches_connection_def)

lemma get_connection_for_event_None:
  "get_connection_for_event cs ev g = None \<longleftrightarrow>
     cid (ev_destination ev) \<noteq> g \<or> conn_map cs (ev_source ev, port (ev_destination ev)) = None"
  unfolding get_connection_for_event_def find_enumerate_None
  by (auto simp: conn_map_None conn_key_def matches_connection_def)

lemma Connection_new_ok:
  assumes "0 < cap"
  shows "conn_ok cap (Connection_new peer p cap)" "conn_key (Connection_new peer p cap) = (peer, p)"
    "conn_state (Connection_new peer p cap) = ((ConnectionInfo_new peer p)\<lparr>ci_buf_alloc := cap\<rparr>, [], False)"
  using assms RingBuffer_new_ok [of "unat cap"]
  by (simp_all add: conn_ok_def conn_key_def conn_state_def Connection_new_def ConnectionInfo_new_def word_less_nat_alt)

lemma update_for_event_simps [simp]:
  "ci_dst (update_for_event info ev) = ci_dst info" "ci_src_port (update_for_event info ev) = ci_src_port info"
  "ci_buf_alloc (update_for_event info ev) = ci_buf_alloc info" "ci_tx_cnt (update_for_event info ev) = ci_tx_cnt info"
  "ci_fwd_cnt (update_for_event info ev) = ci_fwd_cnt info"
  by (simp_all add: update_for_event_def Let_def)

section \<open>The specification of an event\<close>

definition ctrl_packet :: "VirtioVsockOp \<Rightarrow> ConnectionInfo \<Rightarrow> u64 \<Rightarrow> u8 list" where
  "ctrl_packet op info g = VirtioVsockHdr_as_bytes ((new_header info g)\<lparr>hdr_op := VirtioVsockOp_into op\<rparr>)"

definition event_key :: "VsockEvent \<Rightarrow> conn_key" where
  "event_key ev = (ev_source ev, port (ev_destination ev))"

text \<open>The connection an event is about: an existing one, or a new one for a connection request.\<close>

definition entry_for :: "u32 \<Rightarrow> VsockEvent \<Rightarrow> (conn_key \<rightharpoonup> conn_state) \<Rightarrow> conn_state option" where
  "entry_for cap ev M =
     (case M (event_key ev) of
        Some st \<Rightarrow> Some st
      | None \<Rightarrow> if ev_event_type ev = ConnectionRequested
          then Some ((ConnectionInfo_new (ev_source ev) (port (ev_destination ev)))\<lparr>ci_buf_alloc := cap\<rparr>, [], False)
          else None)"

definition spec_event ::
    "u64 \<Rightarrow> u32 \<Rightarrow> u32 set \<Rightarrow> VsockEvent \<Rightarrow> u8 list \<Rightarrow> (conn_key \<rightharpoonup> conn_state) \<Rightarrow>
     (Error + VsockEvent option) \<times> (conn_key \<rightharpoonup> conn_state) \<times> u8 list list" where
  "spec_event g cap ports ev body M =
     (if cid (ev_destination ev) \<noteq> g then (Inr None, M, [])
      else case entry_for cap ev M of
        None \<Rightarrow> (Inr None, M, [])
      | Some (info, bytes, closing) \<Rightarrow>
          let k = event_key ev; info1 = update_for_event info ev; M1 = M(k \<mapsto> (info1, bytes, closing)) in
          (case ev_event_type ev of
             ConnectionRequested \<Rightarrow>
               if port (ev_destination ev) \<in> ports then (Inr (Some ev), M1, [ctrl_packet Response info1 g])
               else (Inr None, M(k := None), [ctrl_packet Rst info1 g])
           | Connected \<Rightarrow> (Inr (Some ev), M1, [])
           | Disconnected reason \<Rightarrow>
               if bytes = []
               then (Inr (Some ev), M(k := None), if reason = ShutdownByPeer then [ctrl_packet Rst info1 g] else [])
               else (Inr (Some ev), M(k \<mapsto> (info1, bytes, True)), [])
           | Received n \<Rightarrow>
               if length bytes + length body \<le> unat cap then (Inr (Some ev), M(k \<mapsto> (info1, bytes @ body, closing)), [])
               else (Inl (SocketDeviceError (OutputBufferTooShort n)), M1, [])
           | CreditRequested \<Rightarrow> (Inr None, M1, [ctrl_packet CreditUpdate info1 g])
           | CreditUpdated \<Rightarrow> (Inr (Some ev), M1, [])))"

definition decode_packet :: "u8 list \<Rightarrow> Error + (VsockEvent \<times> u8 list)" where
  "decode_packet bs = try_bind (read_header_and_body bs) (\<lambda>(h, body). try_bind (VsockEvent_from_header h) (\<lambda>ev. Inr (ev, body)))"

text \<open>The next buffer of the receive queue, if the device has returned one.\<close>

definition next_packet :: "(u64 \<Rightarrow> nat \<Rightarrow> u8 list) \<Rightarrow> OwningQueue \<Rightarrow> u8 list option" where
  "next_packet mem rx =
     (case peek_used (oq_queue rx) of
        Some (Some token) \<Rightarrow> Some (mem (oq_buffers rx ! unat token) (unat (next_used_len (oq_queue rx))))
      | _ \<Rightarrow> None)"

definition spec_poll ::
    "u64 \<Rightarrow> u32 \<Rightarrow> u32 set \<Rightarrow> u8 list option \<Rightarrow> (conn_key \<rightharpoonup> conn_state) \<Rightarrow>
     (Error + VsockEvent option) \<times> (conn_key \<rightharpoonup> conn_state) \<times> u8 list list" where
  "spec_poll g cap ports pkt M =
     (case pkt of
        None \<Rightarrow> (Inr None, M, [])
      | Some bs \<Rightarrow>
          (case decode_packet bs of
             Inl e \<Rightarrow> (Inl e, M, [])
           | Inr (ev, body) \<Rightarrow> spec_event g cap ports ev body M))"

section \<open>The closure\<close>

text \<open>The bytes in the buffer after an event, and what the closure answers.\<close>

definition bytes_after :: "u32 \<Rightarrow> VsockEvent \<Rightarrow> u8 list \<Rightarrow> u8 list \<Rightarrow> u8 list" where
  "bytes_after cap ev body bytes =
     (case ev_event_type ev of Received _ \<Rightarrow> if length bytes + length body \<le> unat cap then bytes @ body else bytes | _ \<Rightarrow> bytes)"

definition closure_result :: "u32 \<Rightarrow> VsockEvent \<Rightarrow> u8 list \<Rightarrow> u8 list \<Rightarrow> Error + VsockEvent option" where
  "closure_result cap ev body bytes =
     (case ev_event_type ev of
        Received n \<Rightarrow> if length bytes + length body \<le> unat cap then Inr (Some ev) else Inl (SocketDeviceError (OutputBufferTooShort n))
      | _ \<Rightarrow> Inr (Some ev))"

lemma poll_update_refines:
  assumes ok: "conns_ok cap cs" and i: "i < length cs" and st: "conn_state (cs ! i) = (info, bytes, closing)"
  shows "\<exists>cs'. poll_update cs i ev body = Some (closure_result cap ev body bytes, cs') \<and> conns_ok cap cs'
    \<and> conn_map cs' = (conn_map cs)(conn_key (cs ! i) \<mapsto> (update_for_event info ev, bytes_after cap ev body bytes, closing))"
proof -
  let ?c = "cs ! i"
  have c: "conn_ok cap ?c" using ok i by (simp add: conns_ok_def)
  have s: "co_info ?c = info" "rb_contents (co_buffer ?c) = bytes" "co_peer_requested_shutdown ?c = closing"
    using st by (simp_all add: conn_state_def)
  obtain b where b: "RingBuffer_add (co_buffer ?c) body = Some (length bytes + length body \<le> unat cap, b)" "rb_inv b" "rb_capacity b = unat cap"
    "rb_contents b = (if length bytes + length body \<le> unat cap then bytes @ body else bytes)"
    using rb.add_law [of "co_buffer ?c" body] c s(2) by (auto simp: conn_ok_def)
  define c1 where "c1 = ?c\<lparr>co_info := update_for_event info ev, co_buffer := (case ev_event_type ev of Received _ \<Rightarrow> b | _ \<Rightarrow> co_buffer ?c)\<rparr>"
  have "conn_key c1 = conn_key ?c" "conn_ok cap c1"
    "conn_state c1 = (update_for_event info ev, bytes_after cap ev body bytes, closing)"
    using c s b(2-4) by (auto simp: c1_def conn_key_def conn_ok_def conn_state_def bytes_after_def split: VsockEventType.splits)
  moreover have "poll_update cs i ev body = Some (closure_result cap ev body bytes, cs[i := c1])"
    using i s b(1) by (simp add: poll_update_def panic_simps c1_def closure_result_def split: VsockEventType.splits)
  ultimately show ?thesis using conns_ok_update [OF ok i, of c1] by simp
qed

lemma poll_closure_refines:
  assumes ok: "conns_ok cap cs" and cap: "0 < cap"
  shows "cid (ev_destination ev) \<noteq> g \<or> entry_for cap ev (conn_map cs) = None \<Longrightarrow> poll_closure g cap cs ev body = Some (Inr None, cs)"
    and "cid (ev_destination ev) = g \<Longrightarrow> entry_for cap ev (conn_map cs) = Some (info, bytes, closing) \<Longrightarrow>
      \<exists>cs'. poll_closure g cap cs ev body = Some (closure_result cap ev body bytes, cs') \<and> conns_ok cap cs'
        \<and> conn_map cs' = (conn_map cs)(event_key ev \<mapsto> (update_for_event info ev, bytes_after cap ev body bytes, closing))"
proof -
  have none: "get_connection_for_event cs ev g = None \<longleftrightarrow> cid (ev_destination ev) \<noteq> g \<or> conn_map cs (event_key ev) = None"
    by (simp add: get_connection_for_event_None event_key_def)
  show "poll_closure g cap cs ev body = Some (Inr None, cs)" if "cid (ev_destination ev) \<noteq> g \<or> entry_for cap ev (conn_map cs) = None"
    using that none by (auto simp: poll_closure_def entry_for_def split: option.splits if_splits)
  assume g: "cid (ev_destination ev) = g" and e: "entry_for cap ev (conn_map cs) = Some (info, bytes, closing)"
  show "\<exists>cs'. poll_closure g cap cs ev body = Some (closure_result cap ev body bytes, cs') \<and> conns_ok cap cs'
      \<and> conn_map cs' = (conn_map cs)(event_key ev \<mapsto> (update_for_event info ev, bytes_after cap ev body bytes, closing))"
  proof (cases "get_connection_for_event cs ev g")
    case (Some ic)
    obtain i c where ic: "ic = (i, c)" by fastforce
    note c = get_connection_for_event_Some [OF Some [unfolded ic]]
    have "conn_map cs (event_key ev) = Some (conn_state c)"
      using conn_map_nth [of cs i] ok c by (simp add: conns_ok_def event_key_def)
    then have "conn_state (cs ! i) = (info, bytes, closing)" using e c(2) by (simp add: entry_for_def)
    from poll_update_refines [OF ok c(1) this, of ev body] Some ic c(2,3) show ?thesis by (simp add: poll_closure_def event_key_def)
  next
    case None
    let ?c = "Connection_new (ev_source ev) (port (ev_destination ev)) cap"
    have new: "conn_map cs (event_key ev) = None" using None none g by simp
    then have r: "ev_event_type ev = ConnectionRequested" and st: "conn_state ?c = (info, bytes, closing)"
      using e Connection_new_ok(3) [OF cap, of "ev_source ev" "port (ev_destination ev)"] by (auto simp: entry_for_def split: if_splits)
    have k: "conn_key ?c = event_key ev" using Connection_new_ok(2) [OF cap] by (simp add: event_key_def)
    then have s: "conns_ok cap (cs @ [?c])" "conn_map (cs @ [?c]) = (conn_map cs)(event_key ev \<mapsto> (info, bytes, closing))"
      using conns_ok_snoc [OF ok, of ?c] Connection_new_ok(1) [OF cap] new st by (simp_all add: conn_map_None)
    have "poll_closure g cap cs ev body = poll_update (cs @ [?c]) (length cs) ev body"
      using None r g by (simp add: poll_closure_def)
    with poll_update_refines [OF s(1), of "length cs" info bytes closing ev body] st k s(2) show ?thesis by simp
  qed
qed

section \<open>Polling\<close>

lemma socket_poll_idle:
  assumes "socket_inv share bsz self" "next_packet mem (sock_rx self) = None"
  shows "VirtIOSocket_poll share T mem bsz handler self s = Some (Inr None, self, s)"
proof -
  obtain t where "peek_used (oq_queue (sock_rx self)) = Some t" using peek_used_total assms(1) unfolding socket_inv_def by blast
  with assms(2) have "peek_used (oq_queue (sock_rx self)) = Some None" by (auto simp: next_packet_def split: option.splits)
  then show ?thesis by (simp add: VirtIOSocket_poll_def OwningQueue_poll_idle)
qed

lemma socket_poll_packet:
  assumes inv: "socket_inv share bsz self" and pkt: "next_packet mem (sock_rx self) = Some bs"
    and dev: "device_keeps_to_buffers bsz (sock_rx self)" "notify_total T"
    and h: "(case decode_packet bs of Inl e \<Rightarrow> r = Inl e \<and> s' = s | Inr (ev, body) \<Rightarrow> handler s ev body = Some (r, s'))"
  shows "\<exists>self'. VirtIOSocket_poll share T mem bsz handler self s = Some (r, self', s') \<and> socket_inv share bsz self'
    \<and> sock_tx self' = sock_tx self \<and> sock_guest_cid self' = sock_guest_cid self"
proof -
  let ?f = "\<lambda>s buffer. case read_header_and_body buffer of Inl e \<Rightarrow> Some (Inl e, s)
    | Inr (hdr, body) \<Rightarrow> (case VsockEvent_from_header hdr of Inl e \<Rightarrow> Some (Inl e, s) | Inr event \<Rightarrow> handler s event body)"
  obtain token where t: "peek_used (oq_queue (sock_rx self)) = Some (Some token)"
    "bs = mem (oq_buffers (sock_rx self) ! unat token) (unat (next_used_len (oq_queue (sock_rx self))))"
    using pkt by (auto simp: next_packet_def split: option.splits)
  have "?f s bs = Some (r, s')"
    using h by (auto simp: decode_packet_def try_bind_def split: sum.splits)
  then have f: "?f s (mem (oq_buffers (sock_rx self) ! unat token) (unat (next_used_len (oq_queue (sock_rx self))))) = Some (r, s')"
    using t(2) by simp
  have n: "\<And>q. notify T (sock_transport self) q \<noteq> None" using dev(2) by (simp add: notify_total_def)
  have i: "oq_inv share bsz (sock_rx self)" "0 < bsz" "bsz < 2 ^ 32" using inv by (simp_all add: socket_inv_def)
  obtain rx t' where "OwningQueue_poll share T mem bsz ?f (sock_rx self) (sock_transport self) s = Some (r, rx, t', s')" "oq_inv share bsz rx"
    using OwningQueue_poll_step [where handler = ?f and mem = mem and T = T, OF i t(1) dev(1) f n] by auto
  with inv show ?thesis by (simp add: VirtIOSocket_poll_def socket_inv_def)
qed

lemma cm_driver_op_ok:
  assumes inv: "socket_inv share bsz (cm_driver m)" and dev: "packet_taken env (cm_driver m)" "notify_total T"
    and op: "op (cm_driver m) info = send_packet_to_tx_queue share T env (cm_driver m) hdr []"
    and k: "\<And>d. socket_inv share bsz d \<Longrightarrow> sock_guest_cid d = sock_guest_cid (cm_driver m) \<Longrightarrow>
      \<exists>r m'. k (m\<lparr>cm_driver := d\<rparr>) = Some (r, m') \<and> P r m'"
  shows "\<exists>r m'. cm_driver_op op m info k = Some (r, m', [VirtioVsockHdr_as_bytes hdr]) \<and> P r m'"
proof -
  obtain d where d: "send_packet_to_tx_queue share T env (cm_driver m) hdr [] = Some (Inr (), d, [VirtioVsockHdr_as_bytes hdr])"
    "socket_inv share bsz d" "sock_guest_cid d = sock_guest_cid (cm_driver m)"
    using send_packet_ok [OF inv dev, of "[]" hdr] by auto
  from k [OF d(2,3)] obtain r m' where "k (m\<lparr>cm_driver := d\<rparr>) = Some (r, m')" "P r m'" by blast
  with op d(1) show ?thesis by (simp add: cm_driver_op_def)
qed

lemmas header_ops = VirtIOSocket_accept_def VirtIOSocket_force_close_def VirtIOSocket_credit_update_def
  VirtIOSocket_connect_def VirtIOSocket_request_credit_def VirtIOSocket_shutdown_def VirtIOSocket_shutdown_with_hints_def

text \<open>What stays the same in every operation.\<close>

definition cm_same :: "'t VsockConnectionManager \<Rightarrow> 't VsockConnectionManager \<Rightarrow> bool" where
  "cm_same m m' \<longleftrightarrow> cm_per_connection_buffer_capacity m' = cm_per_connection_buffer_capacity m
     \<and> cm_listening_ports m' = cm_listening_ports m \<and> sock_guest_cid (cm_driver m') = sock_guest_cid (cm_driver m)"

definition cm_map :: "'t VsockConnectionManager \<Rightarrow> conn_key \<rightharpoonup> conn_state" where
  "cm_map m = conn_map (cm_connections m)"

lemma cm_remove_ok:
  assumes inv: "cm_inv share bsz m" and i: "i < length (cm_connections m)"
  shows "\<exists>m'. cm_remove m i = Some m' \<and> cm_inv share bsz m' \<and> cm_same m m'
    \<and> cm_map m' = (cm_map m)(conn_key (cm_connections m ! i) := None)"
proof -
  obtain cs where "swap_remove (cm_connections m) i = Some cs" "conns_ok (cm_per_connection_buffer_capacity m) cs"
    "conn_map cs = (conn_map (cm_connections m))(conn_key (cm_connections m ! i) := None)"
    using conns_ok_swap_remove [OF _ i] inv by (auto simp: cm_inv_def)
  with inv show ?thesis by (simp add: cm_remove_def cm_inv_def cm_same_def cm_map_def)
qed

text \<open>The reaction to an event whose connection is at position \<open>i\<close>, after the closure has run.\<close>

lemma cm_inv_driver:
  assumes "cm_inv share bsz m" "socket_inv share bsz d" "sock_guest_cid d = sock_guest_cid (cm_driver m)"
  shows "cm_inv share bsz (m\<lparr>cm_driver := d\<rparr>)" "cm_same m (m\<lparr>cm_driver := d\<rparr>)" "cm_map (m\<lparr>cm_driver := d\<rparr>) = cm_map m"
  using assms by (simp_all add: cm_inv_def cm_same_def cm_map_def)

lemma cm_same_trans: "cm_same a b \<Longrightarrow> cm_same b c \<Longrightarrow> cm_same a c"
  by (simp add: cm_same_def)

lemma cm_op_keep:
  assumes inv: "cm_inv share bsz m" and dev: "packet_taken env (cm_driver m)" "notify_total T"
    and op: "op (cm_driver m) info = send_packet_to_tx_queue share T env (cm_driver m) hdr []"
  shows "\<exists>m'. cm_driver_op op m info (\<lambda>s. Some (r, s)) = Some (r, m', [VirtioVsockHdr_as_bytes hdr])
    \<and> cm_inv share bsz m' \<and> cm_same m m' \<and> cm_map m' = cm_map m"
proof -
  have i: "socket_inv share bsz (cm_driver m)" using inv by (simp add: cm_inv_def)
  show ?thesis
    using cm_driver_op_ok [where op = op and info = info and k = "\<lambda>s. Some (r, s)"
        and P = "\<lambda>r' m'. r' = r \<and> cm_inv share bsz m' \<and> cm_same m m' \<and> cm_map m' = cm_map m", OF i dev op] cm_inv_driver [OF inv]
    by auto
qed

lemma cm_op_remove:
  assumes inv: "cm_inv share bsz m" and dev: "packet_taken env (cm_driver m)" "notify_total T"
    and op: "op (cm_driver m) info = send_packet_to_tx_queue share T env (cm_driver m) hdr []"
    and i: "i < length (cm_connections m)"
  shows "\<exists>m'. cm_driver_op op m info (\<lambda>s. do { s1 \<leftarrow> cm_remove s i; Some (r, s1) }) = Some (r, m', [VirtioVsockHdr_as_bytes hdr])
    \<and> cm_inv share bsz m' \<and> cm_same m m' \<and> cm_map m' = (cm_map m)(conn_key (cm_connections m ! i) := None)"
proof -
  let ?k = "\<lambda>s. do { s1 \<leftarrow> cm_remove s i; Some (r, s1) }"
  let ?P = "\<lambda>r' m'. r' = r \<and> cm_inv share bsz m' \<and> cm_same m m' \<and> cm_map m' = (cm_map m)(conn_key (cm_connections m ! i) := None)"
  have k: "\<exists>r' m'. ?k (m\<lparr>cm_driver := d\<rparr>) = Some (r', m') \<and> ?P r' m'"
    if d: "socket_inv share bsz d" "sock_guest_cid d = sock_guest_cid (cm_driver m)" for d
  proof -
    note v = cm_inv_driver [OF inv d]
    obtain m' where m': "cm_remove (m\<lparr>cm_driver := d\<rparr>) i = Some m'" "cm_inv share bsz m'" "cm_same (m\<lparr>cm_driver := d\<rparr>) m'"
      "cm_map m' = (cm_map (m\<lparr>cm_driver := d\<rparr>))(conn_key (cm_connections m ! i) := None)"
      using cm_remove_ok [OF v(1), of i] i by auto
    then show ?thesis using cm_same_trans [OF v(2) m'(3)] v(3) by simp
  qed
  have "socket_inv share bsz (cm_driver m)" using inv by (simp add: cm_inv_def)
  from cm_driver_op_ok [where op = op and info = info and k = ?k and P = ?P, OF this dev op k] show ?thesis by auto
qed

text \<open>The reaction to an event on the connection at position \<open>i\<close>, as the specification has it.\<close>

definition react_spec ::
    "u64 \<Rightarrow> u32 set \<Rightarrow> VsockEvent \<Rightarrow> conn_state \<Rightarrow> (conn_key \<rightharpoonup> conn_state) \<Rightarrow>
     (Error + VsockEvent option) \<times> (conn_key \<rightharpoonup> conn_state) \<times> u8 list list" where
  "react_spec g ports ev st M = (case st of (info, bytes, closing) \<Rightarrow>
     (case ev_event_type ev of
        ConnectionRequested \<Rightarrow>
          if port (ev_destination ev) \<in> ports then (Inr (Some ev), M, [ctrl_packet Response info g])
          else (Inr None, M(event_key ev := None), [ctrl_packet Rst info g])
      | Disconnected reason \<Rightarrow>
          if bytes = []
          then (Inr (Some ev), M(event_key ev := None), if reason = ShutdownByPeer then [ctrl_packet Rst info g] else [])
          else (Inr (Some ev), M(event_key ev \<mapsto> (info, bytes, True)), [])
      | CreditRequested \<Rightarrow> (Inr None, M, [ctrl_packet CreditUpdate info g])
      | _ \<Rightarrow> (Inr (Some ev), M, [])))"

lemma cm_react_refines:
  assumes inv: "cm_inv share bsz m" and dev: "packet_taken env (cm_driver m)" "notify_total T"
    and i: "i < length (cm_connections m)" "cm_connections m ! i = c" "conn_key c = event_key ev"
  shows "\<exists>r m' sent. cm_react share T env m ev i c = Some (r, m', sent) \<and> cm_inv share bsz m' \<and> cm_same m m'
    \<and> (r, cm_map m', sent) = react_spec (sock_guest_cid (cm_driver m)) (set (cm_listening_ports m)) ev (conn_state c) (cm_map m)"
proof -
  have empty: "RingBuffer_is_empty (co_buffer c) \<longleftrightarrow> rb_contents (co_buffer c) = []"
    by (metis RingBuffer_is_empty_def rb_contents_length length_0_conv)
  have same: "cm_same m m" by (simp add: cm_same_def)
  note keep = cm_op_keep [OF inv dev] and remove = cm_op_remove [OF inv dev]
  show ?thesis
  proof (cases "ev_event_type ev")
    case ConnectionRequested
    then show ?thesis
      using keep [where op = "VirtIOSocket_accept share T env" and info = "co_info c", OF VirtIOSocket_accept_def, of "Inr (Some ev)"]
        remove [where op = "VirtIOSocket_force_close share T env" and info = "co_info c", OF VirtIOSocket_force_close_def i(1), of "Inr None"] i
      by (auto simp: cm_react_def react_spec_def conn_state_def ctrl_packet_def)
  next
    case (Disconnected reason)
    then show ?thesis
    proof (cases "rb_contents (co_buffer c) = []")
      case True
      with Disconnected show ?thesis
        using remove [where op = "VirtIOSocket_force_close share T env" and info = "co_info c", OF VirtIOSocket_force_close_def i(1), of "Inr (Some ev)"]
          cm_remove_ok [OF inv i(1)] i empty
        by (cases reason) (auto simp: cm_react_def react_spec_def conn_state_def ctrl_packet_def)
    next
      case False
      let ?c = "c\<lparr>co_peer_requested_shutdown := True\<rparr>"
      have ok: "conns_ok (cm_per_connection_buffer_capacity m) (cm_connections m)" using inv by (simp add: cm_inv_def)
      have c: "conn_key ?c = conn_key (cm_connections m ! i)" "conn_ok (cm_per_connection_buffer_capacity m) ?c"
        using ok i by (auto simp: conns_ok_def conn_ok_def conn_key_def)
      show ?thesis
        using Disconnected False empty inv same conns_ok_update [OF ok i(1) c] i(2,3) c(1)
        by (auto simp: cm_react_def react_spec_def conn_state_def cm_inv_def cm_map_def cm_same_def)
    qed
  next
    case CreditRequested
    then show ?thesis
      using keep [where op = "VirtIOSocket_credit_update share T env" and info = "co_info c", OF VirtIOSocket_credit_update_def, of "Inr None"]
      by (auto simp: cm_react_def react_spec_def conn_state_def ctrl_packet_def)
  qed (use inv same in \<open>auto simp: cm_react_def react_spec_def conn_state_def\<close>)
qed

lemma spec_event_steps:
  assumes "cid (ev_destination ev) = g" "entry_for cap ev M = Some (info, bytes, closing)"
  shows "spec_event g cap ports ev body M =
    (let st = (update_for_event info ev, bytes_after cap ev body bytes, closing); M1 = M(event_key ev \<mapsto> st) in
     case closure_result cap ev body bytes of Inl e \<Rightarrow> (Inl e, M1, []) | Inr _ \<Rightarrow> react_spec g ports ev st M1)"
  using assms
  by (cases "ev_event_type ev") (auto simp: spec_event_def closure_result_def bytes_after_def react_spec_def Let_def)

lemma closure_result_Inr: "closure_result cap ev body bytes = Inr r \<Longrightarrow> r = Some ev"
  by (auto simp: closure_result_def split: VsockEventType.splits if_splits)

lemma cm_poll_event:
  assumes inv: "cm_inv share bsz m" and pkt: "next_packet mem (sock_rx (cm_driver m)) = Some bs" "decode_packet bs = Inr (ev, body)"
    and dev: "device_keeps_to_buffers bsz (sock_rx (cm_driver m))" "packet_taken env (cm_driver m)" "notify_total T"
  shows "\<exists>r m' sent. cm_poll share T mem bsz env m = Some (r, m', sent) \<and> cm_inv share bsz m' \<and> cm_same m m'
    \<and> (r, cm_map m', sent) = spec_event (sock_guest_cid (cm_driver m)) (cm_per_connection_buffer_capacity m)
        (set (cm_listening_ports m)) ev body (cm_map m)"
proof -
  let ?g = "sock_guest_cid (cm_driver m)" and ?cap = "cm_per_connection_buffer_capacity m" and ?cs = "cm_connections m"
  have sock: "socket_inv share bsz (cm_driver m)" and ok: "conns_ok ?cap ?cs" and cap: "0 < ?cap" using inv by (simp_all add: cm_inv_def)
  note cl = poll_closure_refines [OF ok cap, of ev]
  have poll: "\<exists>d. VirtIOSocket_poll share T mem bsz (poll_closure ?g ?cap) (cm_driver m) ?cs = Some (r, d, cs')
      \<and> socket_inv share bsz d \<and> sock_tx d = sock_tx (cm_driver m) \<and> sock_guest_cid d = ?g"
    if "poll_closure ?g ?cap ?cs ev body = Some (r, cs')" for r cs'
    using socket_poll_packet [OF sock pkt(1) dev(1,3), where handler = "poll_closure ?g ?cap" and s = ?cs] pkt(2) that by simp
  show ?thesis
  proof (cases "cid (ev_destination ev) \<noteq> ?g \<or> entry_for ?cap ev (conn_map ?cs) = None")
    case True
    from poll [OF cl(1) [OF True]] obtain d where
      d: "VirtIOSocket_poll share T mem bsz (poll_closure ?g ?cap) (cm_driver m) ?cs = Some (Inr None, d, ?cs)"
      "socket_inv share bsz d" "sock_guest_cid d = ?g" by blast
    then have "cm_poll share T mem bsz env m = Some (Inr None, m\<lparr>cm_driver := d, cm_connections := ?cs\<rparr>, [])"
      by (simp add: cm_poll_def)
    moreover have "spec_event ?g ?cap (set (cm_listening_ports m)) ev body (cm_map m) = (Inr None, cm_map m, [])"
      using True by (auto simp: spec_event_def cm_map_def)
    ultimately show ?thesis using cm_inv_driver [OF inv d(2,3)] by (simp add: cm_inv_def cm_same_def cm_map_def)
  next
    case False
    then obtain info bytes closing where e: "entry_for ?cap ev (conn_map ?cs) = Some (info, bytes, closing)" and g: "cid (ev_destination ev) = ?g"
      by auto
    let ?st = "(update_for_event info ev, bytes_after ?cap ev body bytes, closing)"
    obtain cs1 where c1: "poll_closure ?g ?cap ?cs ev body = Some (closure_result ?cap ev body bytes, cs1)" "conns_ok ?cap cs1"
      "conn_map cs1 = (conn_map ?cs)(event_key ev \<mapsto> ?st)" using cl(2) [OF g e] by blast
    obtain d where d: "VirtIOSocket_poll share T mem bsz (poll_closure ?g ?cap) (cm_driver m) ?cs = Some (closure_result ?cap ev body bytes, d, cs1)"
      "socket_inv share bsz d" "sock_tx d = sock_tx (cm_driver m)" "sock_guest_cid d = ?g" using poll [OF c1(1)] by blast
    let ?m = "m\<lparr>cm_driver := d, cm_connections := cs1\<rparr>"
    have m: "cm_inv share bsz ?m" "cm_same m ?m" "cm_map ?m = (cm_map m)(event_key ev \<mapsto> ?st)"
      using inv c1(2,3) d(2,4) by (simp_all add: cm_inv_def cm_same_def cm_map_def)
    note sp = spec_event_steps [OF g e [folded cm_map_def], of "set (cm_listening_ports m)" body, unfolded Let_def]
    show ?thesis
    proof (cases "closure_result ?cap ev body bytes")
      case (Inl err)
      with d(1) m sp show ?thesis by (simp add: cm_poll_def)
    next
      case (Inr r)
      then have r: "closure_result ?cap ev body bytes = Inr (Some ev)" using closure_result_Inr by blast
      have "get_connection_for_event cs1 ev ?g \<noteq> None" using c1(3) g by (simp add: get_connection_for_event_None event_key_def)
      then obtain i c where ic: "get_connection_for_event cs1 ev ?g = Some (i, c)" by fast
      note c = get_connection_for_event_Some [OF ic, folded event_key_def]
      have "conn_map cs1 (event_key ev) = Some (conn_state c)" using conn_map_nth [of cs1 i] c1(2) c by (simp add: conns_ok_def)
      then have st: "conn_state c = ?st" using c1(3) by simp
      have "packet_taken env (cm_driver ?m)" using dev(2) d(3) by (simp add: packet_taken_def)
      then obtain r' m' sent where R: "cm_react share T env ?m ev i c = Some (r', m', sent)" "cm_inv share bsz m'" "cm_same ?m m'"
        "(r', cm_map m', sent) = react_spec ?g (set (cm_listening_ports m)) ev ?st (cm_map ?m)"
        using cm_react_refines [OF m(1) _ dev(3), of env i c ev] c st d(4) by auto
      have "cm_poll share T mem bsz env m = Some (r', m', sent)" using d(1) r ic R(1) by (simp add: cm_poll_def)
      with R(2,4) cm_same_trans [OF m(2) R(3)] sp r m(3) show ?thesis by simp
    qed
  qed
qed

lemma cm_poll_ok:
  assumes inv: "cm_inv share bsz m"
    and dev: "device_keeps_to_buffers bsz (sock_rx (cm_driver m))" "packet_taken env (cm_driver m)" "notify_total T"
  shows "\<exists>r m' sent. cm_poll share T mem bsz env m = Some (r, m', sent) \<and> cm_inv share bsz m' \<and> cm_same m m'
    \<and> (r, cm_map m', sent) = spec_poll (sock_guest_cid (cm_driver m)) (cm_per_connection_buffer_capacity m)
        (set (cm_listening_ports m)) (next_packet mem (sock_rx (cm_driver m))) (cm_map m)"
proof (cases "next_packet mem (sock_rx (cm_driver m))")
  case None
  have "socket_inv share bsz (cm_driver m)" using inv by (simp add: cm_inv_def)
  then have "cm_poll share T mem bsz env m = Some (Inr None, m, [])" by (simp add: cm_poll_def Let_def socket_poll_idle [OF _ None])
  with inv None show ?thesis by (simp add: cm_same_def spec_poll_def)
next
  case (Some bs)
  show ?thesis
  proof (cases "decode_packet bs")
    case (Inl e)
    have "socket_inv share bsz (cm_driver m)" using inv by (simp add: cm_inv_def)
    then obtain d where "VirtIOSocket_poll share T mem bsz (poll_closure (sock_guest_cid (cm_driver m)) (cm_per_connection_buffer_capacity m))
        (cm_driver m) (cm_connections m) = Some (Inl e, d, cm_connections m)" "socket_inv share bsz d" "sock_guest_cid d = sock_guest_cid (cm_driver m)"
      using socket_poll_packet [OF _ Some dev(1,3)] Inl by fastforce
    with cm_inv_driver [OF inv this(2,3)] Some Inl show ?thesis
      by (simp add: cm_poll_def spec_poll_def cm_inv_def cm_same_def cm_map_def)
  next
    case (Inr evb)
    with cm_poll_event [OF inv Some _ dev] Some show ?thesis by (cases evb) (simp add: spec_poll_def)
  qed
qed

section \<open>The other operations\<close>

lemma cm_lookup:
  assumes "cm_inv share bsz m" "cm_map m (peer, p) = Some (info, bytes, closing)"
  shows "\<exists>i c. get_connection (cm_connections m) peer p = Inr (i, c) \<and> i < length (cm_connections m) \<and> cm_connections m ! i = c
    \<and> conn_key c = (peer, p) \<and> co_info c = info \<and> rb_contents (co_buffer c) = bytes \<and> co_peer_requested_shutdown c = closing
    \<and> conn_ok (cm_per_connection_buffer_capacity m) c"
proof (cases "get_connection (cm_connections m) peer p")
  case (Inl e)
  with assms(2) show ?thesis by (simp add: get_connection_Inl cm_map_def)
next
  case (Inr ic)
  obtain i c where ic: "ic = (i, c)" by fastforce
  note g = get_connection_Inr [OF Inr [unfolded ic]]
  have "cm_map m (peer, p) = Some (conn_state c)" "conn_ok (cm_per_connection_buffer_capacity m) c"
    using conn_map_nth [of "cm_connections m" i] g assms(1) by (auto simp: cm_map_def cm_inv_def conns_ok_def)
  with g Inr ic assms(2) show ?thesis by (auto simp: conn_state_def)
qed

lemma cm_not_connected:
  assumes "cm_map m (peer, p) = None"
  shows "get_connection (cm_connections m) peer p = Inl NotConnected"
  using assms by (simp add: get_connection_Inl cm_map_def)

text \<open>Replacing the connection at position \<open>i\<close> and the driver.\<close>

lemma cm_update_ok:
  assumes inv: "cm_inv share bsz m" and i: "i < length (cm_connections m)"
    and c: "conn_key c = conn_key (cm_connections m ! i)" "conn_ok (cm_per_connection_buffer_capacity m) c"
    and d: "socket_inv share bsz d" "sock_guest_cid d = sock_guest_cid (cm_driver m)"
  shows "cm_inv share bsz (m\<lparr>cm_driver := d, cm_connections := (cm_connections m)[i := c]\<rparr>)"
    "cm_same m (m\<lparr>cm_driver := d, cm_connections := (cm_connections m)[i := c]\<rparr>)"
    "cm_map (m\<lparr>cm_driver := d, cm_connections := (cm_connections m)[i := c]\<rparr>) = (cm_map m)(conn_key c \<mapsto> conn_state c)"
proof -
  have "conns_ok (cm_per_connection_buffer_capacity m) (cm_connections m)" using inv by (simp add: cm_inv_def)
  from conns_ok_update [OF this i c] inv d
  show "cm_inv share bsz (m\<lparr>cm_driver := d, cm_connections := (cm_connections m)[i := c]\<rparr>)"
    "cm_same m (m\<lparr>cm_driver := d, cm_connections := (cm_connections m)[i := c]\<rparr>)"
    "cm_map (m\<lparr>cm_driver := d, cm_connections := (cm_connections m)[i := c]\<rparr>) = (cm_map m)(conn_key c \<mapsto> conn_state c)"
    by (simp_all add: cm_inv_def cm_same_def cm_map_def)
qed

lemma cm_recv_ok:
  assumes inv: "cm_inv share bsz m" and dev: "packet_taken env (cm_driver m)" "notify_total T"
    and M: "cm_map m (peer, p) = Some (info, bytes, closing)"
    and n: "n = min (length bytes) (length buffer)" "unat (ci_fwd_cnt info) + n < 2 ^ 32"
    and info1: "info1 = info\<lparr>ci_fwd_cnt := ci_fwd_cnt info + of_nat n\<rparr>"
  shows "\<exists>m' sent. cm_recv share T env m peer p buffer = Some ((Inr n, m', sent), take (length buffer) bytes @ drop (length bytes) buffer)
    \<and> cm_inv share bsz m' \<and> cm_same m m'
    \<and> (if closing \<and> length bytes \<le> length buffer
       then cm_map m' = (cm_map m)((peer, p) := None) \<and> sent = [ctrl_packet Rst info1 (sock_guest_cid (cm_driver m))]
       else cm_map m' = (cm_map m)((peer, p) \<mapsto> (info1, drop n bytes, closing)) \<and> sent = [])"
proof -
  obtain i c where g: "get_connection (cm_connections m) peer p = Inr (i, c)" "i < length (cm_connections m)" "cm_connections m ! i = c"
    "conn_key c = (peer, p)" "co_info c = info" "rb_contents (co_buffer c) = bytes" "co_peer_requested_shutdown c = closing"
    "conn_ok (cm_per_connection_buffer_capacity m) c" using cm_lookup [OF inv M] by blast
  obtain b where b: "RingBuffer_drain (co_buffer c) buffer = Some (n, b, take (length buffer) bytes @ drop (length bytes) buffer)"
    "rb_inv b" "rb_capacity b = rb_capacity (co_buffer c)" "rb_contents b = drop (length buffer) bytes"
    using rb.drain_law [of "co_buffer c" buffer] g(6,8) n(1) by (auto simp: conn_ok_def)
  have un: "unat (of_nat n :: u32) = n" using n(2) by (intro unat_of_nat_bound) simp
  have f: "done_forwarding info n = Some info1"
    using n(2) un by (simp add: done_forwarding_def info1 rust_add_def)
  let ?c = "c\<lparr>co_buffer := b, co_info := info1\<rparr>"
  define m1 where "m1 = m\<lparr>cm_connections := (cm_connections m)[i := ?c]\<rparr>"
  have c1: "conn_key ?c = conn_key (cm_connections m ! i)" "conn_ok (cm_per_connection_buffer_capacity m) ?c"
    using g b by (auto simp: conn_key_def conn_ok_def info1)
  have sock: "socket_inv share bsz (cm_driver m)" using inv by (simp add: cm_inv_def)
  have key: "conn_key ?c = (peer, p)" using c1(1) g(3,4) by simp
  have dn: "drop (length buffer) bytes = drop n bytes" by (simp add: n(1) min_def)
  have st: "conn_state ?c = (info1, drop n bytes, closing)" using b(4) g(7) dn by (simp add: conn_state_def)
  have u: "cm_inv share bsz m1" "cm_same m m1" "cm_map m1 = (cm_map m)((peer, p) \<mapsto> (info1, drop n bytes, closing))"
    using cm_update_ok [OF inv g(2) c1 sock refl] key st by (simp_all add: m1_def)
  have e: "RingBuffer_is_empty b \<longleftrightarrow> length bytes \<le> length buffer"
    using b(4) rb_contents_length [of b] by (auto simp: RingBuffer_is_empty_def)
  have recv: "cm_recv share T env m peer p buffer = do {
      r \<leftarrow> (if closing \<and> length bytes \<le> length buffer
           then cm_driver_op (VirtIOSocket_force_close share T env) m1 info1 (\<lambda>s. do { s1 \<leftarrow> cm_remove s i; Some (Inr n, s1) })
           else Some (Inr n, m1, []));
      Some (r, take (length buffer) bytes @ drop (length bytes) buffer) }"
    using g(1,5,7) b(1) f e by (simp add: cm_recv_def m1_def Let_def)
  show ?thesis
  proof (cases "closing \<and> length bytes \<le> length buffer")
    case True
    have i: "i < length (cm_connections m1)" "cm_connections m1 ! i = ?c" using g(2) by (simp_all add: m1_def)
    have dev1: "packet_taken env (cm_driver m1)" using dev(1) by (simp add: m1_def)
    obtain m' where m': "cm_driver_op (VirtIOSocket_force_close share T env) m1 info1 (\<lambda>s. do { s1 \<leftarrow> cm_remove s i; Some (Inr n, s1) })
        = Some (Inr n, m', [ctrl_packet Rst info1 (sock_guest_cid (cm_driver m))])"
      "cm_inv share bsz m'" "cm_same m1 m'" "cm_map m' = (cm_map m1)((peer, p) := None)"
      using cm_op_remove [where op = "VirtIOSocket_force_close share T env" and info = info1, OF u(1) dev1 dev(2) VirtIOSocket_force_close_def i(1), of "Inr n"]
        i(2) key u(2) by (auto simp: ctrl_packet_def cm_same_def)
    have "cm_map m' = (cm_map m)((peer, p) := None)" using m'(4) u(3) by simp
    with m'(1,2) cm_same_trans [OF u(2) m'(3)] True recv show ?thesis by simp
  next
    case False
    then have "cm_recv share T env m peer p buffer = Some ((Inr n, m1, []), take (length buffer) bytes @ drop (length bytes) buffer)"
      using recv by auto
    with u False show ?thesis by auto
  qed
qed

lemma cm_connect_ok:
  assumes inv: "cm_inv share bsz m" and dev: "packet_taken env (cm_driver m)" "notify_total T" and M: "cm_map m (peer, p) = None"
  shows "\<exists>m'. cm_connect share T env m peer p = Some (Inr (), m', [ctrl_packet Request
        ((ConnectionInfo_new peer p)\<lparr>ci_buf_alloc := cm_per_connection_buffer_capacity m\<rparr>) (sock_guest_cid (cm_driver m))])
    \<and> cm_inv share bsz m' \<and> cm_same m m'
    \<and> cm_map m' = (cm_map m)((peer, p) \<mapsto> ((ConnectionInfo_new peer p)\<lparr>ci_buf_alloc := cm_per_connection_buffer_capacity m\<rparr>, [], False))"
proof -
  let ?c = "Connection_new peer p (cm_per_connection_buffer_capacity m)"
  have cap: "0 < cm_per_connection_buffer_capacity m" and sock: "socket_inv share bsz (cm_driver m)"
    and ok: "conns_ok (cm_per_connection_buffer_capacity m) (cm_connections m)" using inv by (simp_all add: cm_inv_def)
  note new = Connection_new_ok [OF cap, of peer p]
  have fresh: "conn_key ?c \<notin> conn_key ` set (cm_connections m)" using M new(2) by (simp add: cm_map_def conn_map_None)
  note sn = conns_ok_snoc [OF ok fresh new(1)]
  obtain d where d: "VirtIOSocket_connect share T env (cm_driver m) (co_info ?c) =
      Some (Inr (), d, [ctrl_packet Request (co_info ?c) (sock_guest_cid (cm_driver m))])"
    "socket_inv share bsz d" "sock_guest_cid d = sock_guest_cid (cm_driver m)"
    using send_packet_ok [OF sock dev, of "[]" "(new_header (co_info ?c) (sock_guest_cid (cm_driver m)))\<lparr>hdr_op := VirtioVsockOp_into Request\<rparr>"]
    by (auto simp: VirtIOSocket_connect_def ctrl_packet_def)
  have info: "co_info ?c = (ConnectionInfo_new peer p)\<lparr>ci_buf_alloc := cm_per_connection_buffer_capacity m\<rparr>"
    by (simp add: Connection_new_def)
  have "\<not> (\<exists>c \<in> set (cm_connections m). ci_dst (co_info c) = peer \<and> ci_src_port (co_info c) = p)"
    using fresh new(2) by (force simp: conn_key_def)
  with d(1) have "cm_connect share T env m peer p = Some (Inr (), m\<lparr>cm_driver := d, cm_connections := cm_connections m @ [?c]\<rparr>,
      [ctrl_packet Request (co_info ?c) (sock_guest_cid (cm_driver m))])"
    by (simp add: cm_connect_def Let_def)
  with inv sn d(2,3) new(2,3) info show ?thesis by (simp add: cm_inv_def cm_same_def cm_map_def)
qed

lemma cm_connect_exists:
  assumes "cm_map m (peer, p) \<noteq> None"
  shows "cm_connect share T env m peer p = Some (Inl (SocketDeviceError ConnectionExists), m, [])"
proof -
  have "(peer, p) \<in> conn_key ` set (cm_connections m)" using assms by (simp add: cm_map_def conn_map_None)
  then have "\<exists>c \<in> set (cm_connections m). ci_dst (co_info c) = peer \<and> ci_src_port (co_info c) = p" by (auto simp: conn_key_def)
  then show ?thesis by (simp add: cm_connect_def)
qed

lemma cm_force_close_ok:
  assumes inv: "cm_inv share bsz m" and dev: "packet_taken env (cm_driver m)" "notify_total T"
    and M: "cm_map m (peer, p) = Some (info, bytes, closing)"
  shows "\<exists>m'. cm_force_close share T env m peer p = Some (Inr (), m', [ctrl_packet Rst info (sock_guest_cid (cm_driver m))])
    \<and> cm_inv share bsz m' \<and> cm_same m m' \<and> cm_map m' = (cm_map m)((peer, p) := None)"
proof -
  obtain i c where g: "get_connection (cm_connections m) peer p = Inr (i, c)" "i < length (cm_connections m)" "cm_connections m ! i = c"
    "conn_key c = (peer, p)" "co_info c = info" using cm_lookup [OF inv M] by blast
  from cm_op_remove [where op = "VirtIOSocket_force_close share T env" and info = info, OF inv dev VirtIOSocket_force_close_def g(2), of "Inr ()"] g
  show ?thesis by (auto simp: cm_force_close_def cm_with_connection_def ctrl_packet_def)
qed

definition data_packet :: "ConnectionInfo \<Rightarrow> u64 \<Rightarrow> u8 list \<Rightarrow> u8 list" where
  "data_packet info g buffer = VirtioVsockHdr_as_bytes ((new_header info g)
     \<lparr>hdr_op := VirtioVsockOp_into Rw, hdr_len := of_nat (length buffer)\<rparr>) @ buffer"

lemma cm_send_ok:
  assumes inv: "cm_inv share bsz m" and dev: "packet_taken env (cm_driver m)" "notify_total T"
    and M: "cm_map m (peer, p) = Some (info, bytes, closing)"
    and c: "credit_ok info" "unat (ci_tx_cnt info) + length buffer < 2 ^ 32"
  shows "\<exists>r m' info' sent. cm_send share T env m peer p buffer = Some (r, m', sent)
    \<and> cm_inv share bsz m' \<and> cm_same m m' \<and> cm_map m' = (cm_map m)((peer, p) \<mapsto> (info', bytes, closing)) \<and> credit_ok info'
    \<and> (if length buffer \<le> window_of info
       then r = Inr () \<and> info' = info\<lparr>ci_tx_cnt := ci_tx_cnt info + of_nat (length buffer)\<rparr>
         \<and> window_of info' = window_of info - length buffer \<and> sent = [data_packet info (sock_guest_cid (cm_driver m)) buffer]
       else r = Inl (SocketDeviceError InsufficientBufferSpaceInPeer) \<and> info' = info\<lparr>ci_has_pending_credit_request := True\<rparr>
         \<and> sent = (if ci_has_pending_credit_request info then [] else [ctrl_packet CreditRequest info (sock_guest_cid (cm_driver m))]))"
proof -
  obtain i c where g: "get_connection (cm_connections m) peer p = Inr (i, c)" "i < length (cm_connections m)" "cm_connections m ! i = c"
    "conn_key c = (peer, p)" "co_info c = info" "rb_contents (co_buffer c) = bytes" "co_peer_requested_shutdown c = closing"
    "conn_ok (cm_per_connection_buffer_capacity m) c" using cm_lookup [OF inv M] by blast
  have sock: "socket_inv share bsz (cm_driver m)" using inv by (simp add: cm_inv_def)
  have upd: "cm_inv share bsz (m\<lparr>cm_driver := d, cm_connections := (cm_connections m)[i := c\<lparr>co_info := info'\<rparr>]\<rparr>)
      \<and> cm_same m (m\<lparr>cm_driver := d, cm_connections := (cm_connections m)[i := c\<lparr>co_info := info'\<rparr>]\<rparr>)
      \<and> cm_map (m\<lparr>cm_driver := d, cm_connections := (cm_connections m)[i := c\<lparr>co_info := info'\<rparr>]\<rparr>) = (cm_map m)((peer, p) \<mapsto> (info', bytes, closing))"
    if "socket_inv share bsz d" "sock_guest_cid d = sock_guest_cid (cm_driver m)"
      "ci_dst info' = ci_dst info" "ci_src_port info' = ci_src_port info" "ci_buf_alloc info' = ci_buf_alloc info" for d info'
    using cm_update_ok [OF inv g(2) _ _ that(1,2), of "c\<lparr>co_info := info'\<rparr>"] g that(3-5)
    by (simp add: conn_key_def conn_ok_def conn_state_def)
  show ?thesis
  proof (cases "length buffer \<le> window_of info")
    case True
    let ?i = "info\<lparr>ci_tx_cnt := ci_tx_cnt info + of_nat (length buffer)\<rparr>"
    obtain d where d: "VirtIOSocket_send share T env (cm_driver m) buffer info =
        Some (Inr (), d, ?i, [data_packet info (sock_guest_cid (cm_driver m)) buffer])"
      "socket_inv share bsz d" "sock_guest_cid d = sock_guest_cid (cm_driver m)" "credit_ok ?i" "window_of ?i = window_of info - length buffer"
      using send_within_window [OF sock dev c(1) True c(2)] by (auto simp: data_packet_def)
    with upd [OF d(2,3), of ?i] True g(1,5) show ?thesis by (simp add: cm_send_def)
  next
    case False
    let ?i = "info\<lparr>ci_has_pending_credit_request := True\<rparr>"
    obtain d where d: "VirtIOSocket_send share T env (cm_driver m) buffer info =
        Some (Inl (SocketDeviceError InsufficientBufferSpaceInPeer), d, ?i,
          if ci_has_pending_credit_request info then [] else [ctrl_packet CreditRequest info (sock_guest_cid (cm_driver m))])"
      "socket_inv share bsz d" "sock_guest_cid d = sock_guest_cid (cm_driver m)"
      using send_beyond_window [OF sock dev c(1), of buffer] False unfolding ctrl_packet_def not_le by blast
    have "credit_ok ?i" using c(1) by (simp add: credit_ok_def)
    with d upd [OF d(2,3), of ?i] False g(1,5) show ?thesis by (simp add: cm_send_def)
  qed
qed

lemma see_used_twice [simp]: "see_used u (see_used v m) = see_used u m"
  by (simp add: see_used_def)

lemma see_used_simps [simp]:
  "cm_map (see_used u m) = cm_map m" "cm_listening_ports (see_used u m) = cm_listening_ports m"
  "cm_per_connection_buffer_capacity (see_used u m) = cm_per_connection_buffer_capacity m"
  "sock_guest_cid (cm_driver (see_used u m)) = sock_guest_cid (cm_driver m)"
  "sock_tx (cm_driver (see_used u m)) = sock_tx (cm_driver m)"
  by (simp_all add: see_used_def cm_map_def)

lemma see_used_inv:
  assumes "cm_inv share bsz m" "length (used_ring u) = SIZE (oq_queue (sock_rx (cm_driver m)))"
  shows "cm_inv share bsz (see_used u m)"
proof -
  obtain rs where "vq_holds share (oq_queue (sock_rx (cm_driver m))) [] rs"
    "mset rs = mset (oq_requests bsz (oq_buffers (sock_rx (cm_driver m))))"
    "length (oq_buffers (sock_rx (cm_driver m))) = SIZE (oq_queue (sock_rx (cm_driver m)))"
    using assms(1) by (auto simp: cm_inv_def socket_inv_def oq_inv_def)
  moreover from this(1) have "vq_holds share ((oq_queue (sock_rx (cm_driver m)))\<lparr>used := u\<rparr>) [] rs"
    using assms(2) unfolding vq_holds_def by (rule vq_inv_used)
  ultimately show ?thesis using assms(1) by (auto simp: cm_inv_def socket_inv_def oq_inv_def see_used_def)
qed

text \<open>An iteration that finds nothing new.\<close>

definition nothing_new :: "'t VsockConnectionManager \<Rightarrow> poll_env \<Rightarrow> bool" where
  "nothing_new m e \<longleftrightarrow> used_ring_idx (po_used e) = last_used_idx (oq_queue (sock_rx (cm_driver m)))"

lemma cm_poll_nothing_new:
  assumes "nothing_new m e"
  shows "cm_poll share T mem bsz env (see_used (po_used e) m) = Some (Inr None, see_used (po_used e) m, [])"
proof -
  have "peek_used (oq_queue (sock_rx (cm_driver (see_used (po_used e) m)))) = Some None"
    using assms by (simp add: peek_used_def can_pop_def nothing_new_def see_used_def)
  then show ?thesis by (simp add: cm_poll_def VirtIOSocket_poll_def OwningQueue_poll_idle Let_def)
qed

lemma cm_wait_for_event_ok:
  assumes "\<forall>e \<in> set es. nothing_new m e"
    and "cm_poll share T (po_mem e) bsz (po_packet e) (see_used (po_used e) m) = Some (Inr (Some ev), m', sent)"
  shows "cm_wait_for_event share T bsz (es @ e # rest) m = Some (Inr ev, m', sent)"
  using assms
proof (induction es arbitrary: m)
  case (Cons a es)
  have "\<forall>e \<in> set es. nothing_new (see_used (po_used a) m) e" using Cons.prems(1) by (simp add: nothing_new_def see_used_def)
  with Cons.IH [of "see_used (po_used a) m"] Cons.prems(2)
  have "cm_wait_for_event share T bsz (es @ e # rest) (see_used (po_used a) m) = Some (Inr ev, m', sent)" by simp
  with cm_poll_nothing_new [of m a] Cons.prems(1) show ?case by simp
qed simp

section \<open>What the peer reads\<close>

lemma new_header_simps [simp]:
  "hdr_src_cid (new_header info g) = g" "hdr_dst_cid (new_header info g) = cid (ci_dst info)"
  "hdr_src_port (new_header info g) = ci_src_port info" "hdr_dst_port (new_header info g) = port (ci_dst info)"
  "hdr_len (new_header info g) = 0" "hdr_buf_alloc (new_header info g) = ci_buf_alloc info"
  "hdr_fwd_cnt (new_header info g) = ci_fwd_cnt info"
  by (simp_all add: new_header_def VirtioVsockHdr_default_def)

definition sent_event :: "ConnectionInfo \<Rightarrow> u64 \<Rightarrow> VsockEventType \<Rightarrow> VsockEvent" where
  "sent_event info g ty = \<lparr>ev_source = \<lparr>cid = g, port = ci_src_port info\<rparr>, ev_destination = ci_dst info,
     ev_buffer_status = \<lparr>buffer_allocation = ci_buf_alloc info, forward_count = ci_fwd_cnt info\<rparr>, ev_event_type = ty\<rparr>"

lemma decode_data_packet:
  assumes "length buffer < 2 ^ 32"
  shows "decode_packet (data_packet info g buffer) = Inr (sent_event info g (Received (length buffer)), buffer)"
proof -
  let ?h = "(new_header info g)\<lparr>hdr_op := VirtioVsockOp_into Rw, hdr_len := of_nat (length buffer)\<rparr>"
  have u: "unat (of_nat (length buffer) :: u32) = length buffer" using assms by (intro unat_of_nat_bound) simp
  then have "read_header_and_body (data_packet info g buffer) = Inr (?h, buffer)"
    using read_packet [of ?h buffer "[]"] by (simp add: data_packet_def)
  moreover have "VsockEvent_from_header ?h = Inr (sent_event info g (Received (length buffer)))"
    using u VirtioVsockOp_roundtrip [of Rw]
    by (simp add: VsockEvent_from_header_def hdr_source_def hdr_destination_def sent_event_def del: VirtioVsockOp_into.simps)
  ultimately show ?thesis by (simp add: decode_packet_def)
qed

fun event_of_op :: "VirtioVsockOp \<Rightarrow> VsockEventType option" where
  "event_of_op Request = Some ConnectionRequested"
| "event_of_op Response = Some Connected"
| "event_of_op Rst = Some (Disconnected Reset)"
| "event_of_op Shutdown = Some (Disconnected ShutdownByPeer)"
| "event_of_op CreditUpdate = Some CreditUpdated"
| "event_of_op CreditRequest = Some CreditRequested"
| "event_of_op Rw = None"
| "event_of_op Invalid = None"

lemma decode_ctrl_packet:
  assumes "event_of_op op = Some ty"
  shows "decode_packet (ctrl_packet op info g) = Inr (sent_event info g ty, [])"
proof -
  let ?h = "(new_header info g)\<lparr>hdr_op := VirtioVsockOp_into op\<rparr>"
  have "read_header_and_body (ctrl_packet op info g) = Inr (?h, [])"
    using read_packet [of ?h "[]" "[]"] by (simp add: ctrl_packet_def)
  moreover have "VsockEvent_from_header ?h = Inr (sent_event info g ty)"
    using assms VirtioVsockOp_roundtrip [of op]
    by (cases op; simp add: VsockEvent_from_header_def check_data_is_empty_def hdr_source_def hdr_destination_def sent_event_def del: VirtioVsockOp_into.simps)
  ultimately show ?thesis by (simp add: decode_packet_def)
qed

end
