(* ===== verification/Vsock_Properties.thy ===== *)
theory Vsock_Properties
  imports Vsock_Connection_Refinement
begin

text \<open>
  What the vsock driver and its connection manager guarantee, with the assumptions on the device
  spelled out: \<open>device_keeps_to_buffers\<close> (tokens and lengths of received packets are in range) and
  \<open>packet_taken\<close> (the device takes a packet that is sent).
\<close>

section \<open>A sample manager\<close>

definition sample_socket :: "OwningQueue \<Rightarrow> nat VirtIOSocket" where
  "sample_socket rx = \<lparr>sock_transport = 0, sock_rx = rx, sock_tx = zeroed_queue sample_layout 8 1 False False,
     sock_event = zeroed_queue sample_layout 8 2 False False, sock_guest_cid = 66\<rparr>"

definition sample_rx :: "OwningQueue \<Rightarrow> bool" where
  "sample_rx rx \<longleftrightarrow> OwningQueue_new sample_share 512 [4096, 8192, 12288, 16384, 20480, 24576, 28672, 32768]
     (zeroed_queue sample_layout 8 0 False False) = Some (Inr rx)"

definition sample_taken :: packet_env where
  "sample_taken = \<lparr>pe_header = 64, pe_body = 128, pe_wait = \<lparr>we_box = 0,
     we_polls = [\<lparr>used_flags = 0, used_ring_idx = 1, used_ring = replicate 8 \<lparr>elem_id = 0, elem_len = 0\<rparr>, avail_event = 0\<rparr>]\<rparr>\<rparr>"

definition sample_conn :: Connection where
  "sample_conn = \<lparr>co_info = \<lparr>ci_dst = \<lparr>cid = 2, port = 1234\<rparr>, ci_src_port = 4321, ci_peer_buf_alloc = 50, ci_peer_fwd_cnt = 0,
     ci_tx_cnt = 0, ci_buf_alloc = 1024, ci_fwd_cnt = 0, ci_has_pending_credit_request = False\<rparr>,
     co_buffer = \<lparr>rb_buffer = [1, 2, 3] @ replicate 1021 0, rb_used = 3, rb_start = 0\<rparr>, co_peer_requested_shutdown = False\<rparr>"

definition sample_manager :: "OwningQueue \<Rightarrow> Connection list \<Rightarrow> nat VsockConnectionManager" where
  "sample_manager rx cs = (VsockConnectionManager_new (sample_socket rx))\<lparr>cm_connections := cs, cm_listening_ports := [4321]\<rparr>"

lemma size_ok_8: "size_ok 8"
  unfolding size_ok_def by (rule exI [of _ 3]) simp

lemma sample_rx_ok: "\<exists>rx. sample_rx rx \<and> oq_inv sample_share 512 rx \<and> SIZE (oq_queue rx) = 8"
  using OwningQueue_new_ok [OF zeroed_queue_inv(1) [OF size_ok_8, of sample_share sample_layout 0 False False],
      of 512 "[4096, 8192, 12288, 16384, 20480, 24576, 28672, 32768]"]
  by (auto simp: sample_rx_def oq_inv_def)

lemma sample_contents: "rb_contents (co_buffer sample_conn) = [1, 2, 3]"
  by (simp add: rb_contents_def sample_conn_def upt_conv_Cons numeral_3_eq_3)

lemma sample_inv:
  assumes "oq_inv sample_share 512 rx" "cs = [] \<or> cs = [sample_conn]"
  shows "cm_inv sample_share 512 (sample_manager rx cs)" "packet_taken sample_taken (cm_driver (sample_manager rx cs))"
    "notify_total sample_transport_impl"
proof -
  have "vq_inv sample_share (zeroed_queue sample_layout 8 1 False False) (abs_new 8)"
    using zeroed_queue_inv(1) [OF size_ok_8] by blast
  with assms show "cm_inv sample_share 512 (sample_manager rx cs)"
    by (auto simp: cm_inv_def sample_manager_def VsockConnectionManager_new_def VsockConnectionManager_new_with_capacity_def
        socket_inv_def sample_socket_def vsock_QUEUE_SIZE_def conns_ok_def conn_ok_def rb_inv_def rb_capacity_def sample_conn_def
        DEFAULT_PER_CONNECTION_BUFFER_CAPACITY_def intro: idle_new)
  have "answered (we_polls (pe_wait sample_taken)) (zeroed_queue sample_layout 8 1 False False) 0"
    unfolding answered_def answered_at_def
    by (rule exI [of _ "[]"]) (simp add: sample_taken_def zeroed_queue_def link_descriptors_nth)
  then show "packet_taken sample_taken (cm_driver (sample_manager rx cs))"
    by (auto simp: packet_taken_def sample_manager_def VsockConnectionManager_new_def VsockConnectionManager_new_with_capacity_def sample_socket_def)
  show "notify_total sample_transport_impl" by (simp add: notify_total_def sample_transport_impl_def)
qed

lemma sample_map:
  "cm_map (sample_manager rx [sample_conn]) (\<lparr>cid = 2, port = 1234\<rparr>, 4321) = Some (co_info sample_conn, [1, 2, 3], False)"
proof -
  have "conn_key sample_conn = (\<lparr>cid = 2, port = 1234\<rparr>, 4321)" by (simp add: conn_key_def sample_conn_def)
  moreover have "conn_state sample_conn = (co_info sample_conn, [1, 2, 3], False)"
    unfolding conn_state_def sample_contents by (simp add: sample_conn_def)
  ultimately show ?thesis by (simp add: cm_map_def sample_manager_def conn_map_def)
qed

text \<open>The device has put a connection request for port 4321 into buffer 5.\<close>

definition sample_request :: VsockEvent where
  "sample_request = sent_event (ConnectionInfo_new \<lparr>cid = 66, port = 4321\<rparr> 1234) 2 ConnectionRequested"

definition sample_mem :: "u64 \<Rightarrow> nat \<Rightarrow> u8 list" where
  "sample_mem p n = ctrl_packet Request (ConnectionInfo_new \<lparr>cid = 66, port = 4321\<rparr> 1234) 2"

definition sample_ring :: "nat VsockConnectionManager \<Rightarrow> UsedRing" where
  "sample_ring m = \<lparr>used_flags = 0, used_ring_idx = last_used_idx (oq_queue (sock_rx (cm_driver m))) + 1,
     used_ring = replicate 8 \<lparr>elem_id = 5, elem_len = 44\<rparr>, avail_event = 0\<rparr>"

lemma sample_ring_ok:
  assumes "SIZE (oq_queue (sock_rx (cm_driver m))) = 8"
  shows "device_keeps_to_buffers 512 (sock_rx (cm_driver (see_used (sample_ring m) m)))"
    "next_packet sample_mem (sock_rx (cm_driver (see_used (sample_ring m) m))) = Some (ctrl_packet Request (ConnectionInfo_new \<lparr>cid = 66, port = 4321\<rparr> 1234) 2)"
proof -
  let ?q = "oq_queue (sock_rx (cm_driver (see_used (sample_ring m) m)))"
  have "SIZE ?q = 8" using assms by (simp add: see_used_def)
  then have "slot ?q (last_used_idx ?q) < 8" using slot_bound [of ?q "last_used_idx ?q"] size_ok_8 by simp
  then have "peek_used ?q = Some (Some 5)" "next_used_len ?q = 44"
    by (simp_all add: peek_used_def next_used_len_def see_used_def can_pop_def panic_simps sample_ring_def)
  then show "device_keeps_to_buffers 512 (sock_rx (cm_driver (see_used (sample_ring m) m)))"
    "next_packet sample_mem (sock_rx (cm_driver (see_used (sample_ring m) m))) = Some (ctrl_packet Request (ConnectionInfo_new \<lparr>cid = 66, port = 4321\<rparr> 1234) 2)"
    using \<open>SIZE ?q = 8\<close> by (simp_all add: device_keeps_to_buffers_def next_packet_def sample_mem_def)
qed

lemma sample_poll_result:
  "spec_poll 66 cap {4321} (Some (ctrl_packet Request (ConnectionInfo_new \<lparr>cid = 66, port = 4321\<rparr> 1234) 2)) Map.empty = (r, M, sent) \<Longrightarrow>
    r = Inr (Some sample_request) \<and> M (\<lparr>cid = 2, port = 1234\<rparr>, 4321) \<noteq> None"
  using decode_ctrl_packet [of Request ConnectionRequested "ConnectionInfo_new \<lparr>cid = 66, port = 4321\<rparr> 1234" 2]
  by (auto simp: spec_poll_def spec_event_def entry_for_def event_key_def sent_event_def ConnectionInfo_new_def Let_def sample_request_def)

section \<open>Properties\<close>



text \<open>
  C12. Flow control on sending: on an established connection whose credit information is consistent and
  whose byte counter does not overflow, \<^verbatim>\<open>send\<close> returns; data that fits the window of the peer goes out
  as one packet and shrinks the window by its length, so the peer never gets more bytes in flight than
  the buffer space it announced; data that does not fit is refused with
  \<^verbatim>\<open>InsufficientBufferSpaceInPeer\<close>, and the peer is asked for credit once.
\<close>

theorem vsock_send_respects_credit:
  assumes "cm_inv share bsz m" "packet_taken env (cm_driver m)" "notify_total T"
    and "cm_map m (peer, p) = Some (info, bytes, closing)"
    and "credit_ok info" "unat (ci_tx_cnt info) + length buffer < 2 ^ 32"
  shows "\<exists>r m' info' sent. cm_send share T env m peer p buffer = Some (r, m', sent)
    \<and> cm_inv share bsz m' \<and> cm_same m m' \<and> cm_map m' = (cm_map m)((peer, p) \<mapsto> (info', bytes, closing)) \<and> credit_ok info'
    \<and> (if length buffer \<le> window_of info
       then r = Inr () \<and> info' = info\<lparr>ci_tx_cnt := ci_tx_cnt info + of_nat (length buffer)\<rparr>
         \<and> window_of info' = window_of info - length buffer \<and> sent = [data_packet info (sock_guest_cid (cm_driver m)) buffer]
       else r = Inl (SocketDeviceError InsufficientBufferSpaceInPeer) \<and> info' = info\<lparr>ci_has_pending_credit_request := True\<rparr>
         \<and> sent = (if ci_has_pending_credit_request info then [] else [ctrl_packet CreditRequest info (sock_guest_cid (cm_driver m))]))"
  using cm_send_ok [OF assms] .

theorem vsock_send_respects_credit_witness:
  "\<exists>rx m' sent. sample_rx rx \<and> cm_send sample_share sample_transport_impl sample_taken (sample_manager rx [sample_conn])
      \<lparr>cid = 2, port = 1234\<rparr> 4321 (replicate 51 7) = Some (Inl (SocketDeviceError InsufficientBufferSpaceInPeer), m', [sent])"
proof -
  obtain rx where rx: "sample_rx rx" "oq_inv sample_share 512 rx" using sample_rx_ok by blast
  have c: "credit_ok (co_info sample_conn)" "window_of (co_info sample_conn) = 50"
    "ci_has_pending_credit_request (co_info sample_conn) = False" "unat (ci_tx_cnt (co_info sample_conn)) + length (replicate 51 7 :: u8 list) < 2 ^ 32"
    by (simp_all add: credit_ok_def window_of_def sample_conn_def)
  note ok = sample_inv [OF rx(2), of "[sample_conn]"]
  from vsock_send_respects_credit [OF ok(1-3) sample_map c(1,4)] c(2,3) rx(1) show ?thesis by auto
qed

text \<open>
  C13. Receiving: \<^verbatim>\<open>recv\<close> on a connection copies the oldest buffered bytes, in order, to the front of the
  caller's buffer, leaves the rest of both buffers alone, and adds the number of bytes to the forward
  count it announces to the peer. A connection the peer has shut down is removed, with a reset, by the
  call that drains its last byte and not before.
\<close>

theorem vsock_recv_delivers_in_order:
  assumes "cm_inv share bsz m" "packet_taken env (cm_driver m)" "notify_total T"
    and "cm_map m (peer, p) = Some (info, bytes, closing)"
    and "n = min (length bytes) (length buffer)" "unat (ci_fwd_cnt info) + n < 2 ^ 32"
    and "info1 = info\<lparr>ci_fwd_cnt := ci_fwd_cnt info + of_nat n\<rparr>"
  shows "\<exists>m' sent. cm_recv share T env m peer p buffer = Some ((Inr n, m', sent), take (length buffer) bytes @ drop (length bytes) buffer)
    \<and> cm_inv share bsz m' \<and> cm_same m m'
    \<and> (if closing \<and> length bytes \<le> length buffer
       then cm_map m' = (cm_map m)((peer, p) := None) \<and> sent = [ctrl_packet Rst info1 (sock_guest_cid (cm_driver m))]
       else cm_map m' = (cm_map m)((peer, p) \<mapsto> (info1, drop n bytes, closing)) \<and> sent = [])"
  using cm_recv_ok [OF assms] .

theorem vsock_recv_delivers_in_order_witness:
  "\<exists>rx m' sent. sample_rx rx \<and> cm_recv sample_share sample_transport_impl sample_taken (sample_manager rx [sample_conn])
      \<lparr>cid = 2, port = 1234\<rparr> 4321 [0, 0] = Some ((Inr 2, m', sent), [1, 2])"
proof -
  obtain rx where rx: "sample_rx rx" "oq_inv sample_share 512 rx" using sample_rx_ok by blast
  note ok = sample_inv [OF rx(2), of "[sample_conn]"]
  have c: "2 = min (length [1 :: u8, 2, 3]) (length [0 :: u8, 0])" "unat (ci_fwd_cnt (co_info sample_conn)) + 2 < 2 ^ 32"
    by (simp_all add: sample_conn_def)
  from vsock_recv_delivers_in_order [OF ok(1-3) sample_map c refl] rx(1) show ?thesis by auto
qed

text \<open>
  Connecting: \<^verbatim>\<open>connect\<close> to a peer and port without a connection sends a request that announces the
  buffer capacity and adds exactly that connection; a second \<^verbatim>\<open>connect\<close> for the same pair is refused with
  \<^verbatim>\<open>ConnectionExists\<close>, nothing is sent and nothing changes.
\<close>

theorem vsock_connect_correct:
  assumes "cm_inv share bsz m" "packet_taken env (cm_driver m)" "notify_total T"
  shows "if cm_map m (peer, p) = None
    then \<exists>m'. cm_connect share T env m peer p = Some (Inr (), m', [ctrl_packet Request
          ((ConnectionInfo_new peer p)\<lparr>ci_buf_alloc := cm_per_connection_buffer_capacity m\<rparr>) (sock_guest_cid (cm_driver m))])
      \<and> cm_inv share bsz m' \<and> cm_same m m'
      \<and> cm_map m' = (cm_map m)((peer, p) \<mapsto> ((ConnectionInfo_new peer p)\<lparr>ci_buf_alloc := cm_per_connection_buffer_capacity m\<rparr>, [], False))
    else cm_connect share T env m peer p = Some (Inl (SocketDeviceError ConnectionExists), m, [])"
  using cm_connect_ok [OF assms, of peer p] cm_connect_exists [of m peer p] by auto

theorem vsock_connect_correct_witness:
  "\<exists>rx. sample_rx rx \<and> cm_connect sample_share sample_transport_impl sample_taken (sample_manager rx [sample_conn])
      \<lparr>cid = 2, port = 1234\<rparr> 4321 = Some (Inl (SocketDeviceError ConnectionExists), sample_manager rx [sample_conn], [])"
proof -
  obtain rx where rx: "sample_rx rx" "oq_inv sample_share 512 rx" using sample_rx_ok by blast
  note ok = sample_inv [OF rx(2), of "[sample_conn]"]
  from vsock_connect_correct [OF ok(1-3), of "\<lparr>cid = 2, port = 1234\<rparr>" 4321] sample_map [of rx] rx(1) show ?thesis by auto
qed

text \<open>
  C14. Packets survive the wire: the bytes of a data packet that \<^verbatim>\<open>send\<close> puts on the queue decode, with the
  reader the driver uses for received packets, to a \<^verbatim>\<open>Received\<close> event from the sender with exactly the
  data that was sent and the credit information of the sender.
\<close>

theorem vsock_packet_roundtrip:
  assumes "length buffer < 2 ^ 32"
  shows "decode_packet (data_packet info g buffer) = Inr (sent_event info g (Received (length buffer)), buffer)"
  using decode_data_packet [OF assms] .

theorem vsock_packet_roundtrip_witness:
  "decode_packet (data_packet (co_info sample_conn) 66 [104, 105]) = Inr (sent_event (co_info sample_conn) 66 (Received (Suc (Suc 0))), [104, 105])"
  using vsock_packet_roundtrip [of "[104, 105]" "co_info sample_conn" 66] by simp

text \<open>
  Waiting ends: if the device, after any number of iterations in which it returns no buffer, returns
  one for which the specification reports an event, \<^verbatim>\<open>wait_for_event\<close> returns that event, and the map of
  connections is the one of the specification.
\<close>

theorem vsock_wait_for_event_returns:
  assumes "cm_inv share bsz m" "\<forall>e \<in> set es. nothing_new m e"
    and "length (used_ring (po_used e)) = SIZE (oq_queue (sock_rx (cm_driver m)))"
    and "device_keeps_to_buffers bsz (sock_rx (cm_driver (see_used (po_used e) m)))" "packet_taken (po_packet e) (cm_driver m)" "notify_total T"
    and "spec_poll (sock_guest_cid (cm_driver m)) (cm_per_connection_buffer_capacity m) (set (cm_listening_ports m))
      (next_packet (po_mem e) (sock_rx (cm_driver (see_used (po_used e) m)))) (cm_map m) = (Inr (Some ev), M, sent)"
  shows "\<exists>m'. cm_wait_for_event share T bsz (es @ e # rest) m = Some (Inr ev, m', sent) \<and> cm_inv share bsz m' \<and> cm_map m' = M"
proof -
  have "packet_taken (po_packet e) (cm_driver (see_used (po_used e) m))" using assms(5) by (simp add: packet_taken_def)
  from cm_poll_ok [OF see_used_inv [OF assms(1,3)] assms(4) this assms(6), of "po_mem e"] assms(7)
  obtain m' where "cm_poll share T (po_mem e) bsz (po_packet e) (see_used (po_used e) m) = Some (Inr (Some ev), m', sent)"
    "cm_inv share bsz m'" "cm_map m' = M" by auto
  with cm_wait_for_event_ok [OF assms(2) this(1)] show ?thesis by blast
qed

theorem vsock_wait_for_event_returns_witness:
  "\<exists>rx m' sent. sample_rx rx \<and> cm_wait_for_event sample_share sample_transport_impl 512
      [\<lparr>po_mem = sample_mem, po_used = (sample_ring (sample_manager rx []))\<lparr>used_ring_idx := last_used_idx (oq_queue rx)\<rparr>, po_packet = sample_taken\<rparr>,
       \<lparr>po_mem = sample_mem, po_used = sample_ring (sample_manager rx []), po_packet = sample_taken\<rparr>]
      (sample_manager rx []) = Some (Inr sample_request, m', sent)"
proof -
  obtain rx where rx: "sample_rx rx" "oq_inv sample_share 512 rx" "SIZE (oq_queue rx) = 8" using sample_rx_ok by blast
  let ?m = "sample_manager rx []"
  let ?idle = "\<lparr>po_mem = sample_mem, po_used = (sample_ring ?m)\<lparr>used_ring_idx := last_used_idx (oq_queue rx)\<rparr>, po_packet = sample_taken\<rparr>"
  let ?e = "\<lparr>po_mem = sample_mem, po_used = sample_ring ?m, po_packet = sample_taken\<rparr>"
  have d: "sock_rx (cm_driver ?m) = rx" "sock_guest_cid (cm_driver ?m) = 66" "cm_listening_ports ?m = [4321]" "cm_map ?m = Map.empty"
    by (simp_all add: sample_manager_def VsockConnectionManager_new_def VsockConnectionManager_new_with_capacity_def sample_socket_def cm_map_def conn_map_def)
  note ok = sample_inv [OF rx(2), of "[]"]
  have "SIZE (oq_queue (sock_rx (cm_driver ?m))) = 8" using d(1) rx(3) by simp
  note r = sample_ring_ok [OF this]
  obtain q M sent where sp: "spec_poll 66 (cm_per_connection_buffer_capacity ?m) {4321} (Some (ctrl_packet Request (ConnectionInfo_new \<lparr>cid = 66, port = 4321\<rparr> 1234) 2)) Map.empty = (q, M, sent)"
    by (cases "spec_poll 66 (cm_per_connection_buffer_capacity ?m) {4321} (Some (ctrl_packet Request (ConnectionInfo_new \<lparr>cid = 66, port = 4321\<rparr> 1234) 2)) Map.empty") auto
  with sample_poll_result have q: "q = Inr (Some sample_request)" by blast
  have h: "\<forall>e \<in> set [?idle]. nothing_new ?m e" "length (used_ring (po_used ?e)) = SIZE (oq_queue (sock_rx (cm_driver ?m)))"
    "device_keeps_to_buffers 512 (sock_rx (cm_driver (see_used (po_used ?e) ?m)))" "packet_taken (po_packet ?e) (cm_driver ?m)"
  proof -
    show "\<forall>e \<in> set [?idle]. nothing_new ?m e" using d(1) by (simp add: nothing_new_def)
    show "length (used_ring (po_used ?e)) = SIZE (oq_queue (sock_rx (cm_driver ?m)))" using d(1) rx(3) by (simp add: sample_ring_def)
  qed (use r(1) ok(2) in simp_all)
  have "spec_poll (sock_guest_cid (cm_driver ?m)) (cm_per_connection_buffer_capacity ?m) (set (cm_listening_ports ?m))
      (next_packet (po_mem ?e) (sock_rx (cm_driver (see_used (po_used ?e) ?m)))) (cm_map ?m) = (Inr (Some sample_request), M, sent)"
    using sp q d r(2) by simp
  from vsock_wait_for_event_returns [OF ok(1) h ok(3) this, of "[]"] rx(1) show ?thesis by auto
qed

end
