(* ===== verification/Virtio_Blk.thy ===== *)
theory Virtio_Blk
  imports Device_Common Owning_Queue
begin

text \<open>
  The block device driver (\<^verbatim>\<open>virtio-drivers/src/device/blk.rs\<close>). The device is an argument: \<open>serve d
  request old\<close> is what it does, in state \<open>d\<close>, with the bytes of the request that the driver gives it
  and a data buffer that holds \<open>old\<close>; it yields the data buffer and the status byte after the request,
  and its own new state. \<open>blk_env\<close> has the addresses of the three buffers of a request.
\<close>

section \<open>Requests and answers\<close>

definition blk_QUEUE :: u16 where "blk_QUEUE = 0"
definition blk_QUEUE_SIZE :: u16 where "blk_QUEUE_SIZE = 16"
definition SECTOR_SIZE :: nat where "SECTOR_SIZE = 512"

definition BlkFeature_RO :: u64 where "BlkFeature_RO = push_bit 5 1"
definition BlkFeature_FLUSH :: u64 where "BlkFeature_FLUSH = push_bit 9 1"
definition BlkFeature_RING_INDIRECT_DESC :: u64 where "BlkFeature_RING_INDIRECT_DESC = push_bit 28 1"
definition BlkFeature_RING_EVENT_IDX :: u64 where "BlkFeature_RING_EVENT_IDX = push_bit 29 1"

definition BlkFeature_all :: u64 where
  "BlkFeature_all = foldr (\<lambda>i b. b OR push_bit i 1)
     [0, 1, 2, 4, 5, 6, 7, 9, 10, 11, 12, 13, 14, 15, 16, 24, 27, 28, 29, 30, 32, 33, 34, 35, 36, 37, 38] 0"

definition blk_SUPPORTED_FEATURES :: u64 where
  "blk_SUPPORTED_FEATURES = BlkFeature_RO OR BlkFeature_FLUSH OR BlkFeature_RING_INDIRECT_DESC
     OR BlkFeature_RING_EVENT_IDX OR VERSION_1"

datatype ReqType = In | Out | Flush | GetId | GetLifetime | Discard | WriteZeroes | SecureErase

fun ReqType_discriminant :: "ReqType \<Rightarrow> u32" where
  "ReqType_discriminant In = 0"
| "ReqType_discriminant Out = 1"
| "ReqType_discriminant Flush = 4"
| "ReqType_discriminant GetId = 8"
| "ReqType_discriminant GetLifetime = 10"
| "ReqType_discriminant Discard = 11"
| "ReqType_discriminant WriteZeroes = 13"
| "ReqType_discriminant SecureErase = 14"

record BlkReq =
  req_type :: ReqType
  req_reserved :: u32
  req_sector :: u64

definition BlkReq_default :: BlkReq where
  "BlkReq_default = \<lparr>req_type = In, req_reserved = 0, req_sector = 0\<rparr>"

definition BlkReq_as_bytes :: "BlkReq \<Rightarrow> u8 list" where
  "BlkReq_as_bytes r = to_le 4 (ReqType_discriminant (req_type r)) @ to_le 4 (req_reserved r) @ to_le 8 (req_sector r)"

definition RespStatus_OK :: u8 where "RespStatus_OK = 0"
definition RespStatus_IO_ERR :: u8 where "RespStatus_IO_ERR = 1"
definition RespStatus_UNSUPPORTED :: u8 where "RespStatus_UNSUPPORTED = 2"
definition RespStatus_NOT_READY :: u8 where "RespStatus_NOT_READY = 3"

definition RespStatus_into :: "u8 \<Rightarrow> Error + unit" where
  "RespStatus_into status =
     (if status = RespStatus_OK then Inr ()
      else if status = RespStatus_IO_ERR then Inl IoError
      else if status = RespStatus_UNSUPPORTED then Inl Unsupported
      else if status = RespStatus_NOT_READY then Inl NotReady
      else Inl IoError)"

section \<open>The driver\<close>

record 't VirtIOBlk =
  blk_transport :: 't
  blk_queue :: VirtQueue
  blk_capacity :: u64
  blk_negotiated_features :: u64

record blk_env =
  be_req :: u64
  be_data :: u64
  be_resp :: u64
  be_wait :: wait_env

type_synonym 'd serve = "'d \<Rightarrow> u8 list \<Rightarrow> u8 list \<Rightarrow> (u8 list \<times> u8) \<times> 'd"

definition read_capacity :: "'t Transport \<Rightarrow> 't \<Rightarrow> (Error + u64) option" where
  "read_capacity T t = do {
     r1 \<leftarrow> read_config T t 0;
     (case r1 of
        Inl e \<Rightarrow> Some (Inl e)
      | Inr low \<Rightarrow> do {
          r2 \<leftarrow> read_config T t 4;
          Some (try_bind r2 (\<lambda>high. Inr ((ucast (low :: u32) :: u64) OR push_bit 32 (ucast (high :: u32)))))
        })
   }"

definition VirtIOBlk_new ::
    "'t Transport \<Rightarrow> 'h dma_alloc \<Rightarrow> 'h dma_dealloc \<Rightarrow> (VirtQueueLayout \<Rightarrow> queue_memory) \<Rightarrow>
     ('t \<times> 't \<times> 't) list \<Rightarrow> 't \<Rightarrow> 'h \<Rightarrow> ((Error + 't VirtIOBlk) \<times> 't \<times> 'h) option" where
  "VirtIOBlk_new T dma_alloc dma_dealloc mem gens transport h = do {
     (negotiated_features, t1) \<leftarrow> begin_init T BlkFeature_all transport blk_SUPPORTED_FEATURES;
     c \<leftarrow> read_consistent (map (observe T (read_capacity T)) gens);
     capacity_result \<leftarrow> c;
     (case capacity_result of
        Inl e \<Rightarrow> Some (Inl e, t1, h)
      | Inr cap \<Rightarrow>
          let_queue T dma_alloc dma_dealloc mem (unat blk_QUEUE_SIZE)
            (contains negotiated_features BlkFeature_RING_INDIRECT_DESC) (contains negotiated_features BlkFeature_RING_EVENT_IDX)
            [] blk_QUEUE t1 h (\<lambda>queue t2 h2. do {
              t3 \<leftarrow> finish_init T t2;
              Some (Inr \<lparr>blk_transport = t3, blk_queue = queue, blk_capacity = cap,
                         blk_negotiated_features = negotiated_features\<rparr>, t3, h2)
            }))
   }"

definition VirtIOBlk_readonly :: "'t VirtIOBlk \<Rightarrow> bool" where
  "VirtIOBlk_readonly self = contains (blk_negotiated_features self) BlkFeature_RO"

definition VirtIOBlk_ack_interrupt :: "'t Transport \<Rightarrow> 't VirtIOBlk \<Rightarrow> (u32 \<times> 't VirtIOBlk) option" where
  "VirtIOBlk_ack_interrupt T self = do {
     (status, t) \<leftarrow> ack_interrupt T (blk_transport self);
     Some (status, self\<lparr>blk_transport := t\<rparr>)
   }"

definition VirtIOBlk_enable_interrupts :: "'t VirtIOBlk \<Rightarrow> 't VirtIOBlk" where
  "VirtIOBlk_enable_interrupts self = self\<lparr>blk_queue := set_dev_notify (blk_queue self) True\<rparr>"

definition VirtIOBlk_disable_interrupts :: "'t VirtIOBlk \<Rightarrow> 't VirtIOBlk" where
  "VirtIOBlk_disable_interrupts self = self\<lparr>blk_queue := set_dev_notify (blk_queue self) False\<rparr>"

abbreviation req_slice :: "blk_env \<Rightarrow> BlkReq \<Rightarrow> slice" where
  "req_slice env req \<equiv> \<lparr>sl_ptr = be_req env, sl_len = length (BlkReq_as_bytes req)\<rparr>"

abbreviation data_slice :: "blk_env \<Rightarrow> u8 list \<Rightarrow> slice" where
  "data_slice env data \<equiv> \<lparr>sl_ptr = be_data env, sl_len = length data\<rparr>"

abbreviation resp_slice :: "blk_env \<Rightarrow> slice" where
  "resp_slice env \<equiv> \<lparr>sl_ptr = be_resp env, sl_len = 1\<rparr>"

text \<open>
  The three ways a request is sent and waited for. If the queue refuses it the device does not see it;
  otherwise the result is the status byte the device has written.
\<close>

definition blk_request ::
    "share \<Rightarrow> 't Transport \<Rightarrow> 'd serve \<Rightarrow> blk_env \<Rightarrow> 't VirtIOBlk \<Rightarrow> 'd \<Rightarrow> BlkReq \<Rightarrow> ((Error + unit) \<times> 't VirtIOBlk \<times> 'd) option" where
  "blk_request share T serve env self d request = do {
     (r, q, t) \<leftarrow> queue_request share T (be_wait env) (blk_queue self) (blk_transport self) [req_slice env request] [resp_slice env];
     let self1 = self\<lparr>blk_queue := q, blk_transport := t\<rparr>;
     Some (case r of
         Inl e \<Rightarrow> (Inl e, self1, d)
       | Inr _ \<Rightarrow> (let ((_, status), d1) = serve d (BlkReq_as_bytes request) [] in (RespStatus_into status, self1, d1)))
   }"

definition blk_request_read ::
    "share \<Rightarrow> 't Transport \<Rightarrow> 'd serve \<Rightarrow> blk_env \<Rightarrow> 't VirtIOBlk \<Rightarrow> 'd \<Rightarrow> BlkReq \<Rightarrow> u8 list \<Rightarrow>
     ((Error + unit) \<times> 't VirtIOBlk \<times> 'd \<times> u8 list) option" where
  "blk_request_read share T serve env self d request data = do {
     (r, q, t) \<leftarrow> queue_request share T (be_wait env) (blk_queue self) (blk_transport self)
        [req_slice env request] [data_slice env data, resp_slice env];
     let self1 = self\<lparr>blk_queue := q, blk_transport := t\<rparr>;
     Some (case r of
         Inl e \<Rightarrow> (Inl e, self1, d, data)
       | Inr _ \<Rightarrow> (let ((data1, status), d1) = serve d (BlkReq_as_bytes request) data in (RespStatus_into status, self1, d1, data1)))
   }"

definition blk_request_write ::
    "share \<Rightarrow> 't Transport \<Rightarrow> 'd serve \<Rightarrow> blk_env \<Rightarrow> 't VirtIOBlk \<Rightarrow> 'd \<Rightarrow> BlkReq \<Rightarrow> u8 list \<Rightarrow>
     ((Error + unit) \<times> 't VirtIOBlk \<times> 'd) option" where
  "blk_request_write share T serve env self d request data = do {
     (r, q, t) \<leftarrow> queue_request share T (be_wait env) (blk_queue self) (blk_transport self)
        [req_slice env request, data_slice env data] [resp_slice env];
     let self1 = self\<lparr>blk_queue := q, blk_transport := t\<rparr>;
     Some (case r of
         Inl e \<Rightarrow> (Inl e, self1, d)
       | Inr _ \<Rightarrow> (let ((_, status), d1) = serve d (BlkReq_as_bytes request @ data) [] in (RespStatus_into status, self1, d1)))
   }"

definition VirtIOBlk_flush ::
    "share \<Rightarrow> 't Transport \<Rightarrow> 'd serve \<Rightarrow> blk_env \<Rightarrow> 't VirtIOBlk \<Rightarrow> 'd \<Rightarrow> ((Error + unit) \<times> 't VirtIOBlk \<times> 'd) option" where
  "VirtIOBlk_flush share T serve env self d =
     (if contains (blk_negotiated_features self) BlkFeature_FLUSH
      then blk_request share T serve env self d (BlkReq_default\<lparr>req_type := Flush\<rparr>)
      else Some (Inr (), self, d))"

fun position_zero :: "u8 list \<Rightarrow> nat option" where
  "position_zero [] = None"
| "position_zero (x # xs) = (if x = 0 then Some 0 else map_option Suc (position_zero xs))"

definition VirtIOBlk_device_id ::
    "share \<Rightarrow> 't Transport \<Rightarrow> 'd serve \<Rightarrow> blk_env \<Rightarrow> 't VirtIOBlk \<Rightarrow> 'd \<Rightarrow> u8 list \<Rightarrow>
     ((Error + nat) \<times> 't VirtIOBlk \<times> 'd \<times> u8 list) option" where
  "VirtIOBlk_device_id share T serve env self d id_buf = do {
     (r, self1, d1, id1) \<leftarrow> blk_request_read share T serve env self d (BlkReq_default\<lparr>req_type := GetId\<rparr>) id_buf;
     Some (try_bind r (\<lambda>_. Inr (case position_zero id1 of Some l \<Rightarrow> l | None \<Rightarrow> 20)), self1, d1, id1)
   }"

definition VirtIOBlk_read_blocks ::
    "share \<Rightarrow> 't Transport \<Rightarrow> 'd serve \<Rightarrow> blk_env \<Rightarrow> 't VirtIOBlk \<Rightarrow> 'd \<Rightarrow> u64 \<Rightarrow> u8 list \<Rightarrow>
     ((Error + unit) \<times> 't VirtIOBlk \<times> 'd \<times> u8 list) option" where
  "VirtIOBlk_read_blocks share T serve env self d block_id buf = do {
     rust_assert (length buf \<noteq> 0);
     rust_assert (length buf mod SECTOR_SIZE = 0);
     blk_request_read share T serve env self d \<lparr>req_type = In, req_reserved = 0, req_sector = block_id\<rparr> buf
   }"

definition VirtIOBlk_write_blocks ::
    "share \<Rightarrow> 't Transport \<Rightarrow> 'd serve \<Rightarrow> blk_env \<Rightarrow> 't VirtIOBlk \<Rightarrow> 'd \<Rightarrow> u64 \<Rightarrow> u8 list \<Rightarrow>
     ((Error + unit) \<times> 't VirtIOBlk \<times> 'd) option" where
  "VirtIOBlk_write_blocks share T serve env self d block_id buf = do {
     rust_assert (length buf \<noteq> 0);
     rust_assert (length buf mod SECTOR_SIZE = 0);
     blk_request_write share T serve env self d (BlkReq_default\<lparr>req_type := Out, req_sector := block_id\<rparr>) buf
   }"

text \<open>
  The operations that do not wait. The first half returns the token and the request it wrote into the
  caller's buffer; the second half gets the status byte that is in the response buffer by then.
\<close>

definition blk_submit ::
    "share \<Rightarrow> 't Transport \<Rightarrow> u64 \<Rightarrow> 't VirtIOBlk \<Rightarrow> slice list \<Rightarrow> slice list \<Rightarrow> ((Error + u16) \<times> 't VirtIOBlk) option" where
  "blk_submit share T box_ptr self inputs outputs = do {
     (r, q, calls) \<leftarrow> VirtQueue_add share box_ptr (blk_queue self) inputs outputs;
     (case r of
        Inl e \<Rightarrow> Some (Inl e, self\<lparr>blk_queue := q\<rparr>)
      | Inr token \<Rightarrow> do {
          t \<leftarrow> (if should_notify q then notify T (blk_transport self) blk_QUEUE else Some (blk_transport self));
          Some (Inr token, self\<lparr>blk_queue := q, blk_transport := t\<rparr>)
        })
   }"

definition VirtIOBlk_read_blocks_nb ::
    "share \<Rightarrow> 't Transport \<Rightarrow> blk_env \<Rightarrow> 't VirtIOBlk \<Rightarrow> u64 \<Rightarrow> u8 list \<Rightarrow> ((Error + u16) \<times> 't VirtIOBlk \<times> BlkReq) option" where
  "VirtIOBlk_read_blocks_nb share T env self block_id buf = do {
     rust_assert (length buf \<noteq> 0);
     rust_assert (length buf mod SECTOR_SIZE = 0);
     let req = \<lparr>req_type = In, req_reserved = 0, req_sector = block_id\<rparr>;
     (r, self1) \<leftarrow> blk_submit share T (we_box (be_wait env)) self [req_slice env req] [data_slice env buf, resp_slice env];
     Some (r, self1, req)
   }"

definition VirtIOBlk_write_blocks_nb ::
    "share \<Rightarrow> 't Transport \<Rightarrow> blk_env \<Rightarrow> 't VirtIOBlk \<Rightarrow> u64 \<Rightarrow> u8 list \<Rightarrow> ((Error + u16) \<times> 't VirtIOBlk \<times> BlkReq) option" where
  "VirtIOBlk_write_blocks_nb share T env self block_id buf = do {
     rust_assert (length buf \<noteq> 0);
     rust_assert (length buf mod SECTOR_SIZE = 0);
     let req = \<lparr>req_type = Out, req_reserved = 0, req_sector = block_id\<rparr>;
     (r, self1) \<leftarrow> blk_submit share T (we_box (be_wait env)) self [req_slice env req, data_slice env buf] [resp_slice env];
     Some (r, self1, req)
   }"

definition VirtIOBlk_complete_read_blocks ::
    "blk_env \<Rightarrow> 't VirtIOBlk \<Rightarrow> u16 \<Rightarrow> BlkReq \<Rightarrow> u8 list \<Rightarrow> u8 \<Rightarrow> ((Error + unit) \<times> 't VirtIOBlk) option" where
  "VirtIOBlk_complete_read_blocks env self token req buf status = do {
     (r, q, calls) \<leftarrow> pop_used (blk_queue self) token [req_slice env req] [data_slice env buf, resp_slice env];
     Some (try_bind r (\<lambda>_. RespStatus_into status), self\<lparr>blk_queue := q\<rparr>)
   }"

definition VirtIOBlk_complete_write_blocks ::
    "blk_env \<Rightarrow> 't VirtIOBlk \<Rightarrow> u16 \<Rightarrow> BlkReq \<Rightarrow> u8 list \<Rightarrow> u8 \<Rightarrow> ((Error + unit) \<times> 't VirtIOBlk) option" where
  "VirtIOBlk_complete_write_blocks env self token req buf status = do {
     (r, q, calls) \<leftarrow> pop_used (blk_queue self) token [req_slice env req, data_slice env buf] [resp_slice env];
     Some (try_bind r (\<lambda>_. RespStatus_into status), self\<lparr>blk_queue := q\<rparr>)
   }"

definition VirtIOBlk_peek_used :: "'t VirtIOBlk \<Rightarrow> u16 option option" where
  "VirtIOBlk_peek_used self = peek_used (blk_queue self)"

definition VirtIOBlk_drop :: "'t Transport \<Rightarrow> 't VirtIOBlk \<Rightarrow> 't VirtIOBlk option" where
  "VirtIOBlk_drop T self = do {
     t \<leftarrow> queue_unset T (blk_transport self) blk_QUEUE;
     Some (self\<lparr>blk_transport := t\<rparr>)
   }"

section \<open>Facts\<close>

lemma BlkReq_length [simp]: "length (BlkReq_as_bytes r) = 16"
  by (simp add: BlkReq_as_bytes_def)

definition blk_inv :: "share \<Rightarrow> 't VirtIOBlk \<Rightarrow> bool" where
  "blk_inv share self \<longleftrightarrow> idle share (blk_queue self) \<and> SIZE (blk_queue self) = unat blk_QUEUE_SIZE"

text \<open>Where the queue stands: the index of the next used element and the descriptor the next request gets.\<close>

definition blk_position :: "'t VirtIOBlk \<Rightarrow> u16 \<times> u16" where
  "blk_position self = (last_used_idx (blk_queue self), free_head (blk_queue self))"

definition blk_answered :: "blk_env \<Rightarrow> u16 \<times> u16 \<Rightarrow> bool" where
  "blk_answered env pos \<longleftrightarrow> (\<exists>l. answered_at (we_polls (be_wait env)) (unat blk_QUEUE_SIZE) (fst pos) (snd pos) l)"

definition blk_frame :: "share \<Rightarrow> 't VirtIOBlk \<Rightarrow> 't VirtIOBlk \<Rightarrow> bool" where
  "blk_frame share self self' \<longleftrightarrow> blk_inv share self'
     \<and> blk_position self' = (fst (blk_position self) + 1, snd (blk_position self))
     \<and> blk_capacity self' = blk_capacity self \<and> blk_negotiated_features self' = blk_negotiated_features self"

lemma blk_queue_request:
  assumes "blk_inv share self" "blk_answered env (blk_position self)" "notify_total T"
    and "\<forall>b \<in> set (ins @ outs). 0 < sl_len b \<and> sl_len b < 2 ^ 32" "0 < length ins + length outs" "length ins + length outs \<le> 16"
  shows "\<exists>l q t. queue_request share T (be_wait env) (blk_queue self) (blk_transport self) ins outs = Some (Inr l, q, t)
    \<and> blk_frame share self (self\<lparr>blk_queue := q, blk_transport := t\<rparr>)"
proof -
  have sz: "SIZE (blk_queue self) = 16" using assms(1) by (simp add: blk_inv_def blk_QUEUE_SIZE_def)
  obtain l where "answered (we_polls (be_wait env)) (blk_queue self) l"
    using assms(2) sz by (auto simp: blk_answered_def blk_position_def answered_def blk_QUEUE_SIZE_def)
  with queue_request_ok [OF _ assms(4,5) _ _ assms(3), of share "blk_queue self" "be_wait env" l "blk_transport self"] assms(1,6) sz
  show ?thesis by (fastforce simp: blk_inv_def blk_frame_def blk_position_def blk_QUEUE_SIZE_def)
qed

lemma blk_request_ok:
  assumes "blk_inv share self" "blk_answered env (blk_position self)" "notify_total T"
  shows "\<exists>self'. blk_request share T serve env self d request =
      Some (RespStatus_into (snd (fst (serve d (BlkReq_as_bytes request) []))), self', snd (serve d (BlkReq_as_bytes request) []))
    \<and> blk_frame share self self'"
  using blk_queue_request [OF assms, of "[req_slice env request]" "[resp_slice env]"]
  by (auto simp: blk_request_def Let_def split_beta)

lemma blk_request_read_ok:
  assumes "blk_inv share self" "blk_answered env (blk_position self)" "notify_total T" "0 < length data" "length data < 2 ^ 32"
  shows "\<exists>self'. blk_request_read share T serve env self d request data =
      Some (RespStatus_into (snd (fst (serve d (BlkReq_as_bytes request) data))), self', snd (serve d (BlkReq_as_bytes request) data),
        fst (fst (serve d (BlkReq_as_bytes request) data)))
    \<and> blk_frame share self self'"
  using blk_queue_request [OF assms(1-3), of "[req_slice env request]" "[data_slice env data, resp_slice env]"] assms(4,5)
  by (auto simp: blk_request_read_def Let_def split_beta)

lemma blk_request_write_ok:
  assumes "blk_inv share self" "blk_answered env (blk_position self)" "notify_total T" "0 < length data" "length data < 2 ^ 32"
  shows "\<exists>self'. blk_request_write share T serve env self d request data =
      Some (RespStatus_into (snd (fst (serve d (BlkReq_as_bytes request @ data) []))), self', snd (serve d (BlkReq_as_bytes request @ data) []))
    \<and> blk_frame share self self'"
  using blk_queue_request [OF assms(1-3), of "[req_slice env request, data_slice env data]" "[resp_slice env]"] assms(4,5)
  by (auto simp: blk_request_write_def Let_def split_beta)

text \<open>
  What the VirtIO specification asks of a block device with \<open>n\<close> sectors, for reads and writes inside the
  disk: \<open>bytes d\<close> is what is stored on the disk in state \<open>d\<close>.
\<close>

definition blk_conforming :: "'d serve \<Rightarrow> ('d \<Rightarrow> nat \<Rightarrow> u8) \<Rightarrow> nat \<Rightarrow> bool" where
  "blk_conforming serve bytes n \<longleftrightarrow>
     (\<forall>d s data. length data mod SECTOR_SIZE = 0 \<and> unat s * SECTOR_SIZE + length data \<le> n * SECTOR_SIZE \<longrightarrow>
        snd (fst (serve d (BlkReq_as_bytes \<lparr>req_type = Out, req_reserved = 0, req_sector = s\<rparr> @ data) [])) = RespStatus_OK
        \<and> bytes (snd (serve d (BlkReq_as_bytes \<lparr>req_type = Out, req_reserved = 0, req_sector = s\<rparr> @ data) [])) =
            (\<lambda>i. if unat s * SECTOR_SIZE \<le> i \<and> i < unat s * SECTOR_SIZE + length data then data ! (i - unat s * SECTOR_SIZE) else bytes d i))
     \<and> (\<forall>d s old. length old mod SECTOR_SIZE = 0 \<and> unat s * SECTOR_SIZE + length old \<le> n * SECTOR_SIZE \<longrightarrow>
        fst (serve d (BlkReq_as_bytes \<lparr>req_type = In, req_reserved = 0, req_sector = s\<rparr>) old) =
          (map (bytes d) [unat s * SECTOR_SIZE..<unat s * SECTOR_SIZE + length old], RespStatus_OK)
        \<and> bytes (snd (serve d (BlkReq_as_bytes \<lparr>req_type = In, req_reserved = 0, req_sector = s\<rparr>) old)) = bytes d)"

lemma blk_write_ok:
  assumes "blk_inv share self" "blk_answered env (blk_position self)" "notify_total T" "blk_conforming serve bytes n"
    and data: "0 < length data" "length data < 2 ^ 32" "length data mod SECTOR_SIZE = 0" "unat s * SECTOR_SIZE + length data \<le> n * SECTOR_SIZE"
  shows "\<exists>self' d'. VirtIOBlk_write_blocks share T serve env self d s data = Some (Inr (), self', d') \<and> blk_frame share self self'
    \<and> bytes d' = (\<lambda>i. if unat s * SECTOR_SIZE \<le> i \<and> i < unat s * SECTOR_SIZE + length data then data ! (i - unat s * SECTOR_SIZE) else bytes d i)"
proof -
  let ?r = "\<lparr>req_type = Out, req_reserved = 0, req_sector = s\<rparr>"
  have r: "BlkReq_default\<lparr>req_type := Out, req_sector := s\<rparr> = ?r" by (simp add: BlkReq_default_def)
  obtain self' where "blk_request_write share T serve env self d ?r data =
      Some (RespStatus_into (snd (fst (serve d (BlkReq_as_bytes ?r @ data) []))), self', snd (serve d (BlkReq_as_bytes ?r @ data) []))"
    "blk_frame share self self'"
    using blk_request_write_ok [OF assms(1-3) data(1,2), of serve d ?r] by blast
  moreover have "snd (fst (serve d (BlkReq_as_bytes ?r @ data) [])) = RespStatus_OK"
    "bytes (snd (serve d (BlkReq_as_bytes ?r @ data) [])) =
      (\<lambda>i. if unat s * SECTOR_SIZE \<le> i \<and> i < unat s * SECTOR_SIZE + length data then data ! (i - unat s * SECTOR_SIZE) else bytes d i)"
    using assms(4) data(3,4) by (simp_all add: blk_conforming_def)
  ultimately show ?thesis using data(1,3) by (simp add: VirtIOBlk_write_blocks_def r panic_simps RespStatus_into_def)
qed

lemma blk_read_ok:
  assumes "blk_inv share self" "blk_answered env (blk_position self)" "notify_total T" "blk_conforming serve bytes n"
    and data: "0 < length old" "length old < 2 ^ 32" "length old mod SECTOR_SIZE = 0" "unat s * SECTOR_SIZE + length old \<le> n * SECTOR_SIZE"
  shows "\<exists>self' d'. VirtIOBlk_read_blocks share T serve env self d s old =
      Some (Inr (), self', d', map (bytes d) [unat s * SECTOR_SIZE..<unat s * SECTOR_SIZE + length old])
    \<and> blk_frame share self self' \<and> bytes d' = bytes d"
proof -
  let ?r = "\<lparr>req_type = In, req_reserved = 0, req_sector = s\<rparr>"
  obtain self' where "blk_request_read share T serve env self d ?r old =
      Some (RespStatus_into (snd (fst (serve d (BlkReq_as_bytes ?r) old))), self', snd (serve d (BlkReq_as_bytes ?r) old), fst (fst (serve d (BlkReq_as_bytes ?r) old)))"
    "blk_frame share self self'"
    using blk_request_read_ok [OF assms(1-3) data(1,2), of serve d ?r] by blast
  moreover have "fst (serve d (BlkReq_as_bytes ?r) old) = (map (bytes d) [unat s * SECTOR_SIZE..<unat s * SECTOR_SIZE + length old], RespStatus_OK)"
    "bytes (snd (serve d (BlkReq_as_bytes ?r) old)) = bytes d"
    using assms(4) data(3,4) by (simp_all add: blk_conforming_def)
  ultimately show ?thesis using data(1,3) by (simp add: VirtIOBlk_read_blocks_def panic_simps RespStatus_into_def)
qed

text \<open>A request that is not waited for comes back with its token, whatever else is in flight.\<close>

lemma blk_submit_ok:
  assumes "vq_holds share (blk_queue self) free rs" "\<forall>b \<in> set (ins @ outs). 0 < sl_len b \<and> sl_len b < 2 ^ 32" "0 < length ins + length outs"
    and "length ins + length outs \<le> SIZE (blk_queue self)" "needed (blk_queue self) (length ins + length outs) \<le> length free" "notify_total T"
  shows "\<exists>self'. blk_submit share T p self ins outs = Some (Inr (hd free), self')
    \<and> vq_holds share (blk_queue self') (drop (needed (blk_queue self) (length ins + length outs)) free)
        (rs @ [(take (needed (blk_queue self) (length ins + length outs)) free, ins, outs)])"
proof -
  obtain q calls where q: "VirtQueue_add share p (blk_queue self) ins outs = Some (Inr (hd free), q, calls)"
    "vq_holds share q (drop (needed (blk_queue self) (length ins + length outs)) free)
        (rs @ [(take (needed (blk_queue self) (length ins + length outs)) free, ins, outs)])"
    using vq.add_law [OF assms(1-5)] by blast
  obtain t where "(if should_notify q then notify T (blk_transport self) blk_QUEUE else Some (blk_transport self)) = Some t"
    using notify_totalD [OF assms(6)] by (cases "should_notify q") auto
  with q show ?thesis by (simp add: blk_submit_def)
qed

section \<open>A disk in memory\<close>

text \<open>A device that conforms: its state is what is stored on the disk.\<close>

definition ram_disk :: "(nat \<Rightarrow> u8) serve" where
  "ram_disk d req old =
     (let ty = (from_le (take 4 req) :: u32); base = unat (from_le (take 8 (drop 8 req)) :: u64) * SECTOR_SIZE; data = drop 16 req in
      if ty = 0 then ((map d [base..<base + length old], RespStatus_OK), d)
      else if ty = 1 then (([], RespStatus_OK), \<lambda>i. if base \<le> i \<and> i < base + length data then data ! (i - base) else d i)
      else (([], RespStatus_UNSUPPORTED), d))"

lemma ram_disk_conforming: "blk_conforming ram_disk (\<lambda>d. d) n"
  by (simp add: blk_conforming_def ram_disk_def BlkReq_as_bytes_def Let_def)

definition sample_blk :: "nat VirtIOBlk" where
  "sample_blk = \<lparr>blk_transport = 0, blk_queue = zeroed_queue sample_layout 16 0 False False, blk_capacity = 8, blk_negotiated_features = 0\<rparr>"

definition sample_blk_env :: "u16 \<Rightarrow> blk_env" where
  "sample_blk_env i = \<lparr>be_req = 64, be_data = 4096, be_resp = 128, be_wait = \<lparr>we_box = 0,
     we_polls = [\<lparr>used_flags = 0, used_ring_idx = i + 1, used_ring = replicate 16 \<lparr>elem_id = 0, elem_len = 1\<rparr>, avail_event = 0\<rparr>]\<rparr>\<rparr>"

lemma size_ok_16: "size_ok 16"
  unfolding size_ok_def by (rule exI [of _ 4]) simp

lemma sample_blk_ok:
  "blk_inv sample_share sample_blk" "blk_position sample_blk = (0, 0)" "blk_answered (sample_blk_env i) (i, 0)"
proof -
  show "blk_inv sample_share sample_blk"
    using idle_new [OF zeroed_queue_inv(1) [OF size_ok_16, of sample_share sample_layout 0 False False]]
    by (simp add: blk_inv_def sample_blk_def blk_QUEUE_SIZE_def)
  show "blk_position sample_blk = (0, 0)" by (simp add: blk_position_def sample_blk_def zeroed_queue_def)
  have "unat i mod 16 < 16" by simp
  then have "answered_at (we_polls (be_wait (sample_blk_env i))) 16 i 0 1"
    unfolding answered_at_def by (intro exI [of _ "[]"]) (simp add: sample_blk_env_def)
  then show "blk_answered (sample_blk_env i) (i, 0)" by (auto simp: blk_answered_def blk_QUEUE_SIZE_def)
qed

section \<open>Properties\<close>



text \<open>
  Requests that are not waited for: with enough free descriptors \<^verbatim>\<open>read_blocks_nb\<close> returns the first
  free descriptor as token and gives the device exactly the three buffers of the request; once the
  device reports that token, \<^verbatim>\<open>complete_read_blocks\<close> with the same buffers succeeds, yields the status
  the device wrote, and returns all descriptors of the request to the free list, whatever other
  requests are in flight.
\<close>

theorem blk_nonblocking_read:
  assumes "vq_holds share (blk_queue self) free rs" "length buf mod SECTOR_SIZE = 0" "0 < length buf" "length buf < 2 ^ 32"
    and "3 \<le> SIZE (blk_queue self)" "needed (blk_queue self) 3 \<le> length free" "notify_total T"
  shows "\<exists>self1 req. VirtIOBlk_read_blocks_nb share T env self s buf = Some (Inr (hd free), self1, req)
    \<and> req = \<lparr>req_type = In, req_reserved = 0, req_sector = s\<rparr>
    \<and> vq_holds share (blk_queue self1) (drop (needed (blk_queue self) 3) free)
        (rs @ [(take (needed (blk_queue self) 3) free, [req_slice env req], [data_slice env buf, resp_slice env])])
    \<and> (\<forall>self2 free2 rs2. vq_holds share (blk_queue self2) free2 rs2
        \<and> (take (needed (blk_queue self) 3) free, [req_slice env req], [data_slice env buf, resp_slice env]) \<in> set rs2
        \<and> VirtIOBlk_peek_used self2 = Some (Some (hd free)) \<longrightarrow>
        (\<exists>self3. VirtIOBlk_complete_read_blocks env self2 (hd free) req buf status = Some (RespStatus_into status, self3)
          \<and> vq_holds share (blk_queue self3) (take (needed (blk_queue self) 3) free @ free2)
              (remove1 (take (needed (blk_queue self) 3) free, [req_slice env req], [data_slice env buf, resp_slice env]) rs2)))"
proof -
  let ?req = "\<lparr>req_type = In, req_reserved = 0, req_sector = s\<rparr>" and ?c = "take (needed (blk_queue self) 3) free"
  let ?ins = "[req_slice env ?req]" and ?outs = "[data_slice env buf, resp_slice env]"
  have b: "\<forall>b \<in> set (?ins @ ?outs). 0 < sl_len b \<and> sl_len b < 2 ^ 32" using assms(3,4) by simp
  have l: "length ?ins + length ?outs = 3" by simp
  obtain self1 where s1: "blk_submit share T (we_box (be_wait env)) self ?ins ?outs = Some (Inr (hd free), self1)"
    "vq_holds share (blk_queue self1) (drop (needed (blk_queue self) 3) free) (rs @ [(?c, ?ins, ?outs)])"
    using blk_submit_ok [OF assms(1) b] assms(5-7) unfolding l by auto
  have "0 < needed (blk_queue self) 3" by (simp add: needed_def)
  then have h: "hd ?c = hd free" by (simp add: hd_take)
  have "\<exists>self3. VirtIOBlk_complete_read_blocks env self2 (hd free) ?req buf status = Some (RespStatus_into status, self3)
      \<and> vq_holds share (blk_queue self3) (?c @ free2) (remove1 (?c, ?ins, ?outs) rs2)"
    if a: "vq_holds share (blk_queue self2) free2 rs2" "(?c, ?ins, ?outs) \<in> set rs2" "VirtIOBlk_peek_used self2 = Some (Some (hd free))" for self2 free2 rs2
  proof -
    have "peek_used (blk_queue self2) = Some (Some (hd ?c))" using a(3) h by (simp add: VirtIOBlk_peek_used_def)
    from vq.pop_law [OF a(1,2) this] h show ?thesis by (auto simp: VirtIOBlk_complete_read_blocks_def)
  qed
  moreover have "VirtIOBlk_read_blocks_nb share T env self s buf = Some (Inr (hd free), self1, ?req)"
    using s1(1) assms(2,3) by (simp add: VirtIOBlk_read_blocks_nb_def panic_simps)
  ultimately show ?thesis using s1(2) by blast
qed

theorem blk_nonblocking_read_witness:
  "\<exists>self1 req. VirtIOBlk_read_blocks_nb sample_share sample_transport_impl (sample_blk_env 0) sample_blk 5 (replicate 512 0) = Some (Inr 0, self1, req)
     \<and> req_sector req = 5"
proof -
  have n: "notify_total sample_transport_impl" by (simp add: notify_total_def sample_transport_impl_def)
  have h: "vq_holds sample_share (blk_queue sample_blk) (a_free (abs_new 16)) []"
    using zeroed_queue_inv(1) [OF size_ok_16, of sample_share sample_layout 0 False False]
    by (simp add: vq_holds_def sample_blk_def abs_new_def)
  have "needed (blk_queue sample_blk) 3 \<le> length (a_free (abs_new 16))" "3 \<le> SIZE (blk_queue sample_blk)"
    by (simp_all add: needed_def sample_blk_def)
  note q = this
  have l: "length (replicate 512 (0 :: u8)) mod SECTOR_SIZE = 0" "0 < length (replicate 512 (0 :: u8))" "length (replicate 512 (0 :: u8)) < 2 ^ 32"
    by (simp_all add: SECTOR_SIZE_def)
  obtain self1 req where "VirtIOBlk_read_blocks_nb sample_share sample_transport_impl (sample_blk_env 0) sample_blk 5 (replicate 512 0) =
      Some (Inr (hd (a_free (abs_new 16))), self1, req)" "req = \<lparr>req_type = In, req_reserved = 0, req_sector = 5\<rparr>"
    using blk_nonblocking_read [OF h l q(2,1) n, of "sample_blk_env 0" 5] by blast
  then show ?thesis by simp
qed

end
