(* ===== verification/Virtio_Rng.thy ===== *)
theory Virtio_Rng
  imports Device_Common Vsock_Protocol
begin

text \<open>
  The random number generator driver (\<^verbatim>\<open>virtio-drivers/src/device/rng.rs\<close>) and the feature bits that all
  devices have (\<^verbatim>\<open>device/common.rs\<close>).
\<close>

definition Feature_all :: u64 where
  "Feature_all = foldr (\<lambda>i b. b OR push_bit i 1) [24, 27, 28, 29, 30, 32, 33, 34, 35, 36, 37, 38] 0"

definition common_SUPPORTED_FEATURES :: u64 where
  "common_SUPPORTED_FEATURES = RING_INDIRECT_DESC OR RING_EVENT_IDX OR VERSION_1"

definition rng_QUEUE_IDX :: u16 where "rng_QUEUE_IDX = 0"
definition rng_QUEUE_SIZE :: nat where "rng_QUEUE_SIZE = 8"

record 't VirtIORng =
  rng_transport :: 't
  rng_queue :: VirtQueue

definition VirtIORng_new ::
    "'t Transport \<Rightarrow> 'h dma_alloc \<Rightarrow> 'h dma_dealloc \<Rightarrow> (VirtQueueLayout \<Rightarrow> queue_memory) \<Rightarrow> 't \<Rightarrow> 'h \<Rightarrow>
     ((Error + 't VirtIORng) \<times> 't \<times> 'h) option" where
  "VirtIORng_new T dma_alloc dma_dealloc mem transport h = do {
     (feat, t1) \<leftarrow> begin_init T Feature_all transport common_SUPPORTED_FEATURES;
     let_queue T dma_alloc dma_dealloc mem rng_QUEUE_SIZE (contains feat RING_INDIRECT_DESC) (contains feat RING_EVENT_IDX)
       [] rng_QUEUE_IDX t1 h (\<lambda>queue t2 h2. do {
         t3 \<leftarrow> finish_init T t2;
         Some (Inr \<lparr>rng_transport = t3, rng_queue = queue\<rparr>, t3, h2)
       })
   }"

text \<open>
  \<open>entropy\<close> is what the device puts into a buffer of the given length: the bytes of the buffer and how
  many of them it reports as written.
\<close>

definition VirtIORng_request_entropy ::
    "share \<Rightarrow> 't Transport \<Rightarrow> wait_env \<Rightarrow> (nat \<Rightarrow> u8 list) \<Rightarrow> u64 \<Rightarrow> 't VirtIORng \<Rightarrow> u8 list \<Rightarrow>
     ((Error + nat) \<times> 't VirtIORng \<times> u8 list) option" where
  "VirtIORng_request_entropy share T env entropy dst_ptr self dst = do {
     (r, q, t) \<leftarrow> queue_request share T env (rng_queue self) (rng_transport self) [] [\<lparr>sl_ptr = dst_ptr, sl_len = length dst\<rparr>];
     let self1 = self\<lparr>rng_queue := q, rng_transport := t\<rparr>;
     Some (case r of
         Inl e \<Rightarrow> (Inl e, self1, dst)
       | Inr num \<Rightarrow> (Inr (unat num), self1, entropy (length dst)))
   }"

definition VirtIORng_enable_interrupts :: "'t VirtIORng \<Rightarrow> 't VirtIORng" where
  "VirtIORng_enable_interrupts self = self\<lparr>rng_queue := set_dev_notify (rng_queue self) True\<rparr>"

definition VirtIORng_disable_interrupts :: "'t VirtIORng \<Rightarrow> 't VirtIORng" where
  "VirtIORng_disable_interrupts self = self\<lparr>rng_queue := set_dev_notify (rng_queue self) False\<rparr>"

definition VirtIORng_ack_interrupt :: "'t Transport \<Rightarrow> 't VirtIORng \<Rightarrow> (u32 \<times> 't VirtIORng) option" where
  "VirtIORng_ack_interrupt T self = do {
     (status, t) \<leftarrow> ack_interrupt T (rng_transport self);
     Some (status, self\<lparr>rng_transport := t\<rparr>)
   }"

definition VirtIORng_drop :: "'t Transport \<Rightarrow> 't VirtIORng \<Rightarrow> 't VirtIORng option" where
  "VirtIORng_drop T self = do {
     t \<leftarrow> queue_unset T (rng_transport self) rng_QUEUE_IDX;
     Some (self\<lparr>rng_transport := t\<rparr>)
   }"

text \<open>A request for a buffer that is not empty yields the count the device reports, and the queue is idle again.\<close>

lemma VirtIORng_request_entropy_ok:
  assumes "idle share (rng_queue self)" "0 < length dst" "length dst < 2 ^ 32" "1 \<le> SIZE (rng_queue self)"
    and "answered (we_polls env) (rng_queue self) l" "notify_total T"
  shows "\<exists>self'. VirtIORng_request_entropy share T env entropy p self dst = Some (Inr (unat l), self', entropy (length dst))
    \<and> idle share (rng_queue self') \<and> SIZE (rng_queue self') = SIZE (rng_queue self)"
  using queue_request_ok [OF assms(1), of "[]" "[\<lparr>sl_ptr = p, sl_len = length dst\<rparr>]" env l T "rng_transport self"] assms(2-6)
  by (auto simp: VirtIORng_request_entropy_def)



end
