(* ===== verification/Virtio_Input.thy ===== *)
theory Virtio_Input
  imports Virtio_Rng Owning_Queue
begin

text \<open>
  The input device driver (\<^verbatim>\<open>virtio-drivers/src/device/input.rs\<close>): a queue whose 32 event buffers are
  always with the device, and queries of the configuration space. \<open>event_buf\<close> is the address of the
  array of events; an event has 8 bytes.
\<close>

section \<open>Events\<close>

definition QUEUE_EVENT :: u16 where "QUEUE_EVENT = 0"
definition QUEUE_STATUS :: u16 where "QUEUE_STATUS = 1"
definition input_QUEUE_SIZE :: nat where "input_QUEUE_SIZE = 32"
definition CONFIG_DATA_MAX_LENGTH :: nat where "CONFIG_DATA_MAX_LENGTH = 128"
definition size_of_InputEvent :: nat where "size_of_InputEvent = 8"

record InputEvent =
  event_type :: u16
  event_code :: u16
  event_value :: u32

definition InputEvent_from_bytes :: "u8 list \<Rightarrow> InputEvent" where
  "InputEvent_from_bytes bs = \<lparr>event_type = from_le (take 2 bs), event_code = from_le (take 2 (drop 2 bs)),
     event_value = from_le (take 4 (drop 4 bs))\<rparr>"

record 't VirtIOInput =
  in_transport :: 't
  in_event_queue :: VirtQueue
  in_status_queue :: VirtQueue
  in_event_buf :: u64

definition event_ptr :: "u64 \<Rightarrow> nat \<Rightarrow> u64" where
  "event_ptr event_buf i = event_buf + of_nat (i * size_of_InputEvent)"

definition event_ptrs :: "u64 \<Rightarrow> u64 list" where
  "event_ptrs event_buf = map (event_ptr event_buf) [0..<input_QUEUE_SIZE]"

definition VirtIOInput_new ::
    "share \<Rightarrow> 't Transport \<Rightarrow> 'h dma_alloc \<Rightarrow> 'h dma_dealloc \<Rightarrow> (VirtQueueLayout \<Rightarrow> queue_memory) \<Rightarrow> u64 \<Rightarrow> 't \<Rightarrow> 'h \<Rightarrow>
     ((Error + 't VirtIOInput) \<times> 't \<times> 'h) option" where
  "VirtIOInput_new share T dma_alloc dma_dealloc mem event_buf transport h = do {
     (negotiated_features, t1) \<leftarrow> begin_init T Feature_all transport common_SUPPORTED_FEATURES;
     let new_queue = let_queue T dma_alloc dma_dealloc mem input_QUEUE_SIZE
       (contains negotiated_features RING_INDIRECT_DESC) (contains negotiated_features RING_EVENT_IDX);
     new_queue [] QUEUE_EVENT t1 h (\<lambda>event_queue t2 h2.
     new_queue [event_queue] QUEUE_STATUS t2 h2 (\<lambda>status_queue t3 h3. do {
       r \<leftarrow> OwningQueue_fill share size_of_InputEvent 0 (event_ptrs event_buf) event_queue;
       (case r of
          Inl e \<Rightarrow> return_error dma_dealloc [status_queue, event_queue] e t3 h3
        | Inr event_queue1 \<Rightarrow> do {
            t4 \<leftarrow> (if should_notify event_queue1 then notify T t3 QUEUE_EVENT else Some t3);
            t5 \<leftarrow> finish_init T t4;
            Some (Inr \<lparr>in_transport = t5, in_event_queue = event_queue1, in_status_queue = status_queue,
                       in_event_buf = event_buf\<rparr>, t5, h3)
          })
     }))
   }"

definition VirtIOInput_ack_interrupt :: "'t Transport \<Rightarrow> 't VirtIOInput \<Rightarrow> (u32 \<times> 't VirtIOInput) option" where
  "VirtIOInput_ack_interrupt T self = do {
     (status, t) \<leftarrow> ack_interrupt T (in_transport self);
     Some (status, self\<lparr>in_transport := t\<rparr>)
   }"

definition pop_pending_event ::
    "share \<Rightarrow> 't Transport \<Rightarrow> (u64 \<Rightarrow> nat \<Rightarrow> u8 list) \<Rightarrow> 't VirtIOInput \<Rightarrow> (InputEvent option \<times> 't VirtIOInput) option" where
  "pop_pending_event share T mem self = do {
     t \<leftarrow> peek_used (in_event_queue self);
     (case t of
        None \<Rightarrow> Some (None, self)
      | Some token \<Rightarrow> do {
          event \<leftarrow> idx (event_ptrs (in_event_buf self)) (unat token);
          (r, q1, calls1) \<leftarrow> pop_used (in_event_queue self) token [] [oq_slice size_of_InputEvent event];
          (case r of
             Inl e \<Rightarrow> Some (None, self\<lparr>in_event_queue := q1\<rparr>)
           | Inr _ \<Rightarrow> do {
               let event_saved = InputEvent_from_bytes (mem event size_of_InputEvent);
               (r2, q2, calls2) \<leftarrow> VirtQueue_add share 0 q1 [] [oq_slice size_of_InputEvent event];
               (case r2 of
                  Inl e \<Rightarrow> Some (None, self\<lparr>in_event_queue := q2\<rparr>)
                | Inr new_token \<Rightarrow> do {
                    rust_assert (new_token = token);
                    t1 \<leftarrow> (if should_notify q2 then notify T (in_transport self) QUEUE_EVENT else Some (in_transport self));
                    Some (Some event_saved, self\<lparr>in_event_queue := q2, in_transport := t1\<rparr>)
                  })
             })
        })
   }"

section \<open>The configuration space\<close>

datatype InputConfigSelect = IdName | IdSerial | IdDevids | PropBits | EvBits | SelAbsInfo

fun InputConfigSelect_discriminant :: "InputConfigSelect \<Rightarrow> u8" where
  "InputConfigSelect_discriminant IdName = 0x01"
| "InputConfigSelect_discriminant IdSerial = 0x02"
| "InputConfigSelect_discriminant IdDevids = 0x03"
| "InputConfigSelect_discriminant PropBits = 0x10"
| "InputConfigSelect_discriminant EvBits = 0x11"
| "InputConfigSelect_discriminant SelAbsInfo = 0x12"

text \<open>The offsets of the fields of \<^verbatim>\<open>Config\<close>.\<close>

definition cfg_select :: nat where "cfg_select = 0"
definition cfg_subsel :: nat where "cfg_subsel = 1"
definition cfg_size :: nat where "cfg_size = 2"
definition cfg_data :: nat where "cfg_data = 8"

text \<open>The loops that read \<open>n\<close> bytes of \<^verbatim>\<open>data\<close>, from byte \<open>i\<close> on.\<close>

fun read_data :: "'t Transport \<Rightarrow> 't \<Rightarrow> nat \<Rightarrow> nat \<Rightarrow> (Error + u8 list) option" where
  "read_data T t i 0 = Some (Inr [])"
| "read_data T t i (Suc n) = do {
     r \<leftarrow> read_config T t (cfg_data + i);
     (case r of
        Inl e \<Rightarrow> Some (Inl e)
      | Inr b \<Rightarrow> do {
          rest \<leftarrow> read_data T t (Suc i) n;
          Some (try_bind rest (\<lambda>bs. Inr (b # bs)))
        })
   }"

text \<open>Writing the selectors and reading the size, then \<open>k\<close>.\<close>

definition select_config ::
    "'t Transport \<Rightarrow> 't VirtIOInput \<Rightarrow> InputConfigSelect \<Rightarrow> u8 \<Rightarrow> ('t \<Rightarrow> u8 \<Rightarrow> (Error + 'r) option) \<Rightarrow>
     ((Error + 'r) \<times> 't VirtIOInput) option" where
  "select_config T self select subsel k = do {
     (r1, t1) \<leftarrow> write_config T (in_transport self) cfg_select (InputConfigSelect_discriminant select);
     (case r1 of
        Inl e \<Rightarrow> Some (Inl e, self\<lparr>in_transport := t1\<rparr>)
      | Inr _ \<Rightarrow> do {
          (r2, t2) \<leftarrow> write_config T t1 cfg_subsel subsel;
          (case r2 of
             Inl e \<Rightarrow> Some (Inl e, self\<lparr>in_transport := t2\<rparr>)
           | Inr _ \<Rightarrow> do {
               r3 \<leftarrow> read_config T t2 cfg_size;
               (case r3 of
                  Inl e \<Rightarrow> Some (Inl e, self\<lparr>in_transport := t2\<rparr>)
                | Inr sz \<Rightarrow> do { r \<leftarrow> k t2 sz; Some (r, self\<lparr>in_transport := t2\<rparr>) })
             })
        })
   }"

text \<open>\<^verbatim>\<open>query_config_select\<close> yields the size and the new contents of \<open>out\<close>.\<close>

definition query_config_select ::
    "'t Transport \<Rightarrow> 't VirtIOInput \<Rightarrow> InputConfigSelect \<Rightarrow> u8 \<Rightarrow> u8 list \<Rightarrow> ((Error + (u8 \<times> u8 list)) \<times> 't VirtIOInput) option" where
  "query_config_select T self select subsel out =
     select_config T self select subsel (\<lambda>t sz. do {
       let size_to_copy = min (unat sz) (length out);
       r \<leftarrow> read_data T t 0 size_to_copy;
       Some (try_bind r (\<lambda>bs. Inr (sz, bs @ drop size_to_copy out)))
     })"

definition query_config_select_alloc ::
    "'t Transport \<Rightarrow> 't VirtIOInput \<Rightarrow> InputConfigSelect \<Rightarrow> u8 \<Rightarrow> ((Error + u8 list) \<times> 't VirtIOInput) option" where
  "query_config_select_alloc T self select subsel =
     select_config T self select subsel (\<lambda>t sz.
       if unat sz > CONFIG_DATA_MAX_LENGTH then Some (Inl IoError) else read_data T t 0 (unat sz))"

definition query_config_string ::
    "'t Transport \<Rightarrow> 't VirtIOInput \<Rightarrow> InputConfigSelect \<Rightarrow> u8 \<Rightarrow> ((Error + u8 list) \<times> 't VirtIOInput) option" where
  "query_config_string T self select subsel = do {
     (r, self1) \<leftarrow> query_config_select_alloc T self select subsel;
     Some (try_bind r (\<lambda>bs. if utf8_valid bs then Inr bs else Inl IoError), self1)
   }"

definition VirtIOInput_name :: "'t Transport \<Rightarrow> 't VirtIOInput \<Rightarrow> ((Error + u8 list) \<times> 't VirtIOInput) option" where
  "VirtIOInput_name T self = query_config_string T self IdName 0"

definition VirtIOInput_serial_number :: "'t Transport \<Rightarrow> 't VirtIOInput \<Rightarrow> ((Error + u8 list) \<times> 't VirtIOInput) option" where
  "VirtIOInput_serial_number T self = query_config_string T self IdSerial 0"

record DevIDs =
  bustype :: u16
  vendor :: u16
  product :: u16
  version :: u16

definition DevIDs_from_bytes :: "u8 list \<Rightarrow> DevIDs" where
  "DevIDs_from_bytes bs = \<lparr>bustype = from_le (take 2 bs), vendor = from_le (take 2 (drop 2 bs)),
     product = from_le (take 2 (drop 4 bs)), version = from_le (take 2 (drop 6 bs))\<rparr>"

definition VirtIOInput_ids :: "'t Transport \<Rightarrow> 't VirtIOInput \<Rightarrow> ((Error + DevIDs) \<times> 't VirtIOInput) option" where
  "VirtIOInput_ids T self = do {
     (r, self1) \<leftarrow> query_config_select T self IdDevids 0 (replicate 8 0);
     Some (try_bind r (\<lambda>(sz, bs). if unat sz = 8 then Inr (DevIDs_from_bytes bs) else Inl IoError), self1)
   }"

definition VirtIOInput_prop_bits :: "'t Transport \<Rightarrow> 't VirtIOInput \<Rightarrow> ((Error + u8 list) \<times> 't VirtIOInput) option" where
  "VirtIOInput_prop_bits T self = query_config_select_alloc T self PropBits 0"

definition VirtIOInput_ev_bits :: "'t Transport \<Rightarrow> 't VirtIOInput \<Rightarrow> u8 \<Rightarrow> ((Error + u8 list) \<times> 't VirtIOInput) option" where
  "VirtIOInput_ev_bits T self ty = query_config_select_alloc T self EvBits ty"

record AbsInfo =
  abs_min :: u32
  abs_max :: u32
  abs_fuzz :: u32
  abs_flat :: u32
  abs_res :: u32

definition AbsInfo_from_bytes :: "u8 list \<Rightarrow> AbsInfo" where
  "AbsInfo_from_bytes bs = \<lparr>abs_min = from_le (take 4 bs), abs_max = from_le (take 4 (drop 4 bs)), abs_fuzz = from_le (take 4 (drop 8 bs)),
     abs_flat = from_le (take 4 (drop 12 bs)), abs_res = from_le (take 4 (drop 16 bs))\<rparr>"

definition VirtIOInput_abs_info :: "'t Transport \<Rightarrow> 't VirtIOInput \<Rightarrow> u8 \<Rightarrow> ((Error + AbsInfo) \<times> 't VirtIOInput) option" where
  "VirtIOInput_abs_info T self axis = do {
     (r, self1) \<leftarrow> query_config_select T self SelAbsInfo axis (replicate 20 0);
     Some (try_bind r (\<lambda>(sz, bs). if unat sz = 20 then Inr (AbsInfo_from_bytes bs) else Inl IoError), self1)
   }"

definition VirtIOInput_drop :: "'t Transport \<Rightarrow> 't VirtIOInput \<Rightarrow> 't VirtIOInput option" where
  "VirtIOInput_drop T self = do {
     t1 \<leftarrow> queue_unset T (in_transport self) QUEUE_EVENT;
     t2 \<leftarrow> queue_unset T t1 QUEUE_STATUS;
     Some (self\<lparr>in_transport := t2\<rparr>)
   }"

section \<open>Facts\<close>

definition input_queue :: "'t VirtIOInput \<Rightarrow> OwningQueue" where
  "input_queue self = \<lparr>oq_queue = in_event_queue self, oq_buffers = event_ptrs (in_event_buf self)\<rparr>"

definition input_inv :: "share \<Rightarrow> 't VirtIOInput \<Rightarrow> bool" where
  "input_inv share self \<longleftrightarrow> oq_inv share size_of_InputEvent (input_queue self)"

lemma event_ptrs_length [simp]: "length (event_ptrs p) = input_QUEUE_SIZE"
  by (simp add: event_ptrs_def)

lemma input_fill_ok:
  assumes "vq_inv share q (abs_new input_QUEUE_SIZE)" "SIZE q = input_QUEUE_SIZE"
  shows "\<exists>q'. OwningQueue_fill share size_of_InputEvent 0 (event_ptrs p) q = Some (Inr q')
    \<and> oq_inv share size_of_InputEvent \<lparr>oq_queue = q', oq_buffers = event_ptrs p\<rparr>"
proof -
  have h: "vq_holds share q (map of_nat [0..<0 + length (event_ptrs p)]) []"
    using assms(1) by (simp add: vq_holds_def abs_new_def)
  have b: "SIZE q \<le> 32768" "0 < size_of_InputEvent" "size_of_InputEvent < 2 ^ 32"
    using assms(2) by (simp_all add: input_QUEUE_SIZE_def size_of_InputEvent_def)
  obtain q' where "OwningQueue_fill share size_of_InputEvent 0 (event_ptrs p) q = Some (Inr q')" "SIZE q' = SIZE q"
    "vq_holds share q' [] (oq_requests size_of_InputEvent (event_ptrs p))"
    using OwningQueue_fill_ok [OF h b(2,3)] assms(2) b(1) by (auto simp: oq_requests_def)
  with assms(2) show ?thesis by (auto simp: oq_inv_def)
qed

lemma pop_pending_event_ok:
  assumes inv: "input_inv share self" and n: "notify_total T"
    and peek: "peek_used (in_event_queue self) = Some (Some token)" and tok: "unat token < input_QUEUE_SIZE"
  shows "\<exists>self'. pop_pending_event share T mem self =
      Some (Some (InputEvent_from_bytes (mem (event_ptr (in_event_buf self) (unat token)) size_of_InputEvent)), self')
    \<and> input_inv share self' \<and> in_event_buf self' = in_event_buf self"
proof -
  have e: "event_ptrs (in_event_buf self) ! unat token = event_ptr (in_event_buf self) (unat token)"
    using tok by (simp add: event_ptrs_def)
  obtain q1 c1 q2 c2 where S: "pop_used (in_event_queue self) token [] [oq_slice size_of_InputEvent (event_ptr (in_event_buf self) (unat token))] =
      Some (Inr (next_used_len (in_event_queue self)), q1, c1)"
    "VirtQueue_add share 0 q1 [] [oq_slice size_of_InputEvent (event_ptr (in_event_buf self) (unat token))] = Some (Inr token, q2, c2)"
    "oq_inv share size_of_InputEvent ((input_queue self)\<lparr>oq_queue := q2\<rparr>)"
    using oq_recycle [OF inv [unfolded input_inv_def], of token] peek tok e by (auto simp: input_queue_def size_of_InputEvent_def)
  obtain t where "(if should_notify q2 then notify T (in_transport self) QUEUE_EVENT else Some (in_transport self)) = Some t"
    using notify_totalD [OF n] by (cases "should_notify q2") auto
  with S peek tok e show ?thesis
    by (simp add: pop_pending_event_def panic_simps input_inv_def input_queue_def)
qed

lemma read_data_length: "read_data T t i n = Some (Inr bs) \<Longrightarrow> length bs = n"
  by (induction n arbitrary: i bs) (auto simp: bind_eq_Some_conv case_result_eq_Some try_bind_eq_Inr)

lemma select_config_Inr:
  assumes "select_config T self select subsel k = Some (Inr r, self')"
  shows "\<exists>t sz. k t sz = Some (Inr r)"
  using assms by (auto simp: select_config_def bind_eq_Some_conv case_result_eq_Some)

lemma query_config_select_Inr:
  assumes "query_config_select T self select subsel out = Some (Inr (sz, out'), self')"
  shows "\<exists>bs. length bs = min (unat sz) (length out) \<and> out' = bs @ drop (min (unat sz) (length out)) out"
proof -
  obtain t sz' where "(let n = min (unat sz') (length out) in read_data T t 0 n \<bind> (\<lambda>r. Some (try_bind r (\<lambda>bs. Inr (sz', bs @ drop n out)))))
      = Some (Inr (sz, out'))" using select_config_Inr [OF assms [unfolded query_config_select_def]] by blast
  then obtain bs where "read_data T t 0 (min (unat sz) (length out)) = Some (Inr bs)" "out' = bs @ drop (min (unat sz) (length out)) out"
    by (auto simp: Let_def bind_eq_Some_conv try_bind_eq_Inr)
  with read_data_length [OF this(1)] show ?thesis by blast
qed

lemma query_config_select_alloc_Inr:
  assumes "query_config_select_alloc T self select subsel = Some (Inr bs, self')"
  shows "length bs \<le> CONFIG_DATA_MAX_LENGTH"
proof -
  obtain t sz where "(if unat (sz :: u8) > CONFIG_DATA_MAX_LENGTH then Some (Inl IoError) else read_data T t 0 (unat sz)) = Some (Inr bs)"
    using select_config_Inr [OF assms [unfolded query_config_select_alloc_def]] by blast
  then show ?thesis using read_data_length [of T t 0 "unat sz" bs] by (auto split: if_splits)
qed

section \<open>A sample device\<close>

lemma size_ok_32: "size_ok 32"
  unfolding size_ok_def by (rule exI [of _ 5]) simp

text \<open>A driver whose queue was filled by the loop of \<^verbatim>\<open>new\<close>, after the device has returned event 9.\<close>

definition sample_input :: "VirtQueue \<Rightarrow> nat VirtIOInput" where
  "sample_input q = \<lparr>in_transport = 0, in_event_queue = q\<lparr>used := \<lparr>used_flags = 0, used_ring_idx = last_used_idx q + 1,
       used_ring = replicate 32 \<lparr>elem_id = 9, elem_len = 8\<rparr>, avail_event = 0\<rparr>\<rparr>,
     in_status_queue = zeroed_queue sample_layout 32 1 False False, in_event_buf = 4096\<rparr>"

lemma sample_input_ok:
  "\<exists>q. OwningQueue_fill sample_share size_of_InputEvent 0 (event_ptrs 4096) (zeroed_queue sample_layout 32 0 False False) = Some (Inr q)
    \<and> input_inv sample_share (sample_input q) \<and> peek_used (in_event_queue (sample_input q)) = Some (Some 9)"
proof -
  obtain q where q: "OwningQueue_fill sample_share size_of_InputEvent 0 (event_ptrs 4096) (zeroed_queue sample_layout 32 0 False False) = Some (Inr q)"
    "oq_inv sample_share size_of_InputEvent \<lparr>oq_queue = q, oq_buffers = event_ptrs 4096\<rparr>"
    using input_fill_ok [of sample_share "zeroed_queue sample_layout 32 0 False False" 4096]
      zeroed_queue_inv(1) [OF size_ok_32, of sample_share sample_layout 0 False False] by (auto simp: input_QUEUE_SIZE_def)
  have sz: "SIZE q = 32" using q(2) by (simp add: oq_inv_def input_QUEUE_SIZE_def)
  obtain rs where rs: "vq_holds sample_share q [] rs" "mset rs = mset (oq_requests size_of_InputEvent (event_ptrs 4096))"
    using q(2) by (auto simp: oq_inv_def)
  have "vq_holds sample_share (in_event_queue (sample_input q)) [] rs"
    using rs(1) sz unfolding vq_holds_def sample_input_def by (auto intro: vq_inv_used)
  then have "input_inv sample_share (sample_input q)"
    using rs(2) sz by (auto simp: input_inv_def oq_inv_def input_queue_def sample_input_def input_QUEUE_SIZE_def)
  moreover have "slot (in_event_queue (sample_input q)) (last_used_idx q) < 32"
    using slot_bound [of "in_event_queue (sample_input q)"] sz size_ok_32 by (simp add: sample_input_def)
  then have "peek_used (in_event_queue (sample_input q)) = Some (Some 9)"
    by (simp add: peek_used_def can_pop_def panic_simps sample_input_def)
  ultimately show ?thesis using q(1) by blast
qed

section \<open>Properties\<close>

text \<open>
  Input events: when the device reports an event buffer, \<^verbatim>\<open>pop_pending_event\<close> returns the event in it,
  the assertion on the token of the buffer that is added again holds, and all 32 buffers are with the
  device afterwards; without a report it returns \<^verbatim>\<open>None\<close> and changes nothing.
\<close>

theorem input_event_recycled:
  assumes "input_inv share self" "notify_total T"
    and "\<And>token. peek_used (in_event_queue self) = Some (Some token) \<Longrightarrow> unat token < input_QUEUE_SIZE"
  shows "\<exists>r self'. pop_pending_event share T mem self = Some (r, self') \<and> input_inv share self' \<and> in_event_buf self' = in_event_buf self
    \<and> (if can_pop (in_event_queue self)
       then \<exists>token. peek_used (in_event_queue self) = Some (Some token)
         \<and> r = Some (InputEvent_from_bytes (mem (event_ptr (in_event_buf self) (unat token)) size_of_InputEvent))
       else r = None \<and> self' = self)"
proof (cases "can_pop (in_event_queue self)")
  case True
  obtain t where "peek_used (in_event_queue self) = Some t"
    using peek_used_total [OF assms(1) [unfolded input_inv_def]] by (auto simp: input_queue_def)
  then obtain token where "peek_used (in_event_queue self) = Some (Some token)"
    using True by (cases t) (auto simp: peek_used_def idx_def split: if_splits)
  with pop_pending_event_ok [OF assms(1,2) this assms(3) [OF this]] True show ?thesis by auto
next
  case False
  then have "pop_pending_event share T mem self = Some (None, self)" by (simp add: pop_pending_event_def peek_used_def)
  with False assms(1) show ?thesis by auto
qed

theorem input_event_recycled_witness:
  "\<exists>q self'. OwningQueue_fill sample_share size_of_InputEvent 0 (event_ptrs 4096) (zeroed_queue sample_layout 32 0 False False) = Some (Inr q)
     \<and> pop_pending_event sample_share sample_transport_impl (\<lambda>p n. [1, 0, 30, 0, 1, 0, 0, 0]) (sample_input q)
       = Some (Some \<lparr>event_type = 1, event_code = 30, event_value = 1\<rparr>, self')"
proof -
  obtain q where q: "OwningQueue_fill sample_share size_of_InputEvent 0 (event_ptrs 4096) (zeroed_queue sample_layout 32 0 False False) = Some (Inr q)"
    "input_inv sample_share (sample_input q)" "peek_used (in_event_queue (sample_input q)) = Some (Some 9)" using sample_input_ok by blast
  have n: "notify_total sample_transport_impl" by (simp add: notify_total_def sample_transport_impl_def)
  have "can_pop (in_event_queue (sample_input q))" by (simp add: sample_input_def can_pop_def)
  with input_event_recycled [OF q(2) n, of "\<lambda>p n. [1, 0, 30, 0, 1, 0, 0, 0]"] q(1,3) show ?thesis
    by (auto simp: input_QUEUE_SIZE_def InputEvent_from_bytes_def)
qed



end
