(* ===== verification/Virtio_Console.thy ===== *)
theory Virtio_Console
  imports Virtio_Rng Owning_Queue
begin

text \<open>
  The console driver (\<^verbatim>\<open>virtio-drivers/src/device/console.rs\<close>). The receive buffer is one page at
  \<open>con_buf_ptr\<close>; \<open>con_queue_buf_rx\<close> is what it holds for the driver. Operations that may complete a
  receive request get the contents of the page that the device has written by then.
\<close>

section \<open>The operations\<close>

definition QUEUE_RECEIVEQ_PORT_0 :: u16 where "QUEUE_RECEIVEQ_PORT_0 = 0"
definition QUEUE_TRANSMITQ_PORT_0 :: u16 where "QUEUE_TRANSMITQ_PORT_0 = 1"
definition console_QUEUE_SIZE :: nat where "console_QUEUE_SIZE = 2"

definition console_SIZE :: u64 where "console_SIZE = 1"
definition console_EMERG_WRITE :: u64 where "console_EMERG_WRITE = 4"

definition console_Features_all :: u64 where
  "console_Features_all = foldr (\<lambda>i b. b OR push_bit i 1) [0, 1, 2, 24, 27, 28, 29, 30, 32, 33, 34, 35, 36, 37, 38] 0"

definition console_SUPPORTED_FEATURES :: u64 where
  "console_SUPPORTED_FEATURES = RING_EVENT_IDX OR RING_INDIRECT_DESC OR console_SIZE OR console_EMERG_WRITE OR VERSION_1"

record Size =
  columns :: u16
  rows :: u16

record 't VirtIOConsole =
  con_transport :: 't
  con_negotiated_features :: u64
  con_receiveq :: VirtQueue
  con_transmitq :: VirtQueue
  con_buf_ptr :: u64
  con_queue_buf_rx :: "u8 list"
  con_cursor :: nat
  con_pending_len :: nat
  con_receive_token :: "u16 option"

abbreviation rx_slice :: "'t VirtIOConsole \<Rightarrow> slice" where
  "rx_slice self \<equiv> \<lparr>sl_ptr = con_buf_ptr self, sl_len = unat PAGE_SIZE\<rparr>"

definition poll_retrieve :: "share \<Rightarrow> 't Transport \<Rightarrow> 't VirtIOConsole \<Rightarrow> ((Error + unit) \<times> 't VirtIOConsole) option" where
  "poll_retrieve share T self =
     (if con_receive_token self = None \<and> con_cursor self = con_pending_len self then do {
        (r, q, calls) \<leftarrow> VirtQueue_add share 0 (con_receiveq self) [] [rx_slice self];
        (case r of
           Inl e \<Rightarrow> Some (Inl e, self\<lparr>con_receiveq := q\<rparr>)
         | Inr token \<Rightarrow> do {
             t \<leftarrow> (if should_notify q then notify T (con_transport self) QUEUE_RECEIVEQ_PORT_0 else Some (con_transport self));
             Some (Inr (), self\<lparr>con_receiveq := q, con_receive_token := Some token, con_transport := t\<rparr>)
           })
      }
      else Some (Inr (), self))"

definition VirtIOConsole_drop :: "'t Transport \<Rightarrow> 't VirtIOConsole \<Rightarrow> 't VirtIOConsole option" where
  "VirtIOConsole_drop T self = do {
     t1 \<leftarrow> queue_unset T (con_transport self) QUEUE_RECEIVEQ_PORT_0;
     t2 \<leftarrow> queue_unset T t1 QUEUE_TRANSMITQ_PORT_0;
     Some (self\<lparr>con_transport := t2\<rparr>)
   }"

definition VirtIOConsole_new ::
    "share \<Rightarrow> 't Transport \<Rightarrow> 'h dma_alloc \<Rightarrow> 'h dma_dealloc \<Rightarrow> (VirtQueueLayout \<Rightarrow> queue_memory) \<Rightarrow> u64 \<Rightarrow> 't \<Rightarrow> 'h \<Rightarrow>
     ((Error + 't VirtIOConsole) \<times> 't \<times> 'h) option" where
  "VirtIOConsole_new share T dma_alloc dma_dealloc mem buf_ptr transport h = do {
     (negotiated_features, t1) \<leftarrow> begin_init T console_Features_all transport console_SUPPORTED_FEATURES;
     let new_queue = let_queue T dma_alloc dma_dealloc mem console_QUEUE_SIZE
       (contains negotiated_features RING_INDIRECT_DESC) (contains negotiated_features RING_EVENT_IDX);
     new_queue [] QUEUE_RECEIVEQ_PORT_0 t1 h (\<lambda>receiveq t2 h2.
     new_queue [receiveq] QUEUE_TRANSMITQ_PORT_0 t2 h2 (\<lambda>transmitq t3 h3. do {
       t4 \<leftarrow> finish_init T t3;
       let console = \<lparr>con_transport = t4, con_negotiated_features = negotiated_features, con_receiveq = receiveq,
         con_transmitq = transmitq, con_buf_ptr = buf_ptr, con_queue_buf_rx = replicate (unat PAGE_SIZE) 0,
         con_cursor = 0, con_pending_len = 0, con_receive_token = None\<rparr>;
       (r, console1) \<leftarrow> poll_retrieve share T console;
       (case r of
          Inl e \<Rightarrow> do {
            console2 \<leftarrow> VirtIOConsole_drop T console1;
            return_error dma_dealloc [con_receiveq console2, con_transmitq console2] e (con_transport console2) h3
          }
        | Inr _ \<Rightarrow> Some (Inr console1, con_transport console1, h3))
     }))
   }"

definition console_size :: "'t Transport \<Rightarrow> ('t \<times> 't \<times> 't) list \<Rightarrow> 't VirtIOConsole \<Rightarrow> (Error + Size option) option" where
  "console_size T gens self =
     (if contains (con_negotiated_features self) console_SIZE then do {
        r \<leftarrow> read_consistent (map (observe T (\<lambda>t. do {
          r1 \<leftarrow> read_config T t 0;
          (case r1 of
             Inl e \<Rightarrow> Some (Inl e)
           | Inr c \<Rightarrow> do {
               r2 \<leftarrow> read_config T t 2;
               Some (try_bind r2 (\<lambda>w. Inr (Some \<lparr>columns = c, rows = w\<rparr>)))
             })
        })) gens);
        r
      }
      else Some (Inr None))"

text \<open>\<open>page\<close> is what the device has written into the receive buffer.\<close>

definition finish_receive :: "u8 list \<Rightarrow> 't VirtIOConsole \<Rightarrow> ((Error + bool) \<times> 't VirtIOConsole) option" where
  "finish_receive page self =
     (case con_receive_token self of
        None \<Rightarrow> Some (Inr False, self)
      | Some receive_token \<Rightarrow> do {
          t \<leftarrow> peek_used (con_receiveq self);
          if con_receive_token self = t then do {
            (r, q, calls) \<leftarrow> pop_used (con_receiveq self) receive_token [] [rx_slice self];
            (case r of
               Inl e \<Rightarrow> Some (Inl e, self\<lparr>con_receiveq := q\<rparr>)
             | Inr l \<Rightarrow> do {
                 rust_assert (l \<noteq> 0);
                 Some (Inr True, self\<lparr>con_receiveq := q, con_queue_buf_rx := page, con_cursor := 0,
                                      con_pending_len := unat l, con_receive_token := None\<rparr>)
               })
          }
          else Some (Inr False, self)
        })"

definition console_ack_interrupt :: "'t Transport \<Rightarrow> u8 list \<Rightarrow> 't VirtIOConsole \<Rightarrow> ((Error + bool) \<times> 't VirtIOConsole) option" where
  "console_ack_interrupt T page self = do {
     (status, t) \<leftarrow> ack_interrupt T (con_transport self);
     let self1 = self\<lparr>con_transport := t\<rparr>;
     if status AND 1 = 0 then Some (Inr False, self1) else finish_receive page self1
   }"

definition console_recv ::
    "share \<Rightarrow> 't Transport \<Rightarrow> u8 list \<Rightarrow> 't VirtIOConsole \<Rightarrow> bool \<Rightarrow> ((Error + u8 option) \<times> 't VirtIOConsole) option" where
  "console_recv share T page self pop = do {
     (r, self1) \<leftarrow> finish_receive page self;
     (case r of
        Inl e \<Rightarrow> Some (Inl e, self1)
      | Inr _ \<Rightarrow>
          if con_cursor self1 = con_pending_len self1 then Some (Inr None, self1)
          else do {
            ch \<leftarrow> idx (con_queue_buf_rx self1) (con_cursor self1);
            if pop then do {
              (r2, self2) \<leftarrow> poll_retrieve share T (self1\<lparr>con_cursor := con_cursor self1 + 1\<rparr>);
              Some (try_bind r2 (\<lambda>_. Inr (Some ch)), self2)
            }
            else Some (Inr (Some ch), self1)
          })
   }"

definition console_send_bytes ::
    "share \<Rightarrow> 't Transport \<Rightarrow> wait_env \<Rightarrow> u64 \<Rightarrow> 't VirtIOConsole \<Rightarrow> u8 list \<Rightarrow> ((Error + unit) \<times> 't VirtIOConsole) option" where
  "console_send_bytes share T env ptr self buffer = do {
     (r, q, t) \<leftarrow> queue_request share T env (con_transmitq self) (con_transport self) [\<lparr>sl_ptr = ptr, sl_len = length buffer\<rparr>] [];
     Some (map_sum id (\<lambda>_. ()) r, self\<lparr>con_transmitq := q, con_transport := t\<rparr>)
   }"

definition console_send ::
    "share \<Rightarrow> 't Transport \<Rightarrow> wait_env \<Rightarrow> u64 \<Rightarrow> 't VirtIOConsole \<Rightarrow> u8 \<Rightarrow> ((Error + unit) \<times> 't VirtIOConsole) option" where
  "console_send share T env ptr self chr = do {
     (r, q, t) \<leftarrow> queue_request share T env (con_transmitq self) (con_transport self) [\<lparr>sl_ptr = ptr, sl_len = length [chr]\<rparr>] [];
     Some (map_sum id (\<lambda>_. ()) r, self\<lparr>con_transmitq := q, con_transport := t\<rparr>)
   }"

text \<open>
  The loop of \<^verbatim>\<open>wait_for_receive\<close>; an iteration sees a used ring of the receive queue and the contents of
  the page.
\<close>

fun wait_loop :: "(UsedRing \<times> u8 list) list \<Rightarrow> 't VirtIOConsole \<Rightarrow> ((Error + unit) \<times> 't VirtIOConsole) option" where
  "wait_loop seen self =
     (if con_cursor self \<noteq> con_pending_len self then Some (Inr (), self)
      else case seen of
        [] \<Rightarrow> None
      | (u, page) # rest \<Rightarrow> do {
          (r, self1) \<leftarrow> finish_receive page (self\<lparr>con_receiveq := (con_receiveq self)\<lparr>used := u\<rparr>\<rparr>);
          (case r of Inl e \<Rightarrow> Some (Inl e, self1) | Inr _ \<Rightarrow> wait_loop rest self1)
        })"

definition wait_for_receive ::
    "share \<Rightarrow> 't Transport \<Rightarrow> (UsedRing \<times> u8 list) list \<Rightarrow> 't VirtIOConsole \<Rightarrow> ((Error + unit) \<times> 't VirtIOConsole) option" where
  "wait_for_receive share T seen self = do {
     (r, self1) \<leftarrow> poll_retrieve share T self;
     (case r of Inl e \<Rightarrow> Some (Inl e, self1) | Inr _ \<Rightarrow> wait_loop seen self1)
   }"

definition console_write_str ::
    "share \<Rightarrow> 't Transport \<Rightarrow> wait_env \<Rightarrow> u64 \<Rightarrow> 't VirtIOConsole \<Rightarrow> u8 list \<Rightarrow> ((unit + unit) \<times> 't VirtIOConsole) option" where
  "console_write_str share T env ptr self s = do {
     (r, self1) \<leftarrow> console_send_bytes share T env ptr self s;
     Some (map_sum (\<lambda>_. ()) id r, self1)
   }"

definition emergency_write :: "'t Transport \<Rightarrow> 't VirtIOConsole \<Rightarrow> u8 \<Rightarrow> ((Error + unit) \<times> 't VirtIOConsole) option" where
  "emergency_write T self chr =
     (if contains (con_negotiated_features self) console_EMERG_WRITE then do {
        (r, t) \<leftarrow> write_config T (con_transport self) 8 (ucast chr :: u32);
        Some (r, self\<lparr>con_transport := t\<rparr>)
      }
      else Some (Inl Unsupported, self))"

section \<open>The receive side\<close>

text \<open>The bytes that were received and not yet handed out.\<close>

definition pending :: "'t VirtIOConsole \<Rightarrow> u8 list" where
  "pending self = take (con_pending_len self - con_cursor self) (drop (con_cursor self) (con_queue_buf_rx self))"

definition con_core :: "share \<Rightarrow> 't VirtIOConsole \<Rightarrow> bool" where
  "con_core share self \<longleftrightarrow> SIZE (con_receiveq self) = console_QUEUE_SIZE \<and> con_cursor self \<le> con_pending_len self
     \<and> con_pending_len self \<le> 4096 \<and> length (con_queue_buf_rx self) = 4096
     \<and> (case con_receive_token self of
          None \<Rightarrow> \<exists>free. vq_holds share (con_receiveq self) free [] \<and> free \<noteq> []
        | Some token \<Rightarrow> con_cursor self = con_pending_len self
            \<and> (\<exists>free. vq_holds share (con_receiveq self) free [([token], [], [rx_slice self])]))"

text \<open>Between calls there is data to hand out or a request for more is outstanding, and never both.\<close>

definition con_inv :: "share \<Rightarrow> 't VirtIOConsole \<Rightarrow> bool" where
  "con_inv share self \<longleftrightarrow> con_core share self \<and> (con_receive_token self = None \<longrightarrow> pending self \<noteq> [])"

lemma unat_PAGE_SIZE [simp]: "unat PAGE_SIZE = 4096"
  by (simp add: PAGE_SIZE_def)

lemma length_pending: "con_core share self \<Longrightarrow> length (pending self) = con_pending_len self - con_cursor self"
  by (auto simp: con_core_def pending_def min_def)

lemma pending_empty: "con_core share self \<Longrightarrow> pending self = [] \<longleftrightarrow> con_cursor self = con_pending_len self"
  using length_pending [of share self] by (auto simp: con_core_def)

lemma poll_retrieve_ok:
  assumes core: "con_core share self" and n: "notify_total T"
  shows "\<exists>self'. poll_retrieve share T self = Some (Inr (), self') \<and> con_inv share self' \<and> pending self' = pending self"
proof (cases "con_receive_token self = None \<and> con_cursor self = con_pending_len self")
  case True
  then obtain free where f: "vq_holds share (con_receiveq self) free []" "free \<noteq> []" using core by (auto simp: con_core_def)
  then obtain t fs where t: "free = t # fs" by (cases free) auto
  have sz: "SIZE (con_receiveq self) = 2" using core by (simp add: con_core_def console_QUEUE_SIZE_def)
  obtain q calls where q: "VirtQueue_add share 0 (con_receiveq self) [] [rx_slice self] = Some (Inr t, q, calls)"
    "vq_holds share q fs [([t], [], [rx_slice self])]" "SIZE q = SIZE (con_receiveq self)"
    using vq.add_in_order [OF f(1) [unfolded t], of "rx_slice self" 0] sz by (auto simp: needed_one)
  obtain tr where "(if should_notify q then notify T (con_transport self) QUEUE_RECEIVEQ_PORT_0 else Some (con_transport self)) = Some tr"
    using notify_totalD [OF n] by (cases "should_notify q") auto
  with True q core show ?thesis
    by (auto simp: poll_retrieve_def con_inv_def con_core_def pending_def)
next
  case False
  then have "con_inv share self" using core pending_empty [OF core] by (auto simp: con_inv_def con_core_def split: option.splits)
  with False show ?thesis by (auto simp: poll_retrieve_def)
qed

text \<open>The device reports at least one byte and not more than a page, and the page has its size.\<close>

definition page_reported :: "u8 list \<Rightarrow> 't VirtIOConsole \<Rightarrow> bool" where
  "page_reported page self \<longleftrightarrow> 0 < unat (next_used_len (con_receiveq self)) \<and> unat (next_used_len (con_receiveq self)) \<le> 4096 \<and> length page = 4096"

lemma finish_receive_ok:
  assumes inv: "con_inv share self"
    and dev: "con_receive_token self \<noteq> None \<Longrightarrow> peek_used (con_receiveq self) = Some (con_receive_token self) \<Longrightarrow> page_reported page self"
  shows "\<exists>flag self'. finish_receive page self = Some (Inr flag, self') \<and> con_inv share self'
    \<and> (flag \<longleftrightarrow> con_receive_token self \<noteq> None \<and> peek_used (con_receiveq self) = Some (con_receive_token self))
    \<and> (if flag then pending self' = take (unat (next_used_len (con_receiveq self))) page else self' = self)"
proof (cases "con_receive_token self")
  case None
  then show ?thesis using inv by (intro exI [of _ False] exI [of _ self]) (simp add: finish_receive_def)
next
  case (Some token)
  have c: "con_core share self" using inv by (simp add: con_inv_def)
  then obtain free where f: "vq_holds share (con_receiveq self) free [([token], [], [rx_slice self])]" "SIZE (con_receiveq self) = console_QUEUE_SIZE"
    using Some by (auto simp: con_core_def)
  have "\<exists>t. peek_used (con_receiveq self) = Some t"
    using f slot_bound [of "con_receiveq self"] by (auto simp: vq_holds_def vq_inv_def vq_wf_def peek_used_def idx_def)
  then obtain t where t: "peek_used (con_receiveq self) = Some t" by blast
  show ?thesis
  proof (cases "t = Some token")
    case False
    then show ?thesis using Some t inv by (auto simp: finish_receive_def)
  next
    case True
    let ?l = "next_used_len (con_receiveq self)"
    have d: "0 < unat ?l" "unat ?l \<le> 4096" "length page = 4096" using dev Some t True by (simp_all add: page_reported_def)
    obtain q calls where q: "pop_used (con_receiveq self) token [] [rx_slice self] = Some (Inr ?l, q, calls)"
      "vq_holds share q ([token] @ free) []" "SIZE q = SIZE (con_receiveq self)"
      using vq.pop_law [OF f(1), of "[token]" "[]" "[rx_slice self]"] t True by auto
    let ?s = "self\<lparr>con_receiveq := q, con_queue_buf_rx := page, con_cursor := 0, con_pending_len := unat ?l, con_receive_token := None\<rparr>"
    have "?l \<noteq> 0" using d(1) by auto
    then have "finish_receive page self = Some (Inr True, ?s)"
      using Some t True q(1) by (simp add: finish_receive_def panic_simps)
    moreover have "con_inv share ?s" "pending ?s = take (unat ?l) page"
      using d q(2,3) f(2) by (auto simp: con_inv_def con_core_def pending_def)
    ultimately show ?thesis using Some t True by auto
  qed
qed

text \<open>What a call of \<^verbatim>\<open>recv\<close> has before it: the page just returned by the device, or what is left of the last one.\<close>

definition completed :: "'t VirtIOConsole \<Rightarrow> bool" where
  "completed self \<longleftrightarrow> con_receive_token self \<noteq> None \<and> peek_used (con_receiveq self) = Some (con_receive_token self)"

definition arrived :: "u8 list \<Rightarrow> 't VirtIOConsole \<Rightarrow> u8 list" where
  "arrived page self = (if completed self then take (unat (next_used_len (con_receiveq self))) page else pending self)"

lemma pending_step:
  assumes "con_core share self" "con_cursor self \<noteq> con_pending_len self"
  shows "idx (con_queue_buf_rx self) (con_cursor self) = Some (hd (pending self))"
    and "pending (self\<lparr>con_cursor := con_cursor self + 1\<rparr>) = tl (pending self)"
    and "con_core share (self\<lparr>con_cursor := con_cursor self + 1\<rparr>)"
  using assms
  by (auto simp: con_core_def pending_def idx_def hd_take hd_drop_conv_nth tl_take tl_drop drop_Suc split: option.splits)

lemma console_recv_ok:
  assumes inv: "con_inv share self" and n: "notify_total T" and dev: "completed self \<Longrightarrow> page_reported page self"
  shows "\<exists>self'. console_recv share T page self pop =
      Some (Inr (if arrived page self = [] then None else Some (hd (arrived page self))), self')
    \<and> con_inv share self' \<and> pending self' = (if pop then tl (arrived page self) else arrived page self)"
proof -
  obtain flag self1 where f: "finish_receive page self = Some (Inr flag, self1)" "con_inv share self1" "pending self1 = arrived page self"
    using finish_receive_ok [OF inv] dev by (fastforce simp: completed_def arrived_def split: if_splits)
  have c: "con_core share self1" using f(2) by (simp add: con_inv_def)
  show ?thesis
  proof (cases "con_cursor self1 = con_pending_len self1")
    case True
    then have "arrived page self = []" using pending_empty [OF c] f(3) by simp
    with True f show ?thesis by (simp add: console_recv_def)
  next
    case False
    note s = pending_step [OF c False]
    have "arrived page self \<noteq> []" using pending_empty [OF c] f(3) False by simp
    moreover obtain self2 where "poll_retrieve share T (self1\<lparr>con_cursor := con_cursor self1 + 1\<rparr>) = Some (Inr (), self2)"
      "con_inv share self2" "pending self2 = tl (pending self1)"
      using poll_retrieve_ok [OF s(3) n] s(2) by auto
    ultimately show ?thesis using False f s(1) by (cases pop) (simp_all add: console_recv_def)
  qed
qed

text \<open>\<open>n\<close> calls of \<^verbatim>\<open>recv(true)\<close>; the page may look different at each of them.\<close>

fun recv_many :: "share \<Rightarrow> 't Transport \<Rightarrow> u8 list list \<Rightarrow> 't VirtIOConsole \<Rightarrow> (u8 option list \<times> 't VirtIOConsole) option" where
  "recv_many share T [] self = Some ([], self)"
| "recv_many share T (page # views) self = (case console_recv share T page self True of
     Some (Inr c, self1) \<Rightarrow> map_option (\<lambda>(cs, self2). (c # cs, self2)) (recv_many share T views self1)
   | _ \<Rightarrow> None)"

lemma not_completed: "con_inv share self \<Longrightarrow> pending self \<noteq> [] \<Longrightarrow> \<not> completed self"
  using pending_empty [of share self] by (auto simp: con_inv_def completed_def con_core_def split: option.splits)

lemma recv_many_pending:
  assumes "notify_total T" "con_inv share self" "length views = length (pending self)"
  shows "\<exists>self'. recv_many share T views self = Some (map Some (pending self), self') \<and> con_inv share self' \<and> pending self' = []"
  using assms(2,3)
proof (induction views arbitrary: self)
  case Nil
  then show ?case by simp
next
  case (Cons page views)
  have "pending self \<noteq> []" using Cons.prems(2) by auto
  with not_completed [OF Cons.prems(1)] have nc: "\<not> completed self" "pending self \<noteq> []" by simp_all
  obtain self1 where r: "console_recv share T page self True = Some (Inr (Some (hd (pending self))), self1)"
    "con_inv share self1" "pending self1 = tl (pending self)"
    using console_recv_ok [OF Cons.prems(1) assms(1), of page True] nc by (auto simp: arrived_def)
  have "length views = length (pending self1)" using r(3) Cons.prems(2) by simp
  with Cons.IH [OF r(2)] r(3) obtain self' where "recv_many share T views self1 = Some (map Some (tl (pending self)), self')" "con_inv share self'" "pending self' = []" by auto
  with r(1) nc(2) show ?case by (cases "pending self") auto
qed

lemma recv_many_message:
  assumes n: "notify_total T" and inv: "con_inv share self" and c: "completed self" and dev: "page_reported page self"
    and l: "length views + 1 = unat (next_used_len (con_receiveq self))"
  shows "\<exists>self'. recv_many share T (page # views) self = Some (map Some (take (length views + 1) page), self')
    \<and> con_inv share self' \<and> pending self' = []"
proof -
  have a: "arrived page self = take (length views + 1) page" "page \<noteq> []" using c l dev by (auto simp: arrived_def page_reported_def)
  obtain self1 where r: "console_recv share T page self True = Some (Inr (Some (hd page)), self1)"
    "con_inv share self1" "pending self1 = take (length views) (tl page)"
    using console_recv_ok [OF inv n dev, of True] a by (auto simp: hd_take take_Suc)
  have "length views = length (pending self1)" using r(3) l dev by (simp add: page_reported_def)
  from recv_many_pending [OF n r(2) this] r(1,3) a(2) show ?thesis by (auto simp: take_Suc)
qed

section \<open>Waiting for input\<close>

definition sees :: "UsedRing \<Rightarrow> 't VirtIOConsole \<Rightarrow> 't VirtIOConsole" where
  "sees u self = self\<lparr>con_receiveq := (con_receiveq self)\<lparr>used := u\<rparr>\<rparr>"

lemma sees_simps [simp]:
  "con_cursor (sees u self) = con_cursor self" "con_pending_len (sees u self) = con_pending_len self"
  "con_receive_token (sees u self) = con_receive_token self" "pending (sees u self) = pending self" "sees v (sees u self) = sees v self"
  by (simp_all add: sees_def pending_def)

lemma con_inv_sees:
  assumes inv: "con_inv share self" and u: "length (used_ring u) = console_QUEUE_SIZE"
  shows "con_inv share (sees u self)"
proof -
  have "\<And>free rs. vq_holds share (con_receiveq self) free rs \<Longrightarrow> vq_holds share ((con_receiveq self)\<lparr>used := u\<rparr>) free rs"
    using inv u vq_inv_used unfolding vq_holds_def by (auto simp: con_inv_def con_core_def)
  with inv show ?thesis by (auto simp: con_inv_def con_core_def pending_def sees_def split: option.splits)
qed

lemma wait_loop_ok:
  assumes "\<forall>(v, p) \<in> set es. length (used_ring v) = console_QUEUE_SIZE \<and> \<not> completed (sees v self)"
    and inv: "con_inv share self" and p: "pending self = []"
    and u: "length (used_ring u) = console_QUEUE_SIZE" "completed (sees u self)" "page_reported page (sees u self)"
  shows "\<exists>self'. wait_loop (es @ (u, page) # rest) self = Some (Inr (), self') \<and> con_inv share self'
    \<and> pending self' = take (unat (next_used_len (con_receiveq (sees u self)))) page"
  using assms
proof (induction es arbitrary: self)
  case Nil
  have c: "con_core share self" using Nil.prems(2) by (simp add: con_inv_def)
  obtain self' where f: "finish_receive page (sees u self) = Some (Inr True, self')" "con_inv share self'"
    "pending self' = take (unat (next_used_len (con_receiveq (sees u self)))) page"
    using finish_receive_ok [OF con_inv_sees [OF Nil.prems(2,4)], of page] Nil.prems(5,6) by (auto simp: completed_def split: if_splits)
  have "pending self' \<noteq> []" using f(3) Nil.prems(6) by (auto simp: page_reported_def)
  with f(2) have "con_cursor self' \<noteq> con_pending_len self'" using pending_empty by (auto simp: con_inv_def)
  then have "wait_loop rest self' = Some (Inr (), self')" by simp
  then show ?case using f pending_empty [OF c] Nil.prems(3) by (simp add: sees_def)
next
  case (Cons e es)
  obtain v p where e: "e = (v, p)" by force
  have c: "con_core share self" using Cons.prems(2) by (simp add: con_inv_def)
  have v: "con_inv share (sees v self)" "\<not> completed (sees v self)" using Cons.prems(1) con_inv_sees [OF Cons.prems(2)] e by auto
  have "finish_receive p (sees v self) = Some (Inr False, sees v self)"
    using finish_receive_ok [OF v(1), of p] v(2) by (auto simp: completed_def)
  then have "wait_loop ((e # es) @ (u, page) # rest) self = wait_loop (es @ (u, page) # rest) (sees v self)"
    using pending_empty [OF c] Cons.prems(3) e by (simp add: sees_def)
  then show ?case using Cons.IH [of "sees v self"] Cons.prems v(1) by auto
qed

lemma poll_retrieve_idle: "con_inv share self \<Longrightarrow> poll_retrieve share T self = Some (Inr (), self)"
  using pending_empty [of share self] by (auto simp: poll_retrieve_def con_inv_def)

section \<open>A sample device\<close>

text \<open>The driver before the last step of \<^verbatim>\<open>new\<close>.\<close>

definition fresh_console :: "'t \<Rightarrow> VirtQueue \<Rightarrow> VirtQueue \<Rightarrow> u64 \<Rightarrow> 't VirtIOConsole" where
  "fresh_console t rq tq p = \<lparr>con_transport = t, con_negotiated_features = 0, con_receiveq = rq, con_transmitq = tq, con_buf_ptr = p,
     con_queue_buf_rx = replicate (unat PAGE_SIZE) 0, con_cursor = 0, con_pending_len = 0, con_receive_token = None\<rparr>"

lemma fresh_console_core:
  assumes "vq_inv share rq (abs_new console_QUEUE_SIZE)" "SIZE rq = console_QUEUE_SIZE"
  shows "con_core share (fresh_console t rq tq p)"
proof -
  have "vq_holds share rq (map of_nat [0..<2]) []" using assms(1) by (simp add: vq_holds_def abs_new_def console_QUEUE_SIZE_def)
  then have "\<exists>free. vq_holds share rq free [] \<and> free \<noteq> []" by (rule exI [of _ "map of_nat [0..<2]", OF conjI]) simp
  then show ?thesis using assms(2) by (simp add: con_core_def fresh_console_def)
qed

lemma size_ok_2: "size_ok 2"
  unfolding size_ok_def by (rule exI [of _ 1]) simp

definition sample_console :: "nat VirtIOConsole" where
  "sample_console = fresh_console 0 (zeroed_queue sample_layout 2 0 False False) (zeroed_queue sample_layout 2 1 False False) 4096"

text \<open>The used ring in which the device reports \<open>l\<close> bytes for the outstanding request.\<close>

definition sample_report :: "u32 \<Rightarrow> 't VirtIOConsole \<Rightarrow> UsedRing" where
  "sample_report l self = \<lparr>used_flags = 0, used_ring_idx = last_used_idx (con_receiveq self) + 1,
     used_ring = replicate 2 \<lparr>elem_id = ucast (the (con_receive_token self)), elem_len = l\<rparr>, avail_event = 0\<rparr>"

definition sample_page :: "u8 list" where
  "sample_page = [104, 105, 33] @ replicate 4093 0"

lemma sample_console_ok:
  "\<exists>self. poll_retrieve sample_share sample_transport_impl sample_console = Some (Inr (), self) \<and> con_inv sample_share self \<and> pending self = []
    \<and> completed (sees (sample_report 3 self) self) \<and> page_reported sample_page (sees (sample_report 3 self) self)
    \<and> next_used_len (con_receiveq (sees (sample_report 3 self) self)) = 3"
proof -
  have n: "notify_total sample_transport_impl" by (simp add: notify_total_def sample_transport_impl_def)
  have "con_core sample_share sample_console"
    using zeroed_queue_inv(1) [OF size_ok_2, of sample_share sample_layout 0 False False]
    unfolding sample_console_def by (intro fresh_console_core) (simp_all add: console_QUEUE_SIZE_def)
  from poll_retrieve_ok [OF this n] obtain self where s: "poll_retrieve sample_share sample_transport_impl sample_console = Some (Inr (), self)"
    "con_inv sample_share self" "pending self = pending sample_console" by blast
  have p: "pending self = []" using s(3) by (simp add: pending_def sample_console_def fresh_console_def)
  obtain t where t: "con_receive_token self = Some t" using s(2) p by (auto simp: con_inv_def)
  have sz: "SIZE (con_receiveq self) = 2" using s(2) by (simp add: con_inv_def con_core_def console_QUEUE_SIZE_def)
  let ?self = "sees (sample_report 3 self) self"
  have b: "slot (con_receiveq ?self) (last_used_idx (con_receiveq self)) < 2"
    using slot_bound [of "con_receiveq ?self"] sz size_ok_2 by (simp add: sees_def)
  have "completed ?self" using b t by (simp add: completed_def peek_used_def can_pop_def panic_simps sees_def sample_report_def ucast_u32_u16)
  moreover have l: "next_used_len (con_receiveq ?self) = 3" using b by (simp add: next_used_len_def sees_def sample_report_def)
  moreover have "page_reported sample_page ?self" using l by (simp add: page_reported_def sample_page_def)
  ultimately show ?thesis using s p by blast
qed

section \<open>Properties\<close>

text \<open>
  Console input: once the device has returned the receive buffer with \<open>l\<close> bytes, \<open>l\<close> calls of
  \<^verbatim>\<open>recv(true)\<close> return exactly the first \<open>l\<close> bytes of the page in order, whatever the memory of the page looks
  like in the later calls, and leave the driver with nothing pending and a new receive request outstanding.
\<close>

theorem console_recv_delivers_message:
  assumes "notify_total T" "con_inv share self" "completed self" "page_reported page self"
    and "length views + 1 = unat (next_used_len (con_receiveq self))"
  shows "\<exists>self'. recv_many share T (page # views) self = Some (map Some (take (length views + 1) page), self')
    \<and> con_inv share self' \<and> pending self' = [] \<and> con_receive_token self' \<noteq> None"
  using recv_many_message [OF assms] by (auto simp: con_inv_def)

theorem console_recv_delivers_message_witness:
  "\<exists>self self'. poll_retrieve sample_share sample_transport_impl sample_console = Some (Inr (), self)
     \<and> recv_many sample_share sample_transport_impl [sample_page, [], []] (sees (sample_report 3 self) self) = Some ([Some 104, Some 105, Some 33], self')"
proof -
  have n: "notify_total sample_transport_impl" by (simp add: notify_total_def sample_transport_impl_def)
  obtain self where s: "poll_retrieve sample_share sample_transport_impl sample_console = Some (Inr (), self)" "con_inv sample_share self"
    "completed (sees (sample_report 3 self) self)" "page_reported sample_page (sees (sample_report 3 self) self)"
    "next_used_len (con_receiveq (sees (sample_report 3 self) self)) = 3" using sample_console_ok by blast
  have i: "con_inv sample_share (sees (sample_report 3 self) self)"
    by (rule con_inv_sees [OF s(2)]) (simp add: sample_report_def console_QUEUE_SIZE_def)
  have "length [[], [] :: u8 list] + 1 = unat (next_used_len (con_receiveq (sees (sample_report 3 self) self)))" using s(5) by simp
  from console_recv_delivers_message [OF n i s(3,4) this] s(1) show ?thesis by (auto simp: sample_page_def)
qed

text \<open>
  Waiting for input ends: if nothing is pending and the device, after any number of iterations without
  a report, returns the receive buffer, \<^verbatim>\<open>wait_for_receive\<close> returns with the reported bytes pending.
\<close>

theorem console_wait_for_receive_returns:
  assumes "con_inv share self" "pending self = []"
    and "\<forall>(v, p) \<in> set es. length (used_ring v) = console_QUEUE_SIZE \<and> \<not> completed (sees v self)"
    and "length (used_ring u) = console_QUEUE_SIZE" "completed (sees u self)" "page_reported page (sees u self)"
  shows "\<exists>self'. wait_for_receive share T (es @ (u, page) # rest) self = Some (Inr (), self') \<and> con_inv share self'
    \<and> pending self' = take (unat (next_used_len (con_receiveq (sees u self)))) page"
  using wait_loop_ok [OF assms(3,1,2,4-6)] poll_retrieve_idle [OF assms(1), of T] by (simp add: wait_for_receive_def)

theorem console_wait_for_receive_returns_witness:
  "\<exists>self self'. poll_retrieve sample_share sample_transport_impl sample_console = Some (Inr (), self)
     \<and> wait_for_receive sample_share sample_transport_impl
         [((sample_report 3 self)\<lparr>used_ring_idx := last_used_idx (con_receiveq self)\<rparr>, []), (sample_report 3 self, sample_page)] self = Some (Inr (), self')
     \<and> pending self' = [104, 105, 33]"
proof -
  obtain self where s: "poll_retrieve sample_share sample_transport_impl sample_console = Some (Inr (), self)" "con_inv sample_share self"
    "pending self = []" "completed (sees (sample_report 3 self) self)" "page_reported sample_page (sees (sample_report 3 self) self)"
    "next_used_len (con_receiveq (sees (sample_report 3 self) self)) = 3" using sample_console_ok by blast
  let ?v = "(sample_report 3 self)\<lparr>used_ring_idx := last_used_idx (con_receiveq self)\<rparr>"
  have "\<not> completed (sees ?v self)" by (auto simp: completed_def peek_used_def can_pop_def sees_def)
  then have "\<forall>(v, p) \<in> set [(?v, [])]. length (used_ring v) = console_QUEUE_SIZE \<and> \<not> completed (sees v self)"
    by (simp add: sample_report_def console_QUEUE_SIZE_def)
  from console_wait_for_receive_returns [OF s(2,3) this _ s(4,5), of sample_transport_impl "[]"] s(1,6) show ?thesis
    by (auto simp: sample_report_def console_QUEUE_SIZE_def sample_page_def)
qed

end
