(* ===== verification/Virtio_Net.thy ===== *)
theory Virtio_Net
  imports Virtio_Rng Owning_Queue
begin

text \<open>
  The network driver (\<^verbatim>\<open>virtio-drivers/src/device/net\<close>): the raw driver of \<^verbatim>\<open>dev_raw.rs\<close> that moves slices, and the driver of
  \<^verbatim>\<open>dev.rs\<close> that keeps a receive buffer per descriptor. A receive buffer is known by the address and the
  length in bytes of its vector; \<open>mem\<close> is what memory holds when the driver looks at it. The functions that send
  also yield the bytes they gave to the device.
\<close>

section \<open>Headers and buffers\<close>

definition MIN_BUFFER_LEN :: nat where "MIN_BUFFER_LEN = 1526"
definition QUEUE_RECEIVE :: u16 where "QUEUE_RECEIVE = 0"
definition QUEUE_TRANSMIT :: u16 where "QUEUE_TRANSMIT = 1"

definition net_MAC :: u64 where "net_MAC = push_bit 5 1"
definition net_MRG_RXBUF :: u64 where "net_MRG_RXBUF = push_bit 15 1"
definition net_STATUS :: u64 where "net_STATUS = push_bit 16 1"

definition net_Features_all :: u64 where
  "net_Features_all = foldr (\<lambda>i b. b OR push_bit i 1) ([0, 1, 2, 3] @ [5..<24] @ [28, 29, 32]) 0"

definition net_SUPPORTED_FEATURES :: u64 where
  "net_SUPPORTED_FEATURES = net_MAC OR net_STATUS OR RING_EVENT_IDX OR RING_INDIRECT_DESC OR VERSION_1"

record VirtioNetHdrLegacy =
  nh_flags :: u8
  nh_gso_type :: u8
  nh_hdr_len :: u16
  nh_gso_size :: u16
  nh_csum_start :: u16
  nh_csum_offset :: u16

record VirtioNetHdr = VirtioNetHdrLegacy +
  nh_num_buffers :: u16

definition VirtioNetHdrLegacy_default :: VirtioNetHdrLegacy where
  "VirtioNetHdrLegacy_default = \<lparr>nh_flags = 0, nh_gso_type = 0, nh_hdr_len = 0, nh_gso_size = 0, nh_csum_start = 0, nh_csum_offset = 0\<rparr>"

definition VirtioNetHdr_from :: "VirtioNetHdrLegacy \<Rightarrow> VirtioNetHdr" where
  "VirtioNetHdr_from legacy = VirtioNetHdrLegacy.extend legacy \<lparr>nh_num_buffers = 0\<rparr>"

definition VirtioNetHdr_default :: VirtioNetHdr where
  "VirtioNetHdr_default = VirtioNetHdr_from VirtioNetHdrLegacy_default"

definition VirtioNetHdrLegacy_as_bytes :: "'a VirtioNetHdrLegacy_scheme \<Rightarrow> u8 list" where
  "VirtioNetHdrLegacy_as_bytes h = [nh_flags h, nh_gso_type h] @ to_le 2 (nh_hdr_len h) @ to_le 2 (nh_gso_size h)
     @ to_le 2 (nh_csum_start h) @ to_le 2 (nh_csum_offset h)"

definition VirtioNetHdr_as_bytes :: "VirtioNetHdr \<Rightarrow> u8 list" where
  "VirtioNetHdr_as_bytes h = VirtioNetHdrLegacy_as_bytes h @ to_le 2 (nh_num_buffers h)"

text \<open>\<^verbatim>\<open>ref_from_prefix(..).unwrap()\<close>; the addresses of receive buffers are aligned.\<close>

definition VirtioNetHdrLegacy_ref_from_prefix :: "u8 list \<Rightarrow> VirtioNetHdrLegacy option" where
  "VirtioNetHdrLegacy_ref_from_prefix bs =
     (if length bs < 10 then None
      else Some \<lparr>nh_flags = bs ! 0, nh_gso_type = bs ! 1, nh_hdr_len = from_le (take 2 (drop 2 bs)), nh_gso_size = from_le (take 2 (drop 4 bs)),
                 nh_csum_start = from_le (take 2 (drop 6 bs)), nh_csum_offset = from_le (take 2 (drop 8 bs))\<rparr>)"

definition VirtioNetHdr_ref_from_prefix :: "u8 list \<Rightarrow> VirtioNetHdr option" where
  "VirtioNetHdr_ref_from_prefix bs =
     (if length bs < 12 then None
      else do { h \<leftarrow> VirtioNetHdrLegacy_ref_from_prefix bs;
                Some (VirtioNetHdrLegacy.extend h \<lparr>nh_num_buffers = from_le (take 2 (drop 10 bs))\<rparr>) })"

text \<open>The sizes of the two headers.\<close>

definition hdr_size :: "bool \<Rightarrow> nat" where
  "hdr_size legacy_header = (if legacy_header then 10 else 12)"

definition default_header :: "bool \<Rightarrow> u8 list" where
  "default_header legacy_header =
     (if legacy_header then VirtioNetHdrLegacy_as_bytes VirtioNetHdrLegacy_default else VirtioNetHdr_as_bytes VirtioNetHdr_default)"

record RxBuffer =
  rx_ptr :: u64
  rx_words :: nat
  rx_packet_len :: nat
  rx_idx :: u16
  rx_legacy_header :: bool

definition RxBuffer_new :: "u64 \<Rightarrow> nat \<Rightarrow> nat \<Rightarrow> bool \<Rightarrow> RxBuffer option" where
  "RxBuffer_new ptr i buf_len legacy_header = do {
     rust_assert (i < 2 ^ 16);
     Some \<lparr>rx_ptr = ptr, rx_words = buf_len div 8, rx_packet_len = 0, rx_idx = of_nat i, rx_legacy_header = legacy_header\<rparr>
   }"

definition set_packet_len :: "RxBuffer \<Rightarrow> nat \<Rightarrow> RxBuffer" where
  "set_packet_len self l = self\<lparr>rx_packet_len := l\<rparr>"

text \<open>\<^verbatim>\<open>as_bytes_mut\<close>, as the slice that is given to the queue, and \<^verbatim>\<open>as_bytes\<close>, its contents.\<close>

definition as_bytes_mut :: "RxBuffer \<Rightarrow> slice" where
  "as_bytes_mut self = \<lparr>sl_ptr = rx_ptr self, sl_len = 8 * rx_words self\<rparr>"

definition RxBuffer_as_bytes :: "(u64 \<Rightarrow> nat \<Rightarrow> u8 list) \<Rightarrow> RxBuffer \<Rightarrow> u8 list" where
  "RxBuffer_as_bytes mem self = mem (rx_ptr self) (8 * rx_words self)"

definition RxBuffer_header :: "(u64 \<Rightarrow> nat \<Rightarrow> u8 list) \<Rightarrow> RxBuffer \<Rightarrow> VirtioNetHdr option" where
  "RxBuffer_header mem self =
     (if rx_legacy_header self then map_option VirtioNetHdr_from (VirtioNetHdrLegacy_ref_from_prefix (RxBuffer_as_bytes mem self))
      else VirtioNetHdr_ref_from_prefix (RxBuffer_as_bytes mem self))"

definition RxBuffer_packet :: "(u64 \<Rightarrow> nat \<Rightarrow> u8 list) \<Rightarrow> RxBuffer \<Rightarrow> u8 list option" where
  "RxBuffer_packet mem self = do {
     e \<leftarrow> usize_add (hdr_size (rx_legacy_header self)) (rx_packet_len self);
     slice_get (RxBuffer_as_bytes mem self) (hdr_size (rx_legacy_header self)) e
   }"

section \<open>The raw driver\<close>

record 't VirtIONetRaw =
  net_transport :: 't
  net_mac :: "u8 list"
  net_recv_queue :: VirtQueue
  net_send_queue :: VirtQueue
  net_legacy_header :: bool

text \<open>The field \<^verbatim>\<open>mac\<close> is an array of six bytes at offset 0, aligned to one byte.\<close>

definition read_mac :: "'t Transport \<Rightarrow> 't \<Rightarrow> (Error + u8 list) option" where
  "read_mac T t = read_config_space T t 6 1 0"

definition VirtIONetRaw_new ::
    "'t Transport \<Rightarrow> 'h dma_alloc \<Rightarrow> 'h dma_dealloc \<Rightarrow> (VirtQueueLayout \<Rightarrow> queue_memory) \<Rightarrow> nat \<Rightarrow>
     ('t \<times> 't \<times> 't) list \<Rightarrow> 't \<Rightarrow> 'h \<Rightarrow> ((Error + 't VirtIONetRaw) \<times> 't \<times> 'h) option" where
  "VirtIONetRaw_new T dma_alloc dma_dealloc mem QUEUE_SIZE gens transport h = do {
     (negotiated_features, t1) \<leftarrow> begin_init T net_Features_all transport net_SUPPORTED_FEATURES;
     c \<leftarrow> read_consistent (map (observe T (read_mac T)) gens);
     r \<leftarrow> c;
     (case r of
        Inl e \<Rightarrow> Some (Inl e, t1, h)
      | Inr mac \<Rightarrow> do {
          r2 \<leftarrow> read_config T t1 6;
          (case r2 of
             Inl e \<Rightarrow> Some (Inl e, t1, h)
           | Inr (status :: u16) \<Rightarrow> do {
               let new_queue = let_queue T dma_alloc dma_dealloc mem QUEUE_SIZE
                 (contains negotiated_features RING_INDIRECT_DESC) (contains negotiated_features RING_EVENT_IDX);
               new_queue [] QUEUE_TRANSMIT t1 h (\<lambda>send_queue t2 h2.
               new_queue [send_queue] QUEUE_RECEIVE t2 h2 (\<lambda>recv_queue t3 h3. do {
                 t4 \<leftarrow> finish_init T t3;
                 Some (Inr \<lparr>net_transport = t4, net_mac = mac, net_recv_queue = recv_queue, net_send_queue = send_queue,
                            net_legacy_header = (\<not> contains negotiated_features VERSION_1
                              \<and> \<not> contains negotiated_features net_MRG_RXBUF)\<rparr>, t4, h3)
               }))
             })
        })
   }"

definition net_ack_interrupt :: "'t Transport \<Rightarrow> 't VirtIONetRaw \<Rightarrow> (u32 \<times> 't VirtIONetRaw) option" where
  "net_ack_interrupt T self = do {
     (status, t) \<leftarrow> ack_interrupt T (net_transport self);
     Some (status, self\<lparr>net_transport := t\<rparr>)
   }"

definition net_disable_interrupts :: "'t VirtIONetRaw \<Rightarrow> 't VirtIONetRaw" where
  "net_disable_interrupts self = self\<lparr>net_send_queue := set_dev_notify (net_send_queue self) False,
     net_recv_queue := set_dev_notify (net_recv_queue self) False\<rparr>"

definition net_enable_interrupts :: "'t VirtIONetRaw \<Rightarrow> 't VirtIONetRaw" where
  "net_enable_interrupts self = self\<lparr>net_send_queue := set_dev_notify (net_send_queue self) True,
     net_recv_queue := set_dev_notify (net_recv_queue self) True\<rparr>"

definition net_can_send :: "'t VirtIONetRaw \<Rightarrow> bool" where
  "net_can_send self \<longleftrightarrow> available_desc (net_send_queue self) \<ge> 2"

definition check_rx_buf_len :: "slice \<Rightarrow> Error + unit" where
  "check_rx_buf_len rx_buf = (if sl_len rx_buf < MIN_BUFFER_LEN then Inl InvalidParam else Inr ())"

definition check_tx_buf_len :: "'t VirtIONetRaw \<Rightarrow> slice \<Rightarrow> Error + unit" where
  "check_tx_buf_len self tx_buf = (if sl_len tx_buf < hdr_size (net_legacy_header self) then Inl InvalidParam else Inr ())"

definition fill_buffer_header :: "'t VirtIONetRaw \<Rightarrow> u8 list \<Rightarrow> (Error + nat) \<times> u8 list" where
  "fill_buffer_header self buffer =
     (let n = hdr_size (net_legacy_header self) in
      if length buffer < n then (Inl InvalidParam, buffer)
      else (Inr n, default_header (net_legacy_header self) @ drop n buffer))"

definition transmit_begin :: "share \<Rightarrow> 't Transport \<Rightarrow> 't VirtIONetRaw \<Rightarrow> slice \<Rightarrow> ((Error + u16) \<times> 't VirtIONetRaw) option" where
  "transmit_begin share T self tx_buf =
     (case check_tx_buf_len self tx_buf of
        Inl e \<Rightarrow> Some (Inl e, self)
      | Inr _ \<Rightarrow> do {
          (r, q, calls) \<leftarrow> VirtQueue_add share 0 (net_send_queue self) [tx_buf] [];
          (case r of
             Inl e \<Rightarrow> Some (Inl e, self\<lparr>net_send_queue := q\<rparr>)
           | Inr token \<Rightarrow> do {
               t \<leftarrow> (if should_notify q then notify T (net_transport self) QUEUE_TRANSMIT else Some (net_transport self));
               Some (Inr token, self\<lparr>net_send_queue := q, net_transport := t\<rparr>)
             })
        })"

definition poll_transmit :: "'t VirtIONetRaw \<Rightarrow> u16 option option" where
  "poll_transmit self = peek_used (net_send_queue self)"

definition transmit_complete :: "'t VirtIONetRaw \<Rightarrow> u16 \<Rightarrow> slice \<Rightarrow> ((Error + nat) \<times> 't VirtIONetRaw) option" where
  "transmit_complete self token tx_buf = do {
     (r, q, calls) \<leftarrow> pop_used (net_send_queue self) token [tx_buf] [];
     Some (map_sum id unat r, self\<lparr>net_send_queue := q\<rparr>)
   }"

definition receive_begin :: "share \<Rightarrow> 't Transport \<Rightarrow> 't VirtIONetRaw \<Rightarrow> slice \<Rightarrow> ((Error + u16) \<times> 't VirtIONetRaw) option" where
  "receive_begin share T self rx_buf =
     (case check_rx_buf_len rx_buf of
        Inl e \<Rightarrow> Some (Inl e, self)
      | Inr _ \<Rightarrow> do {
          (r, q, calls) \<leftarrow> VirtQueue_add share 0 (net_recv_queue self) [] [rx_buf];
          (case r of
             Inl e \<Rightarrow> Some (Inl e, self\<lparr>net_recv_queue := q\<rparr>)
           | Inr token \<Rightarrow> do {
               t \<leftarrow> (if should_notify q then notify T (net_transport self) QUEUE_RECEIVE else Some (net_transport self));
               Some (Inr token, self\<lparr>net_recv_queue := q, net_transport := t\<rparr>)
             })
        })"

definition poll_receive :: "'t VirtIONetRaw \<Rightarrow> u16 option option" where
  "poll_receive self = peek_used (net_recv_queue self)"

definition receive_complete :: "'t VirtIONetRaw \<Rightarrow> u16 \<Rightarrow> slice \<Rightarrow> ((Error + nat \<times> nat) \<times> 't VirtIONetRaw) option" where
  "receive_complete self token rx_buf = do {
     (r, q, calls) \<leftarrow> pop_used (net_recv_queue self) token [] [rx_buf];
     Some (try_bind r (\<lambda>l. if unat l < hdr_size (net_legacy_header self) then Inl IoError
                            else Inr (hdr_size (net_legacy_header self), unat l - hdr_size (net_legacy_header self))),
           self\<lparr>net_recv_queue := q\<rparr>)
   }"

text \<open>The addresses of the header on the stack and of the caller's packet.\<close>

record net_env =
  ne_header :: u64
  ne_packet :: u64
  ne_wait :: wait_env

definition raw_send ::
    "share \<Rightarrow> 't Transport \<Rightarrow> net_env \<Rightarrow> 't VirtIONetRaw \<Rightarrow> u8 list \<Rightarrow> ((Error + unit) \<times> 't VirtIONetRaw \<times> u8 list list) option" where
  "raw_send share T env self tx_buf = do {
     let header = default_header (net_legacy_header self);
     let header_slice = \<lparr>sl_ptr = ne_header env, sl_len = length header\<rparr>;
     (r, q, t) \<leftarrow>
       (if tx_buf = [] then queue_request share T (ne_wait env) (net_send_queue self) (net_transport self) [header_slice] []
        else queue_request share T (ne_wait env) (net_send_queue self) (net_transport self)
               [header_slice, \<lparr>sl_ptr = ne_packet env, sl_len = length tx_buf\<rparr>] []);
     Some (map_sum id (\<lambda>_. ()) r, self\<lparr>net_send_queue := q, net_transport := t\<rparr>,
           case r of Inl e \<Rightarrow> [] | Inr _ \<Rightarrow> [header @ tx_buf])
   }"

text \<open>The loop of \<^verbatim>\<open>receive_wait\<close>; every iteration sees a used ring.\<close>

fun wait_poll_receive :: "UsedRing list \<Rightarrow> 't VirtIONetRaw \<Rightarrow> 't VirtIONetRaw option" where
  "wait_poll_receive [] self = None"
| "wait_poll_receive (u # us) self = do {
     let self1 = self\<lparr>net_recv_queue := (net_recv_queue self)\<lparr>used := u\<rparr>\<rparr>;
     p \<leftarrow> poll_receive self1;
     if p = None then wait_poll_receive us self else Some self1
   }"

definition receive_wait ::
    "share \<Rightarrow> 't Transport \<Rightarrow> UsedRing list \<Rightarrow> 't VirtIONetRaw \<Rightarrow> slice \<Rightarrow> ((Error + nat \<times> nat) \<times> 't VirtIONetRaw) option" where
  "receive_wait share T polls self rx_buf = do {
     (r, self1) \<leftarrow> receive_begin share T self rx_buf;
     (case r of
        Inl e \<Rightarrow> Some (Inl e, self1)
      | Inr token \<Rightarrow> do {
          self2 \<leftarrow> wait_poll_receive polls self1;
          receive_complete self2 token rx_buf
        })
   }"

definition VirtIONetRaw_drop :: "'t Transport \<Rightarrow> 't VirtIONetRaw \<Rightarrow> 't VirtIONetRaw option" where
  "VirtIONetRaw_drop T self = do {
     t1 \<leftarrow> queue_unset T (net_transport self) QUEUE_RECEIVE;
     t2 \<leftarrow> queue_unset T t1 QUEUE_TRANSMIT;
     Some (self\<lparr>net_transport := t2\<rparr>)
   }"

section \<open>The driver with receive buffers\<close>

record 't VirtIONet =
  net_inner :: "'t VirtIONetRaw"
  net_rx_buffers :: "RxBuffer option list"

text \<open>
  The loop of \<^verbatim>\<open>new\<close> over the places from \<open>i\<close> on; \<open>ptrs\<close> are the addresses the allocator returns. The buffers of an
  unfinished loop are dropped with the array.
\<close>

fun fill_rx_buffers ::
    "share \<Rightarrow> 't Transport \<Rightarrow> nat \<Rightarrow> nat \<Rightarrow> u64 list \<Rightarrow> 't VirtIONetRaw \<Rightarrow> ((Error + RxBuffer option list) \<times> 't VirtIONetRaw) option" where
  "fill_rx_buffers share T buf_len i [] inner = Some (Inr [], inner)"
| "fill_rx_buffers share T buf_len i (ptr # ptrs) inner = do {
     rx_buf \<leftarrow> RxBuffer_new ptr i buf_len (net_legacy_header inner);
     (r, inner1) \<leftarrow> receive_begin share T inner (as_bytes_mut rx_buf);
     (case r of
        Inl e \<Rightarrow> Some (Inl e, inner1)
      | Inr token \<Rightarrow> do {
          rust_assert (token = of_nat i);
          (r2, inner2) \<leftarrow> fill_rx_buffers share T buf_len (Suc i) ptrs inner1;
          Some (try_bind r2 (\<lambda>bufs. Inr (Some rx_buf # bufs)), inner2)
        })
   }"

definition VirtIONet_new ::
    "share \<Rightarrow> 't Transport \<Rightarrow> 'h dma_alloc \<Rightarrow> 'h dma_dealloc \<Rightarrow> (VirtQueueLayout \<Rightarrow> queue_memory) \<Rightarrow> nat \<Rightarrow> u64 list \<Rightarrow>
     ('t \<times> 't \<times> 't) list \<Rightarrow> 't \<Rightarrow> 'h \<Rightarrow> nat \<Rightarrow> ((Error + 't VirtIONet) \<times> 't \<times> 'h) option" where
  "VirtIONet_new share T dma_alloc dma_dealloc mem QUEUE_SIZE ptrs gens transport h buf_len = do {
     (r, t1, h1) \<leftarrow> VirtIONetRaw_new T dma_alloc dma_dealloc mem QUEUE_SIZE gens transport h;
     (case r of
        Inl e \<Rightarrow> Some (Inl e, t1, h1)
      | Inr inner \<Rightarrow> do {
          (r2, inner1) \<leftarrow> fill_rx_buffers share T buf_len 0 (take QUEUE_SIZE ptrs) inner;
          (case r2 of
             Inl e \<Rightarrow> do {
               inner2 \<leftarrow> VirtIONetRaw_drop T inner1;
               return_error dma_dealloc [net_recv_queue inner2, net_send_queue inner2] e (net_transport inner2) h1
             }
           | Inr rx_buffers \<Rightarrow> Some (Inr \<lparr>net_inner = inner1, net_rx_buffers = rx_buffers\<rparr>, net_transport inner1, h1))
        })
   }"

definition net_can_recv :: "'t VirtIONet \<Rightarrow> bool option" where
  "net_can_recv self = do { p \<leftarrow> poll_receive (net_inner self); Some (p \<noteq> None) }"

definition net_receive :: "'t VirtIONet \<Rightarrow> ((Error + RxBuffer) \<times> 't VirtIONet) option" where
  "net_receive self = do {
     p \<leftarrow> poll_receive (net_inner self);
     (case p of
        None \<Rightarrow> Some (Inl NotReady, self)
      | Some token \<Rightarrow> do {
          place \<leftarrow> idx (net_rx_buffers self) (unat token);
          (case place of
             None \<Rightarrow> Some (Inl WrongToken, self)
           | Some rx_buf \<Rightarrow> do {
               bufs \<leftarrow> upd (net_rx_buffers self) (unat token) None;
               let self1 = self\<lparr>net_rx_buffers := bufs\<rparr>;
               if token \<noteq> rx_idx rx_buf then Some (Inl WrongToken, self1)
               else do {
                 (r, inner1) \<leftarrow> receive_complete (net_inner self1) token (as_bytes_mut rx_buf);
                 Some (try_bind r (\<lambda>(_, pkt_len). Inr (set_packet_len rx_buf pkt_len)), self1\<lparr>net_inner := inner1\<rparr>)
               }
             })
        })
   }"

definition recycle_rx_buffer ::
    "share \<Rightarrow> 't Transport \<Rightarrow> 't VirtIONet \<Rightarrow> RxBuffer \<Rightarrow> ((Error + unit) \<times> 't VirtIONet) option" where
  "recycle_rx_buffer share T self rx_buf = do {
     (r, inner1) \<leftarrow> receive_begin share T (net_inner self) (as_bytes_mut rx_buf);
     let self1 = self\<lparr>net_inner := inner1\<rparr>;
     (case r of
        Inl e \<Rightarrow> Some (Inl e, self1)
      | Inr new_token \<Rightarrow> do {
          place \<leftarrow> idx (net_rx_buffers self1) (unat new_token);
          if place \<noteq> None then Some (Inl WrongToken, self1)
          else do {
            bufs \<leftarrow> upd (net_rx_buffers self1) (unat new_token) (Some (rx_buf\<lparr>rx_idx := new_token\<rparr>));
            Some (Inr (), self1\<lparr>net_rx_buffers := bufs\<rparr>)
          }
        })
   }"

definition new_tx_buffer :: "nat \<Rightarrow> u8 list" where
  "new_tx_buffer buf_len = replicate buf_len 0"

definition net_send ::
    "share \<Rightarrow> 't Transport \<Rightarrow> net_env \<Rightarrow> 't VirtIONet \<Rightarrow> u8 list \<Rightarrow> ((Error + unit) \<times> 't VirtIONet \<times> u8 list list) option" where
  "net_send share T env self tx_buf = do {
     (r, inner1, sent) \<leftarrow> raw_send share T env (net_inner self) tx_buf;
     Some (r, self\<lparr>net_inner := inner1\<rparr>, sent)
   }"

section \<open>Which buffers are with the device\<close>

definition rx_ok :: "bool \<Rightarrow> RxBuffer \<Rightarrow> bool" where
  "rx_ok legacy b \<longleftrightarrow> MIN_BUFFER_LEN \<le> 8 * rx_words b \<and> 8 * rx_words b < 2 ^ 32 \<and> rx_legacy_header b = legacy"

definition rx_requests :: "RxBuffer option list \<Rightarrow> request set" where
  "rx_requests bufs = {([of_nat i], [], [as_bytes_mut b]) | i b. i < length bufs \<and> bufs ! i = Some b}"

definition rx_holds :: "share \<Rightarrow> VirtQueue \<Rightarrow> RxBuffer option list \<Rightarrow> u16 list \<Rightarrow> request list \<Rightarrow> bool" where
  "rx_holds share q bufs free rs \<longleftrightarrow> vq_holds share q free rs \<and> distinct rs \<and> set rs = rx_requests bufs \<and> length bufs = SIZE q"

definition net_inv :: "share \<Rightarrow> 't VirtIONet \<Rightarrow> bool" where
  "net_inv share self \<longleftrightarrow> (\<exists>free rs. rx_holds share (net_recv_queue (net_inner self)) (net_rx_buffers self) free rs)
     \<and> (\<forall>i < length (net_rx_buffers self). \<forall>b. net_rx_buffers self ! i = Some b \<longrightarrow>
          rx_idx b = of_nat i \<and> rx_ok (net_legacy_header (net_inner self)) b)"

lemma rx_holds_size:
  assumes "rx_holds share q bufs free rs"
  shows "length bufs \<le> 32768" "size_ok (length bufs)" "length (used_ring (used q)) = length bufs"
  using assms size_ok_bound by (auto simp: rx_holds_def vq_holds_def vq_inv_def vq_wf_def)

lemma u16_index: "i < 32768 \<Longrightarrow> unat (of_nat i :: u16) = i"
  by (rule unat_of_nat_bound) simp

lemma rx_requests_iff:
  assumes "length bufs \<le> 32768"
  shows "r \<in> rx_requests bufs \<longleftrightarrow> (\<exists>t b. r = ([t], [], [as_bytes_mut b]) \<and> unat t < length bufs \<and> bufs ! unat t = Some b)"
proof
  assume "r \<in> rx_requests bufs"
  then obtain i b where "r = ([of_nat i], [], [as_bytes_mut b])" "i < length bufs" "bufs ! i = Some b" by (auto simp: rx_requests_def)
  with assms u16_index [of i] show "\<exists>t b. r = ([t], [], [as_bytes_mut b]) \<and> unat t < length bufs \<and> bufs ! unat t = Some b"
    by (intro exI [of _ "of_nat i"] exI [of _ b]) simp
next
  assume "\<exists>t b. r = ([t], [], [as_bytes_mut b]) \<and> unat t < length bufs \<and> bufs ! unat t = Some b"
  then obtain t b where "r = ([t], [], [as_bytes_mut b])" "unat t < length bufs" "bufs ! unat t = Some b" by blast
  then show "r \<in> rx_requests bufs" unfolding rx_requests_def by (intro CollectI exI [of _ "unat t"] exI [of _ b]) simp
qed

lemma rx_requests_token:
  assumes "length bufs \<le> 32768" "unat t < length bufs"
  shows "([t], [], [s]) \<in> rx_requests bufs \<longleftrightarrow> (\<exists>b. bufs ! unat t = Some b \<and> s = as_bytes_mut b)"
  using assms(2) by (auto simp: rx_requests_iff [OF assms(1)])

lemma rx_requests_take:
  assumes "length bufs \<le> 32768" "unat t < length bufs" "bufs ! unat t = Some b"
  shows "rx_requests (bufs[unat t := None]) = rx_requests bufs - {([t], [], [as_bytes_mut b])}"
  using assms(2,3) by (auto simp: rx_requests_iff assms(1) nth_list_update split: if_splits)

lemma rx_requests_put:
  assumes "length bufs \<le> 32768" "unat t < length bufs" "bufs ! unat t = None"
  shows "rx_requests (bufs[unat t := Some b]) = insert ([t], [], [as_bytes_mut b]) (rx_requests bufs)"
  using assms(2,3) by (auto simp: rx_requests_iff assms(1) nth_list_update split: if_splits) (metis option.distinct(1))

text \<open>The free descriptors are the empty places.\<close>

lemma rx_holds_flight:
  assumes "rx_holds share q bufs free rs"
  shows "flight_idx \<lparr>a_free = free, a_flight = map request_entry_of rs\<rparr> = concat (map fst rs)"
    "set (concat (map fst rs)) = of_nat ` {i. i < length bufs \<and> bufs ! i \<noteq> None}"
proof -
  show "flight_idx \<lparr>a_free = free, a_flight = map request_entry_of rs\<rparr> = concat (map fst rs)"
    by (simp add: request_entry_of_def o_def)
  have "set (concat (map fst rs)) = (\<Union>r \<in> rx_requests bufs. set (fst r))" using assms by (simp add: rx_holds_def)
  also have "\<dots> = of_nat ` {i. i < length bufs \<and> bufs ! i \<noteq> None}" by (auto simp: rx_requests_def) (metis list.set_intros(1))
  finally show "set (concat (map fst rs)) = of_nat ` {i. i < length bufs \<and> bufs ! i \<noteq> None}" .
qed

lemma rx_holds_free:
  assumes h: "rx_holds share q bufs free rs" and i: "i < length bufs" "bufs ! i = None"
  shows "free \<noteq> []" "unat (hd free) < length bufs" "bufs ! unat (hd free) = None"
proof -
  note sz = rx_holds_size [OF h] and f = rx_holds_flight [OF h]
  have v: "distinct (free @ concat (map fst rs))" "length free + length (concat (map fst rs)) = length bufs"
    "linked (desc_shadow q) (free_head q) free" "length (desc_shadow q) = length bufs"
    using h unfolding rx_holds_def vq_holds_def vq_inv_def f(1) by (simp_all del: distinct_append)
  let ?used = "{i. i < length bufs \<and> bufs ! i \<noteq> None}"
  have "distinct (concat (map fst rs))" using v(1) unfolding distinct_append by (elim conjE)
  then have c: "length (concat (map fst rs)) = card (set (concat (map fst rs)))" by (rule distinct_card [symmetric])
  have "card (set (concat (map fst rs))) \<le> card ?used" unfolding f(2) by (rule card_image_le) simp
  moreover have "?used \<subset> {..<length bufs}" using i by blast
  then have "card ?used < card {..<length bufs}" by (intro psubset_card_mono) simp
  ultimately have "length (concat (map fst rs)) < length bufs" unfolding c by (simp only: card_lessThan)
  then show ne: "free \<noteq> []" using v(2) by (cases free) simp_all
  show b: "unat (hd free) < length bufs" using linked_bound [OF v(3)] ne v(4) by simp
  have "hd free \<notin> of_nat ` ?used" using v(1) ne unfolding f(2) [symmetric] by (cases free) auto
  then show "bufs ! unat (hd free) = None" using b by force
qed

lemma rx_holds_used: "rx_holds share q bufs free rs \<Longrightarrow> length (used_ring u) = length bufs \<Longrightarrow> rx_holds share (q\<lparr>used := u\<rparr>) bufs free rs"
  using vq_inv_used by (fastforce simp: rx_holds_def vq_holds_def)

lemma rx_holds_add:
  assumes h: "rx_holds share q bufs free rs" and i: "i < length bufs" "bufs ! i = None" and b: "rx_ok legacy b"
  shows "\<exists>q' calls. VirtQueue_add share 0 q [] [as_bytes_mut b] = Some (Inr (hd free), q', calls)
    \<and> rx_holds share q' (bufs[unat (hd free) := Some (b\<lparr>rx_idx := hd free\<rparr>)]) (tl free) (rs @ [([hd free], [], [as_bytes_mut b])])"
proof -
  note F = rx_holds_free [OF h i] and sz = rx_holds_size [OF h]
  have l: "0 < sl_len (as_bytes_mut b)" "sl_len (as_bytes_mut b) < 2 ^ 32" using b by (auto simp: rx_ok_def as_bytes_mut_def MIN_BUFFER_LEN_def)
  have v: "vq_holds share q (hd free # tl free) rs" "1 \<le> SIZE q" using h i(1) F(1) by (simp_all add: rx_holds_def)
  obtain q' calls where A: "VirtQueue_add share 0 q [] [as_bytes_mut b] = Some (Inr (hd free), q', calls)"
    "vq_holds share q' (tl free) (rs @ [([hd free], [], [as_bytes_mut b])])" "SIZE q' = SIZE q"
    using vq.add_in_order [OF v(1) l v(2), of 0] by (auto simp: needed_one)
  have n: "([hd free], [], [as_bytes_mut b]) \<notin> set rs" using h F rx_requests_token [OF sz(1) F(2)] by (simp add: rx_holds_def)
  have "as_bytes_mut (b\<lparr>rx_idx := t\<rparr>) = as_bytes_mut b" for t by (simp add: as_bytes_mut_def)
  then have "rx_holds share q' (bufs[unat (hd free) := Some (b\<lparr>rx_idx := hd free\<rparr>)]) (tl free) (rs @ [([hd free], [], [as_bytes_mut b])])"
    using h n A(2,3) rx_requests_put [OF sz(1) F(2,3)] by (simp add: rx_holds_def)
  with A(1) show ?thesis by blast
qed

lemma rx_holds_pop:
  assumes h: "rx_holds share q bufs free rs" and t: "unat t < length bufs" "bufs ! unat t = Some b" and p: "peek_used q = Some (Some t)"
  shows "\<exists>q' calls. pop_used q t [] [as_bytes_mut b] = Some (Inr (next_used_len q), q', calls)
    \<and> rx_holds share q' (bufs[unat t := None]) (t # free) (remove1 ([t], [], [as_bytes_mut b]) rs)"
proof -
  note sz = rx_holds_size [OF h]
  have r: "([t], [], [as_bytes_mut b]) \<in> set rs" using h rx_requests_token [OF sz(1) t(1)] t(2) by (simp add: rx_holds_def)
  have v: "vq_holds share q free rs" using h by (simp add: rx_holds_def)
  obtain q' calls where A: "pop_used q t [] [as_bytes_mut b] = Some (Inr (next_used_len q), q', calls)"
    "vq_holds share q' (t # free) (remove1 ([t], [], [as_bytes_mut b]) rs)" "SIZE q' = SIZE q"
    using vq.pop_law [OF v r] p by auto
  have "rx_holds share q' (bufs[unat t := None]) (t # free) (remove1 ([t], [], [as_bytes_mut b]) rs)"
    using h A(2,3) rx_requests_take [OF sz(1) t] by (simp add: rx_holds_def)
  with A(1) show ?thesis by blast
qed

section \<open>The operations\<close>

lemma receive_begin_ok:
  assumes h: "rx_holds share (net_recv_queue self) bufs free rs" and i: "i < length bufs" "bufs ! i = None" and b: "rx_ok legacy b"
    and n: "notify_total T"
  shows "\<exists>q t rs'. receive_begin share T self (as_bytes_mut b) = Some (Inr (hd free), self\<lparr>net_recv_queue := q, net_transport := t\<rparr>)
    \<and> rx_holds share q (bufs[unat (hd free) := Some (b\<lparr>rx_idx := hd free\<rparr>)]) (tl free) rs'"
proof -
  obtain q calls where q: "VirtQueue_add share 0 (net_recv_queue self) [] [as_bytes_mut b] = Some (Inr (hd free), q, calls)"
    "rx_holds share q (bufs[unat (hd free) := Some (b\<lparr>rx_idx := hd free\<rparr>)]) (tl free) (rs @ [([hd free], [], [as_bytes_mut b])])"
    using rx_holds_add [OF h i b] by blast
  obtain t where "(if should_notify q then notify T (net_transport self) QUEUE_RECEIVE else Some (net_transport self)) = Some t"
    using notify_totalD [OF n] by (cases "should_notify q") auto
  moreover have "check_rx_buf_len (as_bytes_mut b) = Inr ()" using b by (simp add: check_rx_buf_len_def rx_ok_def as_bytes_mut_def)
  ultimately show ?thesis using q by (auto simp: receive_begin_def)
qed

definition rx_buffer_at :: "u64 list \<Rightarrow> nat \<Rightarrow> bool \<Rightarrow> nat \<Rightarrow> nat \<Rightarrow> RxBuffer" where
  "rx_buffer_at ptrs buf_len legacy i j =
     \<lparr>rx_ptr = ptrs ! j, rx_words = buf_len div 8, rx_packet_len = 0, rx_idx = of_nat (i + j), rx_legacy_header = legacy\<rparr>"

lemma fill_rx_buffers_ok:
  assumes "rx_holds share (net_recv_queue inner) (done @ replicate (length ptrs) None) (map of_nat [length done..<length done + length ptrs]) rs"
    and "MIN_BUFFER_LEN \<le> 8 * (buf_len div 8)" "8 * (buf_len div 8) < 2 ^ 32" "notify_total T"
  shows "\<exists>q t rs'. fill_rx_buffers share T buf_len (length done) ptrs inner =
      Some (Inr (map (\<lambda>j. Some (rx_buffer_at ptrs buf_len (net_legacy_header inner) (length done) j)) [0..<length ptrs]),
        inner\<lparr>net_recv_queue := q, net_transport := t\<rparr>)
    \<and> rx_holds share q (done @ map (\<lambda>j. Some (rx_buffer_at ptrs buf_len (net_legacy_header inner) (length done) j)) [0..<length ptrs]) [] rs'"
  using assms
proof (induction ptrs arbitrary: "done" inner rs)
  case Nil
  then show ?case by (intro exI [of _ "net_recv_queue inner"] exI [of _ "net_transport inner"] exI [of _ rs]) simp
next
  case (Cons p ptrs)
  let ?i = "length done" and ?lg = "net_legacy_header inner"
  let ?b = "\<lparr>rx_ptr = p, rx_words = buf_len div 8, rx_packet_len = 0, rx_idx = of_nat ?i, rx_legacy_header = ?lg\<rparr>"
  have sz: "?i < 32768" using rx_holds_size(1) [OF Cons.prems(1)] by simp
  have u: "[?i..<?i + length (p # ptrs)] = ?i # [Suc ?i..<Suc ?i + length ptrs]" by (simp add: upt_conv_Cons del: upt_Suc)
  have ok: "rx_ok ?lg ?b" using Cons.prems(2,3) by (simp add: rx_ok_def)
  obtain q t rs1 where A: "receive_begin share T inner (as_bytes_mut ?b) = Some (Inr (of_nat ?i), inner\<lparr>net_recv_queue := q, net_transport := t\<rparr>)"
    "rx_holds share q ((done @ [Some ?b]) @ replicate (length ptrs) None) (map of_nat [Suc ?i..<Suc ?i + length ptrs]) rs1"
    using receive_begin_ok [OF Cons.prems(1) _ _ ok Cons.prems(4), of ?i] sz unfolding u by (auto simp: u16_index)
  have l: "length (done @ [Some ?b]) = Suc ?i" by simp
  let ?in = "inner\<lparr>net_recv_queue := q, net_transport := t\<rparr>"
  let ?bufs = "map (\<lambda>j. Some (rx_buffer_at ptrs buf_len ?lg (Suc ?i) j)) [0..<length ptrs]"
  obtain q' t' rs' where B: "fill_rx_buffers share T buf_len (Suc ?i) ptrs ?in = Some (Inr ?bufs, ?in\<lparr>net_recv_queue := q', net_transport := t'\<rparr>)"
    "rx_holds share q' ((done @ [Some ?b]) @ ?bufs) [] rs'"
    using Cons.IH [of ?in "done @ [Some ?b]" rs1] A(2) Cons.prems(2-4) unfolding l by auto
  have M: "map (\<lambda>j. Some (rx_buffer_at (p # ptrs) buf_len ?lg ?i j)) [0..<length (p # ptrs)] = Some ?b # ?bufs"
    by (simp add: upt_conv_Cons map_Suc_upt [symmetric] rx_buffer_at_def ac_simps del: upt_Suc)
  have "fill_rx_buffers share T buf_len ?i (p # ptrs) inner = Some (Inr (Some ?b # ?bufs), inner\<lparr>net_recv_queue := q', net_transport := t'\<rparr>)"
    using A(1) B(1) sz by (simp add: RxBuffer_new_def panic_simps)
  with B(2) show ?case unfolding M by auto
qed

text \<open>
  The device returns a buffer that it was given, and the length it reports covers the header and fits into the buffer.
\<close>

definition net_device_ok :: "'t VirtIONet \<Rightarrow> bool" where
  "net_device_ok self \<longleftrightarrow>
     (case poll_receive (net_inner self) of
        Some (Some t) \<Rightarrow> unat t < length (net_rx_buffers self)
          \<and> (case net_rx_buffers self ! unat t of
               None \<Rightarrow> False
             | Some b \<Rightarrow> hdr_size (net_legacy_header (net_inner self)) \<le> unat (next_used_len (net_recv_queue (net_inner self)))
                 \<and> unat (next_used_len (net_recv_queue (net_inner self))) \<le> 8 * rx_words b)
      | _ \<Rightarrow> True)"

definition rx_places :: "'t VirtIONet \<Rightarrow> nat set" where
  "rx_places self = {i. i < length (net_rx_buffers self) \<and> net_rx_buffers self ! i = None}"

lemma net_poll_total:
  assumes "net_inv share self"
  shows "\<exists>p. poll_receive (net_inner self) = Some p"
proof -
  obtain free rs where h: "rx_holds share (net_recv_queue (net_inner self)) (net_rx_buffers self) free rs"
    using assms by (auto simp: net_inv_def)
  have sz: "size_ok (SIZE (net_recv_queue (net_inner self)))" using rx_holds_size(2) [OF h] h by (simp add: rx_holds_def)
  have "slot (net_recv_queue (net_inner self)) i < length (used_ring (used (net_recv_queue (net_inner self))))" for i
    using slot_bound [OF sz] rx_holds_size(3) [OF h] h by (simp add: rx_holds_def)
  then show ?thesis by (simp add: poll_receive_def peek_used_def panic_simps)
qed

lemma net_receive_ok:
  assumes inv: "net_inv share self" and dev: "net_device_ok self" and p: "poll_receive (net_inner self) = Some (Some t)"
  shows "\<exists>b q. net_rx_buffers self ! unat t = Some b \<and> unat t < length (net_rx_buffers self) \<and> rx_ok (net_legacy_header (net_inner self)) b
    \<and> net_receive self = Some (Inr (set_packet_len b (unat (next_used_len (net_recv_queue (net_inner self))) - hdr_size (net_legacy_header (net_inner self)))),
        self\<lparr>net_inner := (net_inner self)\<lparr>net_recv_queue := q\<rparr>, net_rx_buffers := (net_rx_buffers self)[unat t := None]\<rparr>)
    \<and> net_inv share (self\<lparr>net_inner := (net_inner self)\<lparr>net_recv_queue := q\<rparr>, net_rx_buffers := (net_rx_buffers self)[unat t := None]\<rparr>)"
proof -
  obtain free rs where h: "rx_holds share (net_recv_queue (net_inner self)) (net_rx_buffers self) free rs"
    using inv by (auto simp: net_inv_def)
  obtain b where b: "unat t < length (net_rx_buffers self)" "net_rx_buffers self ! unat t = Some b"
    "hdr_size (net_legacy_header (net_inner self)) \<le> unat (next_used_len (net_recv_queue (net_inner self)))"
    using dev p by (auto simp: net_device_ok_def split: option.splits)
  have i: "rx_idx b = t" "rx_ok (net_legacy_header (net_inner self)) b" using inv b(1,2) by (auto simp: net_inv_def)
  obtain q calls where q: "pop_used (net_recv_queue (net_inner self)) t [] [as_bytes_mut b] = Some (Inr (next_used_len (net_recv_queue (net_inner self))), q, calls)"
    "rx_holds share q ((net_rx_buffers self)[unat t := None]) (t # free) (remove1 ([t], [], [as_bytes_mut b]) rs)"
    using rx_holds_pop [OF h b(1,2)] p by (auto simp: poll_receive_def)
  have "net_receive self = Some (Inr (set_packet_len b (unat (next_used_len (net_recv_queue (net_inner self))) - hdr_size (net_legacy_header (net_inner self)))),
      self\<lparr>net_inner := (net_inner self)\<lparr>net_recv_queue := q\<rparr>, net_rx_buffers := (net_rx_buffers self)[unat t := None]\<rparr>)"
    using p b i(1) q(1) by (simp add: net_receive_def receive_complete_def panic_simps)
  moreover have "net_inv share (self\<lparr>net_inner := (net_inner self)\<lparr>net_recv_queue := q\<rparr>, net_rx_buffers := (net_rx_buffers self)[unat t := None]\<rparr>)"
    using inv q(2) b(1) by (auto simp: net_inv_def nth_list_update split: if_splits)
  ultimately show ?thesis using b(1,2) i(2) by blast
qed

lemma recycle_rx_buffer_ok:
  assumes inv: "net_inv share self" and i: "i \<in> rx_places self" and b: "rx_ok (net_legacy_header (net_inner self)) b" and n: "notify_total T"
  shows "\<exists>token q t. unat token \<in> rx_places self
    \<and> recycle_rx_buffer share T self b = Some (Inr (), self\<lparr>net_inner := (net_inner self)\<lparr>net_recv_queue := q, net_transport := t\<rparr>,
        net_rx_buffers := (net_rx_buffers self)[unat token := Some (b\<lparr>rx_idx := token\<rparr>)]\<rparr>)
    \<and> net_inv share (self\<lparr>net_inner := (net_inner self)\<lparr>net_recv_queue := q, net_transport := t\<rparr>,
        net_rx_buffers := (net_rx_buffers self)[unat token := Some (b\<lparr>rx_idx := token\<rparr>)]\<rparr>)"
proof -
  obtain free rs where h: "rx_holds share (net_recv_queue (net_inner self)) (net_rx_buffers self) free rs"
    using inv by (auto simp: net_inv_def)
  have i': "i < length (net_rx_buffers self)" "net_rx_buffers self ! i = None" using i by (simp_all add: rx_places_def)
  note F = rx_holds_free [OF h i']
  obtain q t rs' where A: "receive_begin share T (net_inner self) (as_bytes_mut b) = Some (Inr (hd free), (net_inner self)\<lparr>net_recv_queue := q, net_transport := t\<rparr>)"
    "rx_holds share q ((net_rx_buffers self)[unat (hd free) := Some (b\<lparr>rx_idx := hd free\<rparr>)]) (tl free) rs'"
    using receive_begin_ok [OF h i' b n] by blast
  have "recycle_rx_buffer share T self b = Some (Inr (), self\<lparr>net_inner := (net_inner self)\<lparr>net_recv_queue := q, net_transport := t\<rparr>,
        net_rx_buffers := (net_rx_buffers self)[unat (hd free) := Some (b\<lparr>rx_idx := hd free\<rparr>)]\<rparr>)"
    using A(1) F by (simp add: recycle_rx_buffer_def panic_simps)
  moreover have "net_inv share (self\<lparr>net_inner := (net_inner self)\<lparr>net_recv_queue := q, net_transport := t\<rparr>,
        net_rx_buffers := (net_rx_buffers self)[unat (hd free) := Some (b\<lparr>rx_idx := hd free\<rparr>)]\<rparr>)"
    using inv A(2) b F(2) by (auto simp: net_inv_def nth_list_update rx_ok_def split: if_splits)
  ultimately show ?thesis using F by (auto simp: rx_places_def)
qed

section \<open>Buffers between driver, device and client\<close>

text \<open>
  A run of the driver: the device may change the used ring at any time, the client receives, gives buffers back in any order and
  sends. \<open>held\<close> are the buffers the client has.
\<close>

inductive net_run :: "share \<Rightarrow> 't Transport \<Rightarrow> nat \<Rightarrow> 't VirtIONet \<Rightarrow> RxBuffer list \<Rightarrow> bool" for share T n where
  start: "\<lbrakk>net_inv share self; rx_places self = {}; length (net_rx_buffers self) = n\<rbrakk> \<Longrightarrow> net_run share T n self []"
| device: "\<lbrakk>net_run share T n self held; length (used_ring u) = n\<rbrakk> \<Longrightarrow>
    net_run share T n (self\<lparr>net_inner := (net_inner self)\<lparr>net_recv_queue := (net_recv_queue (net_inner self))\<lparr>used := u\<rparr>\<rparr>\<rparr>) held"
| receive: "\<lbrakk>net_run share T n self held; net_device_ok self; net_receive self = Some (r, self')\<rbrakk> \<Longrightarrow>
    net_run share T n self' (case r of Inl _ \<Rightarrow> held | Inr b \<Rightarrow> b # held)"
| recycle: "\<lbrakk>net_run share T n self held; b \<in> set held; recycle_rx_buffer share T self b = Some (r, self')\<rbrakk> \<Longrightarrow>
    net_run share T n self' (remove1 b held)"
| send: "\<lbrakk>net_run share T n self held; net_send share T env self tx_buf = Some (r, self', sent)\<rbrakk> \<Longrightarrow> net_run share T n self' held"

definition net_run_inv :: "share \<Rightarrow> nat \<Rightarrow> 't VirtIONet \<Rightarrow> RxBuffer list \<Rightarrow> bool" where
  "net_run_inv share n self held \<longleftrightarrow> net_inv share self \<and> length (net_rx_buffers self) = n \<and> card (rx_places self) = length held
     \<and> (\<forall>b \<in> set held. rx_ok (net_legacy_header (net_inner self)) b)"

lemma finite_rx_places [simp]: "finite (rx_places self)"
  by (simp add: rx_places_def)

lemma rx_places_inner [simp]: "rx_places (self\<lparr>net_inner := x\<rparr>) = rx_places self"
  by (simp add: rx_places_def)

lemma net_run_inv_receive:
  assumes "net_run_inv share n self held" "net_device_ok self" "net_receive self = Some (r, self')"
  shows "net_run_inv share n self' (case r of Inl _ \<Rightarrow> held | Inr b \<Rightarrow> b # held)"
proof -
  have inv: "net_inv share self" using assms(1) by (simp add: net_run_inv_def)
  obtain p where p: "poll_receive (net_inner self) = Some p" using net_poll_total [OF inv] by blast
  show ?thesis
  proof (cases p)
    case None
    with assms p show ?thesis by (auto simp: net_receive_def)
  next
    case (Some t)
    obtain b q where b: "net_rx_buffers self ! unat t = Some b" "unat t < length (net_rx_buffers self)" "rx_ok (net_legacy_header (net_inner self)) b"
      "\<exists>l. r = Inr (set_packet_len b l)" "self' = self\<lparr>net_inner := (net_inner self)\<lparr>net_recv_queue := q\<rparr>, net_rx_buffers := (net_rx_buffers self)[unat t := None]\<rparr>"
      "net_inv share self'"
      using net_receive_ok [OF inv assms(2) p [unfolded Some]] assms(3) by auto
    have "rx_places self' = insert (unat t) (rx_places self)" "unat t \<notin> rx_places self"
      using b(1,2) by (auto simp: rx_places_def b(5) nth_list_update)
    then show ?thesis using b(3,4,6) assms(1) by (auto simp: net_run_inv_def b(5) rx_ok_def set_packet_len_def)
  qed
qed

lemma net_run_inv_recycle:
  assumes "net_run_inv share n self held" "b \<in> set held" "notify_total T"
  shows "\<exists>self'. recycle_rx_buffer share T self b = Some (Inr (), self') \<and> net_run_inv share n self' (remove1 b held)"
proof -
  have inv: "net_inv share self" "rx_ok (net_legacy_header (net_inner self)) b" using assms(1,2) by (simp_all add: net_run_inv_def)
  have "card (rx_places self) \<noteq> 0" using assms(1,2) by (auto simp: net_run_inv_def)
  then obtain i where "i \<in> rx_places self" by fastforce
  from recycle_rx_buffer_ok [OF inv(1) this inv(2) assms(3)] obtain token q t where
    R: "unat token \<in> rx_places self" "recycle_rx_buffer share T self b = Some (Inr (), self\<lparr>net_inner := (net_inner self)\<lparr>net_recv_queue := q, net_transport := t\<rparr>,
        net_rx_buffers := (net_rx_buffers self)[unat token := Some (b\<lparr>rx_idx := token\<rparr>)]\<rparr>)"
      "net_inv share (self\<lparr>net_inner := (net_inner self)\<lparr>net_recv_queue := q, net_transport := t\<rparr>,
        net_rx_buffers := (net_rx_buffers self)[unat token := Some (b\<lparr>rx_idx := token\<rparr>)]\<rparr>)" by blast
  let ?self' = "self\<lparr>net_inner := (net_inner self)\<lparr>net_recv_queue := q, net_transport := t\<rparr>,
        net_rx_buffers := (net_rx_buffers self)[unat token := Some (b\<lparr>rx_idx := token\<rparr>)]\<rparr>"
  have "rx_places ?self' = rx_places self - {unat token}" using R(1) by (auto simp: rx_places_def nth_list_update split: if_splits)
  then have "card (rx_places ?self') = length (remove1 b held)" using R(1) assms(1,2) by (simp add: net_run_inv_def length_remove1)
  moreover have "set (remove1 b held) \<subseteq> set held" by (rule set_remove1_subset)
  ultimately have "net_run_inv share n ?self' (remove1 b held)" using R(3) assms(1) by (auto simp: net_run_inv_def)
  with R(2) show ?thesis by blast
qed

lemma net_send_frame:
  assumes "net_send share T env self tx_buf = Some (r, self', sent)"
  shows "\<exists>q t. self' = self\<lparr>net_inner := (net_inner self)\<lparr>net_send_queue := q, net_transport := t\<rparr>\<rparr>"
  using assms by (auto simp: net_send_def raw_send_def Let_def bind_eq_Some_conv split: if_splits)

lemma net_inv_used:
  assumes "net_inv share self" "length (used_ring u) = length (net_rx_buffers self)"
  shows "net_inv share (self\<lparr>net_inner := (net_inner self)\<lparr>net_recv_queue := (net_recv_queue (net_inner self))\<lparr>used := u\<rparr>\<rparr>\<rparr>)"
proof -
  obtain free rs where "rx_holds share (net_recv_queue (net_inner self)) (net_rx_buffers self) free rs" using assms(1) by (auto simp: net_inv_def)
  from rx_holds_used [OF this assms(2)] assms(1) show ?thesis unfolding net_inv_def by auto
qed

lemma net_run_invariant:
  assumes "net_run share T n self held" "notify_total T"
  shows "net_run_inv share n self held"
  using assms
proof (induction rule: net_run.induct)
  case (start self)
  then show ?case by (simp add: net_run_inv_def)
next
  case (device self held u)
  then show ?case using net_inv_used [of share self u] by (simp add: net_run_inv_def)
next
  case (receive self held r self')
  then show ?case by (intro net_run_inv_receive)
next
  case (recycle self held b r self')
  then show ?case using net_run_inv_recycle [of share n self held b T] by auto
next
  case (send self held env tx_buf r self' sent)
  obtain q t where "self' = self\<lparr>net_inner := (net_inner self)\<lparr>net_send_queue := q, net_transport := t\<rparr>\<rparr>" using net_send_frame [OF send(2)] by blast
  with send show ?case by (simp add: net_run_inv_def net_inv_def)
qed

section \<open>Properties\<close>


text \<open>A driver of four buffers of 2048 bytes, after the device has returned the third with 112 bytes.\<close>

definition sample_net_raw :: "nat VirtIONetRaw" where
  "sample_net_raw = \<lparr>net_transport = 0, net_mac = [2, 0, 0, 0, 0, 1], net_recv_queue = zeroed_queue sample_layout 4 0 False False,
     net_send_queue = zeroed_queue sample_layout 4 1 False False, net_legacy_header = False\<rparr>"

definition sample_net_used :: "VirtQueue \<Rightarrow> UsedRing" where
  "sample_net_used q = \<lparr>used_flags = 0, used_ring_idx = last_used_idx q + 1, used_ring = replicate 4 \<lparr>elem_id = 2, elem_len = 112\<rparr>, avail_event = 0\<rparr>"

lemma vq_holds_new: "vq_inv share q (abs_new n) \<Longrightarrow> SIZE q = n \<Longrightarrow> rx_holds share q (replicate n None) (map of_nat [0..<n]) []"
  by (auto simp: rx_holds_def vq_holds_def abs_new_def rx_requests_def)

lemma sample_net_ok:
  "\<exists>q t. fill_rx_buffers sample_share sample_transport_impl 2048 0 [8192, 12288, 16384, 20480] sample_net_raw =
      Some (Inr (map (\<lambda>j. Some (rx_buffer_at [8192, 12288, 16384, 20480] 2048 False 0 j)) [0..<4]), sample_net_raw\<lparr>net_recv_queue := q, net_transport := t\<rparr>)
    \<and> net_run sample_share sample_transport_impl 4 \<lparr>net_inner = sample_net_raw\<lparr>net_recv_queue := q\<lparr>used := sample_net_used q\<rparr>, net_transport := t\<rparr>,
        net_rx_buffers = map (\<lambda>j. Some (rx_buffer_at [8192, 12288, 16384, 20480] 2048 False 0 j)) [0..<4]\<rparr> []
    \<and> net_device_ok \<lparr>net_inner = sample_net_raw\<lparr>net_recv_queue := q\<lparr>used := sample_net_used q\<rparr>, net_transport := t\<rparr>,
        net_rx_buffers = map (\<lambda>j. Some (rx_buffer_at [8192, 12288, 16384, 20480] 2048 False 0 j)) [0..<4]\<rparr>
    \<and> peek_used (q\<lparr>used := sample_net_used q\<rparr>) = Some (Some 2) \<and> next_used_len (q\<lparr>used := sample_net_used q\<rparr>) = 112"
proof -
  let ?ptrs = "[8192, 12288, 16384, 20480] :: u64 list"
  let ?bufs = "map (\<lambda>j. Some (rx_buffer_at ?ptrs 2048 False 0 j)) [0..<4]"
  have n: "notify_total sample_transport_impl" by (simp add: notify_total_def sample_transport_impl_def)
  have l: "length ?ptrs = 4" and lg: "net_legacy_header sample_net_raw = False" by (simp_all add: sample_net_raw_def)
  have m: "MIN_BUFFER_LEN \<le> 8 * (2048 div 8)" "8 * (2048 div 8) < (2 :: nat) ^ 32" by (simp_all add: MIN_BUFFER_LEN_def)
  have h: "rx_holds sample_share (net_recv_queue sample_net_raw) ([] @ replicate (length ?ptrs) None) (map of_nat [length []..<length [] + length ?ptrs]) []"
    unfolding l append_Nil list.size(3) add_0 using vq_holds_new [OF zeroed_queue_inv(1) [OF size_ok_4, of sample_share sample_layout 0 False False]]
    by (simp add: sample_net_raw_def)
  obtain q t rs where f: "fill_rx_buffers sample_share sample_transport_impl 2048 0 ?ptrs sample_net_raw = Some (Inr ?bufs, sample_net_raw\<lparr>net_recv_queue := q, net_transport := t\<rparr>)"
    "rx_holds sample_share q ?bufs [] rs"
    using fill_rx_buffers_ok [OF h m n, unfolded lg l append_Nil list.size(3)] by blast
  let ?self = "\<lparr>net_inner = sample_net_raw\<lparr>net_recv_queue := q, net_transport := t\<rparr>, net_rx_buffers = ?bufs\<rparr>"
  have "net_inv sample_share ?self" using f(2)
    by (auto simp: net_inv_def rx_buffer_at_def rx_ok_def MIN_BUFFER_LEN_def sample_net_raw_def)
  moreover have "rx_places ?self = {}" by (auto simp: rx_places_def)
  ultimately have "net_run sample_share sample_transport_impl 4 ?self []" by (intro net_run.start) simp_all
  from net_run.device [OF this, of "sample_net_used q"]
  have r: "net_run sample_share sample_transport_impl 4 (?self\<lparr>net_inner := (net_inner ?self)\<lparr>net_recv_queue := q\<lparr>used := sample_net_used q\<rparr>\<rparr>\<rparr>) []"
    by (simp add: sample_net_used_def)
  have sz: "SIZE q = 4" using f(2) by (simp add: rx_holds_def)
  have "slot (q\<lparr>used := sample_net_used q\<rparr>) (last_used_idx q) < 4"
    using slot_bound [of "q\<lparr>used := sample_net_used q\<rparr>"] sz size_ok_4 by simp
  then have "peek_used (q\<lparr>used := sample_net_used q\<rparr>) = Some (Some 2)" "next_used_len (q\<lparr>used := sample_net_used q\<rparr>) = 112"
    unfolding sample_net_used_def by (simp_all add: peek_used_def next_used_len_def can_pop_def panic_simps)
  with f(1) r show ?thesis
    by (intro exI [of _ q] exI [of _ t]) (simp add: net_device_ok_def poll_receive_def hdr_size_def rx_buffer_at_def sample_net_raw_def)
qed


section \<open>From one driver to another\<close>

lemma default_header_eq: "default_header legacy = replicate (hdr_size legacy) 0"
  by (simp add: default_header_def hdr_size_def VirtioNetHdr_as_bytes_def VirtioNetHdrLegacy_as_bytes_def VirtioNetHdr_default_def VirtioNetHdr_from_def
      VirtioNetHdrLegacy_default_def VirtioNetHdrLegacy.defs to_le_def numeral_eq_Suc)

lemma raw_send_ok:
  assumes q: "idle share (net_send_queue self)" "2 \<le> SIZE (net_send_queue self)" and a: "answered (we_polls (ne_wait env)) (net_send_queue self) l"
    and n: "notify_total T" and tx: "length tx_buf < 2 ^ 32"
  shows "\<exists>q t. raw_send share T env self tx_buf = Some (Inr (), self\<lparr>net_send_queue := q, net_transport := t\<rparr>,
      [replicate (hdr_size (net_legacy_header self)) 0 @ tx_buf]) \<and> idle share q"
proof -
  let ?h = "\<lparr>sl_ptr = ne_header env, sl_len = length (default_header (net_legacy_header self))\<rparr>"
  let ?ins = "if tx_buf = [] then [?h] else [?h, \<lparr>sl_ptr = ne_packet env, sl_len = length tx_buf\<rparr>]"
  have "\<forall>b \<in> set (?ins @ []). 0 < sl_len b \<and> sl_len b < 2 ^ 32" "0 < length ?ins + length ([] :: slice list)"
    "length ?ins + length ([] :: slice list) \<le> SIZE (net_send_queue self)"
    using tx q(2) by (auto simp: default_header_eq hdr_size_def)
  from queue_request_ok [OF q(1) this a n] obtain q' t where
    "queue_request share T (ne_wait env) (net_send_queue self) (net_transport self) ?ins [] = Some (Inr l, q', t)" "idle share q'" by blast
  then show ?thesis by (auto simp: raw_send_def default_header_eq Let_def split: if_splits)
qed

lemma received_packet:
  assumes inv: "net_inv share self" and dev: "net_device_ok self" and p: "poll_receive (net_inner self) = Some (Some t)" and mem: "\<And>p n. length (mem p n) = n"
  shows "\<exists>b self'. net_receive self = Some (Inr b, self') \<and> net_inv share self' \<and> net_rx_buffers self ! unat t = Some (b\<lparr>rx_packet_len := rx_packet_len (the (net_rx_buffers self ! unat t))\<rparr>)
    \<and> RxBuffer_packet mem b = Some (take (unat (next_used_len (net_recv_queue (net_inner self))) - hdr_size (net_legacy_header (net_inner self)))
        (drop (hdr_size (net_legacy_header (net_inner self))) (RxBuffer_as_bytes mem b)))"
proof -
  let ?l = "unat (next_used_len (net_recv_queue (net_inner self)))" and ?h = "hdr_size (net_legacy_header (net_inner self))"
  obtain b q where b: "net_rx_buffers self ! unat t = Some b" "rx_ok (net_legacy_header (net_inner self)) b"
    "net_receive self = Some (Inr (set_packet_len b (?l - ?h)),
        self\<lparr>net_inner := (net_inner self)\<lparr>net_recv_queue := q\<rparr>, net_rx_buffers := (net_rx_buffers self)[unat t := None]\<rparr>)"
    "net_inv share (self\<lparr>net_inner := (net_inner self)\<lparr>net_recv_queue := q\<rparr>, net_rx_buffers := (net_rx_buffers self)[unat t := None]\<rparr>)"
    using net_receive_ok [OF inv dev p] by blast
  have "?h \<le> ?l" "?l \<le> 8 * rx_words b" using dev p b(1) by (simp_all add: net_device_ok_def)
  moreover have "?l < 2 ^ 64" using unsigned_less [of "next_used_len (net_recv_queue (net_inner self))", where 'a = nat] by simp
  ultimately have "RxBuffer_packet mem (set_packet_len b (?l - ?h)) = Some (take (?l - ?h) (drop ?h (RxBuffer_as_bytes mem (set_packet_len b (?l - ?h)))))"
    using b(2) by (simp add: RxBuffer_packet_def set_packet_len_def RxBuffer_as_bytes_def rx_ok_def mem panic_simps)
  with b show ?thesis by (simp add: set_packet_len_def)
qed


definition sample_net_env :: net_env where
  "sample_net_env = \<lparr>ne_header = 512, ne_packet = 1024, ne_wait = \<lparr>we_box = 0, we_polls = [\<lparr>used_flags = 0, used_ring_idx = 1,
     used_ring = replicate 4 \<lparr>elem_id = 0, elem_len = 0\<rparr>, avail_event = 0\<rparr>]\<rparr>\<rparr>"


end
