(* ===== verification/Page_Tables.thy ===== *)
theory Page_Tables
  imports Frame_Allocator_Correctness
begin

text \<open>
  The page tables of an address space (\<^verbatim>\<open>kernel/src/memory/pages.rs\<close>). A page and a frame are their numbers,
  the address divided by 4096. The tables live in page frames: \<open>pt_tables\<close> gives the entries of the table
  in a frame, and the frame allocator is the one of \<^verbatim>\<open>frames.rs\<close>. What a free frame holds belongs to the
  allocator, and no claim is made about it.

  The format of an entry belongs to the crate \<^verbatim>\<open>x86_64\<close>, so the operations on entries are the argument
  \<open>E\<close>, and \<open>page_table_entry\<close> is what their documentation promises.
\<close>

section \<open>Pages\<close>

datatype MemorySpace = Kernel | User

record PageRange =
  pr_start :: nat
  pr_end :: nat

text \<open>The address of a page is canonical.\<close>

definition page_ok :: "nat \<Rightarrow> bool" where
  "page_ok p \<longleftrightarrow> p < 2 ^ 35 \<or> 2 ^ 52 - 2 ^ 35 \<le> p \<and> p < 2 ^ 52"

definition page_add :: "nat \<Rightarrow> nat \<Rightarrow> nat option" where
  "page_add p n = (if page_ok (p + n) then Some (p + n) else None)"

definition page_sub :: "nat \<Rightarrow> nat \<Rightarrow> nat option" where
  "page_sub a b = (if b \<le> a then Some (a - b) else None)"

text \<open>\<^verbatim>\<open>page_from_u64\<close> panics for an address that is not canonical, and fails for one that is not aligned.\<close>

definition page_from_u64 :: "u64 \<Rightarrow> (unit + nat) option" where
  "page_from_u64 addr = do {
     rust_assert (page_ok (unat addr div 4096));
     Some (if unat addr mod 4096 = 0 then Inr (unat addr div 4096) else Inl ())
   }"

definition page_table_index :: "nat \<Rightarrow> nat \<Rightarrow> nat" where
  "page_table_index page level = page div 2 ^ ((level - 1) * 9) mod 2 ^ 16 mod 512"

section \<open>Entries\<close>

record 'e entry_ops =
  pte_zero :: 'e
  pte_is_unused :: "'e \<Rightarrow> bool"
  pte_addr :: "'e \<Rightarrow> nat"
  pte_flags :: "'e \<Rightarrow> u64"
  pte_set_addr :: "nat \<Rightarrow> u64 \<Rightarrow> 'e"
  pte_set_frame :: "nat \<Rightarrow> u64 \<Rightarrow> 'e option"
  pte_set_flags :: "u64 \<Rightarrow> 'e \<Rightarrow> 'e"

definition PRESENT :: u64 where "PRESENT = 1"
definition WRITABLE :: u64 where "WRITABLE = 2"
definition USER_ACCESSIBLE :: u64 where "USER_ACCESSIBLE = 4"
definition HUGE_PAGE :: u64 where "HUGE_PAGE = 128"

text \<open>No flag is one of the address bits of an entry, which are those from 12 to 51.\<close>

definition ADDR_MASK :: u64 where "ADDR_MASK = push_bit 12 (mask 40)"

definition valid_flags :: "u64 \<Rightarrow> bool" where
  "valid_flags f \<longleftrightarrow> f AND ADDR_MASK = 0"

locale page_table_entry =
  fixes E :: "'e entry_ops"
  assumes unused_iff: "pte_is_unused E e \<longleftrightarrow> pte_addr E e = 0 \<and> pte_flags E e = 0"
    and zero_entry: "pte_addr E (pte_zero E) = 0" "pte_flags E (pte_zero E) = 0"
    and addr_bound: "pte_addr E e < 2 ^ 40"
    and flags_valid: "valid_flags (pte_flags E e)"
    and set_addr_addr: "a < 2 ^ 40 \<Longrightarrow> valid_flags f \<Longrightarrow> pte_addr E (pte_set_addr E a f) = a"
    and set_addr_flags: "a < 2 ^ 40 \<Longrightarrow> valid_flags f \<Longrightarrow> pte_flags E (pte_set_addr E a f) = f"
    and set_frame_set_addr: "f AND HUGE_PAGE = 0 \<Longrightarrow> pte_set_frame E a f = Some (pte_set_addr E a f)"
    and set_flags_addr: "valid_flags f \<Longrightarrow> pte_addr E (pte_set_flags E f e) = pte_addr E e"
    and set_flags_flags: "valid_flags f \<Longrightarrow> pte_flags E (pte_set_flags E f e) = f"
begin

lemma unused_zero: "pte_is_unused E (pte_zero E)"
  by (simp add: unused_iff zero_entry)

lemma unused_addr: "pte_is_unused E e \<Longrightarrow> pte_addr E e = 0"
  by (simp add: unused_iff)

lemma set_addr_used: "a < 2 ^ 40 \<Longrightarrow> valid_flags f \<Longrightarrow> a \<noteq> 0 \<or> f \<noteq> 0 \<Longrightarrow> \<not> pte_is_unused E (pte_set_addr E a f)"
  by (simp add: unused_iff set_addr_addr set_addr_flags)

end

text \<open>Entries in the format of the hardware.\<close>

definition x86_entry :: "u64 entry_ops" where
  "x86_entry = \<lparr>pte_zero = 0, pte_is_unused = (\<lambda>e. e = 0), pte_addr = (\<lambda>e. unat (take_bit 40 (drop_bit 12 e))),
     pte_flags = (\<lambda>e. e AND NOT ADDR_MASK), pte_set_addr = (\<lambda>a f. push_bit 12 (of_nat a) OR f),
     pte_set_frame = (\<lambda>a f. if f AND HUGE_PAGE \<noteq> 0 then None else Some (push_bit 12 (of_nat a) OR f)),
     pte_set_flags = (\<lambda>f e. (e AND ADDR_MASK) OR f)\<rparr>"

lemma bit_addr_mask: "bit ADDR_MASK n \<longleftrightarrow> 12 \<le> n \<and> n < 52"
  unfolding ADDR_MASK_def by (auto simp: bit_push_bit_iff bit_mask_iff)

lemma valid_flags_bit: "valid_flags f \<longleftrightarrow> (\<forall>n. 12 \<le> n \<and> n < 52 \<longrightarrow> \<not> bit f n)"
proof -
  have "valid_flags f \<longleftrightarrow> (\<forall>n < 64. \<not> (bit f n \<and> 12 \<le> n \<and> n < 52))"
    unfolding valid_flags_def by (subst bit_eq_iff) (simp add: bit_and_iff bit_addr_mask)
  moreover have "n < 64" if "n < 52" for n :: nat using that by simp
  ultimately show ?thesis by blast
qed

lemma bit_of_nat_frame: "a < 2 ^ 40 \<Longrightarrow> bit (of_nat a :: u64) n \<Longrightarrow> n < 40"
  by (metis bit_take_bit_iff take_bit_nat_eq_self take_bit_of_nat)

interpretation x86: page_table_entry x86_entry
proof (unfold_locales, goal_cases)
  case (1 e)
  have "e = 0" if "take_bit 40 (drop_bit 12 e) = 0" "e AND NOT ADDR_MASK = 0"
  proof (rule bit_eqI)
    fix n assume n: "possible_bit TYPE(64 word) n"
    have "\<not> bit e n" if "12 \<le> n" "n < 52"
      using that \<open>take_bit 40 (drop_bit 12 e) = 0\<close> [unfolded bit_eq_iff, rule_format, of "n - 12"] by (simp add: bit_take_bit_iff bit_drop_bit_eq)
    moreover have "\<not> bit e n" if "\<not> (12 \<le> n \<and> n < 52)"
      using that n \<open>e AND NOT _ = 0\<close> [unfolded bit_eq_iff, rule_format, of n] by (simp add: bit_and_iff bit_not_iff bit_addr_mask)
    ultimately show "bit e n = bit 0 n" by auto
  qed
  then show ?case by (auto simp: x86_entry_def unsigned_eq_0_iff)
next
  case (4 e)
  have "take_bit 40 (unat (drop_bit 12 e)) < 2 ^ 40" by (rule take_bit_nat_less_exp)
  then show ?case by (simp add: x86_entry_def unsigned_take_bit_eq)
next
  case (5 e)
  then show ?case by (simp add: x86_entry_def valid_flags_bit bit_and_iff bit_not_iff bit_addr_mask)
next
  case (6 a f)
  have "n < 40" "n < 52" if "bit (of_nat a :: u64) n" for n using bit_of_nat_frame [OF 6(1) that] by simp_all
  then have "take_bit 40 (drop_bit 12 (push_bit 12 (of_nat a) OR f)) = (of_nat a :: u64)"
    using 6
    by (intro bit_eqI) (auto simp: bit_take_bit_iff bit_drop_bit_eq bit_or_iff bit_push_bit_iff valid_flags_bit dest: bit_of_nat_frame)
  then show ?case using 6(1) by (simp add: x86_entry_def unat_of_nat_bound)
next
  case (7 a f)
  have "n < 52" if "bit (of_nat a :: u64) (n - 12)" for n using bit_of_nat_frame [OF 7(1) that] by linarith
  with 7 show ?case
    by (intro bit_eqI) (auto simp: x86_entry_def bit_and_iff bit_not_iff bit_or_iff bit_push_bit_iff bit_addr_mask valid_flags_bit)
next
  case (9 f e)
  have "take_bit 40 (drop_bit 12 (e AND ADDR_MASK OR f)) = take_bit 40 (drop_bit 12 e)"
    using 9 by (intro bit_eqI) (auto simp: bit_take_bit_iff bit_drop_bit_eq bit_or_iff bit_and_iff bit_addr_mask valid_flags_bit)
  then show ?case by (simp add: x86_entry_def)
next
  case (10 f e)
  then show ?case by (intro bit_eqI) (auto simp: x86_entry_def bit_and_iff bit_not_iff bit_or_iff bit_addr_mask valid_flags_bit)
qed (simp_all add: x86_entry_def)

section \<open>Tables in memory\<close>

record 'e pt_mem =
  pt_tables :: "nat \<Rightarrow> 'e list"
  pt_frames :: frames_state

record Paging =
  root_table :: nat
  depth :: nat

text \<open>\<^verbatim>\<open>(addr as *mut PageTable).as_mut().unwrap()\<close>\<close>

definition table_ptr :: "nat \<Rightarrow> nat option" where
  "table_ptr f = (if f = 0 then None else Some f)"

definition write_entry :: "nat \<Rightarrow> nat \<Rightarrow> 'e \<Rightarrow> 'e pt_mem \<Rightarrow> 'e pt_mem" where
  "write_entry t i e s = s\<lparr>pt_tables := (pt_tables s)(t := (pt_tables s t)[i := e])\<rparr>"

definition zero_table :: "'e entry_ops \<Rightarrow> nat \<Rightarrow> 'e pt_mem \<Rightarrow> 'e pt_mem" where
  "zero_table E t s = s\<lparr>pt_tables := (pt_tables s)(t := replicate 512 (pte_zero E))\<rparr>"

text \<open>\<^verbatim>\<open>frames::alloc(1).start\<close> and \<^verbatim>\<open>frames::free\<close> of one frame.\<close>

definition alloc_frame :: "'e pt_mem \<Rightarrow> (nat \<times> 'e pt_mem) option" where
  "alloc_frame s = do { (r, fs) \<leftarrow> frames_alloc 1 (pt_frames s); Some (fr_start r, s\<lparr>pt_frames := fs\<rparr>) }"

definition free_frame :: "nat \<Rightarrow> 'e pt_mem \<Rightarrow> 'e pt_mem option" where
  "free_frame f s = do {
     e \<leftarrow> frame_add f 1;
     fs \<leftarrow> frames_free \<lparr>fr_start = f, fr_end = e\<rparr> (pt_frames s);
     Some (s\<lparr>pt_frames := fs\<rparr>)
   }"

section \<open>Mapping\<close>

text \<open>The loops of the last level write \<open>k\<close> entries from index \<open>i\<close> on.\<close>

fun identity_entries :: "'e entry_ops \<Rightarrow> nat \<Rightarrow> nat \<Rightarrow> nat \<Rightarrow> nat \<Rightarrow> u64 \<Rightarrow> 'e pt_mem \<Rightarrow> 'e pt_mem option" where
  "identity_entries E t i 0 frame flags s = Some s"
| "identity_entries E t i (Suc k) frame flags s = do {
     frame1 \<leftarrow> frame_add frame 1;
     identity_entries E t (Suc i) k frame1 flags (write_entry t i (pte_set_addr E frame flags) s)
   }"

definition identity_map_kernel :: "'e entry_ops \<Rightarrow> nat \<Rightarrow> PageRange \<Rightarrow> u64 \<Rightarrow> 'e pt_mem \<Rightarrow> (nat \<times> 'e pt_mem) option" where
  "identity_map_kernel E t pages flags s = do {
     let start_index = page_table_index (pr_start pages) 1;
     n \<leftarrow> page_sub (pr_end pages) (pr_start pages);
     let alloc_count = min n (512 - start_index);
     rust_assert (pr_start pages < 2 ^ 40);
     s1 \<leftarrow> identity_entries E t start_index alloc_count (pr_start pages) flags s;
     Some (alloc_count, s1)
   }"

fun user_entries :: "'e entry_ops \<Rightarrow> nat \<Rightarrow> nat \<Rightarrow> nat \<Rightarrow> u64 \<Rightarrow> 'e pt_mem \<Rightarrow> 'e pt_mem option" where
  "user_entries E t i 0 flags s = Some s"
| "user_entries E t i (Suc k) flags s = do {
     (phys_frame, s1) \<leftarrow> alloc_frame s;
     e \<leftarrow> pte_set_frame E phys_frame flags;
     user_entries E t (Suc i) k flags (write_entry t i e s1)
   }"

definition map_user :: "'e entry_ops \<Rightarrow> nat \<Rightarrow> PageRange \<Rightarrow> u64 \<Rightarrow> 'e pt_mem \<Rightarrow> (nat \<times> 'e pt_mem) option" where
  "map_user E t pages flags s = do {
     let start_index = page_table_index (pr_start pages) 1;
     n \<leftarrow> page_sub (pr_end pages) (pr_start pages);
     let alloc_count = min n (512 - start_index);
     s1 \<leftarrow> user_entries E t start_index alloc_count flags s;
     Some (alloc_count, s1)
   }"

fun physical_entries :: "'e entry_ops \<Rightarrow> nat \<Rightarrow> nat \<Rightarrow> nat \<Rightarrow> PhysFrameRange \<Rightarrow> u64 \<Rightarrow> 'e pt_mem \<Rightarrow> 'e pt_mem option" where
  "physical_entries E t i 0 frames flags s = Some s"
| "physical_entries E t i (Suc k) frames flags s = do {
     rust_assert (fr_start frames < fr_end frames);
     e \<leftarrow> pte_set_frame E (fr_start frames) flags;
     physical_entries E t (Suc i) k (frames\<lparr>fr_start := fr_start frames + 1\<rparr>) flags (write_entry t i e s)
   }"

definition map_user_physical :: "'e entry_ops \<Rightarrow> nat \<Rightarrow> PhysFrameRange \<Rightarrow> PageRange \<Rightarrow> u64 \<Rightarrow> 'e pt_mem \<Rightarrow> (nat \<times> 'e pt_mem) option" where
  "map_user_physical E t frames pages flags s = do {
     let start_index = page_table_index (pr_start pages) 1;
     n \<leftarrow> page_sub (pr_end pages) (pr_start pages);
     let alloc_count = min n (512 - start_index);
     s1 \<leftarrow> physical_entries E t start_index alloc_count frames flags s;
     Some (alloc_count, s1)
   }"

text \<open>
  The loop of \<^verbatim>\<open>map_in_table\<close> over the entries of a table above the last level; \<open>next\<close> is the recursive call for
  the level below.
\<close>

type_synonym 'e mapper = "nat \<Rightarrow> PhysFrameRange \<Rightarrow> PageRange \<Rightarrow> 'e pt_mem \<Rightarrow> (nat \<times> 'e pt_mem) option"

definition next_table :: "'e entry_ops \<Rightarrow> nat \<Rightarrow> nat \<Rightarrow> u64 \<Rightarrow> 'e pt_mem \<Rightarrow> (nat \<times> 'e pt_mem) option" where
  "next_table E t i flags s = do {
     entry \<leftarrow> idx (pt_tables s t) i;
     if pte_is_unused E entry then do {
       (phys_frame, s1) \<leftarrow> alloc_frame s;
       entry1 \<leftarrow> pte_set_frame E phys_frame flags;
       next_level_table \<leftarrow> table_ptr (pte_addr E entry1);
       Some (next_level_table, zero_table E next_level_table (write_entry t i entry1 s1))
     }
     else do {
       next_level_table \<leftarrow> table_ptr (pte_addr E entry);
       Some (next_level_table, s)
     }
   }"

fun map_entries :: "'e entry_ops \<Rightarrow> 'e mapper \<Rightarrow> nat \<Rightarrow> u64 \<Rightarrow> nat list \<Rightarrow> PhysFrameRange \<Rightarrow> PageRange \<Rightarrow> nat \<Rightarrow>
    'e pt_mem \<Rightarrow> (nat \<times> 'e pt_mem) option" where
  "map_entries E below t flags [] frames pages done_pages s = Some (done_pages, s)"
| "map_entries E below t flags (i # is) frames pages done_pages s = do {
     (next_level_table, s1) \<leftarrow> next_table E t i flags s;
     (allocated_pages, s2) \<leftarrow> below next_level_table frames pages s1;
     start \<leftarrow> page_add (pr_start pages) allocated_pages;
     let pages1 = pages\<lparr>pr_start := start\<rparr>;
     frames1 \<leftarrow> (if fr_end frames > fr_start frames
        then do { f \<leftarrow> frame_add (fr_start frames) allocated_pages; Some (frames\<lparr>fr_start := f\<rparr>) }
        else Some frames);
     if pr_start pages1 \<ge> pr_end pages1 then Some (done_pages + allocated_pages, s2)
     else map_entries E below t flags is frames1 pages1 (done_pages + allocated_pages) s2
   }"

fun map_in_table :: "'e entry_ops \<Rightarrow> MemorySpace \<Rightarrow> u64 \<Rightarrow> nat \<Rightarrow> 'e mapper" where
  "map_in_table E space flags 0 t frames pages s = None"
| "map_in_table E space flags (Suc 0) t frames pages s =
     (case space of
        Kernel \<Rightarrow> identity_map_kernel E t pages flags s
      | User \<Rightarrow> if fr_start frames = fr_end frames then map_user E t pages flags s
                else map_user_physical E t frames pages flags s)"
| "map_in_table E space flags (Suc (Suc level)) t frames pages s =
     map_entries E (map_in_table E space flags (Suc level)) t flags
       [page_table_index (pr_start pages) (Suc (Suc level))..<512] frames pages 0 s"

definition Paging_map :: "'e entry_ops \<Rightarrow> Paging \<Rightarrow> PageRange \<Rightarrow> MemorySpace \<Rightarrow> u64 \<Rightarrow> 'e pt_mem \<Rightarrow> 'e pt_mem option" where
  "Paging_map E self pages space flags s = do {
     root \<leftarrow> table_ptr (root_table self);
     (n, s1) \<leftarrow> map_in_table E space flags (depth self) root \<lparr>fr_start = 0, fr_end = 0\<rparr> pages s;
     Some s1
   }"

definition Paging_map_physical ::
    "'e entry_ops \<Rightarrow> Paging \<Rightarrow> PhysFrameRange \<Rightarrow> PageRange \<Rightarrow> MemorySpace \<Rightarrow> u64 \<Rightarrow> 'e pt_mem \<Rightarrow> 'e pt_mem option" where
  "Paging_map_physical E self frames pages space flags s = do {
     root \<leftarrow> table_ptr (root_table self);
     nf \<leftarrow> frame_sub (fr_end frames) (fr_start frames);
     np \<leftarrow> page_sub (pr_end pages) (pr_start pages);
     rust_assert (nf = np);
     (n, s1) \<leftarrow> map_in_table E space flags (depth self) root frames pages s;
     Some s1
   }"

section \<open>Translation\<close>

text \<open>The frame of a page.\<close>

fun translate_in_table :: "'e entry_ops \<Rightarrow> (nat \<Rightarrow> 'e list) \<Rightarrow> nat \<Rightarrow> nat \<Rightarrow> nat \<Rightarrow> nat option option" where
  "translate_in_table E T 0 t page = None"
| "translate_in_table E T (Suc level) t page = do {
     entry \<leftarrow> idx (T t) (page_table_index page (Suc level));
     if pte_is_unused E entry then Some None
     else if level > 0 then do {
       next_level_table \<leftarrow> table_ptr (pte_addr E entry);
       translate_in_table E T level next_level_table page
     }
     else Some (Some (pte_addr E entry))
   }"

definition Paging_translate :: "'e entry_ops \<Rightarrow> Paging \<Rightarrow> u64 \<Rightarrow> 'e pt_mem \<Rightarrow> u64 option option" where
  "Paging_translate E self addr s = do {
     root \<leftarrow> table_ptr (root_table self);
     r \<leftarrow> translate_in_table E (pt_tables s) (depth self) root (unat addr div 4096);
     Some (map_option (\<lambda>f. of_nat (f * 4096 + unat addr mod 4096)) r)
   }"

section \<open>Unmapping\<close>

definition is_table_empty :: "'e entry_ops \<Rightarrow> 'e list \<Rightarrow> bool" where
  "is_table_empty E table \<longleftrightarrow> list_all (pte_is_unused E) table"

fun unmap_last :: "'e entry_ops \<Rightarrow> bool \<Rightarrow> nat \<Rightarrow> nat \<Rightarrow> nat \<Rightarrow> 'e pt_mem \<Rightarrow> 'e pt_mem option" where
  "unmap_last E free_physical t i 0 s = Some s"
| "unmap_last E free_physical t i (Suc k) s = do {
     entry \<leftarrow> idx (pt_tables s t) i;
     s1 \<leftarrow> (if pte_is_unused E entry then Some s
       else do {
         s1 \<leftarrow> (if free_physical then free_frame (pte_addr E entry) s else Some s);
         Some (write_entry t i (pte_zero E) s1)
       });
     unmap_last E free_physical t (Suc i) k s1
   }"

text \<open>A table that became empty is freed, and its entry \<open>i\<close> in the table above is cleared.\<close>

definition drop_empty :: "'e entry_ops \<Rightarrow> nat \<Rightarrow> nat \<Rightarrow> nat \<Rightarrow> 'e pt_mem \<Rightarrow> 'e pt_mem option" where
  "drop_empty E t i next_level_table s =
     (if is_table_empty E (pt_tables s next_level_table)
      then do { s1 \<leftarrow> free_frame next_level_table s; Some (write_entry t i (pte_zero E) s1) }
      else Some s)"

type_synonym 'e visitor = "nat \<Rightarrow> PageRange \<Rightarrow> 'e pt_mem \<Rightarrow> (nat \<times> 'e pt_mem) option"

fun unmap_entries :: "'e entry_ops \<Rightarrow> 'e visitor \<Rightarrow> nat \<Rightarrow> nat list \<Rightarrow> PageRange \<Rightarrow> nat \<Rightarrow> 'e pt_mem \<Rightarrow> (nat \<times> 'e pt_mem) option" where
  "unmap_entries E below t [] pages done_pages s = Some (done_pages, s)"
| "unmap_entries E below t (i # is) pages done_pages s = do {
     entry \<leftarrow> idx (pt_tables s t) i;
     if pte_is_unused E entry then unmap_entries E below t is pages done_pages s
     else do {
       next_level_table \<leftarrow> table_ptr (pte_addr E entry);
       (freed_pages, s1) \<leftarrow> below next_level_table pages s;
       start \<leftarrow> page_add (pr_start pages) freed_pages;
       s2 \<leftarrow> drop_empty E t i next_level_table s1;
       if start \<ge> pr_end pages then Some (done_pages + freed_pages, s2)
       else unmap_entries E below t is (pages\<lparr>pr_start := start\<rparr>) (done_pages + freed_pages) s2
     }
   }"

fun unmap_in_table :: "'e entry_ops \<Rightarrow> bool \<Rightarrow> nat \<Rightarrow> 'e visitor" where
  "unmap_in_table E free_physical 0 t pages s = None"
| "unmap_in_table E free_physical (Suc 0) t pages s = do {
     let start_index = page_table_index (pr_start pages) 1;
     n \<leftarrow> page_sub (pr_end pages) (pr_start pages);
     let free_count = min n (512 - start_index);
     s1 \<leftarrow> unmap_last E free_physical t start_index free_count s;
     Some (free_count, s1)
   }"
| "unmap_in_table E free_physical (Suc (Suc level)) t pages s =
     unmap_entries E (unmap_in_table E free_physical (Suc level)) t
       [page_table_index (pr_start pages) (Suc (Suc level))..<512] pages 0 s"

definition Paging_unmap :: "'e entry_ops \<Rightarrow> Paging \<Rightarrow> PageRange \<Rightarrow> bool \<Rightarrow> 'e pt_mem \<Rightarrow> 'e pt_mem option" where
  "Paging_unmap E self pages free_physical s = do {
     root \<leftarrow> table_ptr (root_table self);
     (n, s1) \<leftarrow> unmap_in_table E free_physical (depth self) root pages s;
     Some s1
   }"

section \<open>Flags\<close>

fun flag_entries :: "'e entry_ops \<Rightarrow> u64 \<Rightarrow> nat \<Rightarrow> nat \<Rightarrow> nat \<Rightarrow> 'e pt_mem \<Rightarrow> 'e pt_mem option" where
  "flag_entries E flags t i 0 s = Some s"
| "flag_entries E flags t i (Suc k) s = do {
     entry \<leftarrow> idx (pt_tables s t) i;
     flag_entries E flags t (Suc i) k (write_entry t i (pte_set_flags E flags entry) s)
   }"

fun set_flags_entries :: "'e entry_ops \<Rightarrow> 'e visitor \<Rightarrow> nat \<Rightarrow> nat list \<Rightarrow> PageRange \<Rightarrow> nat \<Rightarrow> 'e pt_mem \<Rightarrow> (nat \<times> 'e pt_mem) option" where
  "set_flags_entries E below t [] pages done_pages s = Some (done_pages, s)"
| "set_flags_entries E below t (i # is) pages done_pages s = do {
     entry \<leftarrow> idx (pt_tables s t) i;
     if pte_is_unused E entry then set_flags_entries E below t is pages done_pages s
     else do {
       next_level_table \<leftarrow> table_ptr (pte_addr E entry);
       (edited_pages, s1) \<leftarrow> below next_level_table pages s;
       start \<leftarrow> page_add (pr_start pages) edited_pages;
       if start \<ge> pr_end pages then Some (done_pages + edited_pages, s1)
       else set_flags_entries E below t is (pages\<lparr>pr_start := start\<rparr>) (done_pages + edited_pages) s1
     }
   }"

fun set_flags_in_table :: "'e entry_ops \<Rightarrow> u64 \<Rightarrow> nat \<Rightarrow> 'e visitor" where
  "set_flags_in_table E flags 0 t pages s = None"
| "set_flags_in_table E flags (Suc 0) t pages s = do {
     let start_index = page_table_index (pr_start pages) 1;
     n \<leftarrow> page_sub (pr_end pages) (pr_start pages);
     let edit_count = min n (512 - start_index);
     s1 \<leftarrow> flag_entries E flags t start_index edit_count s;
     Some (edit_count, s1)
   }"
| "set_flags_in_table E flags (Suc (Suc level)) t pages s =
     set_flags_entries E (set_flags_in_table E flags (Suc level)) t
       [page_table_index (pr_start pages) (Suc (Suc level))..<512] pages 0 s"

definition Paging_set_flags :: "'e entry_ops \<Rightarrow> Paging \<Rightarrow> PageRange \<Rightarrow> u64 \<Rightarrow> 'e pt_mem \<Rightarrow> 'e pt_mem option" where
  "Paging_set_flags E self pages flags s = do {
     root \<leftarrow> table_ptr (root_table self);
     (n, s1) \<leftarrow> set_flags_in_table E flags (depth self) root pages s;
     Some s1
   }"

section \<open>Creating, copying and dropping an address space\<close>

definition Paging_new :: "'e entry_ops \<Rightarrow> nat \<Rightarrow> 'e pt_mem \<Rightarrow> (Paging \<times> 'e pt_mem) option" where
  "Paging_new E d s = do {
     (table_addr, s1) \<leftarrow> alloc_frame s;
     root \<leftarrow> table_ptr table_addr;
     Some (\<lparr>root_table = root, depth = d\<rparr>, zero_table E root s1)
   }"

fun copy_entries :: "'e entry_ops \<Rightarrow> (nat \<Rightarrow> nat \<Rightarrow> 'e pt_mem \<Rightarrow> 'e pt_mem option) \<Rightarrow> nat \<Rightarrow> nat \<Rightarrow> nat list \<Rightarrow> 'e pt_mem \<Rightarrow> 'e pt_mem option" where
  "copy_entries E below source target [] s = Some s"
| "copy_entries E below source target (i # is) s = do {
     source_entry \<leftarrow> idx (pt_tables s source) i;
     if pte_is_unused E source_entry then copy_entries E below source target is (write_entry target i (pte_zero E) s)
     else do {
       (phys_frame, s1) \<leftarrow> alloc_frame s;
       target_entry \<leftarrow> pte_set_frame E phys_frame (pte_flags E source_entry);
       let s2 = write_entry target i target_entry s1;
       next_level_source \<leftarrow> table_ptr (pte_addr E source_entry);
       next_level_target \<leftarrow> table_ptr (pte_addr E target_entry);
       s3 \<leftarrow> below next_level_source next_level_target s2;
       copy_entries E below source target is s3
     }
   }"

fun copy_last :: "'e entry_ops \<Rightarrow> nat \<Rightarrow> nat \<Rightarrow> nat list \<Rightarrow> 'e pt_mem \<Rightarrow> 'e pt_mem option" where
  "copy_last E source target [] s = Some s"
| "copy_last E source target (i # is) s = do {
     source_entry \<leftarrow> idx (pt_tables s source) i;
     copy_last E source target is (write_entry target i (pte_set_addr E (pte_addr E source_entry) (pte_flags E source_entry)) s)
   }"

fun copy_table :: "'e entry_ops \<Rightarrow> nat \<Rightarrow> nat \<Rightarrow> nat \<Rightarrow> 'e pt_mem \<Rightarrow> 'e pt_mem option" where
  "copy_table E 0 source target s = copy_last E source target [0..<512] s"
| "copy_table E (Suc 0) source target s = copy_last E source target [0..<512] s"
| "copy_table E (Suc (Suc level)) source target s = copy_entries E (copy_table E (Suc level)) source target [0..<512] s"

definition Paging_from_other :: "'e entry_ops \<Rightarrow> Paging \<Rightarrow> 'e pt_mem \<Rightarrow> (Paging \<times> 'e pt_mem) option" where
  "Paging_from_other E other s = do {
     (address_space, s1) \<leftarrow> Paging_new E (depth other) s;
     other_root \<leftarrow> table_ptr (root_table other);
     s2 \<leftarrow> copy_table E (depth other) other_root (root_table address_space) s1;
     Some (address_space, s2)
   }"

fun drop_entries :: "'e entry_ops \<Rightarrow> (nat \<Rightarrow> 'e pt_mem \<Rightarrow> 'e pt_mem option) \<Rightarrow> nat \<Rightarrow> nat list \<Rightarrow> 'e pt_mem \<Rightarrow> 'e pt_mem option" where
  "drop_entries E below t [] s = Some s"
| "drop_entries E below t (i # is) s = do {
     entry \<leftarrow> idx (pt_tables s t) i;
     s1 \<leftarrow> (if pte_addr E entry = 0 then Some s
       else do { next_level_table \<leftarrow> table_ptr (pte_addr E entry); below next_level_table s });
     drop_entries E below t is s1
   }"

fun drop_table :: "'e entry_ops \<Rightarrow> nat \<Rightarrow> nat \<Rightarrow> 'e pt_mem \<Rightarrow> 'e pt_mem option" where
  "drop_table E 0 t s = free_frame t (zero_table E t s)"
| "drop_table E (Suc level) t s = do {
     s1 \<leftarrow> (if level > 0 then drop_entries E (drop_table E level) t [0..<512] s else Some s);
     free_frame t (zero_table E t s1)
   }"

definition Paging_drop :: "'e entry_ops \<Rightarrow> Paging \<Rightarrow> 'e pt_mem \<Rightarrow> 'e pt_mem option" where
  "Paging_drop E self s = do { root \<leftarrow> table_ptr (root_table self); drop_table E (depth self) root s }"

end
