(* ===== verification/Page_Tables_Tree.thy ===== *)
theory Page_Tables_Tree
  imports Page_Tables "HOL-Library.Disjoint_Sets"
begin

text \<open>
  The tables of an address space form a tree of frames that are not free. This theory has the tree, the
  function from pages to frames that it denotes, what an operation that maps pages does to both, and the
  proof for tables of the last level.
\<close>

section \<open>The tree of tables\<close>

abbreviation free_of :: "'e pt_mem \<Rightarrow> nat set" where
  "free_of s \<equiv> free_frames (pt_frames s)"

definition pt_node :: "'e entry_ops \<Rightarrow> (nat \<Rightarrow> 'e list) \<Rightarrow> (nat \<Rightarrow> nat set \<Rightarrow> bool) \<Rightarrow> nat \<Rightarrow> (nat \<Rightarrow> nat set) \<Rightarrow> bool" where
  "pt_node E T sub t G \<longleftrightarrow> length (T t) = 512 \<and> t \<noteq> 0 \<and> (\<forall>i < 512. t \<notin> G i) \<and> disjoint_family_on G {..<512}
     \<and> (\<forall>i < 512. if pte_is_unused E (T t ! i) then G i = {} else sub (pte_addr E (T t ! i)) (G i))"

text \<open>\<open>F\<close> is the set of the frames that hold the tables reachable from \<open>t\<close>.\<close>

fun pt_tree :: "'e entry_ops \<Rightarrow> (nat \<Rightarrow> 'e list) \<Rightarrow> nat \<Rightarrow> nat \<Rightarrow> nat set \<Rightarrow> bool" where
  "pt_tree E T 0 t F = False"
| "pt_tree E T (Suc 0) t F \<longleftrightarrow> length (T t) = 512 \<and> t \<noteq> 0 \<and> F = {t}"
| "pt_tree E T (Suc (Suc l)) t F \<longleftrightarrow> (\<exists>G. pt_node E T (pt_tree E T (Suc l)) t G \<and> F = insert t (\<Union>i < 512. G i))"

fun page_walk :: "'e entry_ops \<Rightarrow> (nat \<Rightarrow> 'e list) \<Rightarrow> nat \<Rightarrow> nat \<Rightarrow> nat \<Rightarrow> nat option" where
  "page_walk E T 0 t p = None"
| "page_walk E T (Suc l) t p =
     (if pte_is_unused E (T t ! page_table_index p (Suc l)) then None
      else if l = 0 then Some (pte_addr E (T t ! page_table_index p (Suc l)))
      else page_walk E T l (pte_addr E (T t ! page_table_index p (Suc l))) p)"

lemma page_table_index_Suc [simp]: "page_table_index p (Suc l) = p div 512 ^ l mod 512"
proof -
  have "(2 :: nat) ^ (l * 9) = 512 ^ l" by (simp add: mult.commute [of l] power_mult)
  moreover have "x mod 2 ^ 16 mod 512 = x mod 512" for x :: nat by (rule mod_mod_cancel) simp
  ultimately show ?thesis by (simp add: page_table_index_def)
qed

lemma page_walk_last: "page_walk E T (Suc 0) t p =
    (if pte_is_unused E (T t ! (p mod 512)) then None else Some (pte_addr E (T t ! (p mod 512))))"
  by simp

lemma page_walk_node: "page_walk E T (Suc (Suc l)) t p =
    (if pte_is_unused E (T t ! (p div 512 ^ Suc l mod 512)) then None
     else page_walk E T (Suc l) (pte_addr E (T t ! (p div 512 ^ Suc l mod 512))) p)"
  by (subst page_walk.simps) simp

declare page_walk.simps(2) [simp del]

lemma pt_tree_root: "pt_tree E T l t F \<Longrightarrow> t \<in> F \<and> t \<noteq> 0 \<and> length (T t) = 512"
  by (cases "(E, T, l, t, F)" rule: pt_tree.cases) (auto simp: pt_node_def)

lemma pt_nodeD:
  assumes "pt_node E T sub t G" "i < 512"
  shows "length (T t) = 512" "t \<noteq> 0" "t \<notin> G i" "pte_is_unused E (T t ! i) \<Longrightarrow> G i = {}"
    "\<not> pte_is_unused E (T t ! i) \<Longrightarrow> sub (pte_addr E (T t ! i)) (G i)"
  using assms by (auto simp: pt_node_def split: if_splits)

text \<open>Only the frames of the tree matter.\<close>

lemma pt_tree_frame:
  assumes "pt_tree E T l t F" "\<And>x. x \<in> F \<Longrightarrow> T' x = T x"
  shows "pt_tree E T' l t F" "page_walk E T' l t p = page_walk E T l t p"
  using assms
proof (induction E T l t F rule: pt_tree.induct)
  case (3 E T l t F)
  {
    case 1
    then obtain G where G: "pt_node E T (pt_tree E T (Suc l)) t G" "F = insert t (\<Union>i < 512. G i)" by auto
    have tt: "T' t = T t" using 1 G(2) by simp
    have "pt_tree E T' (Suc l) (pte_addr E (T t ! i)) (G i)" if "i < 512" "\<not> pte_is_unused E (T t ! i)" for i
      using "3.IH"(1) [OF pt_nodeD(5) [OF G(1) that]] 1 G(2) that(1) by auto
    then have "pt_node E T' (pt_tree E T' (Suc l)) t G" using G(1) tt by (auto simp: pt_node_def)
    with G(2) show ?case by auto
  next
    case 2
    then obtain G where G: "pt_node E T (pt_tree E T (Suc l)) t G" "F = insert t (\<Union>i < 512. G i)" by auto
    have tt: "T' t = T t" using 2 G(2) by simp
    let ?i = "p div 512 ^ Suc l mod 512"
    show ?case
    proof (cases "pte_is_unused E (T t ! ?i)")
      case False
      have i: "?i < 512" by simp
      have "G ?i \<subseteq> F" using G(2) i by blast
      then have "page_walk E T' (Suc l) (pte_addr E (T t ! ?i)) p = page_walk E T (Suc l) (pte_addr E (T t ! ?i)) p"
        using "3.IH"(2) [OF pt_nodeD(5) [OF G(1) i False]] 2 by blast
      with False tt show ?thesis by (simp add: page_walk_node)
    qed (simp add: tt page_walk_node)
  }
qed (auto simp: page_walk_last)

lemma translate_walk: "pt_tree E T l t F \<Longrightarrow> translate_in_table E T l t p = Some (page_walk E T l t p)"
proof (induction E T l t F rule: pt_tree.induct)
  case (3 E T l t F)
  then obtain G where G: "pt_node E T (pt_tree E T (Suc l)) t G" by auto
  let ?i = "p div 512 ^ Suc l mod 512"
  have i: "?i < 512" by simp
  show ?case
  proof (cases "pte_is_unused E (T t ! ?i)")
    case False
    note s = pt_nodeD(5) [OF G i False]
    from "3.IH" [OF s] pt_tree_root [OF s] False pt_nodeD(1) [OF G i] show ?thesis
      by (simp add: panic_simps table_ptr_def page_walk_node)
  qed (use pt_nodeD(1) [OF G i] in \<open>simp add: panic_simps page_walk_node\<close>)
qed (auto simp: panic_simps page_walk_last)

section \<open>Entries of a last table\<close>

definition overwrite :: "nat \<Rightarrow> 'a list \<Rightarrow> 'a list \<Rightarrow> 'a list" where
  "overwrite i es xs = take i xs @ es @ drop (i + length es) xs"

lemma overwrite_simps [simp]: "overwrite i [] xs = xs" "i + length es \<le> length xs \<Longrightarrow> length (overwrite i es xs) = length xs"
  by (simp_all add: overwrite_def)

lemma overwrite_Cons: "i < length xs \<Longrightarrow> overwrite (Suc i) es (xs[i := e]) = overwrite i (e # es) xs"
  by (simp add: overwrite_def take_Suc_conv_app_nth)

lemma nth_overwrite:
  assumes "i + length es \<le> length xs" "j < length xs"
  shows "overwrite i es xs ! j = (if i \<le> j \<and> j < i + length es then es ! (j - i) else xs ! j)"
  using assms by (auto simp: overwrite_def nth_append min_def)

definition write_entries :: "nat \<Rightarrow> nat \<Rightarrow> 'e list \<Rightarrow> 'e pt_mem \<Rightarrow> 'e pt_mem" where
  "write_entries t i es s = s\<lparr>pt_tables := (pt_tables s)(t := overwrite i es (pt_tables s t))\<rparr>"

lemma write_entries_simps [simp]:
  "pt_frames (write_entries t i es s) = pt_frames s" "write_entries t i [] s = s"
  "pt_tables (write_entries t i es s) x = (if x = t then overwrite i es (pt_tables s t) else pt_tables s x)"
  by (simp_all add: write_entries_def)

lemma write_entry_simps [simp]:
  "pt_frames (write_entry t i e s) = pt_frames s"
  "pt_tables (write_entry t i e s) x = (if x = t then (pt_tables s t)[i := e] else pt_tables s x)"
  by (simp_all add: write_entry_def)

lemma write_entries_Cons:
  "i < length (pt_tables s t) \<Longrightarrow> write_entries t (Suc i) es (write_entry t i e s) = write_entries t i (e # es) s"
  by (simp add: write_entries_def write_entry_def overwrite_Cons)

lemma identity_entries_ok:
  assumes "i + k \<le> length (pt_tables s t)" "frame + k < 2 ^ 40"
  shows "identity_entries E t i k frame flags s = Some (write_entries t i (map (\<lambda>j. pte_set_addr E (frame + j) flags) [0..<k]) s)"
  using assms
proof (induction k arbitrary: i frame s)
  case (Suc k)
  have "map (\<lambda>j. pte_set_addr E (frame + j) flags) [0..<Suc k] =
      pte_set_addr E frame flags # map (\<lambda>j. pte_set_addr E (Suc frame + j) flags) [0..<k]"
    by (simp add: upt_conv_Cons map_Suc_upt [symmetric] del: upt_Suc)
  then show ?case
    using Suc.IH [of "Suc i" "write_entry t i (pte_set_addr E frame flags) s" "Suc frame"] Suc.prems
    by (simp add: frame_add_def write_entries_Cons del: upt_Suc)
qed simp

text \<open>The flags of every caller: present, and not those of a huge page.\<close>

definition good_flags :: "u64 \<Rightarrow> bool" where
  "good_flags f \<longleftrightarrow> valid_flags f \<and> f AND PRESENT \<noteq> 0 \<and> f AND HUGE_PAGE = 0"

lemma good_flags_nonzero: "good_flags f \<Longrightarrow> valid_flags f \<and> f AND HUGE_PAGE = 0 \<and> f \<noteq> 0"
  by (auto simp: good_flags_def)

lemma finite_free [simp]: "finite (free_frames fs)"
  by (simp add: free_frames_def frames_of_def)

lemma alloc_frame_ok:
  assumes "frames_inv (pt_frames s)" "free_of s \<noteq> {}"
  shows "\<exists>f fs. alloc_frame s = Some (f, s\<lparr>pt_frames := fs\<rparr>) \<and> frames_inv fs \<and> f \<in> free_of s \<and> f \<noteq> 0 \<and> f < 2 ^ 40
    \<and> free_frames fs = free_of s - {f}"
proof -
  obtain b where b: "b \<in> set (PAGE_FRAME_ALLOCATOR (pt_frames s))" using assms(2) by (auto simp: free_frames_def frames_of_def)
  with assms(1) have "1 \<le> frame_count b" using fl_wf_lower by (fastforce simp: frames_inv_def)
  with b have "\<exists>b \<in> set (PAGE_FRAME_ALLOCATOR (pt_frames s)). 1 \<le> frame_count b" by blast
  from frames_alloc_ok [OF assms(1) _ this] obtain f fs where "frames_alloc 1 (pt_frames s) = Some (\<lparr>fr_start = f, fr_end = f + 1\<rparr>, fs)"
    "frames_inv fs" "{f..<f + 1} \<subseteq> free_of s" "free_frames fs = free_of s - {f..<f + 1}" "1 \<le> f" "f + 1 < 2 ^ 40" by auto
  then show ?thesis by (auto simp: alloc_frame_def)
qed

lemma card_free_remove: "f \<in> free_frames fs \<Longrightarrow> card (free_frames fs - {f}) = card (free_frames fs) - 1"
  by simp

section \<open>What mapping does\<close>

definition map_target :: "MemorySpace \<Rightarrow> PhysFrameRange \<Rightarrow> nat \<Rightarrow> nat \<Rightarrow> (nat \<Rightarrow> nat) \<Rightarrow> nat set \<Rightarrow> bool" where
  "map_target space frames p n g A \<longleftrightarrow>
     (case space of
        Kernel \<Rightarrow> A = {} \<and> (\<forall>k < n. g k = p + k)
      | User \<Rightarrow> if fr_start frames = fr_end frames then inj_on g {..<n} \<and> A = g ` {..<n}
                else A = {} \<and> (\<forall>k < n. g k = fr_start frames + k))"

text \<open>
  \<open>n\<close> pages from \<open>p\<close> on are mapped to the frames \<open>g\<close> gives, the frames \<open>A\<close> of them freshly allocated; all
  other pages of the block of \<open>512 ^ l\<close> pages that the table describes are as before.
\<close>

definition map_rel ::
    "'e entry_ops \<Rightarrow> MemorySpace \<Rightarrow> PhysFrameRange \<Rightarrow> nat \<Rightarrow> nat \<Rightarrow> nat \<Rightarrow> nat \<Rightarrow> nat set \<Rightarrow> 'e pt_mem \<Rightarrow> nat set \<Rightarrow> 'e pt_mem \<Rightarrow> bool" where
  "map_rel E space frames l t p n F s F' s' \<longleftrightarrow>
     pt_tree E (pt_tables s') l t F' \<and> F \<subseteq> F' \<and> F' - F \<subseteq> free_of s \<and> frames_inv (pt_frames s')
     \<and> (\<forall>x. x \<notin> F' \<longrightarrow> pt_tables s' x = pt_tables s x) \<and> card (free_of s) \<le> card (free_of s') + l * max 1 n
     \<and> (\<exists>g A. map_target space frames p n g A \<and> A \<subseteq> free_of s \<and> A \<inter> F' = {} \<and> free_of s' = free_of s - F' - A
       \<and> (\<forall>q. q div 512 ^ l = p div 512 ^ l \<longrightarrow>
            page_walk E (pt_tables s') l t q = (if p \<le> q \<and> q < p + n then Some (g (q - p)) else page_walk E (pt_tables s) l t q)))"

lemma map_relE:
  assumes "map_rel E space frames l t p n F s F' s'"
  obtains g A where "pt_tree E (pt_tables s') l t F'" "F \<subseteq> F'" "F' - F \<subseteq> free_of s" "frames_inv (pt_frames s')"
    "\<forall>x. x \<notin> F' \<longrightarrow> pt_tables s' x = pt_tables s x" "card (free_of s) \<le> card (free_of s') + l * max 1 n"
    "map_target space frames p n g A" "A \<subseteq> free_of s" "A \<inter> F' = {}" "free_of s' = free_of s - F' - A"
    "\<forall>q. q div 512 ^ l = p div 512 ^ l \<longrightarrow>
      page_walk E (pt_tables s') l t q = (if p \<le> q \<and> q < p + n then Some (g (q - p)) else page_walk E (pt_tables s) l t q)"
  using assms unfolding map_rel_def by blast

lemma map_relI:
  assumes "pt_tree E (pt_tables s') l t F'" "F \<subseteq> F'" "F' - F \<subseteq> free_of s" "frames_inv (pt_frames s')"
    "\<forall>x. x \<notin> F' \<longrightarrow> pt_tables s' x = pt_tables s x" "card (free_of s) \<le> card (free_of s') + l * max 1 n"
    "map_target space frames p n g A" "A \<subseteq> free_of s" "A \<inter> F' = {}" "free_of s' = free_of s - F' - A"
    "\<forall>q. q div 512 ^ l = p div 512 ^ l \<longrightarrow>
      page_walk E (pt_tables s') l t q = (if p \<le> q \<and> q < p + n then Some (g (q - p)) else page_walk E (pt_tables s) l t q)"
  shows "map_rel E space frames l t p n F s F' s'"
  unfolding map_rel_def using assms by blast

definition map_ready :: "'e entry_ops \<Rightarrow> PhysFrameRange \<Rightarrow> nat \<Rightarrow> nat \<Rightarrow> nat \<Rightarrow> nat \<Rightarrow> nat set \<Rightarrow> 'e pt_mem \<Rightarrow> bool" where
  "map_ready E frames l t p e F s \<longleftrightarrow> pt_tree E (pt_tables s) l t F \<and> F \<inter> free_of s = {} \<and> frames_inv (pt_frames s)
     \<and> p \<le> e \<and> e < 2 ^ 35 \<and> l * max 1 (e - p) \<le> card (free_of s)
     \<and> fr_start frames \<le> fr_end frames \<and> (fr_start frames < fr_end frames \<longrightarrow> fr_end frames - fr_start frames = e - p \<and> fr_end frames < 2 ^ 40)"

text \<open>Two ranges one after the other. The frames that were given are used up from the front.\<close>

definition advance :: "PhysFrameRange \<Rightarrow> nat \<Rightarrow> PhysFrameRange" where
  "advance frames n = (if fr_end frames > fr_start frames then frames\<lparr>fr_start := fr_start frames + n\<rparr> else frames)"

lemma map_target_trans:
  assumes "map_target space frames p n g A" "map_target space (advance frames n) (p + n) m h B" "A \<inter> B = {}"
    and "fr_start frames < fr_end frames \<Longrightarrow> fr_start frames + n < fr_end frames" "fr_start frames \<le> fr_end frames"
  shows "map_target space frames p (n + m) (\<lambda>k. if k < n then g k else h (k - n)) (A \<union> B)"
proof (cases space)
  case Kernel
  then show ?thesis using assms(1,2) by (auto simp: map_target_def)
next
  case User
  show ?thesis
  proof (cases "fr_start frames = fr_end frames")
    case True
    then have gh: "inj_on g {..<n}" "A = g ` {..<n}" "inj_on h {..<m}" "B = h ` {..<m}"
      using User assms(1,2) by (simp_all add: map_target_def advance_def)
    let ?k = "\<lambda>k. if k < n then g k else h (k - n)"
    have "?k ` {..<n + m} = g ` {..<n} \<union> h ` {..<m}"
    proof -
      have "{..<n + m} = {..<n} \<union> (\<lambda>j. n + j) ` {..<m}" by (simp add: lessThan_atLeast0 image_add_atLeastLessThan ivl_disj_un_two(3) add.commute)
      moreover have "?k ` {..<n} = g ` {..<n}" by (rule image_cong) auto
      moreover have "?k ` ((\<lambda>j. n + j) ` {..<m}) = h ` {..<m}" unfolding image_image by (rule image_cong) auto
      ultimately show ?thesis by (simp only: image_Un)
    qed
    moreover have "inj_on ?k {..<n + m}"
    proof (rule inj_onI)
      fix a b assume ab: "a \<in> {..<n + m}" "b \<in> {..<n + m}" "?k a = ?k b"
      have in_A: "g c \<in> A" if "c < n" for c using that gh(2) by simp
      have in_B: "h (c - n) \<in> B" if "c < n + m" "\<not> c < n" for c using that gh(4) by auto
      show "a = b"
      proof (cases "a < n \<longleftrightarrow> b < n")
        case True
        have "a - n < m" "b - n < m" if "\<not> a < n" "\<not> b < n" using ab that by auto
        with True ab inj_onD [OF gh(1), of a b] inj_onD [OF gh(3), of "a - n" "b - n"] show ?thesis by (auto split: if_splits)
      next
        case False
        then show ?thesis using ab in_A [of a] in_A [of b] in_B [of a] in_B [of b] assms(3) by (auto split: if_splits)
      qed
    qed
    ultimately show ?thesis using User True gh by (simp add: map_target_def)
  next
    case False
    then show ?thesis using User assms by (auto simp: map_target_def advance_def)
  qed
qed

lemma map_rel_trans:
  assumes r1: "map_rel E space frames l t p n F s F1 s1" and r2: "map_rel E space (advance frames n) l t (p + n) m F1 s1 F2 s2"
    and b: "(p + n) div 512 ^ l = p div 512 ^ l" and nm: "0 < n" "0 < m" and F: "F \<inter> free_of s = {}"
    and fr: "fr_start frames < fr_end frames \<Longrightarrow> fr_start frames + n < fr_end frames" "fr_start frames \<le> fr_end frames"
  shows "map_rel E space frames l t p (n + m) F s F2 s2"
proof -
  obtain g A where 1: "pt_tree E (pt_tables s1) l t F1" "F \<subseteq> F1" "F1 - F \<subseteq> free_of s" "frames_inv (pt_frames s1)"
    "\<forall>x. x \<notin> F1 \<longrightarrow> pt_tables s1 x = pt_tables s x" "card (free_of s) \<le> card (free_of s1) + l * max 1 n"
    "map_target space frames p n g A" "A \<subseteq> free_of s" "A \<inter> F1 = {}" "free_of s1 = free_of s - F1 - A"
    "\<forall>q. q div 512 ^ l = p div 512 ^ l \<longrightarrow>
      page_walk E (pt_tables s1) l t q = (if p \<le> q \<and> q < p + n then Some (g (q - p)) else page_walk E (pt_tables s) l t q)"
    by (rule map_relE [OF r1])
  obtain h B where 2: "pt_tree E (pt_tables s2) l t F2" "F1 \<subseteq> F2" "F2 - F1 \<subseteq> free_of s1" "frames_inv (pt_frames s2)"
    "\<forall>x. x \<notin> F2 \<longrightarrow> pt_tables s2 x = pt_tables s1 x" "card (free_of s1) \<le> card (free_of s2) + l * max 1 m"
    "map_target space (advance frames n) (p + n) m h B" "B \<subseteq> free_of s1" "B \<inter> F2 = {}" "free_of s2 = free_of s1 - F2 - B"
    "\<forall>q. q div 512 ^ l = (p + n) div 512 ^ l \<longrightarrow>
      page_walk E (pt_tables s2) l t q = (if p + n \<le> q \<and> q < p + n + m then Some (h (q - (p + n))) else page_walk E (pt_tables s1) l t q)"
    by (rule map_relE [OF r2])
  have AB: "A \<inter> B = {}" using 1(10) 2(8) by auto
  show ?thesis
  proof (rule map_relI [OF 2(1) _ _ 2(4) _ _ map_target_trans [OF 1(7) 2(7) AB fr]])
    show "F \<subseteq> F2" "F2 - F \<subseteq> free_of s" using 1(2,3,10) 2(2,3) by auto
    show "\<forall>x. x \<notin> F2 \<longrightarrow> pt_tables s2 x = pt_tables s x" using 1(5) 2(2,5) by auto
    show "card (free_of s) \<le> card (free_of s2) + l * max 1 (n + m)"
      using 1(6) 2(6) nm by (simp add: add_mult_distrib2)
    show "A \<union> B \<subseteq> free_of s" "free_of s2 = free_of s - F2 - (A \<union> B)" using 1(8,10) 2(2,8,10) by auto
    show "(A \<union> B) \<inter> F2 = {}" using 1(9,10) 2(3,9) by auto
    show "\<forall>q. q div 512 ^ l = p div 512 ^ l \<longrightarrow> page_walk E (pt_tables s2) l t q =
      (if p \<le> q \<and> q < p + (n + m) then Some (if q - p < n then g (q - p) else h (q - p - n)) else page_walk E (pt_tables s) l t q)"
      using 1(11) 2(11) b by (auto simp: diff_diff_left)
  qed
qed

lemma same_block:
  fixes p q B :: nat
  assumes "q div (512 * B) = p div (512 * B)"
  shows "q div B mod 512 = p div B mod 512 \<longleftrightarrow> q div B = p div B"
proof -
  have "q div B div 512 = p div B div 512" using assms by (simp add: div_mult2_eq [symmetric] mult.commute)
  then show ?thesis by (metis div_mult_mod_eq)
qed

lemma inside_block:
  fixes p q B :: nat
  assumes "p mod B + n \<le> B" "p \<le> q" "q < p + n" "0 < B"
  shows "q div B = p div B"
proof -
  have "p = p div B * B + p mod B" by simp
  with assms have "p div B * B \<le> q" "q < p div B * B + B" by linarith+
  then have "p div B * B \<le> q" "q < (p div B + 1) * B" by simp_all
  then show ?thesis by (metis Suc_eq_plus1 div_nat_eqI mult.commute)
qed

text \<open>How far a block reaches, and how the last entry of a table and the next block continue it.\<close>

lemma block_rest:
  fixes p B :: nat
  assumes "0 < B"
  defines "i \<equiv> p div B mod 512"
  shows "512 * B - p mod (512 * B) = B * (512 - i) - p mod B"
proof -
  have "p mod (512 * B) = B * i + p mod B" by (simp add: i_def mod_mult2_eq mult.commute [of 512])
  then show ?thesis by (simp add: diff_mult_distrib2 mult.commute)
qed

lemma next_block:
  fixes p B :: nat
  assumes "0 < B" "p div B mod 512 < 511"
  defines "p' \<equiv> p + (B - p mod B)"
  shows "p' div B mod 512 = Suc (p div B mod 512)" "p' mod B = 0" "p' div (512 * B) = p div (512 * B)"
    "512 * B - p mod (512 * B) = (B - p mod B) + (512 * B - p' mod (512 * B))"
proof -
  have r: "p mod B < B" using assms(1) by simp
  have "p = p div B * B + p mod B" by simp
  then have "p' = p div B * B + B" using r unfolding p'_def by linarith
  then have p': "p' = (p div B + 1) * B" by simp
  then show "p' mod B = 0" by simp
  have d: "p' div B = Suc (p div B)" using p' assms(1) by simp
  then show m: "p' div B mod 512 = Suc (p div B mod 512)" using assms(2) by (simp add: mod_Suc)
  have "Suc (p div B) div 512 = p div B div 512" using assms(2) by (simp add: div_Suc mod_Suc)
  then show "p' div (512 * B) = p div (512 * B)" using d by (simp add: div_mult2_eq mult.commute [of 512])
  have "B * (512 - p div B mod 512) = B + B * (512 - Suc (p div B mod 512))" using assms(2) by (simp add: Suc_diff_Suc [symmetric])
  then show "512 * B - p mod (512 * B) = (B - p mod B) + (512 * B - p' mod (512 * B))"
    using block_rest [OF assms(1), of p] block_rest [OF assms(1), of p'] m \<open>p' mod B = 0\<close> r by simp
qed

lemma block_count_last: "p mod 512 + min n (512 - p mod 512) \<le> 512" for p :: nat
proof -
  have "p mod 512 < 512" by simp
  then show ?thesis by linarith
qed

context page_table_entry
begin

lemma physical_entries_ok:
  assumes "i + k \<le> length (pt_tables s t)" "fr_start frames + k \<le> fr_end frames" "good_flags flags"
  shows "physical_entries E t i k frames flags s =
    Some (write_entries t i (map (\<lambda>j. pte_set_addr E (fr_start frames + j) flags) [0..<k]) s)"
  using assms
proof (induction k arbitrary: i frames s)
  case (Suc k)
  have "map (\<lambda>j. pte_set_addr E (fr_start frames + j) flags) [0..<Suc k] =
      pte_set_addr E (fr_start frames) flags # map (\<lambda>j. pte_set_addr E (Suc (fr_start frames) + j) flags) [0..<k]"
    by (simp add: upt_conv_Cons map_Suc_upt [symmetric] del: upt_Suc)
  then show ?case
    using Suc.IH [of "Suc i" "write_entry t i (pte_set_addr E (fr_start frames) flags) s" "frames\<lparr>fr_start := Suc (fr_start frames)\<rparr>"] Suc.prems
    by (simp add: panic_simps set_frame_set_addr good_flags_def write_entries_Cons del: upt_Suc)
qed simp

lemma user_entries_ok:
  assumes "i + k \<le> length (pt_tables s t)" "good_flags flags" "frames_inv (pt_frames s)" "k \<le> card (free_of s)"
  shows "\<exists>g fs. user_entries E t i k flags s = Some ((write_entries t i (map (\<lambda>j. pte_set_addr E (g j) flags) [0..<k]) s)\<lparr>pt_frames := fs\<rparr>)
    \<and> frames_inv fs \<and> inj_on g {..<k} \<and> g ` {..<k} \<subseteq> free_of s \<and> free_frames fs = free_of s - g ` {..<k} \<and> (\<forall>j < k. g j < 2 ^ 40)"
  using assms
proof (induction k arbitrary: i s)
  case 0
  then show ?case by (auto intro: exI [of _ "pt_frames s"])
next
  case (Suc k)
  have "free_of s \<noteq> {}" using Suc.prems(4) by auto
  then obtain f fs where a: "alloc_frame s = Some (f, s\<lparr>pt_frames := fs\<rparr>)" "frames_inv fs" "f \<in> free_of s" "f < 2 ^ 40"
    "free_frames fs = free_of s - {f}" using alloc_frame_ok [OF Suc.prems(3)] by blast
  let ?s = "write_entry t i (pte_set_addr E f flags) (s\<lparr>pt_frames := fs\<rparr>)"
  have "Suc i + k \<le> length (pt_tables ?s t)" "frames_inv (pt_frames ?s)" "k \<le> card (free_of ?s)"
    using Suc.prems a by simp_all
  from Suc.IH [OF this(1) Suc.prems(2) this(2,3)] obtain g fs' where
    g: "user_entries E t (Suc i) k flags ?s = Some ((write_entries t (Suc i) (map (\<lambda>j. pte_set_addr E (g j) flags) [0..<k]) ?s)\<lparr>pt_frames := fs'\<rparr>)"
    "frames_inv fs'" "inj_on g {..<k}" "g ` {..<k} \<subseteq> free_of s - {f}" "free_frames fs' = free_of s - {f} - g ` {..<k}" "\<forall>j < k. g j < 2 ^ 40"
    using a(5) by auto
  let ?g = "\<lambda>j. case j of 0 \<Rightarrow> f | Suc j \<Rightarrow> g j"
  have im: "?g ` {..<Suc k} = insert f (g ` {..<k})" by (auto simp: lessThan_Suc_eq_insert_0 image_image)
  have inj: "inj_on ?g {..<Suc k}" using g(3,4) by (fastforce simp: inj_on_def lessThan_Suc_eq_insert_0)
  have m: "map (\<lambda>j. pte_set_addr E (?g j) flags) [0..<Suc k] = pte_set_addr E f flags # map (\<lambda>j. pte_set_addr E (g j) flags) [0..<k]"
    by (simp add: upt_conv_Cons map_Suc_upt [symmetric] del: upt_Suc)
  have w: "write_entries t (Suc i) es ?s = (write_entries t i (pte_set_addr E f flags # es) s)\<lparr>pt_frames := fs\<rparr>" for es
    using Suc.prems(1) by (cases s) (simp add: write_entries_def write_entry_def overwrite_Cons)
  have "user_entries E t i (Suc k) flags s =
      Some ((write_entries t i (map (\<lambda>j. pte_set_addr E (?g j) flags) [0..<Suc k]) s)\<lparr>pt_frames := fs'\<rparr>)"
    unfolding m using a(1) g(1) Suc.prems(2) by (simp add: set_frame_set_addr good_flags_def w)
  moreover have "\<forall>j < Suc k. ?g j < 2 ^ 40" using g(6) a(4) by (auto split: nat.splits)
  moreover have "?g ` {..<Suc k} \<subseteq> free_of s" "free_frames fs' = free_of s - ?g ` {..<Suc k}" unfolding im using g(4,5) a(3) by auto
  ultimately show ?case using g(2) inj by blast
qed

lemma walk_overwritten:
  assumes "length (T t) = 512" "p mod 512 + n \<le> 512" "\<And>j. j < n \<Longrightarrow> g j < 2 ^ 40" "good_flags flags" "q div 512 = p div 512"
    and "T' t = overwrite (p mod 512) (map (\<lambda>j. pte_set_addr E (g j) flags) [0..<n]) (T t)"
  shows "page_walk E T' (Suc 0) t q = (if p \<le> q \<and> q < p + n then Some (g (q - p)) else page_walk E T (Suc 0) t q)"
proof -
  have d: "p = p div 512 * 512 + p mod 512" "q = p div 512 * 512 + q mod 512" using assms(5) by (metis div_mult_mod_eq)+
  then have r: "p mod 512 \<le> q mod 512 \<and> q mod 512 < p mod 512 + n \<longleftrightarrow> p \<le> q \<and> q < p + n"
    and m: "p \<le> q \<Longrightarrow> q mod 512 - p mod 512 = q - p" and k: "p \<le> q \<Longrightarrow> q < p + n \<Longrightarrow> q - p < n" by linarith+
  have "T' t ! (q mod 512) = (if p \<le> q \<and> q < p + n then pte_set_addr E (g (q - p)) flags else T t ! (q mod 512))"
    using assms(1,2,6) nth_overwrite [of "p mod 512" "map (\<lambda>j. pte_set_addr E (g j) flags) [0..<n]" "T t" "q mod 512"] r m k by auto
  with assms(3,4) k show ?thesis by (auto simp: page_walk_last set_addr_addr set_addr_used dest!: good_flags_nonzero)
qed

lemma map_last_rel:
  assumes t: "length (pt_tables s t) = 512" "t \<noteq> 0" "t \<notin> free_of s" and b: "p mod 512 + n \<le> 512" and f: "good_flags flags"
    and s': "s' = (write_entries t (p mod 512) (map (\<lambda>j. pte_set_addr E (g j) flags) [0..<n]) s)\<lparr>pt_frames := fs\<rparr>" "\<And>j. j < n \<Longrightarrow> g j < 2 ^ 40"
    and A: "frames_inv fs" "map_target space frames p n g A" "A \<subseteq> free_of s" "free_frames fs = free_of s - A" "card A \<le> n"
  shows "map_rel E space frames (Suc 0) t p n {t} s {t} s'"
proof -
  have "card (free_of s') = card (free_of s) - card A" using s'(1) A(3,4) by (simp add: card_Diff_subset finite_subset)
  then have c: "card (free_of s) \<le> card (free_of s') + Suc 0 * max 1 n" using A(5) by linarith
  have fr: "free_of s' = free_of s - {t} - A" "A \<inter> {t} = {}" using s'(1) A(3,4) t(3) by auto
  have "page_walk E (pt_tables s') (Suc 0) t q = (if p \<le> q \<and> q < p + n then Some (g (q - p)) else page_walk E (pt_tables s) (Suc 0) t q)"
    if "q div 512 ^ Suc 0 = p div 512 ^ Suc 0" for q
    using walk_overwritten [of "pt_tables s" t p n g flags q "pt_tables s'", OF t(1) b s'(2) f] that s'(1) by simp
  then have ex: "\<exists>g A. map_target space frames p n g A \<and> A \<subseteq> free_of s \<and> A \<inter> {t} = {} \<and> free_of s' = free_of s - {t} - A
       \<and> (\<forall>q. q div 512 ^ Suc 0 = p div 512 ^ Suc 0 \<longrightarrow>
            page_walk E (pt_tables s') (Suc 0) t q = (if p \<le> q \<and> q < p + n then Some (g (q - p)) else page_walk E (pt_tables s) (Suc 0) t q))"
    using A(2,3) fr by blast
  have "pt_tree E (pt_tables s') (Suc 0) t {t}" using t b s'(1) by simp
  with c ex A(1) s'(1) show ?thesis unfolding map_rel_def by simp
qed

lemma map_last_ok:
  assumes r: "map_ready E frames (Suc 0) t p e F s" and f: "good_flags flags"
  shows "\<exists>s'. map_in_table E space flags (Suc 0) t frames \<lparr>pr_start = p, pr_end = e\<rparr> s = Some (min (e - p) (512 - p mod 512), s')
    \<and> map_rel E space frames (Suc 0) t p (min (e - p) (512 - p mod 512)) F s F s'"
proof -
  define n where "n = min (e - p) (512 - p mod 512)"
  have t: "length (pt_tables s t) = 512" "t \<noteq> 0" "t \<notin> free_of s" "F = {t}" and fi: "frames_inv (pt_frames s)"
    and pe: "p \<le> e" "e < 2 ^ 35" "e - p \<le> card (free_of s)" using r by (auto simp: map_ready_def)
  have b: "p mod 512 + n \<le> 512" unfolding n_def by (rule block_count_last)
  have n: "n \<le> e - p" by (simp add: n_def)
  note rel = map_last_rel [OF t(1-3) b f]
  let ?es = "\<lambda>g. map (\<lambda>j. pte_set_addr E (g j) flags) [0..<n]"
  have same: "s\<lparr>pt_frames := pt_frames s\<rparr> = s" "(write_entries t i es s)\<lparr>pt_frames := pt_frames s\<rparr> = write_entries t i es s" for i es
    by (simp_all add: write_entries_def)
  show ?thesis unfolding n_def [symmetric]
  proof (cases space)
    case Kernel
    have "map_in_table E space flags (Suc 0) t frames \<lparr>pr_start = p, pr_end = e\<rparr> s = Some (n, write_entries t (p mod 512) (?es (\<lambda>j. p + j)) s)"
      using Kernel t pe b n identity_entries_ok [of "p mod 512" n s t p E flags]
      by (simp add: identity_map_kernel_def page_sub_def panic_simps Let_def n_def [symmetric])
    moreover have "map_rel E space frames (Suc 0) t p n {t} s {t} (write_entries t (p mod 512) (?es (\<lambda>j. p + j)) s)"
      by (rule rel [where g = "\<lambda>j. p + j" and fs = "pt_frames s" and A = "{}"]) (use Kernel fi pe n in \<open>simp_all add: same map_target_def\<close>)
    ultimately show "\<exists>s'. map_in_table E space flags (Suc 0) t frames \<lparr>pr_start = p, pr_end = e\<rparr> s = Some (n, s') \<and> map_rel E space frames (Suc 0) t p n F s F s'"
      using t(4) by blast
  next
    case User
    show "\<exists>s'. map_in_table E space flags (Suc 0) t frames \<lparr>pr_start = p, pr_end = e\<rparr> s = Some (n, s') \<and> map_rel E space frames (Suc 0) t p n F s F s'"
    proof (cases "fr_start frames = fr_end frames")
      case True
      obtain g fs where g: "user_entries E t (p mod 512) n flags s = Some ((write_entries t (p mod 512) (?es g) s)\<lparr>pt_frames := fs\<rparr>)"
        "frames_inv fs" "inj_on g {..<n}" "g ` {..<n} \<subseteq> free_of s" "free_frames fs = free_of s - g ` {..<n}" "\<forall>j < n. g j < 2 ^ 40"
        using user_entries_ok [of "p mod 512" n s t flags] t(1) b f fi pe n by auto
      have "map_in_table E space flags (Suc 0) t frames \<lparr>pr_start = p, pr_end = e\<rparr> s = Some (n, (write_entries t (p mod 512) (?es g) s)\<lparr>pt_frames := fs\<rparr>)"
        using User True g(1) pe by (simp add: map_user_def page_sub_def Let_def n_def [symmetric])
      moreover have "map_rel E space frames (Suc 0) t p n {t} s {t} ((write_entries t (p mod 512) (?es g) s)\<lparr>pt_frames := fs\<rparr>)"
        by (rule rel [OF refl _ g(2) _ g(4,5)]) (use User True g(3,6) card_image_le [of "{..<n}" g] in \<open>simp_all add: map_target_def\<close>)
      ultimately show ?thesis using t(4) by blast
    next
      case False
      then have fr: "fr_start frames + n \<le> fr_end frames" "fr_end frames < 2 ^ 40" using r n by (auto simp: map_ready_def)
      have "map_in_table E space flags (Suc 0) t frames \<lparr>pr_start = p, pr_end = e\<rparr> s =
          Some (n, write_entries t (p mod 512) (?es (\<lambda>j. fr_start frames + j)) s)"
        using User False t(1) b f fr pe physical_entries_ok [of "p mod 512" n s t frames flags]
        by (simp add: map_user_physical_def page_sub_def Let_def n_def [symmetric])
      moreover have "map_rel E space frames (Suc 0) t p n {t} s {t} (write_entries t (p mod 512) (?es (\<lambda>j. fr_start frames + j)) s)"
        by (rule rel [where g = "\<lambda>j. fr_start frames + j" and fs = "pt_frames s" and A = "{}"]) (use User False fi fr in \<open>simp_all add: same map_target_def\<close>)
      ultimately show ?thesis using t(4) by blast
    qed
  qed
qed

end

end
