(* ===== verification/Page_Tables_Mapping.thy ===== *)
theory Page_Tables_Mapping
  imports Page_Tables_Tree
begin

text \<open>
  Mapping pages at every level: by induction over the level, and at each level over the entries of the table
  that the range covers.
\<close>

context page_table_entry
begin

lemma zero_tree:
  assumes "T f = replicate 512 (pte_zero E)" "f \<noteq> 0"
  shows "pt_tree E T (Suc l) f {f}" "page_walk E T (Suc l) f q = None"
proof -
  have z: "T f ! (q mod 512) = pte_zero E" for q by (simp add: assms(1))
  have "pt_node E T (pt_tree E T l') f (\<lambda>i. {})" for l'
    using assms unused_zero by (simp add: pt_node_def disjoint_family_on_def)
  then show "pt_tree E T (Suc l) f {f}" using assms by (cases l) auto
  show "page_walk E T (Suc l) f q = None" using z unused_zero by (simp add: page_walk.simps(2))
qed

text \<open>Replacing one sub-tree; only frames in \<open>K\<close> have changed, and no other sub-tree has one of them.\<close>

lemma pt_node_change:
  assumes N: "pt_node E T (pt_tree E T (Suc l)) t G" and i: "i < 512" "\<not> pte_is_unused E (T t ! i)"
    and H: "pt_tree E T' (Suc l) (pte_addr E (T t ! i)) H" "H \<subseteq> K" "t \<notin> K" "\<forall>j < 512. j \<noteq> i \<longrightarrow> K \<inter> G j = {}"
    and T': "\<forall>x. x \<notin> K \<longrightarrow> T' x = T x"
  shows "pt_node E T' (pt_tree E T' (Suc l)) t (G(i := H))"
    and "page_walk E T' (Suc (Suc l)) t q =
      (if q div 512 ^ Suc l mod 512 = i then page_walk E T' (Suc l) (pte_addr E (T t ! i)) q else page_walk E T (Suc (Suc l)) t q)"
proof -
  have tt: "T' t = T t" using T' H(3) by simp
  have fr: "pt_tree E T' (Suc l) (pte_addr E (T t ! j)) (G j)" "page_walk E T' (Suc l) (pte_addr E (T t ! j)) q = page_walk E T (Suc l) (pte_addr E (T t ! j)) q"
    if "j < 512" "j \<noteq> i" "\<not> pte_is_unused E (T t ! j)" for j q
    using pt_tree_frame [OF pt_nodeD(5) [OF N that(1,3)], of T'] H(4) that(1,2) T' by blast+
  have "\<forall>j < 512. j \<noteq> i \<longrightarrow> H \<inter> G j = {}" using H(2,4) by blast
  then have "disjoint_family_on (G(i := H)) {..<512}"
    using N by (auto simp: pt_node_def disjoint_family_on_def)
  then show "pt_node E T' (pt_tree E T' (Suc l)) t (G(i := H))"
    using N H(1-3) fr(1) i(2) tt by (auto simp: pt_node_def)
  show "page_walk E T' (Suc (Suc l)) t q =
      (if q div 512 ^ Suc l mod 512 = i then page_walk E T' (Suc l) (pte_addr E (T t ! i)) q else page_walk E T (Suc (Suc l)) t q)"
    using i(2) tt fr(2) [of "q div 512 ^ Suc l mod 512" q] by (auto simp: page_walk_node simp del: power_Suc)
qed

lemma next_table_ok:
  assumes N: "pt_node E (pt_tables s) (pt_tree E (pt_tables s) (Suc l)) t G" and i: "i < 512"
    and free: "insert t (\<Union>j < 512. G j) \<inter> free_of s = {}" "frames_inv (pt_frames s)" "free_of s \<noteq> {}" and flags: "good_flags flags"
  obtains sub s1 H where "next_table E t i flags s = Some (sub, s1)" "pt_node E (pt_tables s1) (pt_tree E (pt_tables s1) (Suc l)) t (G(i := H))"
    "\<not> pte_is_unused E (pt_tables s1 t ! i)" "sub = pte_addr E (pt_tables s1 t ! i)" "G i \<subseteq> H" "H - G i \<subseteq> free_of s"
    "free_of s1 = free_of s - H" "card (free_of s) \<le> card (free_of s1) + 1" "frames_inv (pt_frames s1)"
    "\<forall>x. x \<notin> H \<longrightarrow> x \<noteq> t \<longrightarrow> pt_tables s1 x = pt_tables s x"
    "\<forall>q. page_walk E (pt_tables s1) (Suc (Suc l)) t q = page_walk E (pt_tables s) (Suc (Suc l)) t q"
proof (cases "pte_is_unused E (pt_tables s t ! i)")
  case False
  have "pte_addr E (pt_tables s t ! i) \<noteq> 0" using pt_tree_root [OF pt_nodeD(5) [OF N i False]] by simp
  then have "next_table E t i flags s = Some (pte_addr E (pt_tables s t ! i), s)"
    using False pt_nodeD(1) [OF N i] i by (simp add: next_table_def panic_simps table_ptr_def)
  moreover have "free_of s = free_of s - G i" using free(1) i by auto
  ultimately show ?thesis using that [of "pte_addr E (pt_tables s t ! i)" s "G i"] N False free(2) by simp
next
  case True
  obtain f fs where a: "alloc_frame s = Some (f, s\<lparr>pt_frames := fs\<rparr>)" "frames_inv fs" "f \<in> free_of s" "f \<noteq> 0" "f < 2 ^ 40"
    "free_frames fs = free_of s - {f}" using alloc_frame_ok [OF free(2,3)] by blast
  let ?T = "pt_tables s" and ?e = "pte_set_addr E f flags"
  let ?T1 = "?T(t := (?T t)[i := ?e], f := replicate 512 (pte_zero E))"
  have ft: "f \<noteq> t" "\<And>j. j < 512 \<Longrightarrow> f \<notin> G j" and Gi: "G i = {}" using a(3) free(1) pt_nodeD(4) [OF N i True] by auto
  have len: "length (?T t) = 512" using pt_nodeD(1) [OF N i] .
  have e: "pte_addr E ?e = f" "\<not> pte_is_unused E ?e" using good_flags_nonzero [OF flags] a(5) by (simp_all add: set_addr_addr set_addr_used)
  let ?s1 = "s\<lparr>pt_frames := fs, pt_tables := ?T1\<rparr>"
  have r: "next_table E t i flags s = Some (f, ?s1)"
    using a(1,4) True len i e flags ft(1)
    by (simp add: next_table_def panic_simps table_ptr_def set_frame_set_addr good_flags_def zero_table_def write_entry_def fun_upd_twist)
  have fr: "pt_tree E ?T1 (Suc l) (pte_addr E (?T t ! j)) (G j)" "page_walk E ?T1 (Suc l) (pte_addr E (?T t ! j)) q = page_walk E ?T (Suc l) (pte_addr E (?T t ! j)) q"
    if "j < 512" "\<not> pte_is_unused E (?T t ! j)" for j q
  proof -
    have "?T1 x = ?T x" if "x \<in> G j" for x using that ft(2) [OF \<open>j < 512\<close>] pt_nodeD(3) [OF N \<open>j < 512\<close>] by auto
    then show "pt_tree E ?T1 (Suc l) (pte_addr E (?T t ! j)) (G j)" "page_walk E ?T1 (Suc l) (pte_addr E (?T t ! j)) q = page_walk E ?T (Suc l) (pte_addr E (?T t ! j)) q"
      using pt_tree_frame [OF pt_nodeD(5) [OF N that], of ?T1] by blast+
  qed
  have z: "pt_tree E ?T1 (Suc l) f {f}" "page_walk E ?T1 (Suc l) f q = None" for q using zero_tree(1) [of ?T1 f l] zero_tree(2) [of ?T1 f l q] a(4) by simp_all
  have "pt_node E ?T1 (pt_tree E ?T1 (Suc l)) t (G(i := {f}))"
    using N fr(1) z(1) e ft len i unfolding pt_node_def by (auto simp: nth_list_update disjoint_family_on_def)
  moreover have "page_walk E ?T1 (Suc (Suc l)) t q = page_walk E ?T (Suc (Suc l)) t q" for q
    using True ft(1) e len i z(2) [of q] fr(2) [of "q div 512 ^ Suc l mod 512" q]
    by (cases "q div 512 ^ Suc l mod 512 = i") (simp_all add: page_walk_node del: power_Suc)
  moreover have "card (free_of s) \<le> card (free_of ?s1) + 1" using a(3,6) by (simp add: card_Diff_singleton)
  ultimately show ?thesis using that [of f ?s1 "{f}"] r a e ft Gi len i by simp
qed

lemma map_step:
  fixes l :: nat
  defines "B \<equiv> 512 ^ Suc l"
  assumes N: "pt_node E (pt_tables s) (pt_tree E (pt_tables s) (Suc l)) t G" and F: "F = insert t (\<Union>j < 512. G j)"
    and free: "F \<inter> free_of s = {}" "frames_inv (pt_frames s)" "free_of s \<noteq> {}" and flags: "good_flags flags"
    and i: "i = p div B mod 512" and n: "p mod B + n \<le> B"
    and below: "\<And>sub s1 H. pt_tree E (pt_tables s1) (Suc l) sub H \<Longrightarrow> H \<inter> free_of s1 = {} \<Longrightarrow> frames_inv (pt_frames s1) \<Longrightarrow>
      card (free_of s) \<le> card (free_of s1) + 1 \<Longrightarrow> \<exists>H' s2. below sub s1 = Some (n, s2) \<and> map_rel E space frames (Suc l) sub p n H s1 H' s2"
  shows "\<exists>sub s1 F' s2. next_table E t i flags s = Some (sub, s1) \<and> below sub s1 = Some (n, s2) \<and> map_rel E space frames (Suc (Suc l)) t p n F s F' s2"
proof -
  have i512: "i < 512" by (simp add: i)
  obtain sub s1 H where s1: "next_table E t i flags s = Some (sub, s1)" "pt_node E (pt_tables s1) (pt_tree E (pt_tables s1) (Suc l)) t (G(i := H))"
    "\<not> pte_is_unused E (pt_tables s1 t ! i)" "sub = pte_addr E (pt_tables s1 t ! i)" "G i \<subseteq> H" "H - G i \<subseteq> free_of s"
    "free_of s1 = free_of s - H" "card (free_of s) \<le> card (free_of s1) + 1" "frames_inv (pt_frames s1)"
    "\<forall>x. x \<notin> H \<longrightarrow> x \<noteq> t \<longrightarrow> pt_tables s1 x = pt_tables s x" "\<forall>q. page_walk E (pt_tables s1) (Suc (Suc l)) t q = page_walk E (pt_tables s) (Suc (Suc l)) t q"
    by (rule next_table_ok [OF N i512 free(1) [unfolded F] free(2,3) flags])
  have sub: "pt_tree E (pt_tables s1) (Suc l) sub H" using pt_nodeD(5) [OF s1(2) i512 s1(3)] s1(4) by simp
  obtain H' s2 where b: "below sub s1 = Some (n, s2)" and rel: "map_rel E space frames (Suc l) sub p n H s1 H' s2"
    using below [OF sub _ s1(9,8)] s1(7) by auto
  obtain g A where H': "pt_tree E (pt_tables s2) (Suc l) sub H'" "H \<subseteq> H'" "H' - H \<subseteq> free_of s1" "frames_inv (pt_frames s2)"
    "\<forall>x. x \<notin> H' \<longrightarrow> pt_tables s2 x = pt_tables s1 x" "card (free_of s1) \<le> card (free_of s2) + Suc l * max 1 n"
    and A: "map_target space frames p n g A" "A \<subseteq> free_of s1" "A \<inter> H' = {}" "free_of s2 = free_of s1 - H' - A"
    "\<forall>q. q div B = p div B \<longrightarrow> page_walk E (pt_tables s2) (Suc l) sub q = (if p \<le> q \<and> q < p + n then Some (g (q - p)) else page_walk E (pt_tables s1) (Suc l) sub q)"
    unfolding B_def by (rule map_relE [OF rel])
  have Hfree: "H' - G i \<subseteq> free_of s" using H'(3) s1(6,7) by blast
  have tH: "t \<notin> H'" using pt_nodeD(3) [OF s1(2) i512] H'(3) free(1) s1(7) F by auto
  have dis: "\<forall>j < 512. j \<noteq> i \<longrightarrow> H' \<inter> (G(i := H)) j = {}"
  proof (intro allI impI)
    fix j :: nat
    assume that: "j < 512" "j \<noteq> i"
    have "disjoint_family_on (G(i := H)) {..<512}" using s1(2) by (simp add: pt_node_def)
    from disjoint_family_onD [OF this, of i j] that i512 have "H \<inter> G j = {}" by simp
    moreover have "G j \<inter> free_of s = {}" using free(1) F that(1) by auto
    ultimately show "H' \<inter> (G(i := H)) j = {}" using H'(3) s1(7) that(2) by auto
  qed
  note upd = pt_node_change [OF s1(2) i512 s1(3) H'(1) [unfolded s1(4)] subset_refl tH dis H'(5)]
  let ?F' = "insert t (\<Union>j < 512. (G(i := H')) j)"
  have Fsplit: "?F' = H' \<union> F" unfolding F using s1(5) H'(2) i512 by (auto split: if_splits)
  have walk: "page_walk E (pt_tables s2) (Suc (Suc l)) t q =
      (if p \<le> q \<and> q < p + n then Some (g (q - p)) else page_walk E (pt_tables s) (Suc (Suc l)) t q)"
    if q: "q div 512 ^ Suc (Suc l) = p div 512 ^ Suc (Suc l)" for q
  proof (cases "q div B mod 512 = i")
    case True
    with same_block [of q B p] q have "q div B = p div B" by (simp add: B_def i)
    moreover have "page_walk E (pt_tables s1) (Suc l) sub q = page_walk E (pt_tables s) (Suc (Suc l)) t q"
      using True s1(3,4) s1(11) [rule_format, of q] by (simp add: B_def page_walk_node [of E "pt_tables s1"] del: power_Suc)
    ultimately show ?thesis using A(5) upd(2) [of q] True s1(4) by (simp add: B_def del: power_Suc)
  next
    case False
    then have "\<not> (p \<le> q \<and> q < p + n)" using inside_block [OF n, of q] i by (auto simp: B_def)
    with False upd(2) [of q] s1(11) show ?thesis by (auto simp: B_def simp del: power_Suc)
  qed
  have "pt_node E (pt_tables s2) (pt_tree E (pt_tables s2) (Suc l)) t (G(i := H'))" using upd(1) by (simp only: fun_upd_upd)
  then have R1: "pt_tree E (pt_tables s2) (Suc (Suc l)) t ?F'" unfolding pt_tree.simps by blast
  have R2: "F \<subseteq> ?F'" "?F' - F \<subseteq> free_of s" using Hfree Fsplit F i512 by auto
  have R3: "\<forall>x. x \<notin> ?F' \<longrightarrow> pt_tables s2 x = pt_tables s x" using H'(2,5) s1(10) Fsplit F by auto
  have R4: "card (free_of s) \<le> card (free_of s2) + Suc (Suc l) * max 1 n" using s1(8) H'(6) by auto
  have R5: "A \<subseteq> free_of s" "A \<inter> ?F' = {}" "free_of s2 = free_of s - ?F' - A"
    using A(2-4) s1(7) free(1) H'(2) unfolding Fsplit by auto
  have "map_rel E space frames (Suc (Suc l)) t p n F s ?F' s2" using walk by (intro map_relI [OF R1 R2 H'(4) R3 R4 A(1) R5]) blast
  with s1(1) b show ?thesis by blast
qed

lemma map_entries_ok:
  fixes l :: nat
  defines "B \<equiv> 512 ^ Suc l"
  assumes below: "\<And>sub frames p e H s. map_ready E frames (Suc l) sub p e H s \<Longrightarrow>
      \<exists>H' s'. below sub frames \<lparr>pr_start = p, pr_end = e\<rparr> s = Some (min (e - p) (B - p mod B), s')
        \<and> map_rel E space frames (Suc l) sub p (min (e - p) (B - p mod B)) H s H' s'"
    and flags: "good_flags flags"
  shows "map_ready E frames (Suc (Suc l)) t p e F s \<Longrightarrow> i = p div B mod 512 \<Longrightarrow>
    \<exists>F' s'. map_entries E below t flags [i..<512] frames \<lparr>pr_start = p, pr_end = e\<rparr> c s = Some (c + min (e - p) (512 * B - p mod (512 * B)), s')
      \<and> map_rel E space frames (Suc (Suc l)) t p (min (e - p) (512 * B - p mod (512 * B))) F s F' s'"
proof (induction "512 - i" arbitrary: i p frames F s c)
  case 0
  then show ?case by simp
next
  case (Suc k)
  have B: "0 < B" and i: "i < 512" "i = p div B mod 512" using Suc.prems(2) by (simp_all add: B_def)
  obtain G where G: "pt_node E (pt_tables s) (pt_tree E (pt_tables s) (Suc l)) t G" "F = insert t (\<Union>j < 512. G j)"
    using Suc.prems(1) by (auto simp: map_ready_def)
  have R: "F \<inter> free_of s = {}" "frames_inv (pt_frames s)" "p \<le> e" "e < 2 ^ 35" "Suc (Suc l) * max 1 (e - p) \<le> card (free_of s)"
    "fr_start frames \<le> fr_end frames" "fr_start frames < fr_end frames \<Longrightarrow> fr_end frames - fr_start frames = e - p \<and> fr_end frames < 2 ^ 40"
    using Suc.prems(1) by (auto simp: map_ready_def)
  define n where "n = min (e - p) (B - p mod B)"
  have "p mod B < B" using B by simp
  then have n: "p mod B + n \<le> B" "n \<le> e - p" unfolding n_def by linarith+
  have ne: "free_of s \<noteq> {}" using R(5) by (auto simp: max_def split: if_splits)
  have ready: "map_ready E frames (Suc l) sub p e H s1"
    if "pt_tree E (pt_tables s1) (Suc l) sub H" "H \<inter> free_of s1 = {}" "frames_inv (pt_frames s1)" "card (free_of s) \<le> card (free_of s1) + 1" for sub s1 H
  proof -
    have "Suc (Suc l) * max 1 (e - p) = max 1 (e - p) + Suc l * max 1 (e - p)" "1 \<le> max 1 (e - p)" by simp_all
    then have "Suc l * max 1 (e - p) \<le> card (free_of s1)" using R(5) that(4) by linarith
    then show ?thesis using that R by (simp add: map_ready_def)
  qed
  obtain sub s1 F1 s2 where s2: "next_table E t i flags s = Some (sub, s1)" "below sub frames \<lparr>pr_start = p, pr_end = e\<rparr> s1 = Some (n, s2)"
    "map_rel E space frames (Suc (Suc l)) t p n F s F1 s2"
    using map_step [OF G R(1,2) ne flags, of i p n "\<lambda>sub. below sub frames \<lparr>pr_start = p, pr_end = e\<rparr>" space frames]
      below [OF ready] i(2) n(1) unfolding B_def n_def by blast
  have fa: "(if fr_end frames > fr_start frames then do { f \<leftarrow> frame_add (fr_start frames) n; Some (frames\<lparr>fr_start := f\<rparr>) } else Some frames) = Some (advance frames n)"
    using R(7) n(2) by (auto simp: advance_def frame_add_def)
  have "p + n < 2 ^ 35" using R(3,4) n(2) by linarith
  then have pa: "page_add p n = Some (p + n)" by (simp add: page_add_def page_ok_def)
  have step: "map_entries E below t flags [i..<512] frames \<lparr>pr_start = p, pr_end = e\<rparr> c s =
      (if p + n \<ge> e then Some (c + n, s2)
       else map_entries E below t flags [Suc i..<512] (advance frames n) \<lparr>pr_start = p + n, pr_end = e\<rparr> (c + n) s2)"
    using i(1) s2(1,2) pa by (simp add: upt_conv_Cons fa del: upt_Suc)
  show ?case
  proof (cases "p + n \<ge> e")
    case True
    have "B * 1 \<le> B * (512 - i)" using i(1) by (intro mult_le_mono2) simp
    then have "B - p mod B \<le> 512 * B - p mod (512 * B)" using block_rest [OF B, of p] i(2) by (simp only: diff_le_mono mult_1_right)
    then have "min (e - p) (512 * B - p mod (512 * B)) = n" using True n unfolding n_def by linarith
    then show ?thesis using step True s2(3) by auto
  next
    case False
    then have nB: "n = B - p mod B" "0 < n" using \<open>p mod B < B\<close> unfolding n_def by auto
    show ?thesis
    proof (cases "i = 511")
      case True
      then have "512 * B - p mod (512 * B) = n" using block_rest [OF B, of p] i(2) nB(1) by simp
      then have "min (e - p) (512 * B - p mod (512 * B)) = n" using False by linarith
      then show ?thesis using step False s2(3) True by auto
    next
      case i511: False
      then have lt: "p div B mod 512 < 511" using i by simp
      note nb = next_block [OF B lt, folded nB(1)]
      obtain g A where f: "free_of s2 = free_of s - F1 - A" "pt_tree E (pt_tables s2) (Suc (Suc l)) t F1" "frames_inv (pt_frames s2)"
        "card (free_of s) \<le> card (free_of s2) + Suc (Suc l) * max 1 n" using map_relE [OF s2(3)] by metis
      have fr: "fr_start frames < fr_end frames \<Longrightarrow> fr_start frames + n < fr_end frames" using R(7) False by linarith
      have "Suc (Suc l) * n + Suc (Suc l) * (e - (p + n)) = Suc (Suc l) * (e - p)"
        using False by (simp only: add_mult_distrib2 [symmetric]) simp
      moreover have "max 1 (e - (p + n)) = e - (p + n)" "max 1 (e - p) = e - p" "max 1 n = n" using False nB(2) by linarith+
      ultimately have "Suc (Suc l) * max 1 (e - (p + n)) \<le> card (free_of s2)" using R(5) f(4) by (simp only:)
      then have ready2: "map_ready E (advance frames n) (Suc (Suc l)) t (p + n) e F1 s2"
        using f False R(4,6,7) fr by (auto simp: map_ready_def advance_def)
      have k: "k = 512 - Suc i" using Suc.hyps(2) by linarith
      let ?m = "min (e - (p + n)) (512 * B - (p + n) mod (512 * B))"
      obtain F2 s' where IH: "map_entries E below t flags [Suc i..<512] (advance frames n) \<lparr>pr_start = p + n, pr_end = e\<rparr> (c + n) s2 = Some (c + n + ?m, s')"
        "map_rel E space (advance frames n) (Suc (Suc l)) t (p + n) ?m F1 s2 F2 s'"
        using Suc.hyps(1) [of "Suc i", OF k ready2, of "c + n"] nb(1) i(2) by auto
      have "0 < ?m" using False B by simp
      then have "map_rel E space frames (Suc (Suc l)) t p (n + ?m) F s F2 s'"
        using map_rel_trans [OF s2(3) IH(2) _ nB(2) _ R(1) fr R(6)] nb(3) by (simp add: B_def)
      moreover have "n + ?m = min (e - p) (512 * B - p mod (512 * B))" using nb(4) False by linarith
      ultimately show ?thesis using step False IH(1) by (auto simp: add.assoc)
    qed
  qed
qed

theorem map_in_table_ok:
  assumes "map_ready E frames (Suc l) t p e F s" "good_flags flags"
  shows "\<exists>F' s'. map_in_table E space flags (Suc l) t frames \<lparr>pr_start = p, pr_end = e\<rparr> s = Some (min (e - p) (512 ^ Suc l - p mod 512 ^ Suc l), s')
    \<and> map_rel E space frames (Suc l) t p (min (e - p) (512 ^ Suc l - p mod 512 ^ Suc l)) F s F' s'"
  using assms
proof (induction l arbitrary: t p e F s frames)
  case 0
  from map_last_ok [OF this, of space] show ?case unfolding power_one_right power_Suc0_right by blast
next
  case (Suc l)
  from map_entries_ok [where l = l and below = "map_in_table E space flags (Suc l)" and space = space, OF Suc.IH [OF _ Suc.prems(2)] Suc.prems(2,1) refl, of 0]
  show ?case by (simp add: mult.assoc)
qed

end

end
