(* ===== verification/Page_Tables_Unmapping.thy ===== *)
theory Page_Tables_Unmapping
  imports Page_Tables_Mapping
begin

text \<open>
  Unmapping a range all of whose pages are mapped: the pages are no longer mapped, every other page is as
  before, and the frames of the pages and of the tables that became empty are free.
\<close>

section \<open>What unmapping does\<close>

definition mapped :: "'e entry_ops \<Rightarrow> (nat \<Rightarrow> 'e list) \<Rightarrow> nat \<Rightarrow> nat \<Rightarrow> nat \<Rightarrow> nat \<Rightarrow> nat set" where
  "mapped E T l t p n = {f. \<exists>q. p \<le> q \<and> q < p + n \<and> page_walk E T l t q = Some f}"

definition unmap_rel ::
    "'e entry_ops \<Rightarrow> bool \<Rightarrow> nat \<Rightarrow> nat \<Rightarrow> nat \<Rightarrow> nat \<Rightarrow> nat set \<Rightarrow> 'e pt_mem \<Rightarrow> nat set \<Rightarrow> 'e pt_mem \<Rightarrow> bool" where
  "unmap_rel E fp l t p n F s F' s' \<longleftrightarrow>
     pt_tree E (pt_tables s') l t F' \<and> F' \<subseteq> F \<and> frames_inv (pt_frames s') \<and> (\<forall>x. x \<notin> F \<longrightarrow> pt_tables s' x = pt_tables s x)
     \<and> free_of s' = free_of s \<union> (F - F') \<union> (if fp then mapped E (pt_tables s) l t p n else {})
     \<and> (\<forall>q. q div 512 ^ l = p div 512 ^ l \<longrightarrow>
          page_walk E (pt_tables s') l t q = (if p \<le> q \<and> q < p + n then None else page_walk E (pt_tables s) l t q))"

lemma unmap_relD:
  assumes "unmap_rel E fp l t p n F s F' s'"
  shows "pt_tree E (pt_tables s') l t F'" "F' \<subseteq> F" "frames_inv (pt_frames s')" "\<forall>x. x \<notin> F \<longrightarrow> pt_tables s' x = pt_tables s x"
    "free_of s' = free_of s \<union> (F - F') \<union> (if fp then mapped E (pt_tables s) l t p n else {})"
    "\<forall>q. q div 512 ^ l = p div 512 ^ l \<longrightarrow>
      page_walk E (pt_tables s') l t q = (if p \<le> q \<and> q < p + n then None else page_walk E (pt_tables s) l t q)"
  using assms unfolding unmap_rel_def by blast+

text \<open>The pages of the range that this table describes.\<close>

definition pages_here :: "nat \<Rightarrow> nat \<Rightarrow> nat \<Rightarrow> nat set" where
  "pages_here l p e = {q. p \<le> q \<and> q < e \<and> q div 512 ^ l = p div 512 ^ l}"

text \<open>Frames that may be given to the allocator.\<close>

definition freeable :: "nat set \<Rightarrow> 'e pt_mem \<Rightarrow> bool" where
  "freeable F s \<longleftrightarrow> F \<inter> free_of s = {} \<and> (\<forall>f \<in> F. f \<noteq> 0 \<and> f + 1 < 2 ^ 40)"

definition unmap_ready :: "'e entry_ops \<Rightarrow> bool \<Rightarrow> nat \<Rightarrow> nat \<Rightarrow> nat \<Rightarrow> nat \<Rightarrow> nat set \<Rightarrow> 'e pt_mem \<Rightarrow> bool" where
  "unmap_ready E fp l t p e F s \<longleftrightarrow> pt_tree E (pt_tables s) l t F \<and> frames_inv (pt_frames s) \<and> freeable F s \<and> p < e \<and> e < 2 ^ 35
     \<and> (\<forall>q \<in> pages_here l p e. page_walk E (pt_tables s) l t q \<noteq> None)
     \<and> (fp \<longrightarrow> inj_on (page_walk E (pt_tables s) l t) (pages_here l p e)
          \<and> (\<exists>D. freeable D s \<and> D \<inter> F = {} \<and> page_walk E (pt_tables s) l t ` pages_here l p e \<subseteq> Some ` D))"

lemma unmap_rel_trans:
  assumes r1: "unmap_rel E fp l t p n F s F1 s1" and r2: "unmap_rel E fp l t (p + n) m F1 s1 F2 s2"
    and b: "p mod 512 ^ l + (n + m) \<le> 512 ^ l" and m: "0 < m"
  shows "unmap_rel E fp l t p (n + m) F s F2 s2"
proof -
  note 1 = unmap_relD [OF r1] and 2 = unmap_relD [OF r2]
  have blk: "q div 512 ^ l = p div 512 ^ l" if "p \<le> q" "q < p + (n + m)" for q using inside_block [OF b that] by simp
  have pn: "(p + n) div 512 ^ l = p div 512 ^ l" using blk [of "p + n"] m by simp
  have M: "mapped E (pt_tables s) l t p (n + m) = mapped E (pt_tables s) l t p n \<union> mapped E (pt_tables s1) l t (p + n) m"
  proof (intro equalityI subsetI)
    fix f assume "f \<in> mapped E (pt_tables s) l t p (n + m)"
    then obtain q where q: "p \<le> q" "q < p + (n + m)" "page_walk E (pt_tables s) l t q = Some f" by (auto simp: mapped_def)
    show "f \<in> mapped E (pt_tables s) l t p n \<union> mapped E (pt_tables s1) l t (p + n) m"
    proof (cases "q < p + n")
      case True
      then show ?thesis using q by (auto simp: mapped_def)
    next
      case False
      then have "page_walk E (pt_tables s1) l t q = Some f" using 1(6) blk [OF q(1,2)] q(3) by simp
      then show ?thesis using q False by (auto simp: mapped_def)
    qed
  next
    fix f assume "f \<in> mapped E (pt_tables s) l t p n \<union> mapped E (pt_tables s1) l t (p + n) m"
    then show "f \<in> mapped E (pt_tables s) l t p (n + m)"
    proof
      assume "f \<in> mapped E (pt_tables s1) l t (p + n) m"
      then obtain q where q: "p + n \<le> q" "q < p + (n + m)" "page_walk E (pt_tables s1) l t q = Some f" by (auto simp: mapped_def)
      then have "p \<le> q" "page_walk E (pt_tables s) l t q = Some f" using 1(6) blk [of q] by simp_all
      then show ?thesis using q(2) unfolding mapped_def by blast
    qed (auto simp: mapped_def)
  qed
  have "free_of s2 = free_of s \<union> (F - F2) \<union> (if fp then mapped E (pt_tables s) l t p (n + m) else {})"
    using 1(2,5) 2(2,5) unfolding M by auto
  moreover have "\<forall>x. x \<notin> F \<longrightarrow> pt_tables s2 x = pt_tables s x" using 1(2,4) 2(4) by auto
  moreover have "page_walk E (pt_tables s2) l t q = (if p \<le> q \<and> q < p + (n + m) then None else page_walk E (pt_tables s) l t q)"
    if "q div 512 ^ l = p div 512 ^ l" for q
  proof (cases "p \<le> q \<and> q < p + n")
    case True
    then show ?thesis using 1(6) 2(6) pn that by simp
  next
    case False
    then have "p + n \<le> q \<and> q < p + n + m \<longleftrightarrow> p \<le> q \<and> q < p + (n + m)" by linarith
    then show ?thesis using False 1(6) 2(6) pn that by (simp only:) simp
  qed
  ultimately show ?thesis using 2(1,3) 1(2) 2(2) unfolding unmap_rel_def by blast
qed

lemma between_block: "p \<le> q \<Longrightarrow> q < p + n \<Longrightarrow> (p + n) div B = p div B \<Longrightarrow> q div B = p div (B :: nat)"
  using div_le_mono [of p q B] div_le_mono [of q "p + n" B] by simp

text \<open>After a first part of the range the rest of it is as it was.\<close>

lemma unmap_ready_rest:
  assumes r: "unmap_ready E fp l t p e F s" and u: "unmap_rel E fp l t p n F s F1 s1" and n: "p + n < e" "(p + n) div 512 ^ l = p div 512 ^ l"
  shows "unmap_ready E fp l t (p + n) e F1 s1"
proof -
  note U = unmap_relD [OF u]
  have R: "freeable F s" "e < 2 ^ 35" "\<forall>q \<in> pages_here l p e. page_walk E (pt_tables s) l t q \<noteq> None" using r by (auto simp: unmap_ready_def)
  have sub: "pages_here l (p + n) e \<subseteq> pages_here l p e" using n(2) by (auto simp: pages_here_def)
  have w: "page_walk E (pt_tables s1) l t q = page_walk E (pt_tables s) l t q" if "q \<in> pages_here l (p + n) e" for q
    using that U(6) [rule_format, of q] n(2) by (simp add: pages_here_def)
  then have img: "page_walk E (pt_tables s1) l t ` pages_here l (p + n) e = page_walk E (pt_tables s) l t ` pages_here l (p + n) e" by (intro image_cong) auto
  have M: "mapped E (pt_tables s) l t p n \<subseteq> D" if "page_walk E (pt_tables s) l t ` pages_here l p e \<subseteq> Some ` D" for D
  proof
    fix f assume "f \<in> mapped E (pt_tables s) l t p n"
    then obtain q where q: "p \<le> q" "q < p + n" "page_walk E (pt_tables s) l t q = Some f" by (auto simp: mapped_def)
    have "q div 512 ^ l = p div 512 ^ l" using between_block [OF q(1,2) n(2)] .
    with q n(1) have "q \<in> pages_here l p e" by (simp add: pages_here_def)
    with that q(3) show "f \<in> D" by force
  qed
  have fF: "freeable F1 s1"
  proof (cases fp)
    case True
    then obtain D where "D \<inter> F = {}" "page_walk E (pt_tables s) l t ` pages_here l p e \<subseteq> Some ` D" using r by (auto simp: unmap_ready_def)
    with M have "mapped E (pt_tables s) l t p n \<inter> F = {}" by blast
    with R(1) U(2,5) show ?thesis by (auto simp: freeable_def)
  qed (use R(1) U(2,5) in \<open>auto simp: freeable_def\<close>)
  have "inj_on (page_walk E (pt_tables s1) l t) (pages_here l (p + n) e)
      \<and> (\<exists>D. freeable D s1 \<and> D \<inter> F1 = {} \<and> page_walk E (pt_tables s1) l t ` pages_here l (p + n) e \<subseteq> Some ` D)" if fp
  proof -
    from r that obtain D where D: "inj_on (page_walk E (pt_tables s) l t) (pages_here l p e)" "freeable D s" "D \<inter> F = {}"
      "page_walk E (pt_tables s) l t ` pages_here l p e \<subseteq> Some ` D" by (auto simp: unmap_ready_def)
    have "inj_on (page_walk E (pt_tables s1) l t) (pages_here l (p + n) e)"
      using inj_on_subset [OF D(1) sub] w by (simp cong: inj_on_cong)
    moreover have "page_walk E (pt_tables s1) l t ` pages_here l (p + n) e \<subseteq> Some ` (D - mapped E (pt_tables s) l t p n)"
      unfolding img
    proof
      fix y assume "y \<in> page_walk E (pt_tables s) l t ` pages_here l (p + n) e"
      then obtain q where q: "q \<in> pages_here l (p + n) e" "y = page_walk E (pt_tables s) l t q" by auto
      then obtain f where f: "f \<in> D" "page_walk E (pt_tables s) l t q = Some f" using D(4) sub by (metis (no_types, lifting) imageE image_subset_iff subsetD)
      have "f \<notin> mapped E (pt_tables s) l t p n"
      proof
        assume "f \<in> mapped E (pt_tables s) l t p n"
        then obtain q' where q': "p \<le> q'" "q' < p + n" "page_walk E (pt_tables s) l t q' = Some f" by (auto simp: mapped_def)
        have "q' div 512 ^ l = p div 512 ^ l" using between_block [OF q'(1,2) n(2)] .
        then have "q' \<in> pages_here l p e" using q' n(1) by (simp add: pages_here_def)
        then have "q' = q" using inj_onD [OF D(1), of q' q] q(1) sub f(2) q'(3) by auto
        with q(1) q'(2) show False by (simp add: pages_here_def)
      qed
      with f q(2) show "y \<in> Some ` (D - mapped E (pt_tables s) l t p n)" by auto
    qed
    moreover have "freeable (D - mapped E (pt_tables s) l t p n) s1" using D(2,3) U(5) that by (auto simp: freeable_def)
    ultimately show ?thesis using D(3) U(2) by blast
  qed
  moreover have "\<forall>q \<in> pages_here l (p + n) e. page_walk E (pt_tables s1) l t q \<noteq> None" using R(3) w sub by auto
  ultimately show ?thesis using U(1,3) fF n(1) R(2) unfolding unmap_ready_def by blast
qed

lemma free_frame_ok:
  assumes "frames_inv (pt_frames s)" "f \<notin> free_of s" "f \<noteq> 0" "f + 1 < 2 ^ 40"
  shows "\<exists>fs. free_frame f s = Some (s\<lparr>pt_frames := fs\<rparr>) \<and> frames_inv fs \<and> free_frames fs = insert f (free_of s)"
proof -
  have "{f..<f + 1} \<inter> free_of s = {}" using assms(2) by auto
  from frames_free_ok [OF assms(1) _ _ assms(4) this] assms(3) obtain fs where
    "frames_free \<lparr>fr_start = f, fr_end = f + 1\<rparr> (pt_frames s) = Some fs" "frames_inv fs" "free_frames fs = free_of s \<union> {f..<f + 1}" by auto
  with assms(4) show ?thesis by (auto simp: free_frame_def frame_add_def)
qed

lemma empty_tree:
  assumes "pt_tree E T l t F" "is_table_empty E (T t)"
  shows "F = {t}" "page_walk E T l t q = None"
proof -
  have u: "pte_is_unused E (T t ! i)" if "i < 512" for i
    using assms pt_tree_root [OF assms(1)] that by (simp add: is_table_empty_def list_all_length)
  show "F = {t}" using assms(1) u by (cases "(E, T, l, t, F)" rule: pt_tree.cases) (auto simp: pt_node_def)
  show "page_walk E T l t q = None" using u [of "page_table_index q l"] assms(1) by (cases l) (auto simp: page_walk.simps(2))
qed

section \<open>The last level\<close>

lemma unmap_last_ok:
  assumes "i + k \<le> length (pt_tables s t)" "frames_inv (pt_frames s)" "\<And>j. i \<le> j \<Longrightarrow> j < i + k \<Longrightarrow> \<not> pte_is_unused E (pt_tables s t ! j)"
    and "fp \<Longrightarrow> inj_on (\<lambda>j. pte_addr E (pt_tables s t ! j)) {i..<i + k}"
    and "fp \<Longrightarrow> freeable ((\<lambda>j. pte_addr E (pt_tables s t ! j)) ` {i..<i + k}) s"
  shows "\<exists>fs. unmap_last E fp t i k s = Some ((write_entries t i (replicate k (pte_zero E)) s)\<lparr>pt_frames := fs\<rparr>) \<and> frames_inv fs
    \<and> free_frames fs = free_of s \<union> (if fp then (\<lambda>j. pte_addr E (pt_tables s t ! j)) ` {i..<i + k} else {})"
  using assms
proof (induction k arbitrary: i s)
  case 0
  then show ?case by (auto intro: exI [of _ "pt_frames s"])
next
  case (Suc k)
  let ?a = "\<lambda>j. pte_addr E (pt_tables s t ! j)"
  have iv: "{i..<i + Suc k} = insert i {Suc i..<Suc i + k}" by auto
  obtain fs where f: "(if fp then free_frame (?a i) s else Some s) = Some (s\<lparr>pt_frames := fs\<rparr>)" "frames_inv fs"
    "free_frames fs = free_of s \<union> (if fp then {?a i} else {})"
  proof (cases fp)
    case True
    then have "?a i \<notin> free_of s" "?a i \<noteq> 0" "?a i + 1 < 2 ^ 40" using Suc.prems(5) unfolding iv by (auto simp: freeable_def)
    with free_frame_ok [OF Suc.prems(2)] True that show ?thesis by auto
  qed (use Suc.prems(2) in \<open>auto intro: that [of "pt_frames s"]\<close>)
  let ?s = "write_entry t i (pte_zero E) (s\<lparr>pt_frames := fs\<rparr>)"
  have step: "unmap_last E fp t i (Suc k) s = unmap_last E fp t (Suc i) k ?s"
    using Suc.prems(1,3) f(1) by (simp add: panic_simps)
  have same: "pt_tables ?s t ! j = pt_tables s t ! j" if "Suc i \<le> j" for j using that by simp
  then have img: "(\<lambda>j. pte_addr E (pt_tables ?s t ! j)) ` {Suc i..<Suc i + k} = ?a ` {Suc i..<Suc i + k}" by (intro image_cong) simp_all
  have "fp \<Longrightarrow> inj_on (\<lambda>j. pte_addr E (pt_tables ?s t ! j)) {Suc i..<Suc i + k}"
    using Suc.prems(4) same unfolding iv by (auto simp: inj_on_def)
  moreover have "fp \<Longrightarrow> freeable ((\<lambda>j. pte_addr E (pt_tables ?s t ! j)) ` {Suc i..<Suc i + k}) ?s"
    unfolding img using Suc.prems(4,5) f(3) unfolding iv by (auto simp: freeable_def inj_on_def)
  moreover have "\<And>j. Suc i \<le> j \<Longrightarrow> j < Suc i + k \<Longrightarrow> \<not> pte_is_unused E (pt_tables ?s t ! j)" using Suc.prems(3) same by auto
  moreover have "Suc i + k \<le> length (pt_tables ?s t)" "frames_inv (pt_frames ?s)" using Suc.prems(1) f(2) by simp_all
  ultimately obtain fs' where IH: "unmap_last E fp t (Suc i) k ?s = Some ((write_entries t (Suc i) (replicate k (pte_zero E)) ?s)\<lparr>pt_frames := fs'\<rparr>)"
    "frames_inv fs'" "free_frames fs' = free_of ?s \<union> (if fp then ?a ` {Suc i..<Suc i + k} else {})"
    using Suc.IH [of "Suc i" ?s] unfolding img by blast
  have "(write_entries t (Suc i) (replicate k (pte_zero E)) ?s)\<lparr>pt_frames := fs'\<rparr> = (write_entries t i (replicate (Suc k) (pte_zero E)) s)\<lparr>pt_frames := fs'\<rparr>"
    using Suc.prems(1) by (cases s) (simp add: write_entries_def write_entry_def overwrite_Cons)
  with step IH f(3) show ?case unfolding iv by auto
qed

lemma mod_offset:
  fixes p B :: nat
  assumes "p mod B + k < B"
  shows "(p + k) mod B = p mod B + k" "(p + k) div B = p div B"
proof -
  show "(p + k) mod B = p mod B + k" using assms by (metis mod_add_left_eq mod_less)
  have "p = p div B * B + p mod B" by simp
  with assms have "p div B * B \<le> p + k" "p + k < p div B * B + B" by linarith+
  then show "(p + k) div B = p div B" by (intro div_nat_eqI) (simp_all add: mult.commute)
qed

lemma pages_here_offset: "p mod 512 ^ l + n \<le> 512 ^ l \<Longrightarrow> n \<le> e - p \<Longrightarrow> k < n \<Longrightarrow> p + k \<in> pages_here l p e"
  using mod_offset(2) [of p "512 ^ l" k] by (auto simp: pages_here_def)

context page_table_entry
begin

lemma unmap_table_last:
  assumes r: "unmap_ready E fp (Suc 0) t p e F s"
  shows "\<exists>s'. unmap_in_table E fp (Suc 0) t \<lparr>pr_start = p, pr_end = e\<rparr> s = Some (min (e - p) (512 - p mod 512), s')
    \<and> unmap_rel E fp (Suc 0) t p (min (e - p) (512 - p mod 512)) F s F s'"
proof -
  define n where "n = min (e - p) (512 - p mod 512)"
  let ?T = "pt_tables s"
  let ?a = "\<lambda>j. pte_addr E (?T t ! j)" and ?i = "p mod 512"
  have t: "length (?T t) = 512" "t \<noteq> 0" "F = {t}" and fi: "frames_inv (pt_frames s)" and pe: "p < e" and fr: "freeable F s"
    and w: "\<forall>q \<in> pages_here (Suc 0) p e. page_walk E ?T (Suc 0) t q \<noteq> None" using r by (auto simp: unmap_ready_def)
  have b: "?i + n \<le> 512" unfolding n_def by (rule block_count_last)
  have n: "n \<le> e - p" by (simp add: n_def)
  have here: "p + k \<in> pages_here (Suc 0) p e" "(p + k) mod 512 = ?i + k" if "k < n" for k
    using pages_here_offset [of p "Suc 0" n e k] mod_offset(1) [of p 512 k] b n that by auto
  have walk: "page_walk E ?T (Suc 0) t (p + k) = Some (?a (?i + k))" "\<not> pte_is_unused E (?T t ! (?i + k))" if "k < n" for k
    using w here [OF that] by (auto simp: page_walk_last split: if_splits)
  have used: "\<not> pte_is_unused E (?T t ! j)" if "?i \<le> j" "j < ?i + n" for j using walk(2) [of "j - ?i"] that by auto
  have img: "?a ` {?i..<?i + n} = mapped E ?T (Suc 0) t p n"
  proof (intro equalityI subsetI)
    fix f assume "f \<in> ?a ` {?i..<?i + n}"
    then obtain k where "k < n" "f = ?a (?i + k)" by (auto simp: image_iff) (metis add_diff_inverse_nat leD less_diff_conv2 linorder_not_less add.commute)
    with walk(1) show "f \<in> mapped E ?T (Suc 0) t p n" by (auto simp: mapped_def intro!: exI [of _ "p + k"])
  next
    fix f assume "f \<in> mapped E ?T (Suc 0) t p n"
    then obtain k where "k < n" "page_walk E ?T (Suc 0) t (p + k) = Some f" by (auto simp: mapped_def) (metis add_diff_inverse_nat leD nat_add_left_cancel_less)
    with walk(1) [of k] show "f \<in> ?a ` {?i..<?i + n}" by auto
  qed
  have D: "inj_on ?a {?i..<?i + n}" "freeable (?a ` {?i..<?i + n}) s" if fp
  proof -
    from r that obtain D where D: "inj_on (page_walk E ?T (Suc 0) t) (pages_here (Suc 0) p e)" "freeable D s"
      "page_walk E ?T (Suc 0) t ` pages_here (Suc 0) p e \<subseteq> Some ` D" by (auto simp: unmap_ready_def)
    show "inj_on ?a {?i..<?i + n}"
    proof (rule inj_onI)
      fix j k assume jk: "j \<in> {?i..<?i + n}" "k \<in> {?i..<?i + n}" "?a j = ?a k"
      then have "page_walk E ?T (Suc 0) t (p + (j - ?i)) = page_walk E ?T (Suc 0) t (p + (k - ?i))"
        using walk(1) [of "j - ?i"] walk(1) [of "k - ?i"] by auto
      moreover have "j - ?i < n" "k - ?i < n" using jk by auto
      ultimately have "p + (j - ?i) = p + (k - ?i)" using D(1) here(1) by (auto dest: inj_onD)
      then show "j = k" using jk by auto
    qed
    have "f \<in> D" if f: "f \<in> ?a ` {?i..<?i + n}" for f
    proof -
      from f obtain j where j: "?i \<le> j" "j < ?i + n" "f = ?a j" by auto
      have "page_walk E ?T (Suc 0) t (p + (j - ?i)) = Some f" "p + (j - ?i) \<in> pages_here (Suc 0) p e"
        using walk(1) [of "j - ?i"] here(1) [of "j - ?i"] j by auto
      with D(3) show ?thesis by force
    qed
    with D(2) show "freeable (?a ` {?i..<?i + n}) s" unfolding freeable_def by blast
  qed
  obtain fs where u: "unmap_last E fp t ?i n s = Some ((write_entries t ?i (replicate n (pte_zero E)) s)\<lparr>pt_frames := fs\<rparr>)" "frames_inv fs"
    "free_frames fs = free_of s \<union> (if fp then ?a ` {?i..<?i + n} else {})"
    using unmap_last_ok [OF _ fi used D] t(1) b by auto
  let ?s = "(write_entries t ?i (replicate n (pte_zero E)) s)\<lparr>pt_frames := fs\<rparr>"
  have "page_walk E (pt_tables ?s) (Suc 0) t q = (if p \<le> q \<and> q < p + n then None else page_walk E ?T (Suc 0) t q)"
    if "q div 512 ^ Suc 0 = p div 512 ^ Suc 0" for q
  proof -
    have d: "p = p div 512 * 512 + ?i" "q = p div 512 * 512 + q mod 512" using that by (metis div_mult_mod_eq power_Suc0_right)+
    then have "?i \<le> q mod 512 \<and> q mod 512 < ?i + n \<longleftrightarrow> p \<le> q \<and> q < p + n" and k: "p \<le> q \<Longrightarrow> q < p + n \<Longrightarrow> q mod 512 - ?i < n" by linarith+
    then show ?thesis using nth_overwrite [of ?i "replicate n (pte_zero E)" "?T t" "q mod 512"] t(1) b unused_zero
      by (auto simp: page_walk_last)
  qed
  moreover have "unmap_in_table E fp (Suc 0) t \<lparr>pr_start = p, pr_end = e\<rparr> s = Some (n, ?s)"
    using u(1) pe by (simp add: page_sub_def Let_def n_def [symmetric])
  ultimately show ?thesis unfolding n_def [symmetric] unmap_rel_def using t b u(2,3) img by auto
qed

section \<open>A table above the last level\<close>

lemma walk_of_entry:
  assumes "\<not> pte_is_unused E (T t ! i)" "q div 512 ^ Suc l mod 512 = i"
  shows "page_walk E T (Suc (Suc l)) t q = page_walk E T (Suc l) (pte_addr E (T t ! i)) q"
  using assms by (simp add: page_walk_node del: power_Suc)

lemma mapped_of_entry:
  assumes "\<not> pte_is_unused E (T t ! i)" "i = p div 512 ^ Suc l mod 512" "p mod 512 ^ Suc l + n \<le> 512 ^ Suc l"
  shows "mapped E T (Suc (Suc l)) t p n = mapped E T (Suc l) (pte_addr E (T t ! i)) p n"
proof -
  have "page_walk E T (Suc (Suc l)) t q = page_walk E T (Suc l) (pte_addr E (T t ! i)) q" if "p \<le> q" "q < p + n" for q
    using inside_block [OF assms(3) that] assms(2) by (intro walk_of_entry [of T t i, OF assms(1)]) simp
  then show ?thesis unfolding mapped_def by auto
qed

lemma unmap_step:
  fixes l :: nat
  defines "B \<equiv> 512 ^ Suc l"
  assumes N: "pt_node E (pt_tables s) (pt_tree E (pt_tables s) (Suc l)) t G" and F: "F = insert t (\<Union>j < 512. G j)"
    and fr: "freeable F s" and i: "i = p div B mod 512" "\<not> pte_is_unused E (pt_tables s t ! i)" and n: "p mod B + n \<le> B"
    and sub: "sub = pte_addr E (pt_tables s t ! i)" and rel: "unmap_rel E fp (Suc l) sub p n (G i) s H s1"
    and D: "fp \<Longrightarrow> mapped E (pt_tables s) (Suc l) sub p n \<inter> F = {}"
  shows "\<exists>F' s2. drop_empty E t i sub s1 = Some s2 \<and> unmap_rel E fp (Suc (Suc l)) t p n F s F' s2"
proof -
  let ?T = "pt_tables s" and ?U = "pt_tables s1" and ?M = "if fp then mapped E (pt_tables s) (Suc l) sub p n else {}"
  have i512: "i < 512" by (simp add: i)
  note R = unmap_relD [OF rel]
  have M: "(if fp then mapped E ?T (Suc (Suc l)) t p n else {}) = ?M" using mapped_of_entry [of ?T t i, OF i(2)] i(1) n sub by (simp add: B_def del: power_Suc)
  have GF: "G i \<subseteq> F" and tG: "t \<notin> G i" "t \<in> F" using F i512 pt_nodeD(3) [OF N i512] by auto
  have dis: "\<forall>j < 512. j \<noteq> i \<longrightarrow> G i \<inter> G j = {}" using N i512 by (auto simp: pt_node_def disjoint_family_on_def)
  have tt: "?U t = ?T t" using R(4) tG by simp
  have subH: "sub \<in> H" "sub \<noteq> 0" using pt_tree_root [OF R(1)] by auto
  note upd = pt_node_change [OF N i512 i(2) R(1) [unfolded sub] R(2) tG(1) dis R(4), folded sub]
  have walk: "(if q div B mod 512 = i then page_walk E ?U (Suc l) sub q else page_walk E ?T (Suc (Suc l)) t q) =
      (if p \<le> q \<and> q < p + n then None else page_walk E ?T (Suc (Suc l)) t q)"
    if q: "q div 512 ^ Suc (Suc l) = p div 512 ^ Suc (Suc l)" for q
  proof (cases "q div B mod 512 = i")
    case True
    with same_block [of q B p] q have "q div B = p div B" by (simp add: B_def i)
    with R(6) walk_of_entry [of ?T t i q l] True i(2) sub show ?thesis by (simp add: B_def del: power_Suc)
  next
    case False
    then have "\<not> (p \<le> q \<and> q < p + n)" using inside_block [OF n, of q] i by (auto simp: B_def)
    with False show ?thesis by auto
  qed
  show ?thesis
  proof (cases "is_table_empty E (?U sub)")
    case False
    let ?F = "insert t (\<Union>j < 512. (G(i := H)) j)"
    have tree: "pt_tree E ?U (Suc (Suc l)) t ?F" using upd(1) unfolding pt_tree.simps by blast
    have F': "?F \<subseteq> F" "F - ?F = G i - H" using F R(2) i512 dis tG(1) by (auto split: if_splits)
    have "unmap_rel E fp (Suc (Suc l)) t p n F s ?F s1"
      unfolding unmap_rel_def F'(2) M using tree F'(1) R(3,4,5) GF upd(2) walk by (auto simp: B_def simp del: power_Suc)
    with False show ?thesis by (auto simp: drop_empty_def)
  next
    case True
    note empty = empty_tree [OF R(1) True]
    have "sub \<notin> free_of s1" using R(2,5) subH D GF fr by (auto simp: freeable_def)
    moreover have "sub + 1 < 2 ^ 40" using subH R(2) GF fr by (auto simp: freeable_def)
    ultimately obtain fs where f: "free_frame sub s1 = Some (s1\<lparr>pt_frames := fs\<rparr>)" "frames_inv fs" "free_frames fs = insert sub (free_of s1)"
      using free_frame_ok [OF R(3)] subH(2) by blast
    let ?s2 = "write_entry t i (pte_zero E) (s1\<lparr>pt_frames := fs\<rparr>)"
    let ?V = "pt_tables ?s2" and ?F = "insert t (\<Union>j < 512. (G(i := {})) j)"
    have fr: "pt_tree E ?V (Suc l) (pte_addr E (?T t ! j)) (G j)" "page_walk E ?V (Suc l) (pte_addr E (?T t ! j)) q = page_walk E ?T (Suc l) (pte_addr E (?T t ! j)) q"
      if "j < 512" "j \<noteq> i" "\<not> pte_is_unused E (?T t ! j)" for j q
    proof -
      have "?V x = ?T x" if "x \<in> G j" for x using that dis R(4) \<open>j < 512\<close> \<open>j \<noteq> i\<close> pt_nodeD(3) [OF N \<open>j < 512\<close>] by auto
      then show "pt_tree E ?V (Suc l) (pte_addr E (?T t ! j)) (G j)" "page_walk E ?V (Suc l) (pte_addr E (?T t ! j)) q = page_walk E ?T (Suc l) (pte_addr E (?T t ! j)) q"
        using pt_tree_frame [OF pt_nodeD(5) [OF N that(1,3)], of ?V] by blast+
    qed
    have Vt: "?V t = (?T t)[i := pte_zero E]" "length (?T t) = 512" using tt pt_nodeD(1) [OF N i512] by simp_all
    have "pt_node E ?V (pt_tree E ?V (Suc l)) t (G(i := {}))"
      using N fr(1) unused_zero Vt i512 unfolding pt_node_def by (auto simp: nth_list_update disjoint_family_on_def)
    then have tree: "pt_tree E ?V (Suc (Suc l)) t ?F" unfolding pt_tree.simps by blast
    have w: "page_walk E ?V (Suc (Suc l)) t q = (if q div B mod 512 = i then page_walk E ?U (Suc l) sub q else page_walk E ?T (Suc (Suc l)) t q)" for q
      using fr(2) [of "q div 512 ^ Suc l mod 512" q] Vt i512 unused_zero empty(2) [of q]
      by (cases "q div 512 ^ Suc l mod 512 = i") (simp_all add: page_walk_node B_def del: power_Suc)
    have F': "?F \<subseteq> F" "F - ?F = G i" using F i512 dis tG(1) by (auto split: if_splits)
    have "free_of ?s2 = free_of s \<union> G i \<union> ?M" using f(3) R(2,5) empty(1) by auto
    then have "unmap_rel E fp (Suc (Suc l)) t p n F s ?F ?s2"
      unfolding unmap_rel_def F'(2) M using tree F'(1) f(2) R(4) GF tG(2) w walk by auto
    with True f(1) show ?thesis by (auto simp: drop_empty_def)
  qed
qed

lemma unmap_ready_below:
  assumes r: "unmap_ready E fp (Suc (Suc l)) t p e F s" and i: "i = p div 512 ^ Suc l mod 512"
    and N: "pt_node E (pt_tables s) (pt_tree E (pt_tables s) (Suc l)) t G" "F = insert t (\<Union>j < 512. G j)"
  shows "\<not> pte_is_unused E (pt_tables s t ! i)" "unmap_ready E fp (Suc l) (pte_addr E (pt_tables s t ! i)) p e (G i) s"
    and "fp \<Longrightarrow> n \<le> e - p \<Longrightarrow> p mod 512 ^ Suc l + n \<le> 512 ^ Suc l \<Longrightarrow> mapped E (pt_tables s) (Suc l) (pte_addr E (pt_tables s t ! i)) p n \<inter> F = {}"
proof -
  let ?T = "pt_tables s"
  let ?sub = "pte_addr E (?T t ! i)"
  have R: "freeable F s" "p < e" "e < 2 ^ 35" "frames_inv (pt_frames s)" "\<forall>q \<in> pages_here (Suc (Suc l)) p e. page_walk E ?T (Suc (Suc l)) t q \<noteq> None"
    using r by (auto simp: unmap_ready_def)
  have i512: "i < 512" by (simp add: i)
  have "p \<in> pages_here (Suc (Suc l)) p e" using R(2) by (simp add: pages_here_def)
  with R(5) i show used: "\<not> pte_is_unused E (?T t ! i)" by (auto simp: page_walk_node simp del: power_Suc)
  have here: "pages_here (Suc l) p e \<subseteq> pages_here (Suc (Suc l)) p e"
  proof
    fix q assume q: "q \<in> pages_here (Suc l) p e"
    then have "q div (512 ^ Suc l * 512) = p div (512 ^ Suc l * 512)" unfolding pages_here_def div_mult2_eq by simp
    then show "q \<in> pages_here (Suc (Suc l)) p e" using q by (simp add: pages_here_def ac_simps)
  qed
  have w: "page_walk E ?T (Suc (Suc l)) t q = page_walk E ?T (Suc l) ?sub q" if "q \<in> pages_here (Suc l) p e" for q
    using that i by (intro walk_of_entry [of ?T t i, OF used]) (simp add: pages_here_def)
  have img: "page_walk E ?T (Suc l) ?sub ` pages_here (Suc l) p e = page_walk E ?T (Suc (Suc l)) t ` pages_here (Suc l) p e"
    using w by (intro image_cong) auto
  have GF: "G i \<subseteq> F" using N(2) i512 by auto
  have D: "inj_on (page_walk E ?T (Suc l) ?sub) (pages_here (Suc l) p e) \<and> (\<exists>D. freeable D s \<and> D \<inter> G i = {} \<and> page_walk E ?T (Suc l) ?sub ` pages_here (Suc l) p e \<subseteq> Some ` D)"
    if fp
  proof -
    from r that obtain D where D: "inj_on (page_walk E ?T (Suc (Suc l)) t) (pages_here (Suc (Suc l)) p e)" "freeable D s" "D \<inter> F = {}"
      "page_walk E ?T (Suc (Suc l)) t ` pages_here (Suc (Suc l)) p e \<subseteq> Some ` D" by (auto simp: unmap_ready_def)
    have "inj_on (page_walk E ?T (Suc l) ?sub) (pages_here (Suc l) p e)"
      using inj_on_subset [OF D(1) here] w by (simp cong: inj_on_cong)
    moreover have "page_walk E ?T (Suc l) ?sub ` pages_here (Suc l) p e \<subseteq> Some ` D" unfolding img using D(4) here by blast
    ultimately show ?thesis using D(2,3) GF by blast
  qed
  have "\<forall>q \<in> pages_here (Suc l) p e. page_walk E ?T (Suc l) ?sub q \<noteq> None" using R(5) w [symmetric] here by auto
  moreover have "freeable (G i) s" using R(1) GF by (auto simp: freeable_def)
  ultimately show "unmap_ready E fp (Suc l) ?sub p e (G i) s" unfolding unmap_ready_def using pt_nodeD(5) [OF N(1) i512 used] R(2-4) D by blast
  assume n: fp "n \<le> e - p" "p mod 512 ^ Suc l + n \<le> 512 ^ Suc l"
  from r n(1) obtain D where D: "D \<inter> F = {}" "page_walk E ?T (Suc (Suc l)) t ` pages_here (Suc (Suc l)) p e \<subseteq> Some ` D" by (auto simp: unmap_ready_def)
  have "f \<in> D" if f: "f \<in> mapped E ?T (Suc l) ?sub p n" for f
  proof -
    obtain q where q: "p \<le> q" "q < p + n" "page_walk E ?T (Suc l) ?sub q = Some f" using f by (auto simp: mapped_def)
    then have "q \<in> pages_here (Suc l) p e" using inside_block [OF n(3) q(1,2)] n(2) by (simp add: pages_here_def)
    with w q(3) here D(2) show ?thesis by (metis (no_types, lifting) image_subset_iff imageE option.inject subsetD)
  qed
  then show "mapped E ?T (Suc l) ?sub p n \<inter> F = {}" using D(1) by blast
qed

lemma unmap_entries_ok:
  fixes l :: nat
  defines "B \<equiv> 512 ^ Suc l"
  assumes below: "\<And>sub p e H s. unmap_ready E fp (Suc l) sub p e H s \<Longrightarrow>
      \<exists>H' s'. below sub \<lparr>pr_start = p, pr_end = e\<rparr> s = Some (min (e - p) (B - p mod B), s')
        \<and> unmap_rel E fp (Suc l) sub p (min (e - p) (B - p mod B)) H s H' s'"
  shows "unmap_ready E fp (Suc (Suc l)) t p e F s \<Longrightarrow> i = p div B mod 512 \<Longrightarrow>
    \<exists>F' s'. unmap_entries E below t [i..<512] \<lparr>pr_start = p, pr_end = e\<rparr> c s = Some (c + min (e - p) (512 * B - p mod (512 * B)), s')
      \<and> unmap_rel E fp (Suc (Suc l)) t p (min (e - p) (512 * B - p mod (512 * B))) F s F' s'"
proof (induction "512 - i" arbitrary: i p F s c)
  case 0
  then show ?case by simp
next
  case (Suc k)
  have B: "0 < B" and i: "i < 512" "i = p div B mod 512" using Suc.prems(2) by (simp_all add: B_def)
  obtain G where G: "pt_node E (pt_tables s) (pt_tree E (pt_tables s) (Suc l)) t G" "F = insert t (\<Union>j < 512. G j)"
    using Suc.prems(1) by (auto simp: unmap_ready_def)
  have R: "freeable F s" "p < e" "e < 2 ^ 35" using Suc.prems(1) by (auto simp: unmap_ready_def)
  define n where "n = min (e - p) (B - p mod B)"
  have pB: "p mod B < B" using B by simp
  then have n: "p mod B + n \<le> B" "n \<le> e - p" unfolding n_def by linarith+
  let ?sub = "pte_addr E (pt_tables s t ! i)"
  note below_ready = unmap_ready_below [OF Suc.prems(1) i(2) [unfolded B_def] G]
  obtain H s1 where s1: "below ?sub \<lparr>pr_start = p, pr_end = e\<rparr> s = Some (n, s1)" "unmap_rel E fp (Suc l) ?sub p n (G i) s H s1"
    using below [OF below_ready(2)] unfolding n_def by blast
  obtain F1 s2 where s2: "drop_empty E t i ?sub s1 = Some s2" "unmap_rel E fp (Suc (Suc l)) t p n F s F1 s2"
    using unmap_step [OF G R(1) i(2) [unfolded B_def] below_ready(1) n(1) [unfolded B_def] refl s1(2)] below_ready(3) n by (auto simp: B_def)
  have "p + n < 2 ^ 35" using R(2,3) n(2) by linarith
  then have pa: "page_add p n = Some (p + n)" by (simp add: page_add_def page_ok_def)
  have "?sub \<noteq> 0" using pt_tree_root [OF pt_nodeD(5) [OF G(1) i(1) below_ready(1)]] by simp
  then have step: "unmap_entries E below t [i..<512] \<lparr>pr_start = p, pr_end = e\<rparr> c s =
      (if p + n \<ge> e then Some (c + n, s2) else unmap_entries E below t [Suc i..<512] \<lparr>pr_start = p + n, pr_end = e\<rparr> (c + n) s2)"
    using i(1) s1(1) s2(1) pa below_ready(1) pt_nodeD(1) [OF G(1) i(1)] by (simp add: upt_conv_Cons panic_simps table_ptr_def del: upt_Suc)
  show ?case
  proof (cases "p + n \<ge> e")
    case True
    have "B * 1 \<le> B * (512 - i)" using i(1) by (intro mult_le_mono2) simp
    then have "B - p mod B \<le> 512 * B - p mod (512 * B)" using block_rest [OF B, of p] i(2) by (simp only: diff_le_mono mult_1_right)
    then have "min (e - p) (512 * B - p mod (512 * B)) = n" using True n unfolding n_def by linarith
    then show ?thesis using step True s2(2) by auto
  next
    case False
    then have nB: "n = B - p mod B" "0 < n" using pB unfolding n_def by auto
    show ?thesis
    proof (cases "i = 511")
      case True
      then have "512 * B - p mod (512 * B) = n" using block_rest [OF B, of p] i(2) nB(1) by simp
      then have "min (e - p) (512 * B - p mod (512 * B)) = n" using False by linarith
      then show ?thesis using step False s2(2) True by auto
    next
      case i511: False
      then have lt: "p div B mod 512 < 511" using i by simp
      note nb = next_block [OF B lt, folded nB(1)]
      have blk: "(p + n) div 512 ^ Suc (Suc l) = p div 512 ^ Suc (Suc l)" using nb(3) by (simp add: B_def)
      have k: "k = 512 - Suc i" using Suc.hyps(2) by linarith
      let ?m = "min (e - (p + n)) (512 * B - (p + n) mod (512 * B))"
      have ready: "unmap_ready E fp (Suc (Suc l)) t (p + n) e F1 s2" using unmap_ready_rest [OF Suc.prems(1) s2(2) _ blk] False by simp
      obtain F2 s' where IH: "unmap_entries E below t [Suc i..<512] \<lparr>pr_start = p + n, pr_end = e\<rparr> (c + n) s2 = Some (c + n + ?m, s')"
        "unmap_rel E fp (Suc (Suc l)) t (p + n) ?m F1 s2 F2 s'"
        using Suc.hyps(1) [of "Suc i", OF k ready, of "c + n"] nb(1) i(2) by auto
      have sum: "n + ?m = min (e - p) (512 * B - p mod (512 * B))" using nb(4) False by linarith
      have "p mod (512 * B) < 512 * B" using B by simp
      then have "p mod (512 * B) + (n + ?m) \<le> 512 * B" unfolding sum by linarith
      then have le: "p mod 512 ^ Suc (Suc l) + (n + ?m) \<le> 512 ^ Suc (Suc l)" by (simp add: B_def)
      have "0 < ?m" using False B by simp
      from unmap_rel_trans [OF s2(2) IH(2) le this] show ?thesis unfolding sum [symmetric] using step False IH(1) by (auto simp: add.assoc)
    qed
  qed
qed

theorem unmap_in_table_ok:
  assumes "unmap_ready E fp (Suc l) t p e F s"
  shows "\<exists>F' s'. unmap_in_table E fp (Suc l) t \<lparr>pr_start = p, pr_end = e\<rparr> s = Some (min (e - p) (512 ^ Suc l - p mod 512 ^ Suc l), s')
    \<and> unmap_rel E fp (Suc l) t p (min (e - p) (512 ^ Suc l - p mod 512 ^ Suc l)) F s F' s'"
  using assms
proof (induction l arbitrary: t p e F s)
  case 0
  from unmap_table_last [OF this] show ?case unfolding power_one_right power_Suc0_right by blast
next
  case (Suc l)
  from unmap_entries_ok [where l = l and below = "unmap_in_table E fp (Suc l)" and fp = fp, OF Suc.IH Suc.prems refl, of 0]
  show ?case by (simp add: mult.assoc)
qed

end

end
