(* ===== verification/Page_Tables_Copying.thy ===== *)
theory Page_Tables_Copying
  imports Page_Tables_Unmapping
begin

text \<open>
  Dropping the tables of an address space gives every one of their frames back, and copying them gives an
  address space that translates every address in the same way and shares no table with the first.
\<close>

section \<open>What copying does\<close>

definition copy_rel :: "'e entry_ops \<Rightarrow> nat \<Rightarrow> nat \<Rightarrow> nat \<Rightarrow> nat set \<Rightarrow> 'e pt_mem \<Rightarrow> nat set \<Rightarrow> 'e pt_mem \<Rightarrow> bool" where
  "copy_rel E l source target F s H s' \<longleftrightarrow>
     pt_tree E (pt_tables s') l target H \<and> H \<subseteq> insert target (free_of s) \<and> free_of s' = free_of s - H \<and> frames_inv (pt_frames s')
     \<and> (\<forall>x. x \<notin> H \<longrightarrow> pt_tables s' x = pt_tables s x) \<and> (\<forall>x. length (pt_tables s' x) = 512)
     \<and> (\<forall>q. page_walk E (pt_tables s') l target q = page_walk E (pt_tables s) l source q)
     \<and> card (free_of s) \<le> card (free_of s') + (card F - 1)"

text \<open>Every frame has room for 512 entries, and no entry is that of a huge page.\<close>

definition copy_ready :: "'e entry_ops \<Rightarrow> nat \<Rightarrow> nat \<Rightarrow> nat \<Rightarrow> nat set \<Rightarrow> 'e pt_mem \<Rightarrow> bool" where
  "copy_ready E l source target F s \<longleftrightarrow>
     pt_tree E (pt_tables s) l source F \<and> target \<notin> F \<and> target \<noteq> 0 \<and> target \<notin> free_of s \<and> F \<inter> free_of s = {} \<and> frames_inv (pt_frames s)
     \<and> (\<forall>x. length (pt_tables s x) = 512) \<and> card F \<le> card (free_of s) + 1
     \<and> (\<forall>t \<in> F. \<forall>e \<in> set (pt_tables s t). pte_flags E e AND HUGE_PAGE = 0)"

text \<open>The first \<open>j\<close> entries of the target are copies.\<close>

definition copied :: "'e entry_ops \<Rightarrow> (nat \<Rightarrow> 'e list) \<Rightarrow> nat \<Rightarrow> nat \<Rightarrow> nat \<Rightarrow> nat \<Rightarrow> (nat \<Rightarrow> nat set) \<Rightarrow> bool" where
  "copied E T l source target j H \<longleftrightarrow> (\<forall>i < j.
     if pte_is_unused E (T source ! i) then pte_is_unused E (T target ! i) \<and> H i = {}
     else \<not> pte_is_unused E (T target ! i) \<and> pt_tree E T l (pte_addr E (T target ! i)) (H i)
       \<and> (\<forall>q. page_walk E T l (pte_addr E (T target ! i)) q = page_walk E T l (pte_addr E (T source ! i)) q))"

definition copy_inv :: "'e entry_ops \<Rightarrow> nat \<Rightarrow> nat \<Rightarrow> nat \<Rightarrow> (nat \<Rightarrow> nat set) \<Rightarrow> nat \<Rightarrow> (nat \<Rightarrow> nat set) \<Rightarrow> 'e pt_mem \<Rightarrow> bool" where
  "copy_inv E l source target G j H s \<longleftrightarrow>
     pt_node E (pt_tables s) (pt_tree E (pt_tables s) l) source G \<and> copied E (pt_tables s) l source target j H \<and> disjoint_family_on H {..<j}
     \<and> target \<noteq> 0 \<and> insert source (\<Union>i < 512. G i) \<inter> insert target (free_of s) = {} \<and> target \<notin> free_of s
     \<and> (\<forall>i < j. H i \<inter> (insert target (insert source (\<Union>i < 512. G i)) \<union> free_of s) = {})
     \<and> frames_inv (pt_frames s) \<and> (\<forall>x. length (pt_tables s x) = 512)
     \<and> (\<forall>t \<in> insert source (\<Union>i < 512. G i). \<forall>e \<in> set (pt_tables s t). pte_flags E e AND HUGE_PAGE = 0)"

lemma copy_invD:
  assumes "copy_inv E l source target G j H s"
  shows "pt_node E (pt_tables s) (pt_tree E (pt_tables s) l) source G" "copied E (pt_tables s) l source target j H" "disjoint_family_on H {..<j}"
    "target \<noteq> 0" "insert source (\<Union>i < 512. G i) \<inter> insert target (free_of s) = {}" "target \<notin> free_of s"
    "\<forall>i < j. H i \<inter> (insert target (insert source (\<Union>i < 512. G i)) \<union> free_of s) = {}"
    "frames_inv (pt_frames s)" "\<forall>x. length (pt_tables s x) = 512"
    "\<forall>t \<in> insert source (\<Union>i < 512. G i). \<forall>e \<in> set (pt_tables s t). pte_flags E e AND HUGE_PAGE = 0"
  using assms unfolding copy_inv_def by blast+

lemma disjoint_family_extend:
  assumes "disjoint_family_on H {..<j}" "\<forall>i < j. H i \<inter> K = {}"
  shows "disjoint_family_on (H(j := K)) {..<Suc j}"
  unfolding disjoint_family_on_def
proof (intro ballI impI)
  fix m n assume mn: "m \<in> {..<Suc j}" "n \<in> {..<Suc j}" "m \<noteq> n"
  then consider "m < j" "n < j" | "m = j" "n < j" | "m < j" "n = j" by fastforce
  then show "(H(j := K)) m \<inter> (H(j := K)) n = {}"
    by cases (use assms mn disjoint_family_onD [OF assms(1), of m n] in auto)
qed

lemma pt_node_frame:
  assumes N: "pt_node E T (pt_tree E T l) t G" and T': "\<And>x. x \<in> insert t (\<Union>i < 512. G i) \<Longrightarrow> T' x = T x"
  shows "pt_node E T' (pt_tree E T' l) t G"
proof -
  have tt: "T' t = T t" using T' by simp
  have "pt_tree E T' l (pte_addr E (T t ! i)) (G i)" if "i < 512" "\<not> pte_is_unused E (T t ! i)" for i
    by (rule pt_tree_frame(1) [OF pt_nodeD(5) [OF N that]]) (use that T' in auto)
  then show ?thesis using N tt by (auto simp: pt_node_def)
qed

lemma copied_frame:
  assumes c: "copied E T l source target j H" and N: "pt_node E T (pt_tree E T l) source G" and j: "j \<le> 512"
    and tgt: "\<And>i. i < j \<Longrightarrow> T' target ! i = T target ! i" and T': "\<And>x. x \<in> insert source (\<Union>i < 512. G i) \<union> (\<Union>i < j. H i) \<Longrightarrow> T' x = T x"
  shows "copied E T' l source target j H"
  unfolding copied_def
proof (intro allI impI)
  fix i assume i: "i < j"
  then have i512: "i < 512" using j by simp
  have src: "T' source = T source" using T' by simp
  show "if pte_is_unused E (T' source ! i) then pte_is_unused E (T' target ! i) \<and> H i = {}
     else \<not> pte_is_unused E (T' target ! i) \<and> pt_tree E T' l (pte_addr E (T' target ! i)) (H i)
       \<and> (\<forall>q. page_walk E T' l (pte_addr E (T' target ! i)) q = page_walk E T' l (pte_addr E (T' source ! i)) q)"
  proof (cases "pte_is_unused E (T source ! i)")
    case True
    then show ?thesis using c i tgt [OF i] src by (auto simp: copied_def)
  next
    case False
    then have h: "\<not> pte_is_unused E (T target ! i)" "pt_tree E T l (pte_addr E (T target ! i)) (H i)"
      "\<forall>q. page_walk E T l (pte_addr E (T target ! i)) q = page_walk E T l (pte_addr E (T source ! i)) q"
      using c i by (auto simp: copied_def)
    have "T' x = T x" if "x \<in> H i" for x using that i by (intro T') auto
    note f1 = pt_tree_frame [OF h(2) this]
    have "T' x = T x" if "x \<in> G i" for x using that i512 by (intro T') auto
    note f2 = pt_tree_frame [OF pt_nodeD(5) [OF N i512 False] this]
    show ?thesis using False h f1 f2 tgt [OF i] src by simp
  qed
qed

lemma copied_node:
  assumes c: "copied E T (Suc l) source target 512 H" and N: "pt_node E T (pt_tree E T (Suc l)) source G"
    and t: "length (T target) = 512" "target \<noteq> 0" "\<forall>i < 512. target \<notin> H i" "disjoint_family_on H {..<512}"
  shows "pt_tree E T (Suc (Suc l)) target (insert target (\<Union>i < 512. H i))"
    and "page_walk E T (Suc (Suc l)) target q = page_walk E T (Suc (Suc l)) source q"
proof -
  have "if pte_is_unused E (T target ! i) then H i = {} else pt_tree E T (Suc l) (pte_addr E (T target ! i)) (H i)" if "i < 512" for i
    using c [unfolded copied_def, rule_format, OF that] by (auto split: if_splits)
  then have "pt_node E T (pt_tree E T (Suc l)) target H" using t by (simp add: pt_node_def)
  then show "pt_tree E T (Suc (Suc l)) target (insert target (\<Union>i < 512. H i))" by auto
  have "q div 512 ^ Suc l mod 512 < 512" by simp
  with c [unfolded copied_def, rule_format, OF this] show "page_walk E T (Suc (Suc l)) target q = page_walk E T (Suc (Suc l)) source q"
    by (auto simp: page_walk_node split: if_splits simp del: power_Suc)
qed

lemma pt_tree_finite: "pt_tree E T l t F \<Longrightarrow> finite F"
proof (induction E T l t F rule: pt_tree.induct)
  case (3 E T l t F)
  then obtain G where G: "pt_node E T (pt_tree E T (Suc l)) t G" "F = insert t (\<Union>i < 512. G i)" by auto
  have "finite (G i)" if "i < 512" for i
    using pt_nodeD(4,5) [OF G(1) that] "3.IH" by (cases "pte_is_unused E (T t ! i)") auto
  with G(2) show ?case by simp
qed auto

section \<open>Dropping\<close>

lemma zero_table_simps [simp]:
  "pt_frames (zero_table E t s) = pt_frames s"
  "pt_tables (zero_table E t s) x = (if x = t then replicate 512 (pte_zero E) else pt_tables s x)"
  by (simp_all add: zero_table_def)

lemma freeable_subset: "freeable F s \<Longrightarrow> G \<subseteq> F \<Longrightarrow> freeable G s"
  by (auto simp: freeable_def)

context page_table_entry
begin

lemma drop_entries_ok:
  assumes below: "\<And>sub s H. pt_tree E (pt_tables s) (Suc l) sub H \<Longrightarrow> freeable H s \<Longrightarrow> frames_inv (pt_frames s) \<Longrightarrow>
      \<exists>s'. below sub s = Some s' \<and> frames_inv (pt_frames s') \<and> free_of s' = free_of s \<union> H \<and> (\<forall>x. x \<notin> H \<longrightarrow> pt_tables s' x = pt_tables s x)"
    and "j \<le> 512" "frames_inv (pt_frames s)" "pt_node E T (pt_tree E T (Suc l)) t G" "freeable (\<Union>i \<in> {j..<512}. G i) s"
    and "\<And>x. x \<in> insert t (\<Union>i \<in> {j..<512}. G i) \<Longrightarrow> pt_tables s x = T x"
  shows "\<exists>s'. drop_entries E below t [j..<512] s = Some s' \<and> frames_inv (pt_frames s') \<and> free_of s' = free_of s \<union> (\<Union>i \<in> {j..<512}. G i)
    \<and> (\<forall>x. x \<notin> (\<Union>i \<in> {j..<512}. G i) \<longrightarrow> pt_tables s' x = pt_tables s x)"
  using assms(2-)
proof (induction "512 - j" arbitrary: j s)
  case 0
  then show ?case by simp
next
  case (Suc k)
  then have j: "j < 512" by simp
  have iv: "{j..<512} = insert j {Suc j..<512}" using j by auto
  have tt: "pt_tables s t = T t" "length (T t) = 512" using Suc.prems(5) pt_nodeD(1) [OF Suc.prems(3) j] by auto
  have "G j \<inter> G i = {}" if "i \<in> {Suc j..<512}" for i
    using Suc.prems(3) that j disjoint_family_onD [of G "{..<512}" j i] by (auto simp: pt_node_def)
  then have dis: "G j \<inter> (\<Union>i \<in> {Suc j..<512}. G i) = {}" by blast
  obtain s1 where s1: "(if pte_addr E (T t ! j) = 0 then Some s else do { n \<leftarrow> table_ptr (pte_addr E (T t ! j)); below n s }) = Some s1"
    "frames_inv (pt_frames s1)" "free_of s1 = free_of s \<union> G j" "\<forall>x. x \<notin> G j \<longrightarrow> pt_tables s1 x = pt_tables s x"
  proof (cases "pte_is_unused E (T t ! j)")
    case True
    then have "pte_addr E (T t ! j) = 0" "G j = {}" using unused_addr pt_nodeD(4) [OF Suc.prems(3) j] by auto
    then show ?thesis using Suc.prems(2) by (intro that [of s]) simp_all
  next
    case False
    note tr = pt_nodeD(5) [OF Suc.prems(3) j False]
    have "pt_tree E (pt_tables s) (Suc l) (pte_addr E (T t ! j)) (G j)"
      by (rule pt_tree_frame(1) [OF tr]) (use Suc.prems(5) iv in auto)
    moreover have "freeable (G j) s" by (rule freeable_subset [OF Suc.prems(4)]) (use iv in auto)
    ultimately obtain s1 where "below (pte_addr E (T t ! j)) s = Some s1" "frames_inv (pt_frames s1)"
      "free_of s1 = free_of s \<union> G j" "\<forall>x. x \<notin> G j \<longrightarrow> pt_tables s1 x = pt_tables s x"
      using below Suc.prems(2) by blast
    then show ?thesis using pt_tree_root [OF tr] by (intro that [of s1]) (simp_all add: table_ptr_def)
  qed
  have "k = 512 - Suc j" "Suc j \<le> 512" using Suc.hyps(2) j by linarith+
  moreover have "freeable (\<Union>i \<in> {Suc j..<512}. G i) s1"
    using Suc.prems(4) s1(3) dis unfolding iv by (auto simp: freeable_def)
  moreover have "pt_tables s1 x = T x" if "x \<in> insert t (\<Union>i \<in> {Suc j..<512}. G i)" for x
  proof -
    have "x \<notin> G j" using that dis pt_nodeD(3) [OF Suc.prems(3) j] by auto
    then show ?thesis using s1(4) Suc.prems(5) that unfolding iv by auto
  qed
  ultimately obtain s' where "drop_entries E below t [Suc j..<512] s1 = Some s'" "frames_inv (pt_frames s')"
    "free_of s' = free_of s1 \<union> (\<Union>i \<in> {Suc j..<512}. G i)" "\<forall>x. x \<notin> (\<Union>i \<in> {Suc j..<512}. G i) \<longrightarrow> pt_tables s' x = pt_tables s1 x"
    using Suc.hyps(1) [of "Suc j" s1] s1(2) Suc.prems(3) by blast
  with s1 tt j show ?case unfolding iv by (auto simp: upt_conv_Cons panic_simps simp del: upt_Suc)
qed

theorem drop_table_ok:
  assumes "pt_tree E (pt_tables s) (Suc l) t F" "freeable F s" "frames_inv (pt_frames s)"
  shows "\<exists>s'. drop_table E (Suc l) t s = Some s' \<and> frames_inv (pt_frames s') \<and> free_of s' = free_of s \<union> F \<and> (\<forall>x. x \<notin> F \<longrightarrow> pt_tables s' x = pt_tables s x)"
  using assms
proof (induction l arbitrary: t F s)
  case 0
  then have "F = {t}" "t \<notin> free_of s" "t \<noteq> 0" "t + 1 < 2 ^ 40" by (auto simp: freeable_def)
  with free_frame_ok [of "zero_table E t s" t] 0(3) show ?case by auto
next
  case (Suc l)
  obtain G where G: "pt_node E (pt_tables s) (pt_tree E (pt_tables s) (Suc l)) t G" "F = insert t (\<Union>i < 512. G i)" using Suc.prems(1) by auto
  have U: "(\<Union>i \<in> {0..<512}. G i) = (\<Union>i < 512. G i)" by (simp add: lessThan_atLeast0)
  have tG: "t \<notin> (\<Union>i < 512. G i)" using G(1) by (auto simp: pt_node_def)
  obtain s1 where s1: "drop_entries E (drop_table E (Suc l)) t [0..<512] s = Some s1" "frames_inv (pt_frames s1)" "free_of s1 = free_of s \<union> (\<Union>i < 512. G i)"
    "\<forall>x. x \<notin> (\<Union>i < 512. G i) \<longrightarrow> pt_tables s1 x = pt_tables s x"
    using drop_entries_ok [where below = "drop_table E (Suc l)", OF Suc.IH _ Suc.prems(3) G(1), of 0] freeable_subset [OF Suc.prems(2), of "\<Union>i < 512. G i"] G(2)
    unfolding U by auto
  have "t \<notin> free_of s1" "t \<noteq> 0" "t + 1 < 2 ^ 40" using Suc.prems(2) s1(3) tG G(2) by (auto simp: freeable_def)
  with free_frame_ok [of "zero_table E t s1" t] s1 G(2) show ?case by (auto simp del: upt_Suc)
qed

section \<open>Copying\<close>

lemma copy_last_ok:
  assumes "source \<noteq> target" "length (pt_tables s source) = 512" "length (pt_tables s target) = 512" "j \<le> 512"
    and "\<And>i. i < j \<Longrightarrow> pt_tables s target ! i = pte_set_addr E (pte_addr E (pt_tables s source ! i)) (pte_flags E (pt_tables s source ! i))"
  shows "\<exists>s'. copy_last E source target [j..<512] s = Some s' \<and> pt_frames s' = pt_frames s
    \<and> pt_tables s' = (pt_tables s)(target := map (\<lambda>e. pte_set_addr E (pte_addr E e) (pte_flags E e)) (pt_tables s source))"
  using assms
proof (induction "512 - j" arbitrary: j s)
  case 0
  then have "pt_tables s target = map (\<lambda>e. pte_set_addr E (pte_addr E e) (pte_flags E e)) (pt_tables s source)" by (intro nth_equalityI) auto
  then show ?case using 0 by (auto simp: fun_upd_idem)
next
  case (Suc k)
  let ?e = "pte_set_addr E (pte_addr E (pt_tables s source ! j)) (pte_flags E (pt_tables s source ! j))"
  have j: "j < 512" "k = 512 - Suc j" using Suc.hyps(2) by linarith+
  have "\<exists>s'. copy_last E source target [Suc j..<512] (write_entry target j ?e s) = Some s' \<and> pt_frames s' = pt_frames (write_entry target j ?e s)
    \<and> pt_tables s' = (pt_tables (write_entry target j ?e s))(target := map (\<lambda>e. pte_set_addr E (pte_addr E e) (pte_flags E e)) (pt_tables (write_entry target j ?e s) source))"
    by (rule Suc.hyps(1) [OF j(2)]) (use Suc.prems j in \<open>auto simp: less_Suc_eq nth_list_update\<close>)
  then show ?case using j Suc.prems by (simp add: upt_conv_Cons panic_simps write_entry_def del: upt_Suc)
qed

lemma copy_table_last:
  assumes "copy_ready E (Suc 0) source target F s"
  shows "\<exists>H s'. copy_table E (Suc 0) source target s = Some s' \<and> copy_rel E (Suc 0) source target F s H s'"
proof -
  have r: "source \<noteq> target" "target \<noteq> 0" "target \<notin> free_of s" "frames_inv (pt_frames s)" "\<forall>x. length (pt_tables s x) = 512"
    using assms by (auto simp: copy_ready_def)
  obtain s' where s': "copy_last E source target [0..<512] s = Some s'" "pt_frames s' = pt_frames s"
    "pt_tables s' = (pt_tables s)(target := map (\<lambda>e. pte_set_addr E (pte_addr E e) (pte_flags E e)) (pt_tables s source))"
    using copy_last_ok [of source target s 0] r by auto
  have e: "pte_addr E (pte_set_addr E (pte_addr E e) (pte_flags E e)) = pte_addr E e" "pte_is_unused E (pte_set_addr E (pte_addr E e) (pte_flags E e)) = pte_is_unused E e" for e
    using addr_bound flags_valid by (simp_all add: unused_iff set_addr_addr set_addr_flags)
  have "copy_rel E (Suc 0) source target F s {target} s'"
    using r s' e by (auto simp: copy_rel_def page_walk_last)
  with s'(1) show ?thesis by (auto simp del: upt_Suc)
qed

text \<open>One entry of a table above the last level.\<close>

lemma copy_entry:
  assumes below: "\<And>sub f F s. copy_ready E (Suc l) sub f F s \<Longrightarrow> \<exists>H s'. below sub f s = Some s' \<and> copy_rel E (Suc l) sub f F s H s'"
    and inv: "copy_inv E (Suc l) source target G j H s" and j: "j < 512" and enough: "card (G j) \<le> card (free_of s)"
  shows "\<exists>K s'. copy_entries E below source target (j # is) s = copy_entries E below source target is s'
    \<and> copy_inv E (Suc l) source target G (Suc j) (H(j := K)) s' \<and> K \<subseteq> free_of s \<and> free_of s' = free_of s - K
    \<and> (\<forall>x. x \<notin> insert target K \<longrightarrow> pt_tables s' x = pt_tables s x) \<and> card (free_of s) \<le> card (free_of s') + card (G j)"
proof -
  let ?T = "pt_tables s" and ?S = "insert source (\<Union>i < 512. G i)"
  note I = copy_invD [OF inv]
  have goal: "copy_inv E (Suc l) source target G (Suc j) (H(j := K)) s'"
    if T': "\<forall>x. x \<notin> insert target K \<longrightarrow> pt_tables s' x = ?T x" and tgt: "\<forall>i < j. pt_tables s' target ! i = ?T target ! i" and K: "K \<subseteq> free_of s"
      and s': "free_of s' = free_of s - K" "frames_inv (pt_frames s')" "\<forall>x. length (pt_tables s' x) = 512"
      and new: "if pte_is_unused E (?T source ! j) then pte_is_unused E (pt_tables s' target ! j) \<and> K = {}
       else \<not> pte_is_unused E (pt_tables s' target ! j) \<and> pt_tree E (pt_tables s') (Suc l) (pte_addr E (pt_tables s' target ! j)) K
         \<and> (\<forall>q. page_walk E (pt_tables s') (Suc l) (pte_addr E (pt_tables s' target ! j)) q = page_walk E ?T (Suc l) (pte_addr E (?T source ! j)) q)" for K s'
  proof -
    have KS: "?S \<inter> insert target K = {}" using K I(5) by auto
    have HK: "\<forall>i < j. H i \<inter> insert target K = {}" using K I(7) by blast
    have same: "pt_tables s' x = ?T x" if "x \<in> ?S \<union> (\<Union>i < j. H i)" for x using that KS HK T' by blast
    have N: "pt_node E (pt_tables s') (pt_tree E (pt_tables s') (Suc l)) source G" by (rule pt_node_frame [OF I(1)]) (use same in blast)
    have C: "copied E (pt_tables s') (Suc l) source target j H" by (rule copied_frame [OF I(2,1)]) (use j tgt same in auto)
    have src: "pt_tables s' source = ?T source" using same by blast
    have sub: "page_walk E (pt_tables s') (Suc l) (pte_addr E (?T source ! j)) q = page_walk E ?T (Suc l) (pte_addr E (?T source ! j)) q"
      if "\<not> pte_is_unused E (?T source ! j)" for q
      by (rule pt_tree_frame(2) [OF pt_nodeD(5) [OF I(1) j that]]) (use same j in blast)
    have "copied E (pt_tables s') (Suc l) source target (Suc j) (H(j := K))"
      using C new src sub unfolding copied_def by (auto simp: less_Suc_eq)
    moreover have "disjoint_family_on (H(j := K)) {..<Suc j}"
      by (rule disjoint_family_extend [OF I(3)]) (use HK in auto)
    moreover have "\<forall>i < Suc j. (H(j := K)) i \<inter> (insert target ?S \<union> free_of s') = {}"
      using I(5-7) K s'(1) by (auto simp: less_Suc_eq)
    ultimately show ?thesis unfolding copy_inv_def using N I(4-6,10) s' K same by auto
  qed
  have src: "idx (?T source) j = Some (?T source ! j)" using I(9) j by (simp add: panic_simps)
  show ?thesis
  proof (cases "pte_is_unused E (?T source ! j)")
    case True
    let ?s = "write_entry target j (pte_zero E) s"
    have "copy_inv E (Suc l) source target G (Suc j) (H(j := {})) ?s"
      by (rule goal) (use True I(8,9) j unused_zero in \<open>auto simp: nth_list_update\<close>)
    then show ?thesis using True src by (intro exI [of _ "{}"] exI [of _ ?s]) auto
  next
    case False
    have Gj: "pt_tree E ?T (Suc l) (pte_addr E (?T source ! j)) (G j)" "G j \<subseteq> ?S" using pt_nodeD(5) [OF I(1) j False] j by auto
    have "card (G j) \<noteq> 0" using pt_tree_root [OF Gj(1)] pt_tree_finite [OF Gj(1)] by auto
    then have ne: "free_of s \<noteq> {}" using enough by auto
    obtain f fs where a: "alloc_frame s = Some (f, s\<lparr>pt_frames := fs\<rparr>)" "frames_inv fs" "f \<in> free_of s" "f \<noteq> 0" "f < 2 ^ 40" "free_frames fs = free_of s - {f}"
      using alloc_frame_ok [OF I(8) ne] by blast
    let ?fl = "pte_flags E (?T source ! j)"
    let ?e = "pte_set_addr E f ?fl"
    let ?s2 = "write_entry target j ?e (s\<lparr>pt_frames := fs\<rparr>)"
    have "?T source ! j \<in> set (?T source)" using I(9) j by simp
    then have fl: "?fl AND HUGE_PAGE = 0" using I(10) by blast
    have e: "pte_addr E ?e = f" "\<not> pte_is_unused E ?e" using a(4,5) flags_valid by (simp_all add: set_addr_addr set_addr_used)
    have same2: "pt_tables ?s2 x = ?T x" if "x \<noteq> target" for x using that by simp
    have ft: "f \<noteq> target" "f \<notin> ?S" using a(3) I(5,6) by auto
    have "pt_tree E (pt_tables ?s2) (Suc l) (pte_addr E (?T source ! j)) (G j)"
      by (rule pt_tree_frame(1) [OF Gj(1)]) (use same2 Gj(2) I(5) in blast)
    moreover have "\<forall>t \<in> G j. \<forall>e \<in> set (pt_tables ?s2 t). pte_flags E e AND HUGE_PAGE = 0" using same2 Gj(2) I(5,10) by (metis disjoint_iff insertI1 subsetD)
    moreover have "G j \<inter> free_of s = {}" "f \<notin> G j" using Gj(2) I(5) ft(2) by blast+
    moreover have "f \<notin> free_of ?s2" "card (G j) \<le> card (free_of ?s2) + 1" "free_of ?s2 \<subseteq> free_of s"
      using a(3,6) enough by (auto simp: card_Diff_singleton)
    ultimately have "copy_ready E (Suc l) (pte_addr E (?T source ! j)) f (G j) ?s2"
      unfolding copy_ready_def using a(2,4) I(9) by auto
    from below [OF this] obtain K s' where K: "below (pte_addr E (?T source ! j)) f ?s2 = Some s'"
      "copy_rel E (Suc l) (pte_addr E (?T source ! j)) f (G j) ?s2 K s'" by blast
    have R: "pt_tree E (pt_tables s') (Suc l) f K" "K \<subseteq> insert f (free_of ?s2)" "free_of s' = free_of ?s2 - K" "frames_inv (pt_frames s')"
      "\<forall>x. x \<notin> K \<longrightarrow> pt_tables s' x = pt_tables ?s2 x" "\<forall>x. length (pt_tables s' x) = 512"
      "\<forall>q. page_walk E (pt_tables s') (Suc l) f q = page_walk E (pt_tables ?s2) (Suc l) (pte_addr E (?T source ! j)) q"
      "card (free_of ?s2) \<le> card (free_of s') + (card (G j) - 1)" using K(2) unfolding copy_rel_def by blast+
    have walk2: "page_walk E (pt_tables ?s2) (Suc l) (pte_addr E (?T source ! j)) q = page_walk E ?T (Suc l) (pte_addr E (?T source ! j)) q" for q
      by (rule pt_tree_frame(2) [OF Gj(1)]) (use same2 Gj(2) I(5) in blast)
    have Kf: "K \<subseteq> free_of s" "free_of s' = free_of s - K" "target \<notin> K" using R(1,2,3) a(3,6) I(6) pt_tree_root [OF R(1)] by auto
    have T': "\<forall>x. x \<notin> insert target K \<longrightarrow> pt_tables s' x = ?T x" using R(5) same2 by auto
    have tgt: "pt_tables s' target = (?T target)[j := ?e]" using R(5) Kf(3) by simp
    have "copy_inv E (Suc l) source target G (Suc j) (H(j := K)) s'"
      by (rule goal) (use T' tgt Kf R(1,4,6,7) walk2 False e I(9) j in \<open>auto simp: nth_list_update\<close>)
    moreover have "copy_entries E below source target (j # is) s = copy_entries E below source target is s'"
      using False src a(1,4) fl e K(1) pt_tree_root [OF Gj(1)] by (simp add: set_frame_set_addr table_ptr_def)
    moreover have "card (free_of s) \<le> card (free_of s') + card (G j)" using R(8) a(3,6) \<open>card (G j) \<noteq> 0\<close> by (simp add: card_Diff_singleton)
    ultimately show ?thesis using Kf T' by blast
  qed
qed

lemma copy_entries_ok:
  assumes below: "\<And>sub f F s. copy_ready E (Suc l) sub f F s \<Longrightarrow> \<exists>H s'. below sub f s = Some s' \<and> copy_rel E (Suc l) sub f F s H s'"
    and "copy_inv E (Suc l) source target G j H s" "j \<le> 512" "(\<Sum>i \<in> {j..<512}. card (G i)) \<le> card (free_of s)"
  shows "\<exists>H' s'. copy_entries E below source target [j..<512] s = Some s' \<and> copy_inv E (Suc l) source target G 512 H' s'
    \<and> (\<forall>i < j. H' i = H i) \<and> (\<Union>i \<in> {j..<512}. H' i) \<subseteq> free_of s \<and> free_of s' = free_of s - (\<Union>i \<in> {j..<512}. H' i)
    \<and> (\<forall>x. x \<notin> insert target (\<Union>i \<in> {j..<512}. H' i) \<longrightarrow> pt_tables s' x = pt_tables s x)
    \<and> card (free_of s) \<le> card (free_of s') + (\<Sum>i \<in> {j..<512}. card (G i))"
  using assms(2-)
proof (induction "512 - j" arbitrary: j H s)
  case 0
  then show ?case by auto
next
  case (Suc k)
  have j: "j < 512" "k = 512 - Suc j" "Suc j \<le> 512" using Suc.hyps(2) by linarith+
  have iv: "{j..<512} = insert j {Suc j..<512}" using j by auto
  have sum: "(\<Sum>i \<in> {j..<512}. card (G i)) = card (G j) + (\<Sum>i \<in> {Suc j..<512}. card (G i))" unfolding iv by simp
  obtain K s1 where s1: "copy_entries E below source target (j # [Suc j..<512]) s = copy_entries E below source target [Suc j..<512] s1"
    "copy_inv E (Suc l) source target G (Suc j) (H(j := K)) s1" "K \<subseteq> free_of s" "free_of s1 = free_of s - K"
    "\<forall>x. x \<notin> insert target K \<longrightarrow> pt_tables s1 x = pt_tables s x" "card (free_of s) \<le> card (free_of s1) + card (G j)"
    using copy_entry [OF below Suc.prems(1) j(1)] Suc.prems(3) sum by force
  obtain H' s' where s': "copy_entries E below source target [Suc j..<512] s1 = Some s'" "copy_inv E (Suc l) source target G 512 H' s'"
    "\<forall>i < Suc j. H' i = (H(j := K)) i" "(\<Union>i \<in> {Suc j..<512}. H' i) \<subseteq> free_of s1" "free_of s' = free_of s1 - (\<Union>i \<in> {Suc j..<512}. H' i)"
    "\<forall>x. x \<notin> insert target (\<Union>i \<in> {Suc j..<512}. H' i) \<longrightarrow> pt_tables s' x = pt_tables s1 x"
    "card (free_of s1) \<le> card (free_of s') + (\<Sum>i \<in> {Suc j..<512}. card (G i))"
    using Suc.hyps(1) [OF j(2) s1(2) j(3)] Suc.prems(3) sum s1(6) by fastforce
  have HK: "H' j = K" "\<forall>i < j. H' i = H i" using s'(3) by auto
  have U: "(\<Union>i \<in> {j..<512}. H' i) = K \<union> (\<Union>i \<in> {Suc j..<512}. H' i)" unfolding iv by (simp add: HK)
  have "[j..<512] = j # [Suc j..<512]" using j(1) by (simp add: upt_conv_Cons)
  then have "copy_entries E below source target [j..<512] s = Some s'" using s1(1) s'(1) by (simp only:)
  moreover have "card (free_of s) \<le> card (free_of s') + (\<Sum>i \<in> {j..<512}. card (G i))" using s1(6) s'(7) sum by linarith
  moreover have "(\<Union>i \<in> {j..<512}. H' i) \<subseteq> free_of s" "free_of s' = free_of s - (\<Union>i \<in> {j..<512}. H' i)" unfolding U using s1(3,4) s'(4,5) by auto
  moreover have "\<forall>x. x \<notin> insert target (\<Union>i \<in> {j..<512}. H' i) \<longrightarrow> pt_tables s' x = pt_tables s x" unfolding U using s1(5) s'(6) by auto
  ultimately show ?case using s'(2) HK(2) by blast
qed

theorem copy_table_ok:
  assumes "copy_ready E (Suc l) source target F s"
  shows "\<exists>H s'. copy_table E (Suc l) source target s = Some s' \<and> copy_rel E (Suc l) source target F s H s'"
  using assms
proof (induction l arbitrary: source target F s)
  case 0
  then show ?case by (rule copy_table_last)
next
  case (Suc l)
  let ?T = "pt_tables s"
  have R: "target \<notin> F" "target \<noteq> 0" "target \<notin> free_of s" "F \<inter> free_of s = {}" "frames_inv (pt_frames s)" "\<forall>x. length (?T x) = 512"
    "card F \<le> card (free_of s) + 1" "\<forall>t \<in> F. \<forall>e \<in> set (?T t). pte_flags E e AND HUGE_PAGE = 0" "pt_tree E ?T (Suc (Suc l)) source F"
    using Suc.prems by (auto simp: copy_ready_def)
  then obtain G where G: "pt_node E ?T (pt_tree E ?T (Suc l)) source G" "F = insert source (\<Union>i < 512. G i)" by auto
  have fin: "finite (G i)" if "i < 512" for i using pt_tree_finite [OF R(9)] G(2) that by (auto intro: finite_subset)
  have sG: "source \<notin> (\<Union>i < 512. G i)" "disjoint_family_on G {..<512}" using G(1) by (auto simp: pt_node_def)
  have "card (\<Union>i < 512. G i) = (\<Sum>i \<in> {0..<512}. card (G i))"
    unfolding lessThan_atLeast0 using fin sG(2) by (intro card_UN_disjoint) (auto simp: disjoint_family_on_def)
  then have cF: "card F = Suc (\<Sum>i \<in> {0..<512}. card (G i))" unfolding G(2) using sG(1) fin by simp
  then have enough: "(\<Sum>i \<in> {0..<512}. card (G i)) \<le> card (free_of s)" using R(7) by simp
  have inv: "copy_inv E (Suc l) source target G 0 (\<lambda>_. {}) s"
    unfolding copy_inv_def using G(1) R by (auto simp: copied_def disjoint_family_on_def G(2))
  have "\<exists>H s'. copy_entries E (copy_table E (Suc l)) source target [0..<512] s = Some s' \<and> copy_inv E (Suc l) source target G 512 H s'
    \<and> (\<forall>i < 0. H i = (\<lambda>_. {}) i) \<and> (\<Union>i \<in> {0..<512}. H i) \<subseteq> free_of s \<and> free_of s' = free_of s - (\<Union>i \<in> {0..<512}. H i)
    \<and> (\<forall>x. x \<notin> insert target (\<Union>i \<in> {0..<512}. H i) \<longrightarrow> pt_tables s' x = pt_tables s x)
    \<and> card (free_of s) \<le> card (free_of s') + (\<Sum>i \<in> {0..<512}. card (G i))"
    using Suc.IH by (rule copy_entries_ok [OF _ inv le0 enough])
  then obtain H s' where s': "copy_entries E (copy_table E (Suc l)) source target [0..<512] s = Some s'" "copy_inv E (Suc l) source target G 512 H s'"
    "(\<Union>i \<in> {0..<512}. H i) \<subseteq> free_of s" "free_of s' = free_of s - (\<Union>i \<in> {0..<512}. H i)"
    "\<forall>x. x \<notin> insert target (\<Union>i \<in> {0..<512}. H i) \<longrightarrow> pt_tables s' x = pt_tables s x"
    "card (free_of s) \<le> card (free_of s') + (\<Sum>i \<in> {0..<512}. card (G i))" by (elim exE conjE) (rule that)
  let ?H = "insert target (\<Union>i < 512. H i)"
  have U: "(\<Union>i \<in> {0..<512}. H i) = (\<Union>i < 512. H i)" by (simp add: lessThan_atLeast0)
  note I = copy_invD [OF s'(2)]
  have tH: "\<forall>i < 512. target \<notin> H i" using I(7) by blast
  have tree: "pt_tree E (pt_tables s') (Suc (Suc l)) target ?H"
    and walk: "\<And>q. page_walk E (pt_tables s') (Suc (Suc l)) target q = page_walk E (pt_tables s') (Suc (Suc l)) source q"
    using copied_node [OF I(2,1) I(9) [rule_format] R(2) tH I(3)] .
  have same: "pt_tables s' x = ?T x" if x: "x \<in> F" for x
  proof -
    have "x \<notin> free_of s" "x \<noteq> target" using x R(1,4) by auto
    with s'(3) have "x \<notin> insert target (\<Union>i \<in> {0..<512}. H i)" by auto
    then show ?thesis by (rule s'(5) [rule_format])
  qed
  have "page_walk E (pt_tables s') (Suc (Suc l)) source q = page_walk E ?T (Suc (Suc l)) source q" for q
    by (rule pt_tree_frame(2) [OF R(9) same])
  then have w: "\<forall>q. page_walk E (pt_tables s') (Suc (Suc l)) target q = page_walk E ?T (Suc (Suc l)) source q" using walk by simp
  have fr: "?H \<subseteq> insert target (free_of s)" "free_of s' = free_of s - ?H" using s'(3,4) R(3) unfolding U by auto
  have "card (free_of s) \<le> card (free_of s') + (card F - 1)" using s'(6) cF by simp
  with tree fr I(8,9) w s'(5) [unfolded U] have "copy_rel E (Suc (Suc l)) source target F s ?H s'"
    unfolding copy_rel_def by (intro conjI)
  with s'(1) show ?case by (auto simp del: upt_Suc)
qed

end

end
