(* ===== verification/Page_Tables_Properties.thy ===== *)
theory Page_Tables_Properties
  imports Page_Tables_Copying
begin

text \<open>
  The operations of \<^verbatim>\<open>Paging\<close> on an address space with four levels of tables, as the kernel uses it: what
  they do to the translation of addresses, which frames they take and which they give back.
\<close>

section \<open>Address spaces\<close>

definition address_space :: "'e entry_ops \<Rightarrow> Paging \<Rightarrow> nat set \<Rightarrow> 'e pt_mem \<Rightarrow> bool" where
  "address_space E self F s \<longleftrightarrow> depth self = 4 \<and> pt_tree E (pt_tables s) (depth self) (root_table self) F \<and> freeable F s \<and> frames_inv (pt_frames s)"

text \<open>The frame of a page.\<close>

definition frame_of :: "'e entry_ops \<Rightarrow> Paging \<Rightarrow> 'e pt_mem \<Rightarrow> nat \<Rightarrow> nat option" where
  "frame_of E self s p = page_walk E (pt_tables s) (depth self) (root_table self) p"

abbreviation page_of :: "u64 \<Rightarrow> nat" where
  "page_of a \<equiv> unat a div 4096"

abbreviation at_frame :: "u64 \<Rightarrow> nat \<Rightarrow> u64" where
  "at_frame a f \<equiv> of_nat (f * 4096 + unat a mod 4096)"

text \<open>The addresses four levels can tell apart.\<close>

definition lower_48 :: "u64 \<Rightarrow> bool" where
  "lower_48 a \<longleftrightarrow> unat a < 2 ^ 48"

lemma address_spaceD:
  assumes "address_space E self F s"
  shows "table_ptr (root_table self) = Some (root_table self)" "depth self = 4" "pt_tree E (pt_tables s) (depth self) (root_table self) F"
    "freeable F s" "frames_inv (pt_frames s)" "F \<inter> free_of s = {}"
  using assms pt_tree_root [of E "pt_tables s" "depth self" "root_table self" F] by (auto simp: address_space_def table_ptr_def freeable_def)

lemma translate_address_space:
  assumes "address_space E self F s"
  shows "Paging_translate E self a s = Some (map_option (at_frame a) (frame_of E self s (page_of a)))"
  using address_spaceD [OF assms] translate_walk [of E "pt_tables s" "depth self" "root_table self" F "page_of a"]
  by (simp add: Paging_translate_def frame_of_def)

lemma lower_48_block: "lower_48 a \<Longrightarrow> page_of a div 512 ^ 4 = 0"
proof -
  assume "lower_48 a"
  then have "unat a < 512 ^ 4 * 4096" by (simp add: lower_48_def)
  then have "page_of a < 512 ^ 4" by (rule less_mult_imp_div_less)
  then show ?thesis by simp
qed

lemma low_range: "e < 2 ^ 35 \<Longrightarrow> p \<le> e \<Longrightarrow> min (e - p) (512 ^ 4 - p mod 512 ^ 4) = e - p \<and> p div 512 ^ 4 = (0 :: nat)"
  by simp

lemma shifted_range:
  fixes p :: nat
  assumes "p \<le> e"
  shows "(\<lambda>q. h (q - p)) ` {p..<e} = h ` {..<e - p}" "inj_on h {..<e - p} \<Longrightarrow> inj_on (\<lambda>q. h (q - p)) {p..<e}"
proof -
  have r: "(\<lambda>q. q - p) ` {p..<e} = {..<e - p}" "inj_on (\<lambda>q. q - p) {p..<e}"
    using assms by (auto simp: image_minus_const_atLeastLessThan_nat inj_on_def lessThan_atLeast0)
  show "(\<lambda>q. h (q - p)) ` {p..<e} = h ` {..<e - p}" by (simp add: image_image flip: r(1))
  show "inj_on h {..<e - p} \<Longrightarrow> inj_on (\<lambda>q. h (q - p)) {p..<e}" using comp_inj_on [OF r(2), of h] r(1) by (simp add: comp_def)
qed

lemma free_frames_bounds: "frames_inv fs \<Longrightarrow> f \<in> free_frames fs \<Longrightarrow> f \<noteq> 0 \<and> f + 1 < 2 ^ 40"
proof -
  assume "frames_inv fs" "f \<in> free_frames fs"
  then obtain b where "b \<in> set (PAGE_FRAME_ALLOCATOR fs)" "node_start b \<le> f" "f < node_start b + frame_count b" "fl_wf 1 (PAGE_FRAME_ALLOCATOR fs)"
    by (auto simp: free_frames_def frames_of_def frames_inv_def)
  with fl_wf_lower [of 1 "PAGE_FRAME_ALLOCATOR fs" b] show ?thesis by auto
qed

lemma frame_of_unchanged:
  assumes "address_space E self F s" "address_space E self F' s'" "frame_of E self s' (page_of a) = frame_of E self s (page_of a)"
  shows "Paging_translate E self a s' = Paging_translate E self a s"
  using assms by (simp add: translate_address_space)

section \<open>Mapping and unmapping\<close>

lemma Paging_map_in_table:
  assumes E: "page_table_entry E" and A: "address_space E self F s" and f: "good_flags flags" and pe: "p \<le> e" "e < 2 ^ 35"
    and enough: "4 * max 1 (e - p) \<le> card (free_of s)"
    and fr: "fr_start frames \<le> fr_end frames" "fr_start frames < fr_end frames \<Longrightarrow> fr_end frames - fr_start frames = e - p \<and> fr_end frames < 2 ^ 40"
  shows "\<exists>F' s' g A. map_in_table E space flags (depth self) (root_table self) frames \<lparr>pr_start = p, pr_end = e\<rparr> s = Some (e - p, s')
    \<and> address_space E self F' s' \<and> F \<subseteq> F' \<and> map_target space frames p (e - p) g A \<and> A \<subseteq> free_of s \<and> A \<inter> F' = {} \<and> free_of s' = free_of s - F' - A
    \<and> (\<forall>q. q div 512 ^ 4 = 0 \<longrightarrow> frame_of E self s' q = (if p \<le> q \<and> q < e then Some (g (q - p)) else frame_of E self s q))
    \<and> (\<forall>x. x \<notin> F' \<longrightarrow> pt_tables s' x = pt_tables s x) \<and> F' - F \<subseteq> free_of s"
proof -
  note D = address_spaceD [OF A]
  obtain l where l: "depth self = Suc l" using D(2) by (cases "depth self") auto
  have B: "(512 :: nat) ^ Suc l = 512 ^ 4" using l D(2) by simp
  have "map_ready E frames (Suc l) (root_table self) p e F s"
    unfolding map_ready_def using D pe enough fr l by auto
  from page_table_entry.map_in_table_ok [OF E this f, of space] obtain F' s' where
    m: "map_in_table E space flags (Suc l) (root_table self) frames \<lparr>pr_start = p, pr_end = e\<rparr> s = Some (e - p, s')"
    "map_rel E space frames (Suc l) (root_table self) p (e - p) F s F' s'"
    unfolding B using low_range [OF pe(2,1)] by auto
  obtain g A where r: "pt_tree E (pt_tables s') (Suc l) (root_table self) F'" "F \<subseteq> F'" "F' - F \<subseteq> free_of s" "frames_inv (pt_frames s')"
    "\<forall>x. x \<notin> F' \<longrightarrow> pt_tables s' x = pt_tables s x" "card (free_of s) \<le> card (free_of s') + Suc l * max 1 (e - p)"
    "map_target space frames p (e - p) g A" "A \<subseteq> free_of s" "A \<inter> F' = {}" "free_of s' = free_of s - F' - A"
    "\<forall>q. q div 512 ^ Suc l = p div 512 ^ Suc l \<longrightarrow>
      page_walk E (pt_tables s') (Suc l) (root_table self) q = (if p \<le> q \<and> q < p + (e - p) then Some (g (q - p)) else page_walk E (pt_tables s) (Suc l) (root_table self) q)"
    by (rule map_relE [OF m(2)])
  have "freeable F' s'" using D(4,5) r(3,10) free_frames_bounds by (auto simp: freeable_def)
  then have "address_space E self F' s'" unfolding address_space_def using r(1,4) l D(2) by simp
  moreover have "\<forall>q. q div 512 ^ 4 = 0 \<longrightarrow> frame_of E self s' q = (if p \<le> q \<and> q < e then Some (g (q - p)) else frame_of E self s q)"
    using r(11) low_range [OF pe(2,1)] pe(1) unfolding B by (simp add: frame_of_def l)
  ultimately show ?thesis using m(1) l r(2,3,5,7-10) by (intro exI [of _ F'] exI [of _ s'] exI [of _ g] exI [of _ A]) simp
qed

lemma Paging_map_frames:
  assumes E: "page_table_entry E" and A: "address_space E self F s" and f: "good_flags flags" and pe: "p \<le> e" "e < 2 ^ 35"
    and enough: "4 * max 1 (e - p) \<le> card (free_of s)"
  obtains F' s' g A' where "Paging_map E self \<lparr>pr_start = p, pr_end = e\<rparr> space flags s = Some s'" "address_space E self F' s'" "F \<subseteq> F'"
    "free_of s' = free_of s - F' - A'" "space = User \<longrightarrow> inj_on g {p..<e} \<and> A' = g ` {p..<e} \<and> A' \<subseteq> free_of s \<and> A' \<inter> F' = {}"
    "space = Kernel \<longrightarrow> g = id \<and> A' = {}" "\<forall>q. q div 512 ^ 4 = 0 \<longrightarrow> frame_of E self s' q = (if p \<le> q \<and> q < e then Some (g q) else frame_of E self s q)"
proof -
  obtain F' s' h A' where m: "map_in_table E space flags (depth self) (root_table self) \<lparr>fr_start = 0, fr_end = 0\<rparr> \<lparr>pr_start = p, pr_end = e\<rparr> s = Some (e - p, s')"
    "address_space E self F' s'" "F \<subseteq> F'" "map_target space \<lparr>fr_start = 0, fr_end = 0\<rparr> p (e - p) h A'" "A' \<subseteq> free_of s" "A' \<inter> F' = {}" "free_of s' = free_of s - F' - A'"
    "\<forall>q. q div 512 ^ 4 = 0 \<longrightarrow> frame_of E self s' q = (if p \<le> q \<and> q < e then Some (h (q - p)) else frame_of E self s q)"
    using Paging_map_in_table [OF E A f pe enough, of "\<lparr>fr_start = 0, fr_end = 0\<rparr>" space] by auto
  let ?g = "if space = Kernel then id else (\<lambda>q. h (q - p))"
  have u: "inj_on ?g {p..<e} \<and> A' = ?g ` {p..<e} \<and> A' \<subseteq> free_of s \<and> A' \<inter> F' = {}" if "space = User"
  proof -
    have h: "inj_on h {..<e - p}" "A' = h ` {..<e - p}" using m(4) that by (simp_all add: map_target_def)
    then have "inj_on ?g {p..<e} \<and> A' = ?g ` {p..<e}" using that shifted_range [OF pe(1), of h] by simp
    then show ?thesis using m(5,6) by blast
  qed
  have k: "h (q - p) = q" if "space = Kernel" "p \<le> q" "q < e" for q using m(4) that by (auto simp: map_target_def)
  have "Paging_map E self \<lparr>pr_start = p, pr_end = e\<rparr> space flags s = Some s'" using m(1) address_spaceD(1) [OF A] by (simp add: Paging_map_def)
  moreover have "\<forall>q. q div 512 ^ 4 = 0 \<longrightarrow> frame_of E self s' q = (if p \<le> q \<and> q < e then Some (?g q) else frame_of E self s q)" using m(8) k by simp
  moreover have "space = Kernel \<longrightarrow> ?g = id \<and> A' = {}" using m(4) by (auto simp: map_target_def)
  ultimately show thesis using m(2,3,7) u that [of s' F' A' ?g] by blast
qed

lemma Paging_unmap_ok:
  assumes E: "page_table_entry E" and A: "address_space E self F s" and pe: "p < e" "e < 2 ^ 35" and all: "\<forall>q \<in> {p..<e}. frame_of E self s q \<noteq> None"
    and D: "fp \<Longrightarrow> inj_on (frame_of E self s) {p..<e} \<and> freeable D s \<and> D \<inter> F = {}" "D = {f. \<exists>q \<in> {p..<e}. frame_of E self s q = Some f}"
  shows "\<exists>F' s'. Paging_unmap E self \<lparr>pr_start = p, pr_end = e\<rparr> fp s = Some s' \<and> address_space E self F' s' \<and> F' \<subseteq> F
    \<and> free_of s' = free_of s \<union> (F - F') \<union> (if fp then D else {})
    \<and> (\<forall>q. q div 512 ^ 4 = 0 \<longrightarrow> frame_of E self s' q = (if p \<le> q \<and> q < e then None else frame_of E self s q))
    \<and> (\<forall>x. x \<notin> F \<longrightarrow> pt_tables s' x = pt_tables s x)"
proof -
  note I = address_spaceD [OF A]
  obtain l where l: "depth self = Suc l" using I(2) by (cases "depth self") auto
  have B: "(512 :: nat) ^ Suc l = 512 ^ 4" using l I(2) by simp
  have "q div 512 ^ 4 = 0" if "q < e" for q :: nat using pe(2) that by simp
  then have here: "pages_here (Suc l) p e = {p..<e}" using low_range [of e p] pe unfolding pages_here_def B by auto
  have walk: "page_walk E (pt_tables s) (Suc l) (root_table self) = frame_of E self s" using l by (auto simp: frame_of_def)
  have "\<exists>D. freeable D s \<and> D \<inter> F = {} \<and> frame_of E self s ` {p..<e} \<subseteq> Some ` D" if fp
  proof -
    have "frame_of E self s ` {p..<e} \<subseteq> Some ` D" using all D(2) by fastforce
    then show ?thesis using D(1) that by blast
  qed
  then have "unmap_ready E fp (Suc l) (root_table self) p e F s"
    unfolding unmap_ready_def here walk using I l pe all D(1) by auto
  from page_table_entry.unmap_in_table_ok [OF E this] obtain F' s' where
    u: "unmap_in_table E fp (Suc l) (root_table self) \<lparr>pr_start = p, pr_end = e\<rparr> s = Some (e - p, s')" "unmap_rel E fp (Suc l) (root_table self) p (e - p) F s F' s'"
    unfolding B using low_range [of e p] pe by auto
  note R = unmap_relD [OF u(2)]
  have M: "mapped E (pt_tables s) (Suc l) (root_table self) p (e - p) = D" unfolding mapped_def walk D(2) using pe(1) by auto
  have "freeable F' s'" using I(4) R(2,5) D(1) unfolding M by (auto simp: freeable_def split: if_splits)
  then have "address_space E self F' s'" unfolding address_space_def using R(1,3) l I(2) by simp
  moreover have "\<forall>q. q div 512 ^ 4 = 0 \<longrightarrow> frame_of E self s' q = (if p \<le> q \<and> q < e then None else frame_of E self s q)"
    using R(6) low_range [of e p] pe unfolding B by (simp add: frame_of_def l)
  ultimately show ?thesis using u(1) l I(1) R(2,4,5) unfolding M by (intro exI [of _ F'] exI [of _ s']) (simp add: Paging_unmap_def)
qed

lemma Paging_new_ok:
  assumes E: "page_table_entry E" and fi: "frames_inv (pt_frames s)" and ne: "free_of s \<noteq> {}"
  shows "\<exists>f fs. Paging_new E 4 s = Some (\<lparr>root_table = f, depth = 4\<rparr>, zero_table E f (s\<lparr>pt_frames := fs\<rparr>)) \<and> f \<in> free_of s \<and> free_frames fs = free_of s - {f}
    \<and> address_space E \<lparr>root_table = f, depth = 4\<rparr> {f} (zero_table E f (s\<lparr>pt_frames := fs\<rparr>)) \<and> frames_inv fs
    \<and> (\<forall>q. frame_of E \<lparr>root_table = f, depth = 4\<rparr> (zero_table E f (s\<lparr>pt_frames := fs\<rparr>)) q = None)"
proof -
  obtain f fs where a: "alloc_frame s = Some (f, s\<lparr>pt_frames := fs\<rparr>)" "frames_inv fs" "f \<in> free_of s" "f \<noteq> 0" "free_frames fs = free_of s - {f}"
    using alloc_frame_ok [OF fi ne] by blast
  let ?s = "zero_table E f (s\<lparr>pt_frames := fs\<rparr>)"
  obtain l :: nat where l: "4 = Suc l" by (metis numeral_eq_Suc)
  have z: "pt_tree E (pt_tables ?s) 4 f {f}" "page_walk E (pt_tables ?s) 4 f q = None" for q
    using page_table_entry.zero_tree(1) [OF E, of "pt_tables ?s" f l] page_table_entry.zero_tree(2) [OF E, of "pt_tables ?s" f l q] a(4) l by simp_all
  have "freeable {f} ?s" using a(3,5) free_frames_bounds [OF fi, of f] by (simp add: freeable_def)
  with z a show ?thesis by (intro exI [of _ f] exI [of _ fs]) (simp add: Paging_new_def table_ptr_def address_space_def frame_of_def)
qed

text \<open>An address space none of whose tables is touched stays as it is.\<close>

lemma address_space_untouched:
  assumes A: "address_space E other G s" and T: "\<And>x. x \<in> G \<Longrightarrow> pt_tables s' x = pt_tables s x" and f: "frames_inv (pt_frames s')" "G \<inter> free_of s' = {}"
  shows "address_space E other G s'" "frame_of E other s' q = frame_of E other s q"
proof -
  note D = address_spaceD [OF A]
  note fr = pt_tree_frame [OF D(3) T]
  show "address_space E other G s'" unfolding address_space_def using fr(1) D(2,4) f by (auto simp: freeable_def)
  show "frame_of E other s' q = frame_of E other s q" unfolding frame_of_def by (rule fr(2))
qed

lemma other_space_kept:
  assumes "address_space E other G s" "\<And>x. x \<in> G \<Longrightarrow> pt_tables s' x = pt_tables s x" "frames_inv (pt_frames s')" "G \<inter> free_of s' = {}"
  shows "address_space E other G s' \<and> Paging_translate E other a s' = Paging_translate E other a s"
  using address_space_untouched [OF assms] by (simp add: translate_address_space [OF assms(1)] translate_address_space)

section \<open>Sample memories\<close>

text \<open>An empty address space.\<close>

definition sample_pt_mem :: "u64 pt_mem" where
  "sample_pt_mem = \<lparr>pt_tables = (\<lambda>_. replicate 512 0),
     pt_frames = \<lparr>PAGE_FRAME_ALLOCATOR = [\<lparr>node_start = 100, frame_count = 100\<rparr>], PHYS_LIMIT = 200\<rparr>\<rparr>"

definition sample_paging :: Paging where
  "sample_paging = \<lparr>root_table = 1, depth = 4\<rparr>"

text \<open>One that maps only page 512, to frame 7.\<close>

definition sample_one_page :: "u64 pt_mem" where
  "sample_one_page = sample_pt_mem\<lparr>pt_tables := (\<lambda>_. replicate 512 0)(1 := (replicate 512 0)[0 := 0x2003],
     2 := (replicate 512 0)[0 := 0x3003], 3 := (replicate 512 0)[1 := 0x4003], 4 := (replicate 512 0)[0 := 0x7003])\<rparr>"

lemma x86_entry_laws: "page_table_entry x86_entry"
  by (rule x86.page_table_entry_axioms)

lemma sample_pt_mem_simps:
  "free_of sample_pt_mem = {100..<200}" "frames_inv (pt_frames sample_pt_mem)" "pt_tables sample_pt_mem x = replicate 512 0"
  "pt_frames sample_one_page = pt_frames sample_pt_mem"
  by (auto simp: sample_pt_mem_def sample_one_page_def free_frames_def frames_inv_def)

lemma sample_address_space:
  "address_space x86_entry sample_paging {1} sample_pt_mem" "frame_of x86_entry sample_paging sample_pt_mem q = None"
proof -
  obtain l :: nat where l: "4 = Suc l" by (metis numeral_eq_Suc)
  have "pte_zero x86_entry = 0" by (simp add: x86_entry_def)
  then have z: "pt_tree x86_entry (pt_tables sample_pt_mem) 4 1 {1}" "page_walk x86_entry (pt_tables sample_pt_mem) 4 1 q = None"
    using x86.zero_tree(1) [of "pt_tables sample_pt_mem" 1 l] x86.zero_tree(2) [of "pt_tables sample_pt_mem" 1 l q] l by (simp_all add: sample_pt_mem_simps)
  then show "address_space x86_entry sample_paging {1} sample_pt_mem" "frame_of x86_entry sample_paging sample_pt_mem q = None"
    by (simp_all add: address_space_def sample_paging_def freeable_def sample_pt_mem_simps frame_of_def)
qed

lemma pt_tree_single:
  assumes T: "T t = (replicate 512 z)[i := e]" "pte_is_unused E z" "\<not> pte_is_unused E e" "i < 512" "t \<noteq> 0" "pt_tree E T (Suc l) (pte_addr E e) F" "t \<notin> F"
  shows "pt_tree E T (Suc (Suc l)) t (insert t F)"
proof -
  have "pt_node E T (pt_tree E T (Suc l)) t (\<lambda>j. if j = i then F else {})"
  proof -
    have "(replicate 512 z)[i := e] ! j = (if j = i then e else z)" if "j < 512" for j using that T(4) by (simp add: nth_list_update)
    with assms show ?thesis by (simp add: pt_node_def disjoint_family_on_def)
  qed
  moreover have "(\<Union>j < 512. if j = i then F else {}) = F" using T(4) by (auto split: if_splits)
  ultimately show ?thesis unfolding pt_tree.simps by (intro exI [of _ "\<lambda>j. if j = i then F else {}"]) simp
qed

lemma sample_one_page_tables [simp]:
  "pt_tables sample_one_page 1 = (replicate 512 0)[0 := 0x2003]" "pt_tables sample_one_page (Suc 0) = (replicate 512 0)[0 := 0x2003]"
  "pt_tables sample_one_page 2 = (replicate 512 0)[0 := 0x3003]"
  "pt_tables sample_one_page 3 = (replicate 512 0)[1 := 0x4003]" "pt_tables sample_one_page 4 = (replicate 512 0)[0 := 0x7003]"
  by (simp_all add: sample_one_page_def)

lemma x86_entry_eval [simp]:
  "pte_is_unused x86_entry e \<longleftrightarrow> e = 0" "pte_zero x86_entry = 0" "pte_addr x86_entry 0x2003 = 2" "pte_addr x86_entry 0x3003 = 3"
  "pte_addr x86_entry 0x4003 = 4" "pte_addr x86_entry 0x7003 = 7"
  by (simp_all add: x86_entry_def drop_bit_eq_div take_bit_eq_mod unat_div unat_mod)

lemma sample_one_page_space:
  "address_space x86_entry sample_paging {1, 2, 3, 4} sample_one_page"
  "frame_of x86_entry sample_paging sample_one_page 0 = None" "frame_of x86_entry sample_paging sample_one_page 512 = Some 7"
proof -
  let ?T = "pt_tables sample_one_page"
  have "pt_tree x86_entry ?T (Suc 0) 4 {4}" by simp
  then have "pt_tree x86_entry ?T (Suc (Suc 0)) 3 {3, 4}" by (intro pt_tree_single [of ?T 3 0 1 "0x4003"]) simp_all
  then have "pt_tree x86_entry ?T (Suc (Suc (Suc 0))) 2 {2, 3, 4}" by (intro pt_tree_single [of ?T 2 0 0 "0x3003"]) simp_all
  then have "pt_tree x86_entry ?T (Suc (Suc (Suc (Suc 0)))) 1 {1, 2, 3, 4}" by (intro pt_tree_single [of ?T 1 0 0 "0x2003"]) simp_all
  moreover have "Suc (Suc (Suc (Suc 0))) = 4" by simp
  ultimately have "pt_tree x86_entry ?T 4 1 {1, 2, 3, 4}" by (simp only:)
  then show "address_space x86_entry sample_paging {1, 2, 3, 4} sample_one_page"
    by (simp add: address_space_def sample_paging_def freeable_def sample_pt_mem_simps)
  have w: "frame_of x86_entry sample_paging sample_one_page q = page_walk x86_entry ?T (Suc (Suc (Suc (Suc 0)))) 1 q" for q
    by (simp add: frame_of_def sample_paging_def numeral_Bit0)
  show "frame_of x86_entry sample_paging sample_one_page 0 = None" "frame_of x86_entry sample_paging sample_one_page 512 = Some 7"
    unfolding w by (simp_all add: page_walk.simps(2))
qed

lemma sample_flags: "good_flags (PRESENT OR WRITABLE)"
  by (simp add: good_flags_def valid_flags_def ADDR_MASK_def PRESENT_def WRITABLE_def HUGE_PAGE_def mask_eq_exp_minus_1 push_bit_eq_mult)

section \<open>What mapping a range of pages does\<close>

text \<open>
  C17. With four tables per page and one at least, \<^verbatim>\<open>Paging::map\<close> returns. Every address of the range then translates: to
  itself in kernel space, and in user space to frames that were free before, a different one for every page, and that the
  allocator does not hand out again. Every other address translates as before, and the allocator lost exactly the new
  tables and these frames.
\<close>

theorem paging_map_correct:
  assumes E: "page_table_entry E" and A: "address_space E self F s" and f: "good_flags flags" and pe: "p \<le> e" "e < 2 ^ 35"
    and enough: "4 * max 1 (e - p) \<le> card (free_of s)"
  shows "\<exists>F' s' g A. Paging_map E self \<lparr>pr_start = p, pr_end = e\<rparr> space flags s = Some s' \<and> address_space E self F' s' \<and> F \<subseteq> F' \<and> free_of s' = free_of s - F' - A
    \<and> (space = User \<longrightarrow> inj_on g {p..<e} \<and> A = g ` {p..<e} \<and> A \<subseteq> free_of s \<and> A \<inter> F' = {}) \<and> (space = Kernel \<longrightarrow> g = id \<and> A = {})
    \<and> (\<forall>a. lower_48 a \<longrightarrow> Paging_translate E self a s' =
         (if page_of a \<in> {p..<e} then Some (Some (at_frame a (g (page_of a)))) else Paging_translate E self a s))"
proof -
  obtain F' s' g A' where m: "Paging_map E self \<lparr>pr_start = p, pr_end = e\<rparr> space flags s = Some s'" "address_space E self F' s'" "F \<subseteq> F'"
    "free_of s' = free_of s - F' - A'" "space = User \<longrightarrow> inj_on g {p..<e} \<and> A' = g ` {p..<e} \<and> A' \<subseteq> free_of s \<and> A' \<inter> F' = {}"
    "space = Kernel \<longrightarrow> g = id \<and> A' = {}" "\<forall>q. q div 512 ^ 4 = 0 \<longrightarrow> frame_of E self s' q = (if p \<le> q \<and> q < e then Some (g q) else frame_of E self s q)"
    by (rule Paging_map_frames [OF assms, of space])
  have "\<forall>a. lower_48 a \<longrightarrow> Paging_translate E self a s' = (if page_of a \<in> {p..<e} then Some (Some (at_frame a (g (page_of a)))) else Paging_translate E self a s)"
    using m(7) [rule_format, OF lower_48_block] by (simp add: translate_address_space [OF A] translate_address_space [OF m(2)])
  with m(1-6) show ?thesis by - (rule exI [of _ F'], rule exI [of _ s'], rule exI [of _ g], rule exI [of _ A'], intro conjI; assumption)
qed

theorem paging_map_correct_witness:
  "\<exists>s' f. Paging_map x86_entry sample_paging \<lparr>pr_start = 5, pr_end = 8\<rparr> User (PRESENT OR WRITABLE) sample_pt_mem = Some s'
    \<and> Paging_translate x86_entry sample_paging 0x6123 s' = Some (Some (of_nat (f * 4096 + 0x123))) \<and> f \<in> {100..<200} - free_of s'"
proof -
  obtain F' s' g A where "Paging_map x86_entry sample_paging \<lparr>pr_start = 5, pr_end = 8\<rparr> User (PRESENT OR WRITABLE) sample_pt_mem = Some s'"
    "free_of s' = free_of sample_pt_mem - F' - A" "A = g ` {5..<8}" "A \<subseteq> free_of sample_pt_mem"
    "\<forall>a. lower_48 a \<longrightarrow> Paging_translate x86_entry sample_paging a s' =
       (if page_of a \<in> {5..<8} then Some (Some (at_frame a (g (page_of a)))) else Paging_translate x86_entry sample_paging a sample_pt_mem)"
    using paging_map_correct [OF x86_entry_laws sample_address_space(1) sample_flags, of 5 8 User] by (auto simp: sample_pt_mem_simps)
  moreover have "6 \<in> {5..<8 :: nat}" by simp
  moreover from calculation have "g 6 \<in> {100..<200}" unfolding sample_pt_mem_simps by blast
  ultimately show ?thesis by (intro exI [of _ s'] exI [of _ "g 6"]) (auto simp: sample_pt_mem_simps lower_48_def dest: spec [of _ "0x6123"])
qed



text \<open>
  C19. A clone made by \<^verbatim>\<open>Paging::from_other\<close> translates every address exactly as the original does, shares no
  table with it, and leaves the original as it was.
\<close>

theorem paging_clone_equivalent:
  assumes E: "page_table_entry E" and A: "address_space E other F s" and len: "\<forall>t. length (pt_tables s t) = 512"
    and huge: "\<forall>t \<in> F. \<forall>e \<in> set (pt_tables s t). pte_flags E e AND HUGE_PAGE = 0" and enough: "card F \<le> card (free_of s)"
  shows "\<exists>new H s'. Paging_from_other E other s = Some (new, s') \<and> address_space E new H s' \<and> address_space E other F s' \<and> H \<inter> F = {}
    \<and> H \<subseteq> free_of s \<and> free_of s' = free_of s - H
    \<and> (\<forall>a. Paging_translate E new a s' = Paging_translate E other a s \<and> Paging_translate E other a s' = Paging_translate E other a s)"
proof -
  note D = address_spaceD [OF A]
  obtain l where l: "depth other = Suc l" using D(2) by (cases "depth other") auto
  have fin: "finite (free_of s)" by (simp add: free_frames_def frames_of_def)
  have "card F \<noteq> 0" using pt_tree_root [OF D(3)] pt_tree_finite [OF D(3)] by auto
  then have "free_of s \<noteq> {}" using enough by auto
  from Paging_new_ok [OF E D(5) this] obtain f fs where n: "Paging_new E 4 s = Some (\<lparr>root_table = f, depth = 4\<rparr>, zero_table E f (s\<lparr>pt_frames := fs\<rparr>))"
    "f \<in> free_of s" "free_frames fs = free_of s - {f}" "frames_inv fs" "address_space E \<lparr>root_table = f, depth = 4\<rparr> {f} (zero_table E f (s\<lparr>pt_frames := fs\<rparr>))" by blast
  let ?s = "zero_table E f (s\<lparr>pt_frames := fs\<rparr>)" and ?new = "\<lparr>root_table = f, depth = 4\<rparr>"
  have T: "pt_tables ?s x = pt_tables s x" if "x \<in> F" for x using that n(2) D(6) by (auto simp: zero_table_def)
  have A': "address_space E other F ?s" "frame_of E other ?s q = frame_of E other s q" for q
    using address_space_untouched [OF A T] n(2-4) D(6) by (auto simp: zero_table_def)
  note D' = address_spaceD [OF A'(1)]
  have "copy_ready E (Suc l) (root_table other) f F ?s"
    unfolding copy_ready_def using D'(3,5,6) l n(2,3) D(6) address_spaceD(1) [OF n(5)] len huge T enough fin
    by (auto simp: zero_table_def table_ptr_def card_Diff_singleton split: if_splits)
  from page_table_entry.copy_table_ok [OF E this] obtain H s' where
    c: "copy_table E (Suc l) (root_table other) f ?s = Some s'" "copy_rel E (Suc l) (root_table other) f F ?s H s'" by blast
  then have r: "pt_tree E (pt_tables s') (Suc l) f H" "H \<subseteq> free_of s" "free_of s' = free_of s - H" "frames_inv (pt_frames s')"
    "\<forall>x. x \<notin> H \<longrightarrow> pt_tables s' x = pt_tables ?s x" "\<forall>q. page_walk E (pt_tables s') (Suc l) f q = page_walk E (pt_tables ?s) (Suc l) (root_table other) q"
    using n(2,3) pt_tree_root [of E "pt_tables s'" "Suc l" f H] by (auto simp: copy_rel_def zero_table_def)
  have dis: "H \<inter> F = {}" using r(2) D(6) by blast
  have "pt_tables s' x = pt_tables ?s x" if "x \<in> F" for x using r(5) that dis by blast
  moreover have "F \<inter> free_of s' = {}" using r(3) D(6) by blast
  ultimately have O: "address_space E other F s'" "frame_of E other s' q = frame_of E other s q" for q
    using address_space_untouched [OF A'(1) _ r(4)] A'(2) by auto
  have N: "address_space E ?new H s'" using r free_frames_bounds [OF D(5)] l D(2) by (auto simp: address_space_def freeable_def)
  have "frame_of E ?new s' q = frame_of E other s q" for q using r(6) A'(2) [of q] l D(2) by (simp add: frame_of_def)
  moreover have "Paging_from_other E other s = Some (?new, s')" using n(1) c(1) D(1,2) l by (simp add: Paging_from_other_def)
  ultimately show ?thesis using O N dis r(2,3)
    by (intro exI [of _ ?new] exI [of _ H] exI [of _ s']) (simp add: translate_address_space [OF N] translate_address_space [OF O(1)] translate_address_space [OF A])
qed

theorem paging_clone_equivalent_witness:
  "\<exists>new s'. Paging_from_other x86_entry sample_paging sample_one_page = Some (new, s') \<and> Paging_translate x86_entry new 0x200042 s' = Some (Some 0x7042)"
proof -
  have e: "pte_flags x86_entry e AND HUGE_PAGE = 0" if "e \<in> {0, 0x2003, 0x3003, 0x4003, 0x7003}" for e
    using that by (auto simp: x86_entry_def HUGE_PAGE_def ADDR_MASK_def mask_eq_exp_minus_1 push_bit_eq_mult)
  have "\<forall>e \<in> set ((replicate 512 0)[i := v]). pte_flags x86_entry e AND HUGE_PAGE = 0" if "v \<in> {0x2003, 0x3003, 0x4003, 0x7003}" for i v
  proof
    fix x assume "x \<in> set ((replicate 512 0)[i := v])"
    then have "x = v \<or> x = 0" using set_update_subset_insert [of "replicate 512 0" i v] by auto
    with that show "pte_flags x86_entry x AND HUGE_PAGE = 0" by (intro e) auto
  qed
  then have "\<forall>t \<in> {1, 2, 3, 4}. \<forall>e \<in> set (pt_tables sample_one_page t). pte_flags x86_entry e AND HUGE_PAGE = 0" by force
  moreover have "\<forall>t. length (pt_tables sample_one_page t) = 512" by (simp add: sample_one_page_def)
  ultimately obtain new s' where "Paging_from_other x86_entry sample_paging sample_one_page = Some (new, s')"
    "\<forall>a. Paging_translate x86_entry new a s' = Paging_translate x86_entry sample_paging a sample_one_page"
    using paging_clone_equivalent [OF x86_entry_laws sample_one_page_space(1)] by (auto simp: sample_pt_mem_simps)
  then show ?thesis by (intro exI [of _ new] exI [of _ s']) (simp add: translate_address_space [OF sample_one_page_space(1)] sample_one_page_space(3))
qed

text \<open>
  Dropping an address space gives back exactly the frames of its tables and does not touch any address space that
  shares no table with it.
\<close>

theorem paging_drop_correct:
  assumes E: "page_table_entry E" and A: "address_space E self F s"
  shows "\<exists>s'. Paging_drop E self s = Some s' \<and> free_of s' = free_of s \<union> F \<and> frames_inv (pt_frames s')
    \<and> (\<forall>other G a. address_space E other G s \<and> G \<inter> F = {} \<longrightarrow>
         address_space E other G s' \<and> Paging_translate E other a s' = Paging_translate E other a s)"
proof -
  note D = address_spaceD [OF A]
  obtain l where l: "depth self = Suc l" using D(2) by (cases "depth self") auto
  from page_table_entry.drop_table_ok [OF E D(3) [unfolded l] D(4,5)] obtain s' where
    d: "drop_table E (Suc l) (root_table self) s = Some s'" "frames_inv (pt_frames s')" "free_of s' = free_of s \<union> F" "\<forall>x. x \<notin> F \<longrightarrow> pt_tables s' x = pt_tables s x"
    by blast
  have "address_space E other G s' \<and> Paging_translate E other a s' = Paging_translate E other a s" if G: "address_space E other G s" "G \<inter> F = {}" for other G a
    by (rule other_space_kept [OF G(1)]) (use d G address_spaceD(6) [OF G(1)] in auto)
  moreover have "Paging_drop E self s = Some s'" using d(1) l D(1) by (simp add: Paging_drop_def del: drop_table.simps)
  ultimately show ?thesis using d(2,3) by blast
qed

theorem paging_drop_correct_witness:
  "\<exists>s'. Paging_drop x86_entry sample_paging sample_one_page = Some s' \<and> free_of s' = {100..<200} \<union> {1, 2, 3, 4}"
  using paging_drop_correct [OF x86_entry_laws sample_one_page_space(1)] by (auto simp: sample_pt_mem_simps)

text \<open>
  C20. Address spaces are isolated: mapping pages in one, with frames from the allocator or at given frames, and unmapping
  them again leaves the translation of every address in any other address space as it was.
\<close>

theorem paging_isolated:
  assumes E: "page_table_entry E" and A: "address_space E self F s" and O: "address_space E other G s" "G \<inter> F = {}" and f: "good_flags flags"
    and pe: "p < e" "e < 2 ^ 35" and enough: "4 * (e - p) \<le> card (free_of s)" and fr: "physical \<longrightarrow> n + (e - p) < 2 ^ 40"
  shows "\<exists>s1 s2. (if physical then Paging_map_physical E self \<lparr>fr_start = n, fr_end = n + (e - p)\<rparr> \<lparr>pr_start = p, pr_end = e\<rparr> User flags s
       else Paging_map E self \<lparr>pr_start = p, pr_end = e\<rparr> User flags s) = Some s1
    \<and> Paging_unmap E self \<lparr>pr_start = p, pr_end = e\<rparr> (\<not> physical) s1 = Some s2
    \<and> (\<forall>a. Paging_translate E other a s1 = Paging_translate E other a s \<and> Paging_translate E other a s2 = Paging_translate E other a s)"
proof -
  let ?r = "if physical then \<lparr>fr_start = n, fr_end = n + (e - p)\<rparr> else \<lparr>fr_start = 0, fr_end = 0\<rparr>"
  note D = address_spaceD [OF A]
  have en: "4 * max 1 (e - p) \<le> card (free_of s)" using enough pe(1) by (simp add: max_def)
  have le: "p \<le> e" using pe(1) by simp
  have fr': "fr_start ?r \<le> fr_end ?r" "fr_start ?r < fr_end ?r \<Longrightarrow> fr_end ?r - fr_start ?r = e - p \<and> fr_end ?r < 2 ^ 40"
    using fr by (simp_all split: if_splits)
  obtain F' s1 g B where m: "map_in_table E User flags (depth self) (root_table self) ?r \<lparr>pr_start = p, pr_end = e\<rparr> s = Some (e - p, s1)"
    "address_space E self F' s1" "F \<subseteq> F'" "map_target User ?r p (e - p) g B" "B \<subseteq> free_of s" "B \<inter> F' = {}" "free_of s1 = free_of s - F' - B"
    "\<forall>q. q div 512 ^ 4 = 0 \<longrightarrow> frame_of E self s1 q = (if p \<le> q \<and> q < e then Some (g (q - p)) else frame_of E self s q)"
    "\<forall>x. x \<notin> F' \<longrightarrow> pt_tables s1 x = pt_tables s x" "F' - F \<subseteq> free_of s"
    using Paging_map_in_table [OF E A f le pe(2) en fr', of User] by blast
  have dis: "G \<inter> F' = {}" using O address_spaceD(6) [OF O(1)] m(10) by blast
  have k1: "address_space E other G s1 \<and> Paging_translate E other a s1 = Paging_translate E other a s" for a
    by (rule other_space_kept [OF O(1)]) (use dis m(7,9) address_spaceD(6) [OF O(1)] address_spaceD(5) [OF m(2)] in auto)
  have fo: "frame_of E self s1 q = Some (g (q - p))" if "q \<in> {p..<e}" for q
    using m(8) that pe(2) by simp
  then have all: "\<forall>q \<in> {p..<e}. frame_of E self s1 q \<noteq> None" by simp
  let ?D = "{h. \<exists>q \<in> {p..<e}. frame_of E self s1 q = Some h}"
  have own: "inj_on (frame_of E self s1) {p..<e} \<and> freeable ?D s1 \<and> ?D \<inter> F' = {}" if "\<not> physical"
  proof -
    have g: "inj_on g {..<e - p}" "B = g ` {..<e - p}" using m(4) that by (simp_all add: map_target_def)
    have "?D \<subseteq> B" using fo g(2) by force
    moreover have "freeable B s1" using m(5,7) free_frames_bounds [OF D(5)] by (auto simp: freeable_def)
    moreover have "inj_on (frame_of E self s1) {p..<e}" using shifted_range(2) [OF le g(1)] fo by (simp add: inj_on_def)
    ultimately show ?thesis using m(6) by (auto simp: freeable_def)
  qed
  obtain F2 s2 where u: "Paging_unmap E self \<lparr>pr_start = p, pr_end = e\<rparr> (\<not> physical) s1 = Some s2" "address_space E self F2 s2"
    "free_of s2 = free_of s1 \<union> (F' - F2) \<union> (if \<not> physical then ?D else {})" "\<forall>x. x \<notin> F' \<longrightarrow> pt_tables s2 x = pt_tables s1 x"
    using Paging_unmap_ok [OF E m(2) pe all own refl, of "\<not> physical"] by blast
  have "?D \<inter> G = {}" if "\<not> physical" using m(4,5) fo that address_spaceD(6) [OF O(1)] by (fastforce simp: map_target_def)
  then have "G \<inter> free_of s2 = {}" using u(3) m(7) dis address_spaceD(6) [OF O(1)] by (cases physical) auto
  then have "Paging_translate E other a s2 = Paging_translate E other a s1" for a
    using other_space_kept [of E other G s1 s2 a] k1 u(4) dis address_spaceD(5) [OF u(2)] by blast
  moreover have "frame_sub (n + (e - p)) n = Some (e - p)" "page_sub e p = Some (e - p)" using le by (simp_all add: frame_sub_def page_sub_def)
  ultimately show ?thesis using m(1) u(1) k1 D(1)
    by (intro exI [of _ s1] exI [of _ s2]) (cases physical; simp add: Paging_map_def Paging_map_physical_def panic_simps)
qed

text \<open>The second address space has its root in frame 9.\<close>

lemma sample_second_space: "address_space x86_entry \<lparr>root_table = 9, depth = 4\<rparr> {9} sample_one_page"
proof -
  obtain l :: nat where l: "4 = Suc l" by (metis numeral_eq_Suc)
  have "pt_tables sample_one_page 9 = replicate 512 0" by (simp add: sample_one_page_def)
  then have "pt_tree x86_entry (pt_tables sample_one_page) 4 9 {9}"
    using x86.zero_tree(1) [of "pt_tables sample_one_page" 9 l] l by simp
  then show ?thesis by (simp add: address_space_def freeable_def sample_pt_mem_simps)
qed

theorem paging_isolated_witness:
  "\<exists>s1 s2. Paging_map x86_entry \<lparr>root_table = 9, depth = 4\<rparr> \<lparr>pr_start = 512, pr_end = 520\<rparr> User (PRESENT OR WRITABLE) sample_one_page = Some s1
    \<and> Paging_unmap x86_entry \<lparr>root_table = 9, depth = 4\<rparr> \<lparr>pr_start = 512, pr_end = 520\<rparr> True s1 = Some s2
    \<and> Paging_translate x86_entry sample_paging 0x200042 s1 = Some (Some 0x7042) \<and> Paging_translate x86_entry sample_paging 0x200042 s2 = Some (Some 0x7042)"
proof -
  have "Paging_translate x86_entry sample_paging 0x200042 sample_one_page = Some (Some 0x7042)"
    by (simp add: translate_address_space [OF sample_one_page_space(1)] sample_one_page_space(3))
  then show ?thesis using paging_isolated [OF x86_entry_laws sample_second_space sample_one_page_space(1) _ sample_flags, of 512 520 False 0]
    by (auto simp: sample_pt_mem_simps)
qed

section \<open>Ranges with holes\<close>

lemma emptied_table: "is_table_empty x86_entry ((replicate 512 0)[i := 0])"
  using set_update_subset_insert [of "replicate 512 (0 :: u64)" i 0] by (auto simp: is_table_empty_def list_all_iff)

lemma drop_emptied:
  assumes "pt_tables s n = (replicate 512 0)[j := 0]" "frames_inv (pt_frames s)" "n \<notin> free_of s" "n \<noteq> 0" "n + 1 < 2 ^ 40"
  shows "\<exists>fs. drop_empty x86_entry t i n s = Some (write_entry t i 0 (s\<lparr>pt_frames := fs\<rparr>)) \<and> frames_inv fs \<and> free_frames fs = insert n (free_of s)"
proof -
  obtain fs where "free_frame n s = Some (s\<lparr>pt_frames := fs\<rparr>)" "frames_inv fs" "free_frames fs = insert n (free_of s)"
    using free_frame_ok [OF assms(2-5)] by blast
  with assms(1) show ?thesis by (intro exI [of _ fs]) (simp add: drop_empty_def emptied_table)
qed

lemma unmap_missing_page:
  "\<exists>fs. unmap_in_table x86_entry False (Suc (Suc 0)) 3 \<lparr>pr_start = 0, pr_end = 1\<rparr> sample_one_page
     = Some (1, write_entry 3 1 0 (write_entry 4 0 0 sample_one_page\<lparr>pt_frames := fs\<rparr>)) \<and> frames_inv fs \<and> free_frames fs = {100..<200} \<union> {4}"
proof -
  let ?s = "write_entry 4 0 0 sample_one_page"
  have up: "[0..<512] = 0 # 1 # [Suc (Suc 0)..<512 :: nat]" using upt_conv_Cons [of 0 512] upt_conv_Cons [of 1 512] by (simp del: upt_rec_numeral)
  have "unmap_in_table x86_entry False (Suc 0) 4 \<lparr>pr_start = 0, pr_end = 1\<rparr> sample_one_page = Some (1, ?s)"
    by (simp add: page_sub_def panic_simps write_entry_def)
  moreover obtain fs where "drop_empty x86_entry 3 1 4 ?s = Some (write_entry 3 1 0 (?s\<lparr>pt_frames := fs\<rparr>)) \<and> frames_inv fs \<and> free_frames fs = insert 4 (free_of ?s)"
    using drop_emptied [of ?s 4 0 3 1] by (auto simp: write_entry_def sample_pt_mem_simps)
  ultimately show ?thesis
    by (intro exI [of _ fs]) (simp add: up table_ptr_def page_add_def page_ok_def panic_simps write_entry_def sample_pt_mem_simps del: unmap_in_table.simps(2) upt_rec_numeral)
qed

lemma unmap_through:
  assumes "pt_tables s t = (replicate 512 0)[0 := e]" "e \<noteq> 0" "pte_addr x86_entry e = n"
    and below: "unmap_in_table x86_entry False (Suc l) n \<lparr>pr_start = 0, pr_end = 1\<rparr> s = Some (1, s1)"
    and left: "pt_tables s1 n = (replicate 512 0)[j := 0]" "frames_inv (pt_frames s1)" "n \<notin> free_of s1" "n \<noteq> 0" "n + 1 < 2 ^ 40"
  shows "\<exists>fs. unmap_in_table x86_entry False (Suc (Suc l)) t \<lparr>pr_start = 0, pr_end = 1\<rparr> s = Some (1, write_entry t 0 0 (s1\<lparr>pt_frames := fs\<rparr>))
    \<and> frames_inv fs \<and> free_frames fs = insert n (free_of s1)"
proof -
  have up: "[0..<512] = 0 # [1..<512 :: nat]" using upt_conv_Cons [of 0 512] by (simp del: upt_rec_numeral)
  obtain fs where "drop_empty x86_entry t 0 n s1 = Some (write_entry t 0 0 (s1\<lparr>pt_frames := fs\<rparr>))" "frames_inv fs" "free_frames fs = insert n (free_of s1)"
    using drop_emptied [OF left] by blast
  then show ?thesis using assms(1-4) left(4)
    by (intro exI [of _ fs]) (simp add: up table_ptr_def page_add_def page_ok_def panic_simps del: unmap_in_table.simps(2) upt_rec_numeral)
qed

text \<open>
  C21. Unmapping a page that is not mapped can unmap another one: the walk skips an unused entry of a table without
  skipping the pages it stands for. With only page 512 mapped, unmapping page 0 makes page 512 untranslatable and frees
  the tables it needs.
\<close>

theorem paging_unmap_hole:
  "\<exists>s'. Paging_translate x86_entry sample_paging 0x0 sample_one_page = Some None \<and> Paging_translate x86_entry sample_paging 0x200042 sample_one_page = Some (Some 0x7042)
    \<and> Paging_unmap x86_entry sample_paging \<lparr>pr_start = 0, pr_end = 1\<rparr> False sample_one_page = Some s'
    \<and> Paging_translate x86_entry sample_paging 0x200042 s' = Some None \<and> free_of s' = {100..<200} \<union> {2, 3, 4}"
proof -
  note A = translate_address_space [OF sample_one_page_space(1)] sample_one_page_space(2,3)
  obtain f1 where 1: "unmap_in_table x86_entry False (Suc (Suc 0)) 3 \<lparr>pr_start = 0, pr_end = 1\<rparr> sample_one_page
     = Some (1, write_entry 3 1 0 (write_entry 4 0 0 sample_one_page\<lparr>pt_frames := f1\<rparr>))" "frames_inv f1" "free_frames f1 = {100..<200} \<union> {4}"
    using unmap_missing_page by blast
  let ?s1 = "write_entry 3 1 0 (write_entry 4 0 0 sample_one_page\<lparr>pt_frames := f1\<rparr>)"
  obtain f2 where 2: "unmap_in_table x86_entry False (Suc (Suc (Suc 0))) 2 \<lparr>pr_start = 0, pr_end = 1\<rparr> sample_one_page
     = Some (1, write_entry 2 0 0 (?s1\<lparr>pt_frames := f2\<rparr>))" "frames_inv f2" "free_frames f2 = insert 3 (free_frames f1)"
    using unmap_through [OF _ _ _ 1(1), of 2 "0x3003" 1] 1(2,3) by (auto simp: write_entry_def)
  let ?s2 = "write_entry 2 0 0 (?s1\<lparr>pt_frames := f2\<rparr>)"
  obtain f3 where 3: "unmap_in_table x86_entry False (Suc (Suc (Suc (Suc 0)))) 1 \<lparr>pr_start = 0, pr_end = 1\<rparr> sample_one_page
     = Some (1, write_entry 1 0 0 (?s2\<lparr>pt_frames := f3\<rparr>))" "free_frames f3 = insert 2 (free_frames f2)"
    using unmap_through [OF _ _ _ 2(1), of 1 "0x2003" 0] 1(3) 2(2,3) by (auto simp: write_entry_def)
  let ?s3 = "write_entry 1 0 0 (?s2\<lparr>pt_frames := f3\<rparr>)"
  have d: "depth sample_paging = Suc (Suc (Suc (Suc 0)))" "root_table sample_paging = 1" by (simp_all add: sample_paging_def)
  have "Paging_unmap x86_entry sample_paging \<lparr>pr_start = 0, pr_end = 1\<rparr> False sample_one_page = Some ?s3"
    using 3(1) d by (simp only: Paging_unmap_def table_ptr_def) simp
  moreover have "Paging_translate x86_entry sample_paging 0x200042 ?s3 = Some None"
    by (simp add: Paging_translate_def d table_ptr_def panic_simps write_entry_def)
  moreover have "free_of ?s3 = {100..<200} \<union> {2, 3, 4}" using 1(3) 2(3) 3(2) by (auto simp: write_entry_def)
  ultimately show ?thesis by (intro exI [of _ ?s3]) (simp add: A)
qed

end
