(* ===== verification/Address_Space.thy ===== *)
theory Address_Space
  imports Page_Tables_Properties Virtio_Core
begin

text \<open>
  Virtual memory areas (\<^verbatim>\<open>kernel/src/memory/vma.rs\<close>) and the address space of a process
  (\<^verbatim>\<open>kernel/src/memory/vmm.rs\<close>), with the page fault handler that maps the pages of a heap or of a stack on
  demand. Virtual addresses are natural numbers below 2 to the 64; an operation on addresses that leaves the canonical
  ones panics. The map of areas is the list of its entries in ascending order of the keys.
\<close>

section \<open>Virtual memory areas\<close>

datatype VmaType = Code | Heap | Environment | DeviceMemory | UserStack | KernelStack | KernelBuffer | Anonymous

definition TAG_SIZE :: nat where
  "TAG_SIZE = 16"

record VirtualMemoryArea =
  vma_space :: MemorySpace
  vma_range :: PageRange
  vma_typ :: VmaType
  vma_tag :: "u8 list"

definition VirtualMemoryArea_new_with_tag :: "MemorySpace \<Rightarrow> PageRange \<Rightarrow> VmaType \<Rightarrow> u8 list \<Rightarrow> VirtualMemoryArea" where
  "VirtualMemoryArea_new_with_tag space page_range typ tag_bytes =
     (let len = (if length tag_bytes > TAG_SIZE then TAG_SIZE else length tag_bytes);
          tag = fold (\<lambda>i tag. tag[i := tag_bytes ! i]) [0..<len] (replicate TAG_SIZE 0x2D)
      in \<lparr>vma_space = space, vma_range = page_range, vma_typ = typ, vma_tag = tag\<rparr>)"

text \<open>The digits of \<open>num\<close> are written from the right, in front of index \<open>i\<close>.\<close>

fun id_digits :: "nat \<Rightarrow> u64 \<Rightarrow> u8 list \<Rightarrow> u8 list" where
  "id_digits 0 num tag = tag"
| "id_digits (Suc i) num tag = (if num > 0 then id_digits i (num div 10) (tag[i := 0x30 + ucast (num mod 10)]) else tag)"

definition VirtualMemoryArea_new_with_id :: "MemorySpace \<Rightarrow> PageRange \<Rightarrow> VmaType \<Rightarrow> u64 \<Rightarrow> VirtualMemoryArea" where
  "VirtualMemoryArea_new_with_id space page_range typ tid =
     \<lparr>vma_space = space, vma_range = page_range, vma_typ = typ, vma_tag = id_digits TAG_SIZE tid (replicate TAG_SIZE 0x2D)\<rparr>"

definition vma_start :: "VirtualMemoryArea \<Rightarrow> nat" where
  "vma_start self = pr_start (vma_range self) * 4096"

definition vma_end :: "VirtualMemoryArea \<Rightarrow> nat" where
  "vma_end self = pr_end (vma_range self) * 4096"

definition overlaps_with :: "VirtualMemoryArea \<Rightarrow> VirtualMemoryArea \<Rightarrow> bool" where
  "overlaps_with self other \<longleftrightarrow> pr_end (vma_range self) > pr_start (vma_range other) \<and> pr_start (vma_range self) < pr_end (vma_range other)"

definition check_and_enforce_consistency :: "VirtualMemoryArea \<Rightarrow> u64 \<Rightarrow> u64" where
  "check_and_enforce_consistency self flags =
     (case vma_space self of User \<Rightarrow> flags OR USER_ACCESSIBLE | Kernel \<Rightarrow> flags AND NOT USER_ACCESSIBLE)"

definition is_equivalent_to :: "VirtualMemoryArea \<Rightarrow> VirtualMemoryArea \<Rightarrow> bool" where
  "is_equivalent_to self other \<longleftrightarrow> vma_start self = vma_start other \<and> vma_end self = vma_end other \<and> vma_typ self = vma_typ other
     \<and> vma_space self = vma_space other \<and> vma_tag self = vma_tag other"

section \<open>Address spaces\<close>

definition USER_SPACE_START :: nat where
  "USER_SPACE_START = 0x10000000000"

text \<open>\<^verbatim>\<open>VirtAddr::new\<close> and the addition on addresses, which panic outside the canonical addresses.\<close>

definition virt_addr :: "nat \<Rightarrow> nat option" where
  "virt_addr a = (if page_ok (a div 4096) then Some a else None)"

definition virt_add :: "nat \<Rightarrow> nat \<Rightarrow> nat option" where
  "virt_add a n = virt_addr (a + n)"

definition pr_len :: "PageRange \<Rightarrow> nat" where
  "pr_len r = pr_end r - pr_start r"

definition fr_len :: "PhysFrameRange \<Rightarrow> nat" where
  "fr_len r = fr_end r - fr_start r"

text \<open>\<open>virtual_bits\<close> is what \<^verbatim>\<open>cpu().linear_address_bits()\<close> reports.\<close>

definition last_usable_virtual_address :: "u8 \<Rightarrow> u64 option" where
  "last_usable_virtual_address virtual_bits = do {
     n \<leftarrow> rust_sub virtual_bits 1;
     rust_assert (n < 64);
     rust_sub (push_bit (unat n) 1) 1
   }"

type_synonym areas = "(nat \<times> VirtualMemoryArea) list"

record VirtualAddressSpace =
  virtual_memory_areas :: areas
  page_tables :: Paging
  first_usable_user_addr :: nat
  last_usable_user_addr :: nat

definition VirtualAddressSpace_new :: "u8 \<Rightarrow> Paging \<Rightarrow> VirtualAddressSpace option" where
  "VirtualAddressSpace_new virtual_bits tables = do {
     first \<leftarrow> virt_addr USER_SPACE_START;
     last \<leftarrow> last_usable_virtual_address virtual_bits;
     last \<leftarrow> virt_addr (unat last);
     Some \<lparr>virtual_memory_areas = [], page_tables = tables, first_usable_user_addr = first, last_usable_user_addr = last\<rparr>
   }"

definition clone_address_space :: "'e entry_ops \<Rightarrow> VirtualAddressSpace \<Rightarrow> 'e pt_mem \<Rightarrow> (Paging \<times> 'e pt_mem) option" where
  "clone_address_space E other s = Paging_from_other E (page_tables other) s"

definition create_kernel_address_space :: "'e entry_ops \<Rightarrow> 'e pt_mem \<Rightarrow> (Paging \<times> 'e pt_mem) option" where
  "create_kernel_address_space E s = do {
     (tables, s1) \<leftarrow> Paging_new E 4 s;
     let max_phys_addr = PHYS_LIMIT (pt_frames s1) * 4096;
     a \<leftarrow> virt_addr max_phys_addr;
     s2 \<leftarrow> Paging_map E tables \<lparr>pr_start = 0, pr_end = a div 4096\<rparr> Kernel (PRESENT OR WRITABLE) s1;
     Some (tables, s2)
   }"

section \<open>The map of areas\<close>

fun insert_area :: "nat \<Rightarrow> VirtualMemoryArea \<Rightarrow> areas \<Rightarrow> areas" where
  "insert_area k v [] = [(k, v)]"
| "insert_area k v ((k', v') # xs) =
     (if k < k' then (k, v) # (k', v') # xs else if k = k' then (k, v) # xs else (k', v') # insert_area k v xs)"

text \<open>The last entry whose key is at most \<open>k\<close>.\<close>

definition area_up_to :: "nat \<Rightarrow> areas \<Rightarrow> VirtualMemoryArea option" where
  "area_up_to k xs = (let ys = filter (\<lambda>(a, v). a \<le> k) xs in if ys = [] then None else Some (snd (last ys)))"

definition areas_between :: "nat \<Rightarrow> nat \<Rightarrow> areas \<Rightarrow> areas option" where
  "areas_between lo hi xs = do { rust_assert (lo \<le> hi); Some (filter (\<lambda>(a, v). lo \<le> a \<and> a < hi) xs) }"

section \<open>Allocating areas\<close>

definition alloc_at ::
    "VirtualAddressSpace \<Rightarrow> nat \<Rightarrow> nat \<Rightarrow> MemorySpace \<Rightarrow> VmaType \<Rightarrow> u8 list \<Rightarrow> (VirtualMemoryArea option \<times> VirtualAddressSpace) option" where
  "alloc_at self first_page num_pages space typ tag = do {
     let new_vma_start_addr = first_page * 4096;
     end_page \<leftarrow> page_add first_page num_pages;
     let new_vma_end_addr = end_page * 4096;
     if space = User \<and> (new_vma_start_addr < first_usable_user_addr self \<or> new_vma_end_addr > last_usable_user_addr self)
        \<or> space \<noteq> User \<and> new_vma_end_addr > last_usable_user_addr self
     then Some (None, self)
     else do {
       let new_vma = VirtualMemoryArea_new_with_tag space \<lparr>pr_start = first_page, pr_end = end_page\<rparr> typ tag;
       let vmas = virtual_memory_areas self;
       if (case area_up_to new_vma_start_addr vmas of Some prev \<Rightarrow> vma_end prev > new_vma_start_addr | None \<Rightarrow> False)
       then Some (None, self)
       else Some (Some new_vma, self\<lparr>virtual_memory_areas := insert_area new_vma_start_addr new_vma vmas\<rparr>)
     }
   }"

text \<open>The search: \<open>(True, a)\<close> for a gap before one of the areas, \<open>(False, a)\<close> for the end of the last one looked at.\<close>

fun search_gap :: "nat \<Rightarrow> nat \<Rightarrow> nat \<Rightarrow> VirtualMemoryArea list \<Rightarrow> (bool \<times> nat) option" where
  "search_gap sz range_end current [] = Some (False, current)"
| "search_gap sz range_end current (vma # vmas) = do {
     stop \<leftarrow> virt_add current sz;
     if stop \<le> vma_start vma \<and> vma_start vma \<le> range_end then Some (True, current)
     else if vma_end vma > range_end then Some (False, vma_end vma)
     else search_gap sz range_end (vma_end vma) vmas
   }"

definition vmm_alloc ::
    "VirtualAddressSpace \<Rightarrow> nat \<Rightarrow> MemorySpace \<Rightarrow> VmaType \<Rightarrow> u8 list \<Rightarrow> (VirtualMemoryArea option \<times> VirtualAddressSpace) option" where
  "vmm_alloc self num_pages space typ tag = do {
     let (lo, hi) = (if space = User then (first_usable_user_addr self, last_usable_user_addr self) else (0, first_usable_user_addr self));
     rust_assert (num_pages * 4096 < 2 ^ 64);
     let sz = num_pages * 4096;
     found \<leftarrow> areas_between lo hi (virtual_memory_areas self);
     (gap, current) \<leftarrow> search_gap sz hi lo (map snd found);
     if gap then alloc_at self (current div 4096) num_pages space typ tag
     else do {
       stop \<leftarrow> virt_add current sz;
       if stop \<le> hi then alloc_at self (current div 4096) num_pages space typ tag
       else Some (None, self)
     }
   }"

definition alloc_vma ::
    "VirtualAddressSpace \<Rightarrow> nat option \<Rightarrow> nat \<Rightarrow> MemorySpace \<Rightarrow> VmaType \<Rightarrow> u8 list \<Rightarrow> (VirtualMemoryArea option \<times> VirtualAddressSpace) option" where
  "alloc_vma self start_page num_pages space typ tag =
     (case start_page of
        Some p \<Rightarrow> alloc_at self p num_pages space typ tag
      | None \<Rightarrow> vmm_alloc self num_pages space typ tag)"

section \<open>Mapping\<close>

definition alloc_pf_for_vma :: "VirtualMemoryArea \<Rightarrow> 'e pt_mem \<Rightarrow> (PhysFrameRange option \<times> 'e pt_mem) option" where
  "alloc_pf_for_vma vma s = do { (r, fs) \<leftarrow> frames_alloc (pr_len (vma_range vma)) (pt_frames s); Some (Some r, s\<lparr>pt_frames := fs\<rparr>) }"

definition alloc_pfr_for_partial_vma :: "VirtualMemoryArea \<Rightarrow> PageRange \<Rightarrow> 'e pt_mem \<Rightarrow> (PhysFrameRange option \<times> 'e pt_mem) option" where
  "alloc_pfr_for_partial_vma vma page_range s =
     (if pr_start page_range < pr_start (vma_range vma) \<or> pr_end page_range > pr_end (vma_range vma) then Some (None, s)
      else do { (r, fs) \<leftarrow> frames_alloc (pr_len page_range) (pt_frames s); Some (Some r, s\<lparr>pt_frames := fs\<rparr>) })"

definition map_pfr_for_partial_vma ::
    "'e entry_ops \<Rightarrow> VirtualAddressSpace \<Rightarrow> VirtualMemoryArea \<Rightarrow> PhysFrameRange \<Rightarrow> PageRange \<Rightarrow> u64 \<Rightarrow> 'e pt_mem \<Rightarrow> ((int + unit) \<times> 'e pt_mem) option" where
  "map_pfr_for_partial_vma E self vma frame_range page_range flags s = do {
     num_frames \<leftarrow> frame_sub (fr_end frame_range) (fr_start frame_range);
     num_pages \<leftarrow> page_sub (pr_end page_range) (pr_start page_range);
     if num_frames \<noteq> num_pages then Some (Inl (-1), s)
     else do {
       let flags = check_and_enforce_consistency vma flags OR PRESENT;
       if pr_start page_range < pr_start (vma_range vma) \<or> pr_end page_range > pr_end (vma_range vma) then Some (Inl (-1), s)
       else do {
         s1 \<leftarrow> Paging_map_physical E (page_tables self) frame_range page_range (vma_space vma) flags s;
         Some (Inr (), s1)
       }
     }
   }"

definition map_pfr_for_vma ::
    "'e entry_ops \<Rightarrow> VirtualAddressSpace \<Rightarrow> VirtualMemoryArea \<Rightarrow> PhysFrameRange \<Rightarrow> u64 \<Rightarrow> 'e pt_mem \<Rightarrow> ((int + unit) \<times> 'e pt_mem) option" where
  "map_pfr_for_vma E self vma frame_range flags s = map_pfr_for_partial_vma E self vma frame_range (vma_range vma) flags s"

definition map_partial_vma ::
    "'e entry_ops \<Rightarrow> VirtualAddressSpace \<Rightarrow> VirtualMemoryArea \<Rightarrow> PageRange \<Rightarrow> MemorySpace \<Rightarrow> u64 \<Rightarrow> 'e pt_mem \<Rightarrow> 'e pt_mem option" where
  "map_partial_vma E self vma page_range space flags s = do {
     found_vma \<leftarrow> map_of (virtual_memory_areas self) (vma_start vma);
     rust_assert (is_equivalent_to vma found_vma);
     rust_assert (pr_start page_range * 4096 \<ge> vma_start vma);
     rust_assert (pr_end page_range * 4096 \<le> vma_end vma);
     Paging_map E (page_tables self) page_range space flags s
   }"

definition vmm_set_flags :: "'e entry_ops \<Rightarrow> VirtualAddressSpace \<Rightarrow> PageRange \<Rightarrow> u64 \<Rightarrow> 'e pt_mem \<Rightarrow> 'e pt_mem option" where
  "vmm_set_flags E self page_range flags s = Paging_set_flags E (page_tables self) page_range flags s"

definition vmm_align_up :: "u64 \<Rightarrow> u64 option" where
  "vmm_align_up addr = do { a \<leftarrow> rust_add addr 0x1000; a \<leftarrow> rust_sub a 1; Some (a AND NOT (0x1000 - 1)) }"

text \<open>\<^verbatim>\<open>expect\<close> on a result: the error case panics.\<close>

definition result_ok :: "('e + 'a) \<Rightarrow> 'a option" where
  "result_ok r = (case r of Inl e \<Rightarrow> None | Inr a \<Rightarrow> Some a)"

definition kernel_map_devm_identity ::
    "'e entry_ops \<Rightarrow> VirtualAddressSpace \<Rightarrow> u64 \<Rightarrow> u64 \<Rightarrow> u64 \<Rightarrow> VmaType \<Rightarrow> u8 list \<Rightarrow> 'e pt_mem \<Rightarrow> (nat \<times> VirtualAddressSpace \<times> 'e pt_mem) option" where
  "kernel_map_devm_identity E self start_phys_addr end_phys_addr flags typ tag s = do {
     rust_assert (end_phys_addr > start_phys_addr);
     start_page_frame \<leftarrow> frame_from_u64 start_phys_addr;
     aligned \<leftarrow> vmm_align_up end_phys_addr;
     end_page_frame \<leftarrow> frame_from_u64 aligned;
     start_page_addr \<leftarrow> page_from_u64 start_phys_addr \<bind> result_ok;
     end_page_addr \<leftarrow> page_from_u64 aligned \<bind> result_ok;
     let pr = \<lparr>pr_start = start_page_addr, pr_end = end_page_addr\<rparr>;
     (vma, self1) \<leftarrow> alloc_vma self (Some start_page_addr) (pr_len pr) Kernel typ tag;
     vma \<leftarrow> vma;
     (r, s1) \<leftarrow> map_pfr_for_vma E self1 vma \<lparr>fr_start = start_page_frame, fr_end = end_page_frame\<rparr> flags s;
     result_ok r;
     Some (pr_start pr, self1, s1)
   }"

definition kernel_alloc_map_identity ::
    "'e entry_ops \<Rightarrow> VirtualAddressSpace \<Rightarrow> nat \<Rightarrow> u64 \<Rightarrow> VmaType \<Rightarrow> u8 list \<Rightarrow> 'e pt_mem \<Rightarrow> (PageRange \<times> VirtualAddressSpace \<times> 'e pt_mem) option" where
  "kernel_alloc_map_identity E self num_pf flags typ tag s = do {
     (pfr, fs) \<leftarrow> frames_alloc num_pf (pt_frames s);
     start_page \<leftarrow> page_from_u64 (of_nat (fr_start pfr * 4096)) \<bind> result_ok;
     (vma, self1) \<leftarrow> alloc_vma self (Some start_page) (fr_len pfr) Kernel typ tag;
     vma \<leftarrow> vma;
     (r, s1) \<leftarrow> map_pfr_for_vma E self1 vma pfr flags (s\<lparr>pt_frames := fs\<rparr>);
     result_ok r;
     end_page \<leftarrow> page_add start_page num_pf;
     Some (\<lparr>pr_start = start_page, pr_end = end_page\<rparr>, self1, s1)
   }"

definition user_alloc_map_full ::
    "'e entry_ops \<Rightarrow> VirtualAddressSpace \<Rightarrow> nat option \<Rightarrow> nat \<Rightarrow> VmaType \<Rightarrow> u8 list \<Rightarrow> 'e pt_mem \<Rightarrow> (VirtualMemoryArea option \<times> VirtualAddressSpace \<times> 'e pt_mem) option" where
  "user_alloc_map_full E self start_page num_pages typ tag s = do {
     (vma, self1) \<leftarrow> alloc_vma self start_page num_pages User typ tag;
     case vma of
       None \<Rightarrow> Some (None, self1, s)
     | Some vma \<Rightarrow> do {
         s1 \<leftarrow> Paging_map E (page_tables self1) (vma_range vma) User (PRESENT OR WRITABLE OR USER_ACCESSIBLE) s;
         Some (Some vma, self1, s1)
       }
   }"

definition user_alloc_map_partial ::
    "'e entry_ops \<Rightarrow> VirtualAddressSpace \<Rightarrow> nat option \<Rightarrow> nat \<Rightarrow> VmaType \<Rightarrow> u8 list \<Rightarrow> nat \<Rightarrow> bool \<Rightarrow> 'e pt_mem
      \<Rightarrow> (VirtualMemoryArea option \<times> VirtualAddressSpace \<times> 'e pt_mem) option" where
  "user_alloc_map_partial E self start_page num_pages typ tag alloc_num_pages alloc_downwards s = do {
     (vma, self1) \<leftarrow> alloc_vma self start_page num_pages User typ tag;
     case vma of
       None \<Rightarrow> Some (None, self1, s)
     | Some vma \<Rightarrow> do {
         alloc_page_range \<leftarrow> (if alloc_downwards
           then do {
             start_page \<leftarrow> page_sub (pr_end (vma_range vma)) alloc_num_pages;
             rust_assert (page_ok start_page);
             Some \<lparr>pr_start = start_page, pr_end = pr_end (vma_range vma)\<rparr>
           }
           else do {
             end_page \<leftarrow> page_add (pr_start (vma_range vma)) alloc_num_pages;
             Some \<lparr>pr_start = pr_start (vma_range vma), pr_end = end_page\<rparr>
           });
         s1 \<leftarrow> Paging_map E (page_tables self1) alloc_page_range User (PRESENT OR WRITABLE OR USER_ACCESSIBLE) s;
         Some (Some vma, self1, s1)
       }
   }"

definition get_phys :: "'e entry_ops \<Rightarrow> VirtualAddressSpace \<Rightarrow> u64 \<Rightarrow> 'e pt_mem \<Rightarrow> u64 option option" where
  "get_phys E self virt_addr_arg s = do {
     a \<leftarrow> virt_addr (unat virt_addr_arg);
     Paging_translate E (page_tables self) (of_nat a) s
   }"

section \<open>Copying into an address space\<close>

text \<open>
  Physical memory is a function from addresses to bytes; \<open>src\<close> is what the caller reads from \<open>src_ptr\<close> on. The kernel
  writes to the physical addresses of the destination, which are mapped one to one.
\<close>

type_synonym phys_mem = "u64 \<Rightarrow> u8"

definition write_phys :: "u64 \<Rightarrow> u8 list \<Rightarrow> phys_mem \<Rightarrow> phys_mem" where
  "write_phys a bs mem = (\<lambda>x. if unat (x - a) < length bs then bs ! unat (x - a) else mem x)"

text \<open>The loop: \<open>n\<close> pages are left, \<open>dest\<close> and \<open>bytes_to_copy\<close> are those of the page before.\<close>

fun copy_pages ::
    "'e entry_ops \<Rightarrow> VirtualAddressSpace \<Rightarrow> 'e pt_mem \<Rightarrow> (nat \<Rightarrow> u8) \<Rightarrow> nat \<Rightarrow> nat \<Rightarrow> nat \<Rightarrow> u64 \<Rightarrow> nat \<Rightarrow> nat \<Rightarrow> phys_mem
      \<Rightarrow> (u64 \<times> nat \<times> nat \<times> phys_mem) option" where
  "copy_pages E dest_space s src dest_page total_bytes 0 dest offset bytes_to_copy mem = Some (dest, offset, bytes_to_copy, mem)"
| "copy_pages E dest_space s src dest_page total_bytes (Suc n) dest offset bytes_to_copy mem = do {
     phys \<leftarrow> get_phys E dest_space (of_nat (dest_page * 4096 + offset)) s;
     dest \<leftarrow> phys;
     left_bytes \<leftarrow> (if offset \<le> total_bytes then Some (total_bytes - offset) else None);
     let bytes_to_copy = (if left_bytes < 4096 then left_bytes else 4096);
     copy_pages E dest_space s src dest_page total_bytes n dest (offset + bytes_to_copy) bytes_to_copy
       (write_phys dest (map src [offset..<offset + bytes_to_copy]) mem)
   }"

definition copy_to_addr_space ::
    "'e entry_ops \<Rightarrow> (nat \<Rightarrow> u8) \<Rightarrow> VirtualAddressSpace \<Rightarrow> nat \<Rightarrow> nat \<Rightarrow> bool \<Rightarrow> 'e pt_mem \<Rightarrow> phys_mem \<Rightarrow> phys_mem option" where
  "copy_to_addr_space E src dest_space dest_page_start total_bytes_to_copy fill_up_with_zeroes s mem = do {
     let pages_to_copy = (if total_bytes_to_copy mod 4096 = 0 then total_bytes_to_copy div 4096 else total_bytes_to_copy div 4096 + 1);
     phys \<leftarrow> get_phys E dest_space (of_nat (dest_page_start * 4096)) s;
     dest \<leftarrow> phys;
     (dest, offset, bytes_to_copy, mem) \<leftarrow> copy_pages E dest_space s src dest_page_start total_bytes_to_copy pages_to_copy dest 0 0 mem;
     let rest_bytes_to_copy = 4096 - bytes_to_copy;
     Some (if fill_up_with_zeroes \<and> rest_bytes_to_copy > 0
           then write_phys (dest + of_nat offset) (replicate rest_bytes_to_copy 0) mem else mem)
   }"

section \<open>Page faults and the end of an address space\<close>

definition is_address_within_vma :: "VirtualAddressSpace \<Rightarrow> u64 \<Rightarrow> VmaType \<Rightarrow> VirtualMemoryArea option option" where
  "is_address_within_vma self address typ = do {
     vaddr \<leftarrow> virt_addr (unat address);
     Some (case area_up_to vaddr (virtual_memory_areas self) of
             None \<Rightarrow> None
           | Some vma \<Rightarrow> if vaddr < vma_end vma \<and> vma_typ vma = typ then Some vma else None)
   }"

definition map_fault_page :: "'e entry_ops \<Rightarrow> VirtualAddressSpace \<Rightarrow> VirtualMemoryArea \<Rightarrow> nat \<Rightarrow> 'e pt_mem \<Rightarrow> 'e pt_mem option" where
  "map_fault_page E self vma fault_page s = do {
     end_page \<leftarrow> page_add fault_page 1;
     map_partial_vma E self vma \<lparr>pr_start = fault_page, pr_end = end_page\<rparr> User (PRESENT OR WRITABLE OR USER_ACCESSIBLE) s
   }"

definition handle_page_fault :: "'e entry_ops \<Rightarrow> bool \<Rightarrow> VirtualAddressSpace \<Rightarrow> u64 \<Rightarrow> 'e pt_mem \<Rightarrow> 'e pt_mem option" where
  "handle_page_fault E is_kernel_thread self fault_addr s = do {
     rust_assert (\<not> is_kernel_thread);
     let fault_page = unat fault_addr div 4096;
     stack \<leftarrow> is_address_within_vma self fault_addr UserStack;
     case stack of
       Some vma \<Rightarrow> map_fault_page E self vma fault_page s
     | None \<Rightarrow> do {
         heap \<leftarrow> is_address_within_vma self fault_addr Heap;
         vma \<leftarrow> heap;
         map_fault_page E self vma fault_page s
       }
   }"

fun unmap_areas :: "'e entry_ops \<Rightarrow> Paging \<Rightarrow> areas \<Rightarrow> 'e pt_mem \<Rightarrow> 'e pt_mem option" where
  "unmap_areas E tables [] s = Some s"
| "unmap_areas E tables ((k, vma) # xs) s = do { s1 \<leftarrow> Paging_unmap E tables (vma_range vma) True s; unmap_areas E tables xs s1 }"

definition VirtualAddressSpace_drop :: "'e entry_ops \<Rightarrow> VirtualAddressSpace \<Rightarrow> 'e pt_mem \<Rightarrow> 'e pt_mem option" where
  "VirtualAddressSpace_drop E self s = unmap_areas E (page_tables self) (virtual_memory_areas self) s"

definition pfr_from_pr_identity :: "PageRange \<Rightarrow> PhysFrameRange option" where
  "pfr_from_pr_identity pr = do {
     rust_assert (pr_start pr < 2 ^ 40);
     rust_assert (pr_end pr < 2 ^ 40);
     Some \<lparr>fr_start = pr_start pr, fr_end = pr_end pr\<rparr>
   }"

text \<open>\<^verbatim>\<open>sys_map_memory\<close> of \<^verbatim>\<open>kernel/src/syscall/sys_vmem.rs\<close>, in the current process.\<close>

definition sys_map_memory :: "u64 \<Rightarrow> u64 \<Rightarrow> VirtualAddressSpace \<Rightarrow> (int \<times> VirtualAddressSpace) option" where
  "sys_map_memory start sz self = do {
     start_addr \<leftarrow> virt_addr (unat start);
     (vma, self1) \<leftarrow> alloc_vma self (Some (start_addr div 4096)) (unat (div_ceil sz 0x1000)) User Heap (map (of_nat \<circ> of_char) ''heap'');
     Some (if vma = None then -1 else 0, self1)
   }"

end
