(* ===== verification/Address_Space_Properties.thy ===== *)
theory Address_Space_Properties
  imports Address_Space
begin

text \<open>
  The areas of an address space never overlap when their place is searched for, the search takes the first gap, and
  allocating an area with its frames makes exactly its addresses usable. The places where the code lets areas overlap,
  panics instead of failing, or clears the wrong bytes are stated too.
\<close>

section \<open>The areas of an address space\<close>

text \<open>In ascending order, one ending before the next begins.\<close>

abbreviation areas_sorted :: "areas \<Rightarrow> bool" where
  "areas_sorted \<equiv> sorted_wrt (\<lambda>(a, v) (b, w). a < b \<and> vma_end v \<le> b)"

definition areas_wf :: "areas \<Rightarrow> bool" where
  "areas_wf xs \<longleftrightarrow> areas_sorted xs \<and> (\<forall>(a, v) \<in> set xs. a = vma_start v \<and> vma_start v \<le> vma_end v)"

definition space_inv :: "VirtualAddressSpace \<Rightarrow> bool" where
  "space_inv self \<longleftrightarrow> areas_wf (virtual_memory_areas self)
     \<and> (\<forall>(a, v) \<in> set (virtual_memory_areas self). vma_end v \<le> last_usable_user_addr self \<and> length (vma_tag v) = TAG_SIZE)
     \<and> first_usable_user_addr self = USER_SPACE_START \<and> USER_SPACE_START \<le> last_usable_user_addr self \<and> last_usable_user_addr self < 2 ^ 47"

lemma areas_wf_Cons: "areas_wf ((a, v) # xs) \<longleftrightarrow>
    areas_wf xs \<and> a = vma_start v \<and> vma_start v \<le> vma_end v \<and> (\<forall>(b, w) \<in> set xs. a < b \<and> vma_end v \<le> b)"
  by (auto simp: areas_wf_def)

lemma areas_wf_filter: "areas_wf xs \<Longrightarrow> areas_wf (filter P xs)"
  by (auto simp: areas_wf_def sorted_wrt_filter)

lemma areas_wf_Nil [simp]: "areas_wf []"
  by (simp add: areas_wf_def)

text \<open>The test of \<^verbatim>\<open>alloc_at\<close> finds an area that contains the address.\<close>

lemma area_up_to_contains:
  assumes "areas_wf xs"
  shows "(case area_up_to k xs of Some prev \<Rightarrow> vma_end prev > k | None \<Rightarrow> False) \<longleftrightarrow> (\<exists>(a, v) \<in> set xs. a \<le> k \<and> k < vma_end v)"
  using assms
proof (induction xs)
  case (Cons x xs)
  obtain a v where x: "x = (a, v)" by fastforce
  note wf = Cons.prems [unfolded x areas_wf_Cons]
  show ?case
  proof (cases "\<exists>y \<in> set xs. fst y \<le> k")
    case True
    then have "filter (\<lambda>(a, v). a \<le> k) xs \<noteq> []" by (auto simp: filter_empty_conv)
    then have "area_up_to k (x # xs) = area_up_to k xs" by (auto simp: area_up_to_def Let_def)
    moreover have "vma_end v \<le> k" using True wf by force
    ultimately show ?thesis using Cons.IH wf by (auto simp: x)
  next
    case False
    then have "filter (\<lambda>(a, v). a \<le> k) xs = []" by (auto simp: filter_empty_conv)
    then show ?thesis using False by (auto simp: area_up_to_def x)
  qed
qed (simp add: area_up_to_def)

lemma area_up_to_SomeD: "area_up_to k xs = Some v \<Longrightarrow> \<exists>a \<le> k. (a, v) \<in> set xs"
  using last_in_set [of "filter (\<lambda>(a, v). a \<le> k) xs"] by (fastforce simp: area_up_to_def Let_def split: if_splits)

lemma insert_area_wf:
  assumes "areas_wf xs" "k = vma_start v" "vma_start v \<le> vma_end v"
    and "\<forall>(a, w) \<in> set xs. (a \<le> k \<longrightarrow> vma_end w \<le> k) \<and> (k < a \<longrightarrow> vma_end v \<le> a)"
  shows "areas_wf (insert_area k v xs)" "set (insert_area k v xs) = insert (k, v) {x \<in> set xs. fst x \<noteq> k}"
proof -
  have "areas_wf (insert_area k v xs) \<and> set (insert_area k v xs) = insert (k, v) {x \<in> set xs. fst x \<noteq> k}"
    using assms
  proof (induction k v xs rule: insert_area.induct)
    case (1 k v)
    then show ?case by (simp add: areas_wf_Cons)
  next
    case (2 k v k' v' xs)
    note wf = 2(2) [unfolded areas_wf_Cons]
    consider "k < k'" | "k = k'" | "k' < k" by linarith
    then show ?case
    proof cases
      case 1
      with 2(2-5) wf show ?thesis by (auto simp: areas_wf_Cons)
    next
      case 2
      with "2.prems" wf show ?thesis by (auto simp: areas_wf_Cons)
    next
      case 3
      then have "areas_wf (insert_area k v xs) \<and> set (insert_area k v xs) = insert (k, v) {x \<in> set xs. fst x \<noteq> k}"
        using 2(1) "2.prems" wf by simp
      with 3 "2.prems" wf show ?thesis by (auto simp: areas_wf_Cons)
    qed
  qed
  then show "areas_wf (insert_area k v xs)" "set (insert_area k v xs) = insert (k, v) {x \<in> set xs. fst x \<noteq> k}" by auto
qed

section \<open>Tags\<close>

lemma tag_fold: "n \<le> length bytes \<Longrightarrow> n \<le> length tag \<Longrightarrow>
    fold (\<lambda>i tag. tag[i := bytes ! i]) [0..<n] tag = take n bytes @ drop n tag"
proof (induction n)
  case (Suc n)
  then have "fold (\<lambda>i tag. tag[i := bytes ! i]) [0..<Suc n] tag = (take n bytes @ drop n tag)[n := bytes ! n]" by simp
  also have "\<dots> = take (Suc n) bytes @ drop (Suc n) tag"
    using Suc.prems by (simp add: list_update_append take_Suc_conv_app_nth Cons_nth_drop_Suc [symmetric])
  finally show ?case .
qed simp

lemma new_with_tag: "VirtualMemoryArea_new_with_tag space r typ bytes =
    \<lparr>vma_space = space, vma_range = r, vma_typ = typ, vma_tag = take 16 bytes @ replicate (16 - length bytes) 0x2D\<rparr>"
  using tag_fold [of "min 16 (length bytes)" bytes "replicate 16 0x2D"]
  by (auto simp: VirtualMemoryArea_new_with_tag_def TAG_SIZE_def Let_def min_def)

lemma new_with_tag_simps [simp]:
  "vma_range (VirtualMemoryArea_new_with_tag space r typ bytes) = r" "vma_space (VirtualMemoryArea_new_with_tag space r typ bytes) = space"
  "vma_typ (VirtualMemoryArea_new_with_tag space r typ bytes) = typ" "length (vma_tag (VirtualMemoryArea_new_with_tag space r typ bytes)) = TAG_SIZE"
  by (simp_all add: new_with_tag TAG_SIZE_def)

section \<open>The search for a gap\<close>

text \<open>The addresses from \<open>q\<close> on, \<open>sz\<close> of them, lie in no area.\<close>

definition gap_at :: "nat \<Rightarrow> nat \<Rightarrow> VirtualMemoryArea list \<Rightarrow> bool" where
  "gap_at q sz vs \<longleftrightarrow> (\<forall>v \<in> set vs. q + sz \<le> vma_start v \<or> vma_end v \<le> q)"

abbreviation vmas_sorted :: "VirtualMemoryArea list \<Rightarrow> bool" where
  "vmas_sorted \<equiv> sorted_wrt (\<lambda>v w. vma_end v \<le> vma_start w)"

lemma virt_add_low [simp]: "a + n < 2 ^ 47 \<Longrightarrow> virt_add a n = Some (a + n)"
proof -
  assume "a + n < 2 ^ 47"
  then have "a + n < 2 ^ 35 * 4096" by simp
  then have "(a + n) div 4096 < 2 ^ 35" by (rule less_mult_imp_div_less)
  then show ?thesis by (simp add: virt_add_def virt_addr_def page_ok_def)
qed

lemma search_gap_finds:
  assumes "gap_at q sz vs" "current \<le> q" "q + sz \<le> hi" "hi < 2 ^ 47" "vmas_sorted vs" "0 < sz"
    "\<forall>v \<in> set vs. current \<le> vma_start v \<and> vma_start v \<le> vma_end v \<and> vma_start v < hi"
  shows "\<exists>b c. search_gap sz hi current vs = Some (b, c) \<and> current \<le> c \<and> c \<le> q \<and> gap_at c sz vs
    \<and> (c = current \<or> (\<exists>v \<in> set vs. c = vma_end v))"
  using assms
proof (induction sz hi current vs rule: search_gap.induct)
  case (2 sz hi current v vs)
  have add: "virt_add current sz = Some (current + sz)" using 2(3-5) by (intro virt_add_low) linarith
  show ?case
  proof (cases "current + sz \<le> vma_start v")
    case True
    then have "gap_at current sz (v # vs)" using 2(6) "2.prems"(7) by (auto simp: gap_at_def)
    with True "2.prems"(2,7) add show ?thesis by auto
  next
    case False
    then have q: "vma_end v \<le> q" using "2.prems"(1,2) by (auto simp: gap_at_def)
    then have "\<not> hi < vma_end v" using "2.prems"(3) by linarith
    with False "2.prems" q add "2.IH" [of "current + sz"] obtain b c where c:
      "search_gap sz hi (vma_end v) vs = Some (b, c)" "vma_end v \<le> c" "c \<le> q" "gap_at c sz vs" "c = vma_end v \<or> (\<exists>w \<in> set vs. c = vma_end w)"
      by (auto simp: gap_at_def)
    moreover have "gap_at c sz (v # vs)" using c(2,4) by (simp add: gap_at_def)
    moreover have "current \<le> c" using c(2) "2.prems"(7) by force
    ultimately show ?thesis using False \<open>\<not> hi < vma_end v\<close> add by auto
  qed
qed (auto simp: gap_at_def)

text \<open>What is found is a gap, and when nothing is found there is none before \<open>c\<close>.\<close>

lemma search_gap_sound:
  assumes "search_gap sz hi current vs = Some (b, c)" "vmas_sorted vs"
    "\<forall>v \<in> set vs. current \<le> vma_start v \<and> vma_start v \<le> vma_end v \<and> vma_start v < hi"
  shows "current \<le> c" "b \<Longrightarrow> gap_at c sz vs" "\<not> b \<Longrightarrow> c \<le> hi \<Longrightarrow> gap_at c sz vs" "b \<Longrightarrow> c + sz \<le> hi"
    "\<not> b \<Longrightarrow> gap_at q sz vs \<Longrightarrow> current \<le> q \<Longrightarrow> q + sz \<le> hi \<Longrightarrow> c \<le> q" "c = current \<or> (\<exists>v \<in> set vs. c = vma_end v)"
proof -
  have "current \<le> c \<and> (b \<longrightarrow> gap_at c sz vs \<and> c + sz \<le> hi) \<and> (\<not> b \<and> c \<le> hi \<longrightarrow> gap_at c sz vs)
    \<and> (\<not> b \<and> gap_at q sz vs \<and> current \<le> q \<and> q + sz \<le> hi \<longrightarrow> c \<le> q) \<and> (c = current \<or> (\<exists>v \<in> set vs. c = vma_end v))" for q
    using assms
  proof (induction sz hi current vs rule: search_gap.induct)
    case (2 sz hi current v vs)
    then obtain stop where add: "virt_add current sz = Some stop" "stop = current + sz"
      by (auto simp: virt_add_def virt_addr_def split: if_splits bind_splits)
    show ?case
    proof (cases "current + sz \<le> vma_start v")
      case True
      then have "b \<and> c = current" using 2(2,4) add by auto
      moreover have "gap_at current sz (v # vs)" using True 2(3,4) by (auto simp: gap_at_def)
      ultimately show ?thesis using True 2(4) by auto
    next
      case F: False
      then have g: "vma_end v \<le> q" if "gap_at q sz (v # vs)" "current \<le> q" using that by (auto simp: gap_at_def)
      show ?thesis
      proof (cases "hi < vma_end v")
        case True
        then have "\<not> b \<and> c = vma_end v" using F 2(2) add by auto
        with True g 2(4) show ?thesis by auto
      next
        case False
        then have r: "search_gap sz hi (vma_end v) vs = Some (b, c)" using F 2(2) add by auto
        have IH: "vma_end v \<le> c \<and> (b \<longrightarrow> gap_at c sz vs \<and> c + sz \<le> hi) \<and> (\<not> b \<and> c \<le> hi \<longrightarrow> gap_at c sz vs)
          \<and> (\<not> b \<and> gap_at q sz vs \<and> vma_end v \<le> q \<and> q + sz \<le> hi \<longrightarrow> c \<le> q) \<and> (c = vma_end v \<or> (\<exists>v \<in> set vs. c = vma_end v))"
          using "2.IH" [OF add(1) _ False r] F 2(3,4) add(2) by auto
        have "gap_at c sz (v # vs) \<longleftrightarrow> gap_at c sz vs" using IH by (auto simp: gap_at_def)
        moreover have "gap_at q sz (v # vs) \<longrightarrow> gap_at q sz vs" by (simp add: gap_at_def)
        ultimately show ?thesis using IH g 2(4) by auto
      qed
    qed
  qed (auto simp: gap_at_def)
  then show "current \<le> c" "b \<Longrightarrow> gap_at c sz vs" "\<not> b \<Longrightarrow> c \<le> hi \<Longrightarrow> gap_at c sz vs" "b \<Longrightarrow> c + sz \<le> hi"
    "\<not> b \<Longrightarrow> gap_at q sz vs \<Longrightarrow> current \<le> q \<Longrightarrow> q + sz \<le> hi \<Longrightarrow> c \<le> q" "c = current \<or> (\<exists>v \<in> set vs. c = vma_end v)"
    by blast+
qed

section \<open>Allocating an area\<close>

abbreviation vmas :: "VirtualAddressSpace \<Rightarrow> VirtualMemoryArea list" where
  "vmas self \<equiv> map snd (virtual_memory_areas self)"

lemma areas_wf_vmas: "areas_wf xs \<Longrightarrow> vmas_sorted (map snd xs)"
  by (induction xs) (force simp: areas_wf_Cons areas_wf_def)+

lemma space_invD:
  assumes "space_inv self"
  shows "areas_wf (virtual_memory_areas self)" "first_usable_user_addr self = USER_SPACE_START" "USER_SPACE_START \<le> last_usable_user_addr self"
    "last_usable_user_addr self < 2 ^ 47" "(a, v) \<in> set (virtual_memory_areas self) \<Longrightarrow> a = vma_start v \<and> vma_start v \<le> vma_end v \<and> vma_end v \<le> last_usable_user_addr self"
  using assms by (auto simp: space_inv_def areas_wf_def)

lemma page_of_low: "p * 4096 < 2 ^ 47 \<Longrightarrow> page_ok p"
  by (simp add: page_ok_def)

lemma alloc_at_gap:
  assumes inv: "space_inv self" and n: "0 < n" and gap: "gap_at (p * 4096) (n * 4096) (vmas self)"
    and bounds: "(p + n) * 4096 \<le> last_usable_user_addr self" "space = User \<Longrightarrow> USER_SPACE_START \<le> p * 4096"
  shows "\<exists>vma self'. alloc_at self p n space typ tag = Some (Some vma, self') \<and> space_inv self'
    \<and> vma = VirtualMemoryArea_new_with_tag space \<lparr>pr_start = p, pr_end = p + n\<rparr> typ tag
    \<and> page_tables self' = page_tables self \<and> set (virtual_memory_areas self') = insert (vma_start vma, vma) {x \<in> set (virtual_memory_areas self). fst x \<noteq> vma_start vma}"
proof -
  let ?v = "VirtualMemoryArea_new_with_tag space \<lparr>pr_start = p, pr_end = p + n\<rparr> typ tag" and ?k = "p * 4096" and ?xs = "virtual_memory_areas self"
  note I = space_invD [OF inv]
  have v: "vma_start ?v = ?k" "vma_end ?v = (p + n) * 4096" by (simp_all add: vma_start_def vma_end_def)
  have g: "(a \<le> ?k \<longrightarrow> vma_end w \<le> ?k) \<and> (?k < a \<longrightarrow> vma_end ?v \<le> a)" if "(a, w) \<in> set ?xs" for a w
    using gap that I(5) [OF that] n by (force simp: gap_at_def v)
  note ins = insert_area_wf [OF I(1), of ?k ?v]
  have ok: "areas_wf (insert_area ?k ?v ?xs)" "set (insert_area ?k ?v ?xs) = insert (?k, ?v) {x \<in> set ?xs. fst x \<noteq> ?k}"
    using ins v g by auto
  have "page_add p n = Some (p + n)" using page_of_low [of "p + n"] bounds(1) I(4) by (simp add: page_add_def)
  moreover have "\<not> (\<exists>(a, w) \<in> set ?xs. a \<le> ?k \<and> ?k < vma_end w)" using g by fastforce
  ultimately have "alloc_at self p n space typ tag = Some (Some ?v, self\<lparr>virtual_memory_areas := insert_area ?k ?v ?xs\<rparr>)"
    using bounds area_up_to_contains [OF I(1), of ?k] I(2) by (auto simp: alloc_at_def Let_def)
  moreover have "space_inv (self\<lparr>virtual_memory_areas := insert_area ?k ?v ?xs\<rparr>)"
    using inv ok bounds(1) v by (auto simp: space_inv_def)
  ultimately show ?thesis using ok(2) v(1) by auto
qed

definition search_from :: "MemorySpace \<Rightarrow> VirtualAddressSpace \<Rightarrow> nat" where
  "search_from space self = (if space = User then first_usable_user_addr self else 0)"

definition search_until :: "MemorySpace \<Rightarrow> VirtualAddressSpace \<Rightarrow> nat" where
  "search_until space self = (if space = User then last_usable_user_addr self else first_usable_user_addr self)"

text \<open>No area reaches from below the searched range into it.\<close>

definition no_straddle :: "MemorySpace \<Rightarrow> VirtualAddressSpace \<Rightarrow> bool" where
  "no_straddle space self \<longleftrightarrow> (\<forall>v \<in> set (vmas self). vma_start v < search_from space self \<longrightarrow> vma_end v \<le> search_from space self)"

text \<open>The areas that the search looks at.\<close>

definition searched :: "MemorySpace \<Rightarrow> VirtualAddressSpace \<Rightarrow> VirtualMemoryArea list" where
  "searched space self = map snd (filter (\<lambda>(a, v). search_from space self \<le> a \<and> a < search_until space self) (virtual_memory_areas self))"

lemma searched_facts:
  assumes "space_inv self"
  shows "vmas_sorted (searched space self)"
    "v \<in> set (searched space self) \<Longrightarrow> search_from space self \<le> vma_start v \<and> vma_start v \<le> vma_end v \<and> vma_start v < search_until space self \<and> v \<in> set (vmas self)"
proof -
  show "vmas_sorted (searched space self)"
    unfolding searched_def by (rule areas_wf_vmas [OF areas_wf_filter [OF space_invD(1) [OF assms]]])
  assume "v \<in> set (searched space self)"
  then obtain a where "(a, v) \<in> set (virtual_memory_areas self)" "search_from space self \<le> a" "a < search_until space self"
    by (auto simp: searched_def)
  with space_invD(5) [OF assms this(1)]
  show "search_from space self \<le> vma_start v \<and> vma_start v \<le> vma_end v \<and> vma_start v < search_until space self \<and> v \<in> set (vmas self)" by force
qed

lemma searched_gap:
  assumes "space_inv self" "no_straddle space self" "search_from space self \<le> q" "q + sz \<le> search_until space self"
  shows "gap_at q sz (searched space self) \<longleftrightarrow> gap_at q sz (vmas self)"
  using assms(2-) space_invD(5) [OF assms(1)] unfolding gap_at_def no_straddle_def searched_def
  by (fastforce simp: not_le)

lemma search_bounds: "space_inv self \<Longrightarrow> search_from space self \<le> search_until space self \<and> search_until space self \<le> last_usable_user_addr self
    \<and> search_until space self < 2 ^ 47 \<and> 4096 dvd search_from space self"
  using space_invD(2-4) [of self] by (auto simp: search_from_def search_until_def USER_SPACE_START_def)

lemma vmm_alloc_search:
  assumes "space_inv self" "n * 4096 < 2 ^ 64"
  shows "vmm_alloc self n space typ tag = do {
     (gap, current) \<leftarrow> search_gap (n * 4096) (search_until space self) (search_from space self) (searched space self);
     if gap then alloc_at self (current div 4096) n space typ tag
     else do {
       stop \<leftarrow> virt_add current (n * 4096);
       if stop \<le> search_until space self then alloc_at self (current div 4096) n space typ tag else Some (None, self)
     }
   }"
proof -
  obtain lo hi where r: "search_from space self = lo" "search_until space self = hi" "lo \<le> hi" using search_bounds [OF assms(1), of space] by blast
  then have "(if space = User then (first_usable_user_addr self, last_usable_user_addr self) else (0, first_usable_user_addr self)) = (lo, hi)"
    by (auto simp: search_from_def search_until_def)
  with r assms(2) show ?thesis unfolding searched_def r by (simp add: vmm_alloc_def areas_between_def panic_simps Let_def)
qed

lemma vmm_alloc_gap:
  assumes inv: "space_inv self" and n: "0 < n" and st: "no_straddle space self"
    and q: "search_from space self \<le> q" "q + n * 4096 \<le> search_until space self" "gap_at q (n * 4096) (vmas self)"
  obtains p vma self' where "alloc_vma self None n space typ tag = Some (Some vma, self')" "space_inv self'" "page_tables self' = page_tables self"
    "vma = VirtualMemoryArea_new_with_tag space \<lparr>pr_start = p, pr_end = p + n\<rparr> typ tag"
    "search_from space self \<le> p * 4096" "p * 4096 \<le> q" "gap_at (p * 4096) (n * 4096) (vmas self)"
    "set (virtual_memory_areas self') = insert (vma_start vma, vma) {x \<in> set (virtual_memory_areas self). fst x \<noteq> vma_start vma}"
proof -
  note B = search_bounds [OF inv, of space]
  have n64: "n * 4096 < 2 ^ 64" using q(2) B by simp
  have "gap_at q (n * 4096) (searched space self)" using searched_gap [OF inv st q(1,2)] q(3) by simp
  from search_gap_finds [OF this q(1,2) _ searched_facts(1) [OF inv]] searched_facts(2) [OF inv] B n obtain b c where
    c: "search_gap (n * 4096) (search_until space self) (search_from space self) (searched space self) = Some (b, c)" "search_from space self \<le> c" "c \<le> q"
      "gap_at c (n * 4096) (searched space self)" "c = search_from space self \<or> (\<exists>v \<in> set (searched space self). c = vma_end v)"
    by auto
  have "4096 dvd c" using c(5) B by (auto simp: vma_end_def)
  then obtain p where p: "c = p * 4096" by (metis dvd_def mult.commute)
  have le: "c + n * 4096 \<le> search_until space self" using c(3) q(2) by linarith
  have gap: "gap_at (p * 4096) (n * 4096) (vmas self)" using searched_gap [OF inv st c(2) le] c(4) p by simp
  moreover have "(p + n) * 4096 \<le> last_usable_user_addr self" using le B p by (simp add: algebra_simps)
  moreover have "space = User \<Longrightarrow> USER_SPACE_START \<le> p * 4096" using c(2) p space_invD(2) [OF inv] by (simp add: search_from_def)
  ultimately obtain vma self' where a: "alloc_at self p n space typ tag = Some (Some vma, self')" "space_inv self'"
    "vma = VirtualMemoryArea_new_with_tag space \<lparr>pr_start = p, pr_end = p + n\<rparr> typ tag" "page_tables self' = page_tables self"
    "set (virtual_memory_areas self') = insert (vma_start vma, vma) {x \<in> set (virtual_memory_areas self). fst x \<noteq> vma_start vma}"
    using alloc_at_gap [OF inv n, of p space "typ" tag] by auto
  moreover have "alloc_vma self None n space typ tag = Some (Some vma, self')"
    using a(1) c(1) le p B by (simp add: alloc_vma_def vmm_alloc_search [OF inv n64])
  ultimately show thesis using gap c(2,3) p by (intro that [of vma self' p]) simp_all
qed

lemma gap_no_overlap:
  assumes "gap_at (p * 4096) (n * 4096) vs" "v \<in> set vs" "vma_range vma = \<lparr>pr_start = p, pr_end = p + n\<rparr>"
  shows "\<not> overlaps_with vma v"
  using assms by (auto simp: gap_at_def overlaps_with_def vma_start_def vma_end_def)

section \<open>Allocating in an address space\<close>

text \<open>
  C22. When there is a gap of the wanted size, allocating an area of the user or of the kernel part without a given start
  succeeds, takes the first such gap, and the new area overlaps none of those that were there; all of them stay.
\<close>

theorem vma_alloc_first_fit:
  assumes inv: "space_inv self" and n: "0 < n" and st: "no_straddle space self"
    and q: "search_from space self \<le> q" "q + n * 4096 \<le> search_until space self" "gap_at q (n * 4096) (vmas self)"
  shows "\<exists>vma self'. alloc_vma self None n space typ tag = Some (Some vma, self') \<and> space_inv self' \<and> vma_space vma = space \<and> vma_typ vma = typ
    \<and> pr_len (vma_range vma) = n \<and> search_from space self \<le> vma_start vma \<and> vma_start vma \<le> q \<and> vma_end vma \<le> search_until space self
    \<and> (\<forall>v \<in> set (vmas self). \<not> overlaps_with vma v)
    \<and> set (virtual_memory_areas self') = insert (vma_start vma, vma) {x \<in> set (virtual_memory_areas self). fst x \<noteq> vma_start vma}"
proof -
  obtain p vma self' where a: "alloc_vma self None n space typ tag = Some (Some vma, self')" "space_inv self'" "page_tables self' = page_tables self"
    "vma = VirtualMemoryArea_new_with_tag space \<lparr>pr_start = p, pr_end = p + n\<rparr> typ tag"
    "search_from space self \<le> p * 4096" "p * 4096 \<le> q" "gap_at (p * 4096) (n * 4096) (vmas self)"
    "set (virtual_memory_areas self') = insert (vma_start vma, vma) {x \<in> set (virtual_memory_areas self). fst x \<noteq> vma_start vma}"
    by (rule vmm_alloc_gap [OF assms, of "typ" tag])
  have "\<forall>v \<in> set (vmas self). \<not> overlaps_with vma v" using gap_no_overlap [OF a(7)] by (simp add: a(4))
  moreover have "vma_start vma = p * 4096" "vma_end vma = p * 4096 + n * 4096" "pr_len (vma_range vma) = n"
    by (simp_all add: a(4) vma_start_def vma_end_def pr_len_def)
  ultimately show ?thesis using a(1,2,5,6,8) q(2) by (intro exI [of _ vma] exI [of _ self']) (simp add: a(4))
qed

text \<open>An address space of a user process with its code and its environment.\<close>

definition sample_space :: VirtualAddressSpace where
  "sample_space = \<lparr>virtual_memory_areas =
      [(0x10000000000, \<lparr>vma_space = User, vma_range = \<lparr>pr_start = 0x10000000, pr_end = 0x10000004\<rparr>, vma_typ = Code, vma_tag = replicate 16 0x2D\<rparr>),
       (0x10040000000, \<lparr>vma_space = User, vma_range = \<lparr>pr_start = 0x10040000, pr_end = 0x10040001\<rparr>, vma_typ = UserStack, vma_tag = replicate 16 0x2D\<rparr>)],
     page_tables = \<lparr>root_table = 1, depth = 4\<rparr>, first_usable_user_addr = USER_SPACE_START, last_usable_user_addr = 0x7FFFFFFFFFFF\<rparr>"

lemma sample_space_ok: "space_inv sample_space" "no_straddle User sample_space"
  by (simp_all add: sample_space_def space_inv_def areas_wf_def vma_start_def vma_end_def TAG_SIZE_def USER_SPACE_START_def no_straddle_def search_from_def)

lemma sample_space_simps:
  "search_from User sample_space = 0x10000000000" "search_until User sample_space = 0x7FFFFFFFFFFF" "page_tables sample_space = sample_paging"
  "last_usable_user_addr sample_space = 0x7FFFFFFFFFFF"
  by (simp_all add: sample_space_def search_from_def search_until_def USER_SPACE_START_def sample_paging_def)

theorem vma_alloc_first_fit_witness:
  "\<exists>vma self'. alloc_vma sample_space None 8 User Heap [] = Some (Some vma, self') \<and> vma_start vma \<le> 0x10000004000 \<and> pr_len (vma_range vma) = 8"
proof -
  have "gap_at 0x10000004000 (8 * 4096) (vmas sample_space)" by (simp add: sample_space_def gap_at_def vma_start_def vma_end_def)
  then show ?thesis using vma_alloc_first_fit [OF sample_space_ok(1) _ sample_space_ok(2), of 8 "0x10000004000" Heap "[]"]
    by (auto simp: sample_space_simps)
qed

text \<open>
  With a given start only the area that begins at or before it is looked at, so an area can be put over one that
  begins later: the system call that extends the heap of a process maps it over the stack.
\<close>

theorem vma_alloc_at_overlaps:
  "\<exists>self' stack heap. sys_map_memory 0x1003FFFF000 0x2000 sample_space = Some (0, self') \<and> stack \<in> set (vmas self') \<and> heap \<in> set (vmas self')
    \<and> vma_typ stack = UserStack \<and> vma_typ heap = Heap \<and> overlaps_with heap stack"
  by (simp add: sys_map_memory_def div_ceil_def sample_space_def alloc_vma_def alloc_at_def virt_addr_def page_ok_def page_add_def area_up_to_def vma_end_def
      USER_SPACE_START_def overlaps_with_def Let_def)

lemma user_flags: "good_flags (PRESENT OR WRITABLE OR USER_ACCESSIBLE)"
  by (simp add: good_flags_def valid_flags_def ADDR_MASK_def PRESENT_def WRITABLE_def USER_ACCESSIBLE_def HUGE_PAGE_def mask_eq_exp_minus_1 push_bit_eq_mult)

lemma get_phys_low: "lower_48 a \<Longrightarrow> unat a < 2 ^ 47 \<Longrightarrow> get_phys E self a s = Paging_translate E (page_tables self) a s"
  using virt_add_low [of 0 "unat a"] by (simp add: get_phys_def virt_add_def)

lemma page_of_in_area: "page_of a \<in> {p..<e} \<longleftrightarrow> p * 4096 \<le> unat a \<and> unat a < e * 4096"
  by (auto simp: less_eq_div_iff_mult_less_eq div_less_iff_less_mult)

text \<open>
  An area of user memory allocated with its frames lies in a gap, and with enough free frames every address in it can
  be used: it translates into a frame that was free before and that no other page uses. Every other address below the
  end of the lower half translates as before.
\<close>

theorem user_alloc_map_full_correct:
  assumes E: "page_table_entry E" and A: "address_space E (page_tables self) F s" and inv: "space_inv self" "no_straddle User self" and n: "0 < n"
    and q: "USER_SPACE_START \<le> q" "q + n * 4096 \<le> last_usable_user_addr self" "gap_at q (n * 4096) (vmas self)" and enough: "4 * n \<le> card (free_of s)"
  shows "\<exists>vma self' s' F' g. user_alloc_map_full E self None n typ tag s = Some (Some vma, self', s') \<and> space_inv self' \<and> address_space E (page_tables self') F' s'
    \<and> vma \<in> set (vmas self') \<and> pr_len (vma_range vma) = n \<and> (\<forall>v \<in> set (vmas self). \<not> overlaps_with vma v)
    \<and> inj_on g {pr_start (vma_range vma)..<pr_end (vma_range vma)} \<and> g ` {pr_start (vma_range vma)..<pr_end (vma_range vma)} \<subseteq> free_of s - free_of s'
    \<and> (\<forall>a. unat a < 2 ^ 47 \<longrightarrow> get_phys E self' a s' =
         (if vma_start vma \<le> unat a \<and> unat a < vma_end vma then Some (Some (at_frame a (g (page_of a)))) else get_phys E self a s))"
proof -
  note B = space_invD [OF inv(1)]
  have "search_from User self \<le> q" "q + n * 4096 \<le> search_until User self" using q(1,2) B(2) by (simp_all add: search_from_def search_until_def)
  from vmm_alloc_gap [OF inv(1) n inv(2) this q(3), of "typ" tag] obtain p vma self' where
    a: "alloc_vma self None n User typ tag = Some (Some vma, self')" "space_inv self'" "page_tables self' = page_tables self"
    "vma = VirtualMemoryArea_new_with_tag User \<lparr>pr_start = p, pr_end = p + n\<rparr> typ tag" "p * 4096 \<le> q" "gap_at (p * 4096) (n * 4096) (vmas self)"
    "set (virtual_memory_areas self') = insert (vma_start vma, vma) {x \<in> set (virtual_memory_areas self). fst x \<noteq> vma_start vma}" .
  have r: "vma_range vma = \<lparr>pr_start = p, pr_end = p + n\<rparr>" by (simp add: a(4))
  have lim: "p + n < 2 ^ 35" using a(5) q(2) B(4) by simp
  have en: "4 * max 1 (p + n - p) \<le> card (free_of s)" using enough n by (simp add: max_def)
  obtain F' s' g A' where m: "Paging_map E (page_tables self) \<lparr>pr_start = p, pr_end = p + n\<rparr> User (PRESENT OR WRITABLE OR USER_ACCESSIBLE) s = Some s'"
    "address_space E (page_tables self) F' s'" "free_of s' = free_of s - F' - A'" "inj_on g {p..<p + n} \<and> A' = g ` {p..<p + n} \<and> A' \<subseteq> free_of s \<and> A' \<inter> F' = {}"
    "\<forall>x. x div 512 ^ 4 = 0 \<longrightarrow> frame_of E (page_tables self) s' x = (if p \<le> x \<and> x < p + n then Some (g x) else frame_of E (page_tables self) s x)"
    by (rule Paging_map_frames [OF E A user_flags _ lim en, of User]) auto
  have "get_phys E self' x s' = (if vma_start vma \<le> unat x \<and> unat x < vma_end vma then Some (Some (at_frame x (g (page_of x)))) else get_phys E self x s)"
    if x: "unat x < 2 ^ 47" for x
  proof -
    have l: "lower_48 x" using x by (simp add: lower_48_def)
    have "page_of x \<in> {p..<p + n} \<longleftrightarrow> vma_start vma \<le> unat x \<and> unat x < vma_end vma"
      using page_of_in_area [of x p "p + n"] by (simp add: r vma_start_def vma_end_def)
    then show ?thesis using m(5) [rule_format, OF lower_48_block [OF l]]
      by (simp add: get_phys_low [OF l x] a(3) translate_address_space [OF A] translate_address_space [OF m(2)])
  qed
  moreover have "user_alloc_map_full E self None n typ tag s = Some (Some vma, self', s')" using a(1,3) m(1) r by (simp add: user_alloc_map_full_def)
  moreover have "vma \<in> set (vmas self')" using a(7) by force
  moreover have "\<forall>v \<in> set (vmas self). \<not> overlaps_with vma v" using gap_no_overlap [OF a(6) _ r] by blast
  ultimately show ?thesis using a(2,3) m(2-4) r
    by (intro exI [of _ vma] exI [of _ self'] exI [of _ s'] exI [of _ F'] exI [of _ g]) (auto simp: pr_len_def)
qed

theorem user_alloc_map_full_correct_witness:
  "\<exists>vma self' s'. user_alloc_map_full x86_entry sample_space None 3 Heap [] sample_pt_mem = Some (Some vma, self', s') \<and> get_phys x86_entry self' (of_nat (vma_start vma)) s' \<noteq> Some None"
proof -
  have g: "gap_at 0x10000004000 (3 * 4096) (vmas sample_space)" by (simp add: sample_space_def gap_at_def vma_start_def vma_end_def)
  have A: "address_space x86_entry (page_tables sample_space) {1} sample_pt_mem" using sample_address_space(1) by (simp add: sample_space_simps)
  have h: "0 < (3 :: nat)" "USER_SPACE_START \<le> 0x10000004000" "0x10000004000 + 3 * 4096 \<le> last_usable_user_addr sample_space" "4 * 3 \<le> card (free_of sample_pt_mem)"
    by (simp_all add: sample_space_simps sample_pt_mem_simps USER_SPACE_START_def)
  obtain vma self' s' g where u: "user_alloc_map_full x86_entry sample_space None 3 Heap [] sample_pt_mem = Some (Some vma, self', s')" "space_inv self'"
    "vma \<in> set (vmas self')" "pr_len (vma_range vma) = 3"
    "\<forall>a. unat a < 2 ^ 47 \<longrightarrow> get_phys x86_entry self' a s' =
         (if vma_start vma \<le> unat a \<and> unat a < vma_end vma then Some (Some (at_frame a (g (page_of a)))) else get_phys x86_entry sample_space a sample_pt_mem)"
    using user_alloc_map_full_correct [OF x86_entry_laws A sample_space_ok h(1-3) g h(4), of Heap "[]"] by (elim exE conjE) (rule that)
  have v: "vma_start vma < vma_end vma" using u(4) by (simp add: vma_start_def vma_end_def pr_len_def)
  then have low: "vma_start vma < 2 ^ 47" using u(2,3) space_invD(4,5) [OF u(2)] by force
  then have "unat (of_nat (vma_start vma) :: u64) = vma_start vma" by (simp add: unat_of_nat)
  with u(1,5) v low show ?thesis by (intro exI [of _ vma] exI [of _ self'] exI [of _ s']) simp
qed

section \<open>Page faults\<close>

lemma areas_wf_same:
  assumes "areas_wf xs" "(a, v) \<in> set xs" "(b, w) \<in> set xs" "a \<le> k" "k < vma_end v" "b \<le> k" "k < vma_end w"
  shows "(a, v) = (b, w)"
  using assms
proof (induction xs)
  case (Cons x xs)
  obtain c u where x: "x = (c, u)" by fastforce
  show ?case using Cons.prems Cons.IH unfolding x areas_wf_Cons by fastforce
qed simp

lemma areas_wf_keys: "areas_wf xs \<Longrightarrow> distinct (map fst xs)"
  by (induction xs) (force simp: areas_wf_Cons)+

lemma area_found:
  assumes "space_inv self" "v \<in> set (vmas self)" "vma_start v \<le> k" "k < vma_end v"
  shows "area_up_to k (virtual_memory_areas self) = Some v" "map_of (virtual_memory_areas self) (vma_start v) = Some v"
proof -
  note I = space_invD [OF assms(1)]
  have v: "(vma_start v, v) \<in> set (virtual_memory_areas self)" using assms(2) I(5) by force
  then have "\<exists>(a, w) \<in> set (virtual_memory_areas self). a \<le> k \<and> k < vma_end w" using assms(3,4) by blast
  then obtain w where w: "area_up_to k (virtual_memory_areas self) = Some w" "k < vma_end w"
    using area_up_to_contains [OF I(1), of k] by (auto split: option.splits)
  obtain b where b: "b \<le> k" "(b, w) \<in> set (virtual_memory_areas self)" using area_up_to_SomeD [OF w(1)] by blast
  show "area_up_to k (virtual_memory_areas self) = Some v" using areas_wf_same [OF I(1) v b(2) assms(3,4) b(1) w(2)] w(1) by simp
  show "map_of (virtual_memory_areas self) (vma_start v) = Some v" using v areas_wf_keys [OF I(1)] by simp
qed

lemma within_vma:
  assumes inv: "space_inv self" and v: "v \<in> set (vmas self)" "vma_start v \<le> unat a" "unat a < vma_end v" and a: "unat a < 2 ^ 47"
  shows "is_address_within_vma self a t = Some (if vma_typ v = t then Some v else None)"
  using area_found(1) [OF inv v] virt_add_low [of 0 "unat a"] a v(3) by (simp add: is_address_within_vma_def virt_add_def)

lemma not_within_vma:
  assumes "space_inv self" "\<forall>v \<in> set (vmas self). vma_start v \<le> unat a \<and> unat a < vma_end v \<longrightarrow> vma_typ v \<noteq> t" "unat a < 2 ^ 47"
  shows "is_address_within_vma self a t = Some None"
proof -
  have "\<not> (unat a < vma_end v \<and> vma_typ v = t)" if v: "area_up_to (unat a) (virtual_memory_areas self) = Some v" for v
    using area_up_to_SomeD [OF v] assms(2) space_invD(5) [OF assms(1)] by force
  then show ?thesis using virt_add_low [of 0 "unat a"] assms(3) by (auto simp: is_address_within_vma_def virt_add_def split: option.splits)
qed

text \<open>
  C23. A page fault of a user thread on an address in a stack or heap area is resolved: the faulting page is mapped to a
  frame that was free, and every other address translates as before. A fault of a kernel thread and one outside these areas
  ends in a panic.
\<close>

theorem page_fault_resolved:
  assumes E: "page_table_entry E" and A: "address_space E (page_tables self) F s" and inv: "space_inv self" and a: "unat a < 2 ^ 47" and enough: "4 \<le> card (free_of s)"
  shows "if \<not> in_kernel \<and> (\<exists>v \<in> set (vmas self). vma_start v \<le> unat a \<and> unat a < vma_end v \<and> vma_typ v \<in> {UserStack, Heap})
    then \<exists>s' F' f. handle_page_fault E in_kernel self a s = Some s' \<and> address_space E (page_tables self) F' s' \<and> f \<in> free_of s - free_of s'
      \<and> (\<forall>b. unat b < 2 ^ 47 \<longrightarrow> get_phys E self b s' = (if page_of b = page_of a then Some (Some (at_frame b f)) else get_phys E self b s))
    else handle_page_fault E in_kernel self a s = None"
proof (cases "\<not> in_kernel \<and> (\<exists>v \<in> set (vmas self). vma_start v \<le> unat a \<and> unat a < vma_end v \<and> vma_typ v \<in> {UserStack, Heap})")
  case True
  then obtain v where v: "v \<in> set (vmas self)" "vma_start v \<le> unat a" "unat a < vma_end v" "vma_typ v \<in> {UserStack, Heap}" by blast
  let ?p = "page_of a"
  have p: "pr_start (vma_range v) \<le> ?p" "Suc ?p \<le> pr_end (vma_range v)"
    using v(2,3) page_of_in_area [of a "pr_start (vma_range v)" "pr_end (vma_range v)"] by (auto simp: vma_start_def vma_end_def)
  have "(pr_end (vma_range v)) * 4096 < 2 ^ 47" using v(1) space_invD(4,5) [OF inv] by (force simp: vma_end_def)
  then have lim: "?p + 1 < 2 ^ 35" using p(2) by simp
  then have "page_ok (?p + 1)" by (simp add: page_ok_def)
  then have h: "handle_page_fault E in_kernel self a s = Paging_map E (page_tables self) \<lparr>pr_start = ?p, pr_end = ?p + 1\<rparr> User (PRESENT OR WRITABLE OR USER_ACCESSIBLE) s"
    using True v(4) p area_found(2) [OF inv v(1-3)]
    by (auto simp: handle_page_fault_def within_vma [OF inv v(1-3) a] map_fault_page_def page_add_def map_partial_vma_def is_equivalent_to_def vma_start_def vma_end_def panic_simps Let_def)
  have en: "4 * max 1 (?p + 1 - ?p) \<le> card (free_of s)" using enough by simp
  obtain F' s' g A' where m: "Paging_map E (page_tables self) \<lparr>pr_start = ?p, pr_end = ?p + 1\<rparr> User (PRESENT OR WRITABLE OR USER_ACCESSIBLE) s = Some s'"
    "address_space E (page_tables self) F' s'" "free_of s' = free_of s - F' - A'" "A' = g ` {?p..<?p + 1} \<and> A' \<subseteq> free_of s"
    "\<forall>x. x div 512 ^ 4 = 0 \<longrightarrow> frame_of E (page_tables self) s' x = (if ?p \<le> x \<and> x < ?p + 1 then Some (g x) else frame_of E (page_tables self) s x)"
    by (rule Paging_map_frames [OF E A user_flags _ lim en, of User]) auto
  have "get_phys E self b s' = (if page_of b = ?p then Some (Some (at_frame b (g ?p))) else get_phys E self b s)" if b: "unat b < 2 ^ 47" for b
  proof -
    have l: "lower_48 b" using b by (simp add: lower_48_def)
    show ?thesis using m(5) [rule_format, OF lower_48_block [OF l]]
      by (auto simp: get_phys_low [OF l b] translate_address_space [OF A] translate_address_space [OF m(2)])
  qed
  moreover have "g ?p \<in> free_of s - free_of s'" using m(3,4) by auto
  ultimately have "\<exists>s' F' f. handle_page_fault E in_kernel self a s = Some s' \<and> address_space E (page_tables self) F' s' \<and> f \<in> free_of s - free_of s'
      \<and> (\<forall>b. unat b < 2 ^ 47 \<longrightarrow> get_phys E self b s' = (if page_of b = page_of a then Some (Some (at_frame b f)) else get_phys E self b s))"
    using h m(1,2) by (intro exI [of _ s'] exI [of _ F'] exI [of _ "g ?p"]) simp
  with True show ?thesis by simp
next
  case False
  then have "handle_page_fault E in_kernel self a s = None"
    using not_within_vma [OF inv _ a, of UserStack] not_within_vma [OF inv _ a, of Heap] by (auto simp: handle_page_fault_def panic_simps rust_assert_def)
  with False show ?thesis by (simp only: if_False)
qed

theorem page_fault_resolved_witness:
  "\<exists>s' f. handle_page_fault x86_entry False sample_space 0x10040000042 sample_pt_mem = Some s'
    \<and> get_phys x86_entry sample_space 0x10040000042 s' = Some (Some (of_nat (f * 4096 + 0x42)))"
proof -
  have A: "address_space x86_entry (page_tables sample_space) {1} sample_pt_mem" using sample_address_space(1) by (simp add: sample_space_simps)
  have "\<exists>v \<in> set (vmas sample_space). vma_start v \<le> unat (0x10040000042 :: u64) \<and> unat (0x10040000042 :: u64) < vma_end v \<and> vma_typ v \<in> {UserStack, Heap}"
    by (simp add: sample_space_def vma_start_def vma_end_def)
  moreover have "unat (0x10040000042 :: u64) < 2 ^ 47" "4 \<le> card (free_of sample_pt_mem)" by (simp_all add: sample_pt_mem_simps)
  ultimately show ?thesis using page_fault_resolved [OF x86_entry_laws A sample_space_ok(1), of "0x10040000042" False] by auto
qed

section \<open>Copying into an address space\<close>

text \<open>The pages from \<open>p\<close> on have the frames \<open>g 0\<close>, \<open>g 1\<close> and so on; the physical address of byte \<open>i\<close>.\<close>

definition frames_at :: "'e entry_ops \<Rightarrow> VirtualAddressSpace \<Rightarrow> 'e pt_mem \<Rightarrow> nat \<Rightarrow> nat \<Rightarrow> (nat \<Rightarrow> nat) \<Rightarrow> bool" where
  "frames_at E self s p k g \<longleftrightarrow> (\<exists>F. address_space E (page_tables self) F s) \<and> p + k \<le> 2 ^ 35 \<and> inj_on g {..<k}
     \<and> (\<forall>j < k. frame_of E (page_tables self) s (p + j) = Some (g j) \<and> g j < 2 ^ 40)"

definition byte_addr :: "(nat \<Rightarrow> nat) \<Rightarrow> nat \<Rightarrow> u64" where
  "byte_addr g i = of_nat (g (i div 4096) * 4096 + i mod 4096)"

lemma frames_at_phys:
  assumes "frames_at E self s p k g" "j < k"
  shows "get_phys E self (of_nat (p * 4096 + 4096 * j)) s = Some (Some (byte_addr g (4096 * j)))"
proof -
  obtain F where A: "address_space E (page_tables self) F s" and f: "frame_of E (page_tables self) s (p + j) = Some (g j)" and l: "p + j < 2 ^ 35"
    using assms by (auto simp: frames_at_def)
  let ?a = "of_nat ((p + j) * 4096) :: u64"
  have b: "(p + j) * 4096 < 2 ^ 47" using l by simp
  have eq: "unat ?a = (p + j) * 4096" by (rule unat_of_nat_bound) (use l in simp)
  have u: "unat ?a = (p + j) * 4096" "unat ?a < 2 ^ 47" "lower_48 ?a" unfolding lower_48_def eq using b by simp_all
  have "page_of ?a = p + j" "unat ?a mod 4096 = 0" unfolding u(1) by simp_all
  then have "get_phys E self ?a s = Some (Some (of_nat (g j * 4096)))"
    unfolding get_phys_low [OF u(3,2)] translate_address_space [OF A] using f by simp
  moreover have "p * 4096 + 4096 * j = (p + j) * 4096" "byte_addr g (4096 * j) = of_nat (g j * 4096)" by (simp_all add: byte_addr_def algebra_simps)
  ultimately show ?thesis by (simp only:)
qed

lemma byte_addr_inj:
  assumes "frames_at E self s p k g" "i < 4096 * k" "i' < 4096 * k" "byte_addr g i = byte_addr g i'"
  shows "i = i'"
proof -
  have b: "i div 4096 < k" "i' div 4096 < k" using assms(2,3) by (simp_all add: div_less_iff_less_mult mult.commute)
  then have "g (i div 4096) < 2 ^ 40" "g (i' div 4096) < 2 ^ 40" using assms(1) by (simp_all add: frames_at_def)
  then have "unat (byte_addr g i) = g (i div 4096) * 4096 + i mod 4096" "unat (byte_addr g i') = g (i' div 4096) * 4096 + i' mod 4096"
    unfolding byte_addr_def by (intro unat_of_nat_bound; simp)+
  then have e: "g (i div 4096) * 4096 + i mod 4096 = g (i' div 4096) * 4096 + i' mod 4096" using assms(4) by simp
  from arg_cong [OF e, of "\<lambda>n. n div 4096"] have "i div 4096 = i' div 4096" using b assms(1) by (auto simp: frames_at_def inj_on_def)
  moreover from arg_cong [OF e, of "\<lambda>n. n mod 4096"] have "i mod 4096 = i' mod 4096" by simp
  ultimately show ?thesis by (metis div_mult_mod_eq)
qed

lemma write_page:
  assumes "b \<le> 4096"
  shows "i < b \<Longrightarrow> write_phys (byte_addr g (4096 * j)) (map src [4096 * j..<4096 * j + b]) mem (byte_addr g (4096 * j + i)) = src (4096 * j + i)"
    "\<forall>i < b. x \<noteq> byte_addr g (4096 * j + i) \<Longrightarrow> write_phys (byte_addr g (4096 * j)) (map src [4096 * j..<4096 * j + b]) mem x = mem x"
proof -
  have d: "byte_addr g (4096 * j + i) = byte_addr g (4096 * j) + of_nat i" if "i < 4096" for i
    using that by (simp add: byte_addr_def)
  show "write_phys (byte_addr g (4096 * j)) (map src [4096 * j..<4096 * j + b]) mem (byte_addr g (4096 * j + i)) = src (4096 * j + i)" if "i < b"
    using that assms d [of i] by (simp add: write_phys_def unat_of_nat)
  show "write_phys (byte_addr g (4096 * j)) (map src [4096 * j..<4096 * j + b]) mem x = mem x" if n: "\<forall>i < b. x \<noteq> byte_addr g (4096 * j + i)"
  proof -
    have "x = byte_addr g (4096 * j + unat (x - byte_addr g (4096 * j)))" if "unat (x - byte_addr g (4096 * j)) < b"
      using d [of "unat (x - byte_addr g (4096 * j))"] that assms by simp
    then show ?thesis using n by (auto simp: write_phys_def)
  qed
qed

lemma copy_pages_ok:
  assumes fr: "frames_at E self s p k g" and t: "4096 * (k - 1) < total_bytes" "total_bytes \<le> 4096 * k" and n: "j + n = k" "0 < n"
  shows "\<exists>mem'. copy_pages E self s src p total_bytes n dest (4096 * j) btc mem = Some (byte_addr g (4096 * (k - 1)), total_bytes, total_bytes - 4096 * (k - 1), mem')
    \<and> (\<forall>i. 4096 * j \<le> i \<and> i < total_bytes \<longrightarrow> mem' (byte_addr g i) = src i)
    \<and> (\<forall>x. (\<forall>i. 4096 * j \<le> i \<and> i < total_bytes \<longrightarrow> x \<noteq> byte_addr g i) \<longrightarrow> mem' x = mem x)"
  using n
proof (induction n arbitrary: j dest btc mem)
  case (Suc n)
  let ?b = "if total_bytes - 4096 * j < 4096 then total_bytes - 4096 * j else 4096"
  let ?m = "write_phys (byte_addr g (4096 * j)) (map src [4096 * j..<4096 * j + ?b]) mem"
  have j: "j < k" "4096 * j \<le> total_bytes" using Suc.prems t(1) by auto
  have step: "copy_pages E self s src p total_bytes (Suc n) dest (4096 * j) btc mem =
      copy_pages E self s src p total_bytes n (byte_addr g (4096 * j)) (4096 * j + ?b) ?b ?m"
    using frames_at_phys [OF fr j(1)] j(2) by (simp add: Let_def)
  have w: "i < ?b \<Longrightarrow> ?m (byte_addr g (4096 * j + i)) = src (4096 * j + i)" "\<forall>i < ?b. x \<noteq> byte_addr g (4096 * j + i) \<Longrightarrow> ?m x = mem x" for i x
    by (rule write_page; simp)+
  show ?case
  proof (cases n)
    case 0
    then have b: "?b = total_bytes - 4096 * j" "j = k - 1" using Suc.prems t by auto
    show ?thesis
    proof (intro exI [of _ ?m] conjI allI impI)
      show "copy_pages E self s src p total_bytes (Suc n) dest (4096 * j) btc mem = Some (byte_addr g (4096 * (k - 1)), total_bytes, total_bytes - 4096 * (k - 1), ?m)"
        unfolding step using 0 b j(2) by simp
    next
      fix i assume i: "4096 * j \<le> i \<and> i < total_bytes"
      then have "i - 4096 * j < ?b" unfolding b(1) by linarith
      from w(1) [OF this] i show "?m (byte_addr g i) = src i" by simp
    next
      fix x assume "\<forall>i. 4096 * j \<le> i \<and> i < total_bytes \<longrightarrow> x \<noteq> byte_addr g i"
      then show "?m x = mem x" using b by (intro w(2)) auto
    qed
  next
    case (Suc n')
    then have n0: "0 < n" and b: "?b = 4096" "Suc j + n = k" using Suc.prems t by auto
    obtain mem' where r: "copy_pages E self s src p total_bytes n (byte_addr g (4096 * j)) (4096 * Suc j) 4096 ?m = Some (byte_addr g (4096 * (k - 1)), total_bytes, total_bytes - 4096 * (k - 1), mem')"
      "\<forall>i. 4096 * Suc j \<le> i \<and> i < total_bytes \<longrightarrow> mem' (byte_addr g i) = src i" "\<forall>x. (\<forall>i. 4096 * Suc j \<le> i \<and> i < total_bytes \<longrightarrow> x \<noteq> byte_addr g i) \<longrightarrow> mem' x = ?m x"
      using Suc.IH [OF b(2), of "byte_addr g (4096 * j)" 4096 ?m] n0 by blast
    show ?thesis
    proof (intro exI [of _ mem'] conjI allI impI)
      show "copy_pages E self s src p total_bytes (Suc n) dest (4096 * j) btc mem = Some (byte_addr g (4096 * (k - 1)), total_bytes, total_bytes - 4096 * (k - 1), mem')"
        using r(1) unfolding step b(1) by (simp only: mult_Suc_right add.commute)
    next
      fix i assume i: "4096 * j \<le> i \<and> i < total_bytes"
      show "mem' (byte_addr g i) = src i"
      proof (cases "4096 * Suc j \<le> i")
        case False
        then have "byte_addr g i \<noteq> byte_addr g i'" if "4096 * Suc j \<le> i' \<and> i' < total_bytes" for i'
          using byte_addr_inj [OF fr, of i i'] i t(2) that by linarith
        then have "mem' (byte_addr g i) = ?m (byte_addr g i)" using r(3) by blast
        moreover have "i - 4096 * j < ?b" unfolding b(1) using i False by simp
        from w(1) [OF this] have "?m (byte_addr g i) = src i" using i by simp
        ultimately show ?thesis by (rule trans)
      qed (use r(2) i in simp)
    next
      fix x assume x: "\<forall>i. 4096 * j \<le> i \<and> i < total_bytes \<longrightarrow> x \<noteq> byte_addr g i"
      moreover have "4096 * Suc j \<le> total_bytes" using n0 b(2) t(1) by auto
      ultimately have "\<forall>i < ?b. x \<noteq> byte_addr g (4096 * j + i)" unfolding b(1) by simp
      then have "?m x = mem x" by (rule w(2))
      moreover have "mem' x = ?m x"
      proof (rule r(3) [rule_format])
        fix i assume "4096 * Suc j \<le> i \<and> i < total_bytes"
        then have "4096 * j \<le> i \<and> i < total_bytes" by simp
        then show "x \<noteq> byte_addr g i" using x by blast
      qed
      ultimately show "mem' x = mem x" by (rule trans [rotated])
    qed
  qed
qed simp

lemma pages_to_copy:
  assumes "4096 * (k - 1) < total_bytes" "total_bytes \<le> 4096 * k"
  shows "(if total_bytes mod 4096 = 0 then total_bytes div 4096 else total_bytes div 4096 + 1) = (k :: nat)"
proof (cases "total_bytes = 4096 * k")
  case False
  obtain k' where k: "k = Suc k'" using assms by (cases k) auto
  define r where "r = total_bytes - k' * 4096"
  have "total_bytes = r + k' * 4096" "0 < r" "r < 4096" unfolding r_def using assms False k by simp_all
  then show ?thesis by (simp add: k)
qed simp

text \<open>The end of the call: what the loop wrote, and then the zeroes.\<close>

lemma copy_to_addr_space_eval:
  assumes fr: "frames_at E self s p k g" and t: "4096 * (k - 1) < total_bytes" "total_bytes \<le> 4096 * k"
  obtains mem' where "copy_to_addr_space E src self p total_bytes fill s mem =
      Some (if fill \<and> total_bytes < 4096 * k
            then write_phys (of_nat (g (k - 1) * 4096 + total_bytes)) (replicate (4096 * k - total_bytes) 0) mem' else mem')"
    "\<forall>i < total_bytes. mem' (byte_addr g i) = src i" "\<forall>x. (\<forall>i < total_bytes. x \<noteq> byte_addr g i) \<longrightarrow> mem' x = mem x"
proof -
  have k: "0 < k" using t by (cases k) auto
  obtain mem' where c: "copy_pages E self s src p total_bytes k (byte_addr g 0) 0 0 mem = Some (byte_addr g (4096 * (k - 1)), total_bytes, total_bytes - 4096 * (k - 1), mem')"
    "\<forall>i < total_bytes. mem' (byte_addr g i) = src i" "\<forall>x. (\<forall>i < total_bytes. x \<noteq> byte_addr g i) \<longrightarrow> mem' x = mem x"
    using copy_pages_ok [OF fr t, of 0 k src "byte_addr g 0" 0 mem] k by auto
  have r: "4096 - (total_bytes - 4096 * (k - 1)) = 4096 * k - total_bytes" using t k by (cases k) auto
  have b: "byte_addr g (4096 * (k - 1)) + of_nat total_bytes = of_nat (g (k - 1) * 4096 + total_bytes)" by (simp add: byte_addr_def)
  have "get_phys E self (of_nat (p * 4096)) s = Some (Some (byte_addr g 0))" using frames_at_phys [OF fr k] by (simp only: mult_0_right add_0_right)
  then have "copy_to_addr_space E src self p total_bytes fill s mem =
      Some (if fill \<and> 0 < 4096 * k - total_bytes then write_phys (of_nat (g (k - 1) * 4096 + total_bytes)) (replicate (4096 * k - total_bytes) 0) mem' else mem')"
    using c(1) unfolding copy_to_addr_space_def pages_to_copy [OF t] Let_def by (simp only: Option.bind.simps prod.case r b)
  with c(2,3) show thesis by (intro that [of mem']) simp_all
qed

lemma write_zeroes:
  assumes "a + n \<le> 2 ^ 64"
  shows "write_phys (of_nat a) (replicate n 0) mem x = (if a \<le> unat x \<and> unat x < a + n then 0 else mem x)"
proof -
  show ?thesis
  proof (cases "a \<le> unat x")
    case True
    then have "x - of_nat a = of_nat (unat x - a)" by (simp add: of_nat_diff)
    moreover have "unat x < 2 ^ LENGTH(64)" by (rule unsigned_less)
    then have "unat x - a < 2 ^ LENGTH(64)" by (rule less_imp_diff_less)
    ultimately have "unat (x - of_nat a) = unat x - a" by (simp add: unat_of_nat_bound)
    with True show ?thesis by (auto simp: write_phys_def)
  next
    case False
    have "\<not> unat (x - of_nat a) < n"
    proof
      assume l: "unat (x - of_nat a) < n"
      then have "unat (of_nat (unat (x - of_nat a) + a) :: u64) = unat (x - of_nat a) + a" using assms by (intro unat_of_nat_bound) simp
      then have "unat x = unat (x - of_nat a) + a" by simp
      then show False using False by simp
    qed
    with False show ?thesis by (simp add: write_phys_def)
  qed
qed

text \<open>
  Copying into another address space stores every byte at the physical address of its page, in order, and writes
  nowhere else; the rest of the last page is cleared when asked to, provided that it is the only page.
\<close>

theorem copy_to_addr_space_correct:
  assumes fr: "frames_at E self s p k g" and t: "4096 * (k - 1) < total_bytes" "total_bytes \<le> 4096 * k" and one: "fill \<longrightarrow> k = 1"
  shows "\<exists>mem'. copy_to_addr_space E src self p total_bytes fill s mem = Some mem' \<and> (\<forall>i < total_bytes. mem' (byte_addr g i) = src i)
    \<and> (\<forall>i. total_bytes \<le> i \<and> i < 4096 * k \<longrightarrow> mem' (byte_addr g i) = (if fill then 0 else mem (byte_addr g i)))
    \<and> (\<forall>x. (\<forall>i < 4096 * k. x \<noteq> byte_addr g i) \<longrightarrow> mem' x = mem x)"
proof -
  obtain mem' where c: "copy_to_addr_space E src self p total_bytes fill s mem =
      Some (if fill \<and> total_bytes < 4096 * k
            then write_phys (of_nat (g (k - 1) * 4096 + total_bytes)) (replicate (4096 * k - total_bytes) 0) mem' else mem')"
    "\<forall>i < total_bytes. mem' (byte_addr g i) = src i" "\<forall>x. (\<forall>i < total_bytes. x \<noteq> byte_addr g i) \<longrightarrow> mem' x = mem x"
    by (rule copy_to_addr_space_eval [OF fr t, of src fill mem])
  let ?m = "if fill \<and> total_bytes < 4096 * k then write_phys (of_nat (g (k - 1) * 4096 + total_bytes)) (replicate (4096 * k - total_bytes) 0) mem' else mem'"
  have z: "?m x = (if fill \<and> total_bytes < 4096 \<and> g 0 * 4096 + total_bytes \<le> unat x \<and> unat x < g 0 * 4096 + 4096 then 0 else mem' x)" for x
  proof (cases fill)
    case True
    then have g: "g 0 < 2 ^ 40" "k = 1" using fr one by (auto simp: frames_at_def)
    have "write_phys (of_nat (g 0 * 4096 + total_bytes)) (replicate (4096 - total_bytes) 0) mem' x =
        (if g 0 * 4096 + total_bytes \<le> unat x \<and> unat x < g 0 * 4096 + total_bytes + (4096 - total_bytes) then 0 else mem' x)"
      by (rule write_zeroes) (use g t in simp)
    with True g t show ?thesis by simp
  qed simp
  have a: "unat (byte_addr g i) = g 0 * 4096 + i" if "fill" "i < 4096" for i
    using that one fr unfolding byte_addr_def by (subst unat_of_nat_bound) (auto simp: frames_at_def)
  have "?m (byte_addr g i) = src i" if "i < total_bytes" for i
    using z [of "byte_addr g i"] c(2) that a [of i] t one by auto
  moreover have "?m (byte_addr g i) = (if fill then 0 else mem (byte_addr g i))" if i: "total_bytes \<le> i" "i < 4096 * k" for i
  proof (cases fill)
    case True
    then show ?thesis using z [of "byte_addr g i"] a [of i] i one by auto
  next
    case False
    have "byte_addr g i \<noteq> byte_addr g i'" if "i' < total_bytes" for i' using byte_addr_inj [OF fr, of i i'] i that t by auto
    then show ?thesis using False c(3) by simp
  qed
  moreover have "?m x = mem x" if x: "\<forall>i < 4096 * k. x \<noteq> byte_addr g i" for x
  proof -
    have "\<not> (fill \<and> total_bytes < 4096 \<and> g 0 * 4096 + total_bytes \<le> unat x \<and> unat x < g 0 * 4096 + 4096)"
    proof
      assume h: "fill \<and> total_bytes < 4096 \<and> g 0 * 4096 + total_bytes \<le> unat x \<and> unat x < g 0 * 4096 + 4096"
      then have l: "unat x - g 0 * 4096 < 4096" by linarith
      have "unat (byte_addr g (unat x - g 0 * 4096)) = unat x" using a [OF _ l] h by simp
      then have "x = byte_addr g (unat x - g 0 * 4096)" by simp
      then show False using x l h one by auto
    qed
    then have "?m x = mem' x" unfolding z by (rule if_not_P)
    moreover have "mem' x = mem x" using c(3) x t by simp
    ultimately show ?thesis by (rule trans)
  qed
  ultimately show ?thesis unfolding c(1) by blast
qed

text \<open>
  C24. When the data ends inside the second or a later page, clearing the rest of that page goes wrong: the bytes behind
  the data keep what was there, and the zeroes go to physical addresses behind the page.
\<close>

theorem copy_to_addr_space_clears_wrong_bytes:
  assumes fr: "frames_at E self s p k g" and t: "4096 * (k - 1) < total_bytes" "total_bytes < 4096 * k" and two: "2 \<le> k" "k < 2 ^ 35"
  shows "\<exists>mem'. copy_to_addr_space E src self p total_bytes True s mem = Some mem'
    \<and> (\<forall>i. total_bytes \<le> i \<and> i < 4096 * k \<longrightarrow> mem' (byte_addr g i) = mem (byte_addr g i))
    \<and> (\<forall>d < 4096 * k - total_bytes. (g (k - 1) + 1) * 4096 \<le> g (k - 1) * 4096 + total_bytes + d \<and> mem' (of_nat (g (k - 1) * 4096 + total_bytes + d)) = 0)"
proof -
  obtain mem' where c: "copy_to_addr_space E src self p total_bytes True s mem =
      Some (if True \<and> total_bytes < 4096 * k
            then write_phys (of_nat (g (k - 1) * 4096 + total_bytes)) (replicate (4096 * k - total_bytes) 0) mem' else mem')"
    "\<forall>x. (\<forall>i < total_bytes. x \<noteq> byte_addr g i) \<longrightarrow> mem' x = mem x"
    by (rule copy_to_addr_space_eval [OF fr t(1) less_imp_le [OF t(2)], of src True mem])
  let ?a = "g (k - 1) * 4096 + total_bytes" and ?n = "4096 * k - total_bytes"
  have k1: "k - 1 < k" using two by simp
  have g: "g (k - 1) < 2 ^ 40" using fr k1 unfolding frames_at_def by blast
  have bound: "?a + ?n \<le> 2 ^ 64" using g two(2) t(2) by simp
  have tb: "4096 \<le> total_bytes" using t(1) two(1) by simp
  note z = write_zeroes [OF bound, of mem']
  have "write_phys (of_nat ?a) (replicate ?n 0) mem' (byte_addr g i) = mem (byte_addr g i)" if i: "total_bytes \<le> i" "i < 4096 * k" for i
  proof -
    have "4096 * (k - 1) \<le> i" using i t by simp
    then have "i div 4096 = k - 1" using i two by (intro div_nat_eqI) (simp_all add: algebra_simps)
    then have "unat (byte_addr g i) = g (k - 1) * 4096 + i mod 4096" unfolding byte_addr_def using g by (subst unat_of_nat_bound) simp_all
    then have "unat (byte_addr g i) < ?a" using tb by (simp add: less_le_trans [OF _ tb])
    then have "write_phys (of_nat ?a) (replicate ?n 0) mem' (byte_addr g i) = mem' (byte_addr g i)" unfolding z by simp
    moreover have "byte_addr g i \<noteq> byte_addr g i'" if "i' < total_bytes" for i' using byte_addr_inj [OF fr, of i i'] i that t by auto
    ultimately show ?thesis using c(2) by simp
  qed
  moreover have "write_phys (of_nat ?a) (replicate ?n 0) mem' (of_nat (?a + d)) = 0" if d: "d < ?n" for d
  proof -
    have u: "unat (of_nat (?a + d) :: u64) = ?a + d" by (rule unat_of_nat_bound) (use d bound in simp)
    show ?thesis unfolding z u by (rule if_P) (use d in linarith)
  qed
  moreover have "copy_to_addr_space E src self p total_bytes True s mem = Some (write_phys (of_nat ?a) (replicate ?n 0) mem')" unfolding c(1) using t(2) by simp
  ultimately show ?thesis using tb by (intro exI [of _ "write_phys (of_nat ?a) (replicate ?n 0) mem'"]) (simp del: of_nat_add)
qed

text \<open>Two pages of the sample space, mapped to two frames.\<close>

lemma sample_two_frames: "\<exists>s g. frames_at x86_entry sample_space s 0x10 2 g"
proof -
  have en: "4 * max 1 (0x12 - 0x10) \<le> card (free_of sample_pt_mem)" by (simp add: sample_pt_mem_simps)
  have le: "(0x10 :: nat) \<le> 0x12" "(0x12 :: nat) < 2 ^ 35" by simp_all
  obtain F' s' g A' where m: "address_space x86_entry sample_paging F' s'" "inj_on g {0x10..<0x12} \<and> A' = g ` {0x10..<0x12} \<and> A' \<subseteq> free_of sample_pt_mem"
    "\<forall>q. q div 512 ^ 4 = 0 \<longrightarrow> frame_of x86_entry sample_paging s' q = (if 0x10 \<le> q \<and> q < 0x12 then Some (g q) else frame_of x86_entry sample_paging sample_pt_mem q)"
    by (rule Paging_map_frames [OF x86_entry_laws sample_address_space(1) user_flags le en, of User]) auto
  have "inj_on (\<lambda>j. g (0x10 + j)) {..<2}" using m(2) by (intro inj_onI) (auto dest!: inj_onD)
  moreover have "g (0x10 + j) < 2 ^ 40" if "j < 2" for j
  proof -
    have "g (0x10 + j) \<in> free_of sample_pt_mem" using m(2) that by auto
    then show ?thesis by (simp add: sample_pt_mem_simps)
  qed
  ultimately have "frames_at x86_entry sample_space s' 0x10 2 (\<lambda>j. g (0x10 + j))" using m(1,3) by (auto simp: frames_at_def sample_space_simps)
  then show ?thesis by blast
qed

theorem copy_to_addr_space_correct_witness:
  "\<exists>s g mem'. copy_to_addr_space x86_entry (\<lambda>i. of_nat i) sample_space 0x10 5000 False s (\<lambda>_. 7) = Some mem' \<and> mem' (byte_addr g 4999) = of_nat 4999 \<and> mem' (byte_addr g 5000) = 7"
proof -
  obtain s g where "frames_at x86_entry sample_space s 0x10 2 g" using sample_two_frames by blast
  from copy_to_addr_space_correct [OF this, of 5000 False "\<lambda>i. of_nat i" "\<lambda>_. 7"] show ?thesis by (auto intro!: exI [of _ s] exI [of _ g])
qed

theorem copy_to_addr_space_clears_wrong_bytes_witness:
  "\<exists>s g mem'. copy_to_addr_space x86_entry (\<lambda>i. of_nat i) sample_space 0x10 5000 True s (\<lambda>_. 7) = Some mem' \<and> mem' (byte_addr g 5000) = 7"
proof -
  obtain s g where "frames_at x86_entry sample_space s 0x10 2 g" using sample_two_frames by blast
  from copy_to_addr_space_clears_wrong_bytes [OF this, of 5000 "\<lambda>i. of_nat i" "\<lambda>_. 7"] show ?thesis by (auto intro!: exI [of _ s] exI [of _ g])
qed

end
