(* ===== verification/Naming.thy ===== *)
theory Naming
  imports D3OS_Prelude
begin

text \<open>
  The naming service of the kernel: the file system in main memory (\<^verbatim>\<open>kernel/src/naming/tmpfs.rs\<close>), path lookup
  (\<^verbatim>\<open>lookup.rs\<close>), the table of opened objects (\<^verbatim>\<open>open_objects.rs\<close>), the functions of \<^verbatim>\<open>api.rs\<close> and the system calls of
  \<^verbatim>\<open>kernel/src/syscall/sys_naming.rs\<close>.

  Files and directories are shared (\<^verbatim>\<open>Arc\<close>), so they live in a store and are referred to by their position there. Names and paths
  are strings of bytes. A buffer that a call fills is an argument and part of the result.
\<close>

section \<open>Error codes\<close>

datatype Errno = EUNKN | ENOENT | ENOHANDLES | EBADF | EACCES | EEXIST | ENOTDIR | EINVAL | EINVALH | ENOTEMPTY | EBADSTR

fun Errno_code :: "Errno \<Rightarrow> int" where
  "Errno_code EUNKN = -1"
| "Errno_code ENOENT = -2"
| "Errno_code ENOHANDLES = -3"
| "Errno_code EBADF = -4"
| "Errno_code EACCES = -5"
| "Errno_code EEXIST = -6"
| "Errno_code ENOTDIR = -7"
| "Errno_code EINVAL = -8"
| "Errno_code EINVALH = -9"
| "Errno_code ENOTEMPTY = -10"
| "Errno_code EBADSTR = -11"

definition Errno_from :: "int \<Rightarrow> Errno" where
  "Errno_from n = (if n = -2 then ENOENT else if n = -3 then ENOHANDLES else if n = -4 then EBADF else if n = -5 then EACCES
     else if n = -6 then EEXIST else if n = -7 then ENOTDIR else if n = -8 then EINVAL else if n = -9 then EINVALH
     else if n = -10 then ENOTEMPTY else if n = -11 then EBADSTR else EUNKN)"

text \<open>An \<^verbatim>\<open>isize\<close> is an integer in its range; the conversion from \<^verbatim>\<open>usize\<close> wraps.\<close>

definition usize_as_isize :: "nat \<Rightarrow> int" where
  "usize_as_isize n = sint (of_nat n :: u64)"

definition convert_ret_code_to_syscall_result :: "int \<Rightarrow> Errno + nat" where
  "convert_ret_code_to_syscall_result ret_code = (if ret_code < 0 then Inl (Errno_from ret_code) else Inr (nat ret_code))"

definition convert_syscall_result_to_ret_code :: "Errno + nat \<Rightarrow> int" where
  "convert_syscall_result_to_ret_code r = (case r of Inr t \<Rightarrow> usize_as_isize t | Inl e \<Rightarrow> Errno_code e)"

section \<open>Types\<close>

definition READONLY :: u64 where "READONLY = 1"
definition READWRITE :: u64 where "READWRITE = 2"
definition CREATE :: u64 where "CREATE = 3"
definition EXCLUSIVE :: u64 where "EXCLUSIVE = 4"
definition DIRECTORY :: u64 where "DIRECTORY = 5"

definition OpenOptions_all :: u64 where
  "OpenOptions_all = READONLY OR READWRITE OR CREATE OR EXCLUSIVE OR DIRECTORY"

text \<open>\<^verbatim>\<open>from_bits\<close> and \<^verbatim>\<open>contains\<close> of the flags.\<close>

definition OpenOptions_from_bits :: "u64 \<Rightarrow> u64 option" where
  "OpenOptions_from_bits bits = (if bits AND NOT OpenOptions_all = 0 then Some bits else None)"

definition flags_contain :: "u64 \<Rightarrow> u64 \<Rightarrow> bool" where
  "flags_contain flags f \<longleftrightarrow> flags AND f = f"

datatype SeekOrigin = Start | End | Current

definition SeekOrigin_from_primitive :: "u64 \<Rightarrow> SeekOrigin" where
  "SeekOrigin_from_primitive n = (if n = 2 then End else if n = 3 then Current else Start)"

datatype FileType = Directory | Regular | Link

fun FileType_discriminant :: "FileType \<Rightarrow> nat" where
  "FileType_discriminant Directory = 4"
| "FileType_discriminant Regular = 8"
| "FileType_discriminant Link = 10"

record DirEntry =
  file_type :: FileType
  entry_name :: string

record RawDirent =
  d_type :: nat
  d_name :: "u8 list"

definition RawDirent_new :: RawDirent where
  "RawDirent_new = \<lparr>d_type = 0, d_name = replicate 256 0\<rparr>"

definition MODE_FILE :: u32 where "MODE_FILE = 1"
definition MODE_DIR :: u32 where "MODE_DIR = 2"
definition MODE_LINK :: u32 where "MODE_LINK = 3"

definition Mode_is_directory :: "u32 \<Rightarrow> bool" where "Mode_is_directory m \<longleftrightarrow> m AND MODE_DIR = MODE_DIR"
definition Mode_is_file :: "u32 \<Rightarrow> bool" where "Mode_is_file m \<longleftrightarrow> m AND MODE_FILE = MODE_FILE"
definition Mode_is_link :: "u32 \<Rightarrow> bool" where "Mode_is_link m \<longleftrightarrow> m AND MODE_LINK = MODE_LINK"

record Stat =
  st_mode :: u32
  st_size :: nat
  created_time :: u64
  modified_time :: u64
  accessed_time :: u64

definition Stat_new :: "u32 \<Rightarrow> nat \<Rightarrow> Stat" where
  "Stat_new mode sz = \<lparr>st_mode = mode, st_size = sz, created_time = 0, modified_time = 0, accessed_time = 0\<rparr>"

definition Stat_zeroed :: Stat where
  "Stat_zeroed = \<lparr>st_mode = MODE_FILE, st_size = 0, created_time = 0, modified_time = 0, accessed_time = 0\<rparr>"

datatype NamedObject = FileObject nat | DirectoryObject nat

definition as_file :: "NamedObject \<Rightarrow> Errno + nat" where
  "as_file obj = (case obj of FileObject f \<Rightarrow> Inr f | _ \<Rightarrow> Inl EBADF)"

definition as_dir :: "NamedObject \<Rightarrow> Errno + nat" where
  "as_dir obj = (case obj of DirectoryObject d \<Rightarrow> Inr d | _ \<Rightarrow> Inl EBADF)"

definition is_dir :: "NamedObject \<Rightarrow> bool" where
  "is_dir obj \<longleftrightarrow> (case obj of DirectoryObject _ \<Rightarrow> True | _ \<Rightarrow> False)"

section \<open>The file system in main memory\<close>

record File =
  file_data :: "u8 list"
  file_stat :: Stat

datatype TmpFsINode = INode_File nat | INode_Directory nat

record DirInner =
  dir_files :: "(string \<times> TmpFsINode) list"
  dir_stat :: Stat

text \<open>The store; directory 0 is the root.\<close>

record TmpFs =
  fs_files :: "File list"
  fs_dirs :: "DirInner list"

definition File_new :: File where
  "File_new = \<lparr>file_data = [], file_stat = Stat_zeroed\<lparr>st_mode := 0\<rparr>\<rparr>"

definition Dir_new :: DirInner where
  "Dir_new = \<lparr>dir_files = [], dir_stat = Stat_zeroed\<lparr>st_mode := 0\<rparr>\<rparr>"

definition TmpFs_new :: TmpFs where
  "TmpFs_new = \<lparr>fs_files = [], fs_dirs = [Dir_new]\<rparr>"

definition root_dir :: nat where
  "root_dir = 0"

definition inode_object :: "TmpFsINode \<Rightarrow> NamedObject" where
  "inode_object i = (case i of INode_File f \<Rightarrow> FileObject f | INode_Directory d \<Rightarrow> DirectoryObject d)"

definition Dir_lookup :: "TmpFs \<Rightarrow> nat \<Rightarrow> string \<Rightarrow> (Errno + NamedObject) option" where
  "Dir_lookup fs d name = do {
     dir \<leftarrow> idx (fs_dirs fs) d;
     Some (case List.find (\<lambda>(file_name, _). file_name = name) (dir_files dir) of
             Some (_, inode) \<Rightarrow> Inr (inode_object inode)
           | None \<Rightarrow> Inl ENOENT)
   }"

definition Dir_create_file :: "TmpFs \<Rightarrow> nat \<Rightarrow> string \<Rightarrow> ((Errno + NamedObject) \<times> TmpFs) option" where
  "Dir_create_file fs d name = do {
     dir \<leftarrow> idx (fs_dirs fs) d;
     if list_ex (\<lambda>(file_name, _). file_name = name) (dir_files dir) then Some (Inl EEXIST, fs)
     else do {
       let inode = length (fs_files fs);
       Some (Inr (FileObject inode),
         \<lparr>fs_files = fs_files fs @ [File_new], fs_dirs = (fs_dirs fs)[d := dir\<lparr>dir_files := dir_files dir @ [(name, INode_File inode)]\<rparr>]\<rparr>)
     }
   }"

definition Dir_create_dir :: "TmpFs \<Rightarrow> nat \<Rightarrow> string \<Rightarrow> ((Errno + NamedObject) \<times> TmpFs) option" where
  "Dir_create_dir fs d name = do {
     dir \<leftarrow> idx (fs_dirs fs) d;
     if list_ex (\<lambda>(file_name, _). file_name = name) (dir_files dir) then Some (Inl EEXIST, fs)
     else do {
       let inode = length (fs_dirs fs);
       Some (Inr (DirectoryObject inode),
         fs\<lparr>fs_dirs := (fs_dirs fs)[d := dir\<lparr>dir_files := dir_files dir @ [(name, INode_Directory inode)]\<rparr>] @ [Dir_new]\<rparr>)
     }
   }"

definition Dir_stat :: "TmpFs \<Rightarrow> nat \<Rightarrow> Stat option" where
  "Dir_stat fs d = map_option dir_stat (idx (fs_dirs fs) d)"

definition Dir_readdir :: "TmpFs \<Rightarrow> nat \<Rightarrow> nat \<Rightarrow> DirEntry option option" where
  "Dir_readdir fs d index = do {
     dir \<leftarrow> idx (fs_dirs fs) d;
     Some (if index < length (dir_files dir)
           then (case dir_files dir ! index of
                   (name, INode_Directory _) \<Rightarrow> Some \<lparr>file_type = Directory, entry_name = name\<rparr>
                 | (name, INode_File _) \<Rightarrow> Some \<lparr>file_type = Regular, entry_name = name\<rparr>)
           else None)
   }"

definition File_stat :: "TmpFs \<Rightarrow> nat \<Rightarrow> Stat option" where
  "File_stat fs f = map_option file_stat (idx (fs_files fs) f)"

definition File_read :: "TmpFs \<Rightarrow> nat \<Rightarrow> u8 list \<Rightarrow> nat \<Rightarrow> (nat \<times> u8 list) option" where
  "File_read fs f buf offset = do {
     file \<leftarrow> idx (fs_files fs) f;
     let data = file_data file;
     if offset > length data then Some (0, buf)
     else do {
       let len = (if length data - offset < length buf then length data - offset else length buf);
       bytes \<leftarrow> slice_get data offset (offset + len);
       buf \<leftarrow> slice_copy buf 0 len bytes;
       Some (len, buf)
     }
   }"

text \<open>\<^verbatim>\<open>Vec::resize\<close>\<close>

definition vec_resize :: "'a list \<Rightarrow> nat \<Rightarrow> 'a \<Rightarrow> 'a list" where
  "vec_resize xs n v = (if n \<le> length xs then take n xs else xs @ replicate (n - length xs) v)"

definition File_write :: "TmpFs \<Rightarrow> nat \<Rightarrow> u8 list \<Rightarrow> nat \<Rightarrow> (nat \<times> TmpFs) option" where
  "File_write fs f buf offset = do {
     file \<leftarrow> idx (fs_files fs) f;
     stop \<leftarrow> usize_add offset (length buf);
     let data = (if stop > length (file_data file) then vec_resize (file_data file) stop 0 else file_data file);
     data \<leftarrow> slice_copy data offset stop buf;
     Some (length buf, fs\<lparr>fs_files := (fs_files fs)[f := file\<lparr>file_data := data\<rparr>]\<rparr>)
   }"

section \<open>Path lookup\<close>

text \<open>\<^verbatim>\<open>path.split("/")\<close> and \<^verbatim>\<open>join("/")\<close>\<close>

fun split_path :: "string \<Rightarrow> string list" where
  "split_path [] = [[]]"
| "split_path (c # cs) = (if c = CHR ''/'' then [] # split_path cs else (case split_path cs of x # xs \<Rightarrow> (c # x) # xs))"

fun join_path :: "string list \<Rightarrow> string" where
  "join_path [] = []"
| "join_path [x] = x"
| "join_path (x # y # xs) = x @ CHR ''/'' # join_path (y # xs)"

definition check_absolute_path :: "string \<Rightarrow> bool" where
  "check_absolute_path path \<longleftrightarrow> (case path of c # _ \<Rightarrow> c = CHR ''/'' | [] \<Rightarrow> False)"

fun lookup_components :: "TmpFs \<Rightarrow> nat \<Rightarrow> string list \<Rightarrow> (Errno + NamedObject) option" where
  "lookup_components fs current_dir [] = Some (Inl ENOENT)"
| "lookup_components fs current_dir (component # components) = do {
     found \<leftarrow> Dir_lookup fs current_dir component;
     case found of
       Inl _ \<Rightarrow> Some (Inl ENOENT)
     | Inr obj \<Rightarrow>
         if components \<noteq> [] then (case obj of DirectoryObject d \<Rightarrow> lookup_components fs d components | FileObject _ \<Rightarrow> Some (Inl ENOENT))
         else Some (Inr obj)
   }"

definition lookup_named_object :: "TmpFs \<Rightarrow> string \<Rightarrow> (Errno + NamedObject) option" where
  "lookup_named_object fs path =
     (if check_absolute_path path
      then if path = ''/'' then Some (Inr (DirectoryObject root_dir))
           else lookup_components fs root_dir (tl (split_path path))
      else Some (Inl ENOENT))"

definition lookup_dir :: "TmpFs \<Rightarrow> string \<Rightarrow> (Errno + nat) option" where
  "lookup_dir fs path = do {
     r \<leftarrow> lookup_named_object fs path;
     Some (case r of Inl e \<Rightarrow> Inl e | Inr (DirectoryObject d) \<Rightarrow> Inr d | Inr (FileObject _) \<Rightarrow> Inl ENOTDIR)
   }"

section \<open>Opened objects\<close>

definition MAX_OPEN_OBJECTS :: nat where
  "MAX_OPEN_OBJECTS = 0x1000"

record OpenedObject =
  named_object :: NamedObject
  pos :: nat
  options :: u64

record OpenObjectTable =
  open_handles :: "(nat \<times> OpenedObject option) list"
  free_handles :: "nat list"

definition OpenObjectTable_new :: OpenObjectTable where
  "OpenObjectTable_new = \<lparr>open_handles = [], free_handles = replicate MAX_OPEN_OBJECTS 0\<rparr>"

text \<open>The position of the entry in the table, with the object.\<close>

definition lookup_opened_object :: "OpenObjectTable \<Rightarrow> nat \<Rightarrow> Errno + (nat \<times> OpenedObject)" where
  "lookup_opened_object self handle =
     (case position (\<lambda>(h, _). h = handle) (open_handles self) of
        None \<Rightarrow> Inl EINVALH
      | Some i \<Rightarrow> (case snd (open_handles self ! i) of None \<Rightarrow> Inl EINVALH | Some obj \<Rightarrow> Inr (i, obj)))"

definition store_pos :: "OpenObjectTable \<Rightarrow> nat \<Rightarrow> nat \<Rightarrow> OpenObjectTable" where
  "store_pos self i new_pos =
     self\<lparr>open_handles := (open_handles self)[i := (fst (open_handles self ! i), map_option (\<lambda>obj. obj\<lparr>pos := new_pos\<rparr>) (snd (open_handles self ! i)))]\<rparr>"

definition find_free_handle :: "OpenObjectTable \<Rightarrow> nat option \<times> OpenObjectTable" where
  "find_free_handle self =
     (case position (\<lambda>value. value = 0) (free_handles self) of
        None \<Rightarrow> (None, self)
      | Some index \<Rightarrow> (Some index, self\<lparr>free_handles := (free_handles self)[index := 1]\<rparr>))"

definition allocate_handle :: "OpenObjectTable \<Rightarrow> OpenedObject \<Rightarrow> (Errno + nat) \<times> OpenObjectTable" where
  "allocate_handle self opened_object =
     (case find_free_handle self of
        (None, self1) \<Rightarrow> (Inl ENOHANDLES, self1)
      | (Some new_handle, self1) \<Rightarrow> (Inr new_handle, self1\<lparr>open_handles := open_handles self1 @ [(new_handle, Some opened_object)]\<rparr>))"

definition free_handle :: "OpenObjectTable \<Rightarrow> nat \<Rightarrow> ((Errno + nat) \<times> OpenObjectTable) option" where
  "free_handle self handle =
     (case position (\<lambda>(h, _). h = handle) (open_handles self) of
        Some index \<Rightarrow> do {
          oh \<leftarrow> swap_remove (open_handles self) index;
          fh \<leftarrow> upd (free_handles self) index 0;
          Some (Inr 0, \<lparr>open_handles = oh, free_handles = fh\<rparr>)
        }
      | None \<Rightarrow> Some (Inl EINVALH, self))"

section \<open>The naming service\<close>

record naming =
  ROOT :: TmpFs
  OPEN_OBJECTS :: OpenObjectTable
  CWD :: string

definition naming_init :: naming where
  "naming_init = \<lparr>ROOT = TmpFs_new, OPEN_OBJECTS = OpenObjectTable_new, CWD = ''/''\<rparr>"

definition open_object :: "string \<Rightarrow> u64 \<Rightarrow> naming \<Rightarrow> ((Errno + nat) \<times> naming) option" where
  "open_object path flags s = do {
     r \<leftarrow> lookup_named_object (ROOT s) path;
     case r of
       Inl _ \<Rightarrow> Some (Inl ENOENT, s)
     | Inr obj \<Rightarrow>
         if flags_contain flags DIRECTORY \<and> \<not> is_dir obj then Some (Inl ENOTDIR, s)
         else (case allocate_handle (OPEN_OBJECTS s) \<lparr>named_object = obj, pos = 0, options = flags\<rparr> of
                 (h, t) \<Rightarrow> Some (h, s\<lparr>OPEN_OBJECTS := t\<rparr>))
   }"

definition object_write :: "nat \<Rightarrow> u8 list \<Rightarrow> naming \<Rightarrow> ((Errno + nat) \<times> naming) option" where
  "object_write fh buf s =
     (case lookup_opened_object (OPEN_OBJECTS s) fh of
        Inl e \<Rightarrow> Some (Inl e, s)
      | Inr (i, opened_object) \<Rightarrow>
          (case as_file (named_object opened_object) of
             Inl e \<Rightarrow> Some (Inl e, s)
           | Inr file \<Rightarrow> do {
               (bytes_written, fs) \<leftarrow> File_write (ROOT s) file buf (pos opened_object);
               new_pos \<leftarrow> usize_add (pos opened_object) bytes_written;
               Some (Inr bytes_written, s\<lparr>ROOT := fs, OPEN_OBJECTS := store_pos (OPEN_OBJECTS s) i new_pos\<rparr>)
             }))"

definition object_read :: "nat \<Rightarrow> u8 list \<Rightarrow> naming \<Rightarrow> ((Errno + nat) \<times> u8 list \<times> naming) option" where
  "object_read fh buf s =
     (case lookup_opened_object (OPEN_OBJECTS s) fh of
        Inl e \<Rightarrow> Some (Inl e, buf, s)
      | Inr (i, opened_object) \<Rightarrow>
          (case as_file (named_object opened_object) of
             Inl e \<Rightarrow> Some (Inl e, buf, s)
           | Inr file \<Rightarrow> do {
               (bytes_read, buf) \<leftarrow> File_read (ROOT s) file buf (pos opened_object);
               new_pos \<leftarrow> usize_add (pos opened_object) bytes_read;
               Some (Inr bytes_read, buf, s\<lparr>OPEN_OBJECTS := store_pos (OPEN_OBJECTS s) i new_pos\<rparr>)
             }))"

definition object_seek :: "nat \<Rightarrow> nat \<Rightarrow> SeekOrigin \<Rightarrow> naming \<Rightarrow> ((Errno + nat) \<times> naming) option" where
  "object_seek fh offset origin s =
     (case lookup_opened_object (OPEN_OBJECTS s) fh of
        Inl e \<Rightarrow> Some (Inl e, s)
      | Inr (i, opened_object) \<Rightarrow>
          (case as_file (named_object opened_object) of
             Inl e \<Rightarrow> Some (Inl e, s)
           | Inr file \<Rightarrow> do {
               new_pos \<leftarrow> (case origin of
                   Start \<Rightarrow> Some offset
                 | End \<Rightarrow> do { st \<leftarrow> File_stat (ROOT s) file; usize_add (st_size st) offset }
                 | Current \<Rightarrow> usize_add (pos opened_object) offset);
               Some (Inr 0, s\<lparr>OPEN_OBJECTS := store_pos (OPEN_OBJECTS s) i new_pos\<rparr>)
             }))"

definition object_readdir :: "nat \<Rightarrow> naming \<Rightarrow> ((Errno + DirEntry option) \<times> naming) option" where
  "object_readdir fh s =
     (case lookup_opened_object (OPEN_OBJECTS s) fh of
        Inl e \<Rightarrow> Some (Inl e, s)
      | Inr (i, opened_object) \<Rightarrow>
          (case as_dir (named_object opened_object) of
             Inl e \<Rightarrow> Some (Inl e, s)
           | Inr dir \<Rightarrow> do {
               dir_entry \<leftarrow> Dir_readdir (ROOT s) dir (pos opened_object);
               new_pos \<leftarrow> usize_add (pos opened_object) 1;
               Some (Inr dir_entry, s\<lparr>OPEN_OBJECTS := store_pos (OPEN_OBJECTS s) i new_pos\<rparr>)
             }))"

definition object_close :: "nat \<Rightarrow> naming \<Rightarrow> ((Errno + nat) \<times> naming) option" where
  "object_close handle s = do { (r, t) \<leftarrow> free_handle (OPEN_OBJECTS s) handle; Some (r, s\<lparr>OPEN_OBJECTS := t\<rparr>) }"

section \<open>The functions of the service\<close>

text \<open>The parent and the name of a new object; splitting a string gives at least one component.\<close>

definition parent_of :: "string list \<Rightarrow> string" where
  "parent_of components = (if length components = 1 then ''/'' else join_path components)"

definition create_at :: "(TmpFs \<Rightarrow> nat \<Rightarrow> string \<Rightarrow> ((Errno + NamedObject) \<times> TmpFs) option) \<Rightarrow> string \<Rightarrow> naming \<Rightarrow> ((Errno + nat) \<times> naming) option" where
  "create_at create path s = do {
     let components = split_path path;
     let new_name = last components;
     r \<leftarrow> lookup_dir (ROOT s) (parent_of (butlast components));
     case r of
       Inl _ \<Rightarrow> Some (Inl ENOTDIR, s)
     | Inr dir \<Rightarrow> do {
         (r, fs) \<leftarrow> create (ROOT s) dir new_name;
         Some (case r of Inl _ \<Rightarrow> Inl ENOTDIR | Inr _ \<Rightarrow> Inr 0, s\<lparr>ROOT := fs\<rparr>)
       }
   }"

definition api_mkdir :: "string \<Rightarrow> naming \<Rightarrow> ((Errno + nat) \<times> naming) option" where
  "api_mkdir path s = create_at Dir_create_dir path s"

definition api_touch :: "string \<Rightarrow> naming \<Rightarrow> ((Errno + nat) \<times> naming) option" where
  "api_touch path s = create_at Dir_create_file path s"

definition api_open :: "string \<Rightarrow> u64 \<Rightarrow> naming \<Rightarrow> ((Errno + nat) \<times> naming) option" where
  "api_open path flags s = do {
     (r, s1) \<leftarrow> open_object path flags s;
     case r of
       Inr h \<Rightarrow> Some (Inr h, s1)
     | Inl e \<Rightarrow>
         if flags_contain flags CREATE
         then do {
           (r, s2) \<leftarrow> api_touch path s1;
           case r of Inl e \<Rightarrow> Some (Inl e, s2) | Inr _ \<Rightarrow> open_object path flags s2
         }
         else Some (Inl e, s1)
   }"

text \<open>\<open>wanted\<close> tells whether the caller passed a place for the entry; the entry is the second result.\<close>

definition api_readdir :: "nat \<Rightarrow> bool \<Rightarrow> naming \<Rightarrow> ((Errno + nat) \<times> RawDirent option \<times> naming) option" where
  "api_readdir dir_handle wanted s = do {
     (r, s1) \<leftarrow> object_readdir dir_handle s;
     case r of
       Inl e \<Rightarrow> Some (Inl e, None, s1)
     | Inr None \<Rightarrow> Some (Inr 0, None, s1)
     | Inr (Some entry) \<Rightarrow> do {
         let name_bytes = map of_char (entry_name entry);
         let len = min (length name_bytes) 255;
         name \<leftarrow> slice_copy (d_name RawDirent_new) 0 len (take len name_bytes);
         let de = \<lparr>d_type = FileType_discriminant (file_type entry), d_name = name\<rparr>;
         Some (if wanted then (Inr 1, Some de, s1) else (Inl EUNKN, None, s1))
       }
   }"

definition api_cwd :: "u8 list \<Rightarrow> naming \<Rightarrow> ((Errno + nat) \<times> u8 list) option" where
  "api_cwd buffer s = do {
     let cwd_bytes = map of_char (CWD s);
     rust_assert (length buffer \<ge> 1);
     let len_to_copy = min (length buffer - 1) (length cwd_bytes);
     buffer \<leftarrow> slice_copy buffer 0 len_to_copy (take len_to_copy cwd_bytes);
     let buffer = (if length buffer > len_to_copy then buffer[len_to_copy := 0] else buffer);
     Some (Inr (len_to_copy + 1), buffer)
   }"

definition api_cd :: "string \<Rightarrow> naming \<Rightarrow> ((Errno + nat) \<times> naming) option" where
  "api_cd path s = do {
     r \<leftarrow> lookup_dir (ROOT s) path;
     Some (case r of Inr _ \<Rightarrow> (Inr 0, s\<lparr>CWD := path\<rparr>) | Inl _ \<Rightarrow> (Inl ENOTDIR, s))
   }"

section \<open>System calls\<close>

text \<open>
  A path argument is the string that \<^verbatim>\<open>ptr_to_string\<close> reads from user memory, or its error. A buffer is \<open>None\<close> for the null
  pointer.
\<close>

definition sys_open :: "Errno + string \<Rightarrow> u64 \<Rightarrow> naming \<Rightarrow> (int \<times> naming) option" where
  "sys_open path flag_bits s = do {
     flags \<leftarrow> OpenOptions_from_bits flag_bits;
     p \<leftarrow> (case path of Inl _ \<Rightarrow> None | Inr p \<Rightarrow> Some p);
     (r, s1) \<leftarrow> api_open p flags s;
     Some (convert_syscall_result_to_ret_code r, s1)
   }"

definition sys_read :: "nat \<Rightarrow> u8 list option \<Rightarrow> naming \<Rightarrow> (int \<times> u8 list option \<times> naming) option" where
  "sys_read fh buffer s =
     (case buffer of
        None \<Rightarrow> Some (Errno_code EINVAL, buffer, s)
      | Some buf \<Rightarrow>
          if buf = [] then Some (Errno_code EINVAL, buffer, s)
          else do { (r, buf, s1) \<leftarrow> object_read fh buf s; Some (convert_syscall_result_to_ret_code r, Some buf, s1) })"

definition sys_write :: "nat \<Rightarrow> u8 list option \<Rightarrow> naming \<Rightarrow> (int \<times> naming) option" where
  "sys_write fh buffer s =
     (case buffer of
        None \<Rightarrow> Some (Errno_code EINVAL, s)
      | Some buf \<Rightarrow>
          if buf = [] then Some (Errno_code EINVAL, s)
          else do { (r, s1) \<leftarrow> object_write fh buf s; Some (convert_syscall_result_to_ret_code r, s1) })"

definition sys_seek :: "nat \<Rightarrow> nat \<Rightarrow> u64 \<Rightarrow> naming \<Rightarrow> (int \<times> naming) option" where
  "sys_seek fh offset origin s = do {
     (r, s1) \<leftarrow> object_seek fh offset (SeekOrigin_from_primitive origin) s;
     Some (convert_syscall_result_to_ret_code r, s1)
   }"

definition sys_close :: "nat \<Rightarrow> naming \<Rightarrow> (int \<times> naming) option" where
  "sys_close fh s = do { (r, s1) \<leftarrow> object_close fh s; Some (convert_syscall_result_to_ret_code r, s1) }"

definition sys_mkdir :: "Errno + string \<Rightarrow> naming \<Rightarrow> (int \<times> naming) option" where
  "sys_mkdir path s = do {
     p \<leftarrow> (case path of Inl _ \<Rightarrow> None | Inr p \<Rightarrow> Some p);
     (r, s1) \<leftarrow> api_mkdir p s;
     Some (convert_syscall_result_to_ret_code r, s1)
   }"

definition sys_touch :: "Errno + string \<Rightarrow> naming \<Rightarrow> (int \<times> naming) option" where
  "sys_touch path s = do {
     p \<leftarrow> (case path of Inl _ \<Rightarrow> None | Inr p \<Rightarrow> Some p);
     (r, s1) \<leftarrow> api_touch p s;
     Some (convert_syscall_result_to_ret_code r, s1)
   }"

text \<open>\<open>buffer_length\<close> is compared with the size of a \<^verbatim>\<open>RawDirent\<close>, 264 bytes.\<close>

definition sys_readdir :: "nat \<Rightarrow> bool \<Rightarrow> nat \<Rightarrow> naming \<Rightarrow> (int \<times> RawDirent option \<times> naming) option" where
  "sys_readdir fh is_null buffer_length s =
     (if is_null \<or> buffer_length = 0 \<or> buffer_length < 264 then Some (Errno_code EINVAL, None, s)
      else do { (r, de, s1) \<leftarrow> api_readdir fh True s; Some (convert_syscall_result_to_ret_code r, de, s1) })"

definition sys_cwd :: "u8 list option \<Rightarrow> naming \<Rightarrow> (int \<times> u8 list option) option" where
  "sys_cwd buffer s =
     (case buffer of
        None \<Rightarrow> Some (Errno_code EINVAL, buffer)
      | Some buf \<Rightarrow>
          if buf = [] then Some (Errno_code EINVAL, buffer)
          else do { (r, buf) \<leftarrow> api_cwd buf s; Some (convert_syscall_result_to_ret_code r, Some buf) })"

definition sys_cd :: "Errno + string \<Rightarrow> naming \<Rightarrow> (int \<times> naming) option" where
  "sys_cd path s = do {
     p \<leftarrow> (case path of Inl _ \<Rightarrow> None | Inr p \<Rightarrow> Some p);
     (r, s1) \<leftarrow> api_cd p s;
     Some (convert_syscall_result_to_ret_code r, s1)
   }"

end
