(* ===== verification/Naming_Properties.thy ===== *)
theory Naming_Properties
  imports Naming
begin

text \<open>
  The naming service never loses an object and never follows a dangling reference, whatever system calls a program makes; what is
  written to a file is read back; a new object is found under its path and all others stay where they were. The table of handles can
  give the same handle to two objects.
\<close>

section \<open>Positions in lists\<close>

lemma set_swap_removed: "i < length xs \<Longrightarrow> set ((butlast xs)[i := last xs]) \<subseteq> set xs"
  by (cases "xs = []") (auto dest!: in_set_butlastD set_update_subset_insert [THEN subsetD])

text \<open>One more and one less non-zero entry.\<close>

lemma count_used:
  assumes "i < length xs"
  shows "xs ! i = (0 :: nat) \<Longrightarrow> length (filter (\<lambda>v. v \<noteq> 0) (xs[i := 1])) = Suc (length (filter (\<lambda>v. v \<noteq> 0) xs))"
    "length (filter (\<lambda>v. v \<noteq> 0) xs) \<le> Suc (length (filter (\<lambda>v. v \<noteq> 0) (xs[i := 0])))"
proof -
  have xs: "xs = take i xs @ xs ! i # drop (Suc i) xs" using assms by (simp add: id_take_nth_drop)
  have u: "xs[i := v] = take i xs @ v # drop (Suc i) xs" for v using assms by (simp add: upd_conv_take_nth_drop)
  show "xs ! i = 0 \<Longrightarrow> length (filter (\<lambda>v. v \<noteq> 0) (xs[i := 1])) = Suc (length (filter (\<lambda>v. v \<noteq> 0) xs))"
    unfolding u by (subst (2) xs) simp
  show "length (filter (\<lambda>v. v \<noteq> 0) xs) \<le> Suc (length (filter (\<lambda>v. v \<noteq> 0) (xs[i := 0])))"
    unfolding u by (subst xs) simp
qed

section \<open>Well-formed states\<close>

definition inode_ok :: "TmpFs \<Rightarrow> TmpFsINode \<Rightarrow> bool" where
  "inode_ok fs i \<longleftrightarrow> (case i of INode_File f \<Rightarrow> f < length (fs_files fs) | INode_Directory d \<Rightarrow> d < length (fs_dirs fs))"

definition object_ok :: "TmpFs \<Rightarrow> NamedObject \<Rightarrow> bool" where
  "object_ok fs obj \<longleftrightarrow> (case obj of FileObject f \<Rightarrow> f < length (fs_files fs) | DirectoryObject d \<Rightarrow> d < length (fs_dirs fs))"

lemma object_ok_simps [simp]:
  "object_ok fs (FileObject f) \<longleftrightarrow> f < length (fs_files fs)" "object_ok fs (DirectoryObject d) \<longleftrightarrow> d < length (fs_dirs fs)"
  by (simp_all add: object_ok_def)

text \<open>References are valid, and the names in a directory are different. The recorded size of a file is never updated.\<close>

definition file_ok :: "File \<Rightarrow> bool" where
  "file_ok file \<longleftrightarrow> st_size (file_stat file) = 0 \<and> length (file_data file) < 2 ^ 64"

definition fs_wf :: "TmpFs \<Rightarrow> bool" where
  "fs_wf fs \<longleftrightarrow> fs_dirs fs \<noteq> [] \<and> (\<forall>file \<in> set (fs_files fs). file_ok file)
     \<and> (\<forall>dir \<in> set (fs_dirs fs). distinct (map fst (dir_files dir)) \<and> (\<forall>(n, i) \<in> set (dir_files dir). inode_ok fs i))"

text \<open>There are at least as many used slots as open handles, and an open handle refers to an object.\<close>

definition table_wf :: "TmpFs \<Rightarrow> OpenObjectTable \<Rightarrow> bool" where
  "table_wf fs t \<longleftrightarrow> length (free_handles t) = MAX_OPEN_OBJECTS \<and> length (open_handles t) \<le> length (filter (\<lambda>v. v \<noteq> 0) (free_handles t))
     \<and> (\<forall>(h, x) \<in> set (open_handles t). h < MAX_OPEN_OBJECTS \<and> (\<exists>obj. x = Some obj \<and> object_ok fs (named_object obj) \<and> pos obj < 2 ^ 64))"

definition naming_wf :: "naming \<Rightarrow> bool" where
  "naming_wf s \<longleftrightarrow> fs_wf (ROOT s) \<and> table_wf (ROOT s) (OPEN_OBJECTS s)"

lemma naming_init_wf: "naming_wf naming_init"
  by (simp add: naming_wf_def naming_init_def fs_wf_def TmpFs_new_def Dir_new_def table_wf_def OpenObjectTable_new_def)

text \<open>Stores only grow.\<close>

definition fs_le :: "TmpFs \<Rightarrow> TmpFs \<Rightarrow> bool" where
  "fs_le fs fs' \<longleftrightarrow> length (fs_files fs) \<le> length (fs_files fs') \<and> length (fs_dirs fs) \<le> length (fs_dirs fs')"

lemma object_ok_le: "fs_le fs fs' \<Longrightarrow> object_ok fs obj \<Longrightarrow> object_ok fs' obj"
  by (auto simp: fs_le_def object_ok_def split: NamedObject.splits)

lemma inode_ok_le: "fs_le fs fs' \<Longrightarrow> inode_ok fs i \<Longrightarrow> inode_ok fs' i"
  by (auto simp: fs_le_def inode_ok_def split: TmpFsINode.splits)

lemma table_wf_le: "fs_le fs fs' \<Longrightarrow> table_wf fs t \<Longrightarrow> table_wf fs' t"
  unfolding table_wf_def using object_ok_le by fastforce

section \<open>Directories\<close>

lemma find_name_SomeD: "List.find (\<lambda>(n, _). n = name) xs = Some (m, i) \<Longrightarrow> (m, i) \<in> set xs \<and> m = name"
  by (induction xs) (auto split: if_splits)

lemma fs_wf_dir: "fs_wf fs \<Longrightarrow> d < length (fs_dirs fs) \<Longrightarrow>
    distinct (map fst (dir_files (fs_dirs fs ! d))) \<and> (\<forall>(n, i) \<in> set (dir_files (fs_dirs fs ! d)). inode_ok fs i)"
  by (auto simp: fs_wf_def)

lemma Dir_lookup_returns:
  assumes "fs_wf fs" "d < length (fs_dirs fs)"
  obtains r where "Dir_lookup fs d name = Some r" "\<And>obj. r = Inr obj \<Longrightarrow> object_ok fs obj"
proof -
  let ?r = "case List.find (\<lambda>(n, _). n = name) (dir_files (fs_dirs fs ! d)) of Some (_, inode) \<Rightarrow> Inr (inode_object inode) | None \<Rightarrow> Inl ENOENT"
  have "object_ok fs obj" if "?r = Inr obj" for obj
    using that fs_wf_dir [OF assms] by (auto simp: object_ok_def inode_ok_def inode_object_def split: option.splits TmpFsINode.splits dest!: find_name_SomeD)
  moreover have "Dir_lookup fs d name = Some ?r" using assms(2) by (simp add: Dir_lookup_def panic_simps)
  ultimately show thesis using that by blast
qed

lemma lookup_components_returns:
  assumes "fs_wf fs" "d < length (fs_dirs fs)"
  shows "\<exists>r. lookup_components fs d cs = Some r \<and> (\<forall>obj. r = Inr obj \<longrightarrow> object_ok fs obj)"
  using assms(2)
proof (induction cs arbitrary: d)
  case (Cons c cs)
  obtain r where r: "Dir_lookup fs d c = Some r" "\<And>obj. r = Inr obj \<Longrightarrow> object_ok fs obj"
    using Dir_lookup_returns [OF assms(1) Cons.prems] by blast
  show ?case
  proof (cases r)
    case (Inr obj)
    with r show ?thesis by (cases obj) (use Cons.IH in auto)
  qed (use r in simp)
qed simp

lemma lookup_returns:
  assumes "fs_wf fs"
  obtains r where "lookup_named_object fs path = Some r" "\<And>obj. r = Inr obj \<Longrightarrow> object_ok fs obj"
proof -
  have "0 < length (fs_dirs fs)" using assms by (simp add: fs_wf_def)
  with lookup_components_returns [OF assms, of 0 "tl (split_path path)"] obtain r where
    r: "lookup_components fs 0 (tl (split_path path)) = Some r" "\<And>obj. r = Inr obj \<Longrightarrow> object_ok fs obj" by blast
  consider "\<not> check_absolute_path path" | "check_absolute_path path" "path = ''/''" | "check_absolute_path path" "path \<noteq> ''/''" by blast
  then show thesis
  proof cases
    case 1
    then show thesis by (intro that [of "Inl ENOENT"]) (simp_all add: lookup_named_object_def)
  next
    case 2
    then show thesis using \<open>0 < length (fs_dirs fs)\<close> by (intro that [of "Inr (DirectoryObject root_dir)"]) (auto simp: lookup_named_object_def root_dir_def)
  next
    case 3
    then show thesis using r by (intro that [of r]) (simp_all add: lookup_named_object_def root_dir_def)
  qed
qed

lemma lookup_dir_returns:
  assumes "fs_wf fs"
  obtains r where "lookup_dir fs path = Some r" "\<And>d. r = Inr d \<Longrightarrow> d < length (fs_dirs fs)"
proof -
  obtain r where "lookup_named_object fs path = Some r" "\<And>obj. r = Inr obj \<Longrightarrow> object_ok fs obj" using lookup_returns [OF assms] by blast
  then show thesis by (intro that [of "case r of Inl e \<Rightarrow> Inl e | Inr (DirectoryObject d) \<Rightarrow> Inr d | Inr (FileObject _) \<Rightarrow> Inl ENOTDIR"])
    (auto simp: lookup_dir_def split: sum.splits NamedObject.splits)
qed

text \<open>Both ways to create an object append an entry to the directory and an element to one of the two stores.\<close>

definition creates :: "TmpFs \<Rightarrow> nat \<Rightarrow> string \<Rightarrow> TmpFsINode \<Rightarrow> TmpFs \<Rightarrow> bool" where
  "creates fs d name inode fs' \<longleftrightarrow> d < length (fs_dirs fs) \<and> name \<notin> fst ` set (dir_files (fs_dirs fs ! d)) \<and> fs_le fs fs' \<and> inode_ok fs' inode
     \<and> (\<forall>e < length (fs_dirs fs). dir_files (fs_dirs fs' ! e) = (if e = d then dir_files (fs_dirs fs ! d) @ [(name, inode)] else dir_files (fs_dirs fs ! e)))
     \<and> (\<forall>e. length (fs_dirs fs) \<le> e \<and> e < length (fs_dirs fs') \<longrightarrow> dir_files (fs_dirs fs' ! e) = [])
     \<and> (\<forall>f < length (fs_files fs). fs_files fs' ! f = fs_files fs ! f) \<and> set (fs_files fs') \<subseteq> insert File_new (set (fs_files fs))"

lemma creates_le: "creates fs d name inode fs' \<Longrightarrow> fs_le fs fs'" and fs_le_refl: "fs_le fs fs"
  by (simp_all add: creates_def fs_le_def)

lemma list_ex_name: "list_ex (\<lambda>(n, _). n = name) xs \<longleftrightarrow> name \<in> fst ` set xs"
  by (force simp: list_ex_iff)

lemma create_file_cases:
  assumes "fs_wf fs" "d < length (fs_dirs fs)"
  shows "(name \<in> fst ` set (dir_files (fs_dirs fs ! d)) \<and> Dir_create_file fs d name = Some (Inl EEXIST, fs)) \<or>
    (\<exists>fs'. Dir_create_file fs d name = Some (Inr (FileObject (length (fs_files fs))), fs') \<and> creates fs d name (INode_File (length (fs_files fs))) fs'
       \<and> fs_files fs' = fs_files fs @ [File_new])"
  using assms(2) by (auto simp: Dir_create_file_def panic_simps list_ex_name creates_def fs_le_def inode_ok_def nth_append nth_list_update Let_def)

lemma create_dir_cases:
  assumes "fs_wf fs" "d < length (fs_dirs fs)"
  shows "(name \<in> fst ` set (dir_files (fs_dirs fs ! d)) \<and> Dir_create_dir fs d name = Some (Inl EEXIST, fs)) \<or>
    (\<exists>fs'. Dir_create_dir fs d name = Some (Inr (DirectoryObject (length (fs_dirs fs))), fs') \<and> creates fs d name (INode_Directory (length (fs_dirs fs))) fs'
       \<and> fs_files fs' = fs_files fs)"
  using assms(2) by (auto simp: Dir_create_dir_def panic_simps list_ex_name creates_def fs_le_def inode_ok_def nth_append nth_list_update Dir_new_def Let_def)

lemma creates_wf:
  assumes wf: "fs_wf fs" and c: "creates fs d name inode fs'"
  shows "fs_wf fs'"
proof -
  note C = c [unfolded creates_def]
  have "distinct (map fst (dir_files (fs_dirs fs' ! e))) \<and> (\<forall>(n, i) \<in> set (dir_files (fs_dirs fs' ! e)). inode_ok fs' i)" if e: "e < length (fs_dirs fs')" for e
  proof (cases "e < length (fs_dirs fs)")
    case True
    note D = fs_wf_dir [OF wf True]
    then have "\<forall>(n, i) \<in> set (dir_files (fs_dirs fs ! e)). inode_ok fs' i" using inode_ok_le C by fast
    with D C True show ?thesis by (auto simp: image_iff)
  qed (use C e in simp)
  moreover have "fs_dirs fs' \<noteq> []" using C by (auto simp: fs_le_def)
  moreover have "\<forall>file \<in> set (fs_files fs'). file_ok file" using C wf by (auto simp: fs_wf_def file_ok_def File_new_def Stat_zeroed_def)
  ultimately show ?thesis unfolding fs_wf_def by (metis in_set_conv_nth)
qed

section \<open>System calls\<close>

text \<open>The calls a program can make, with the arguments that matter; buffers for results are given by their contents.\<close>

datatype syscall =
    Sys_open "Errno + string" u64
  | Sys_read nat "u8 list option"
  | Sys_write nat "u8 list option"
  | Sys_seek nat nat u64
  | Sys_close nat
  | Sys_mkdir "Errno + string"
  | Sys_touch "Errno + string"
  | Sys_readdir nat bool nat
  | Sys_cwd "u8 list option"
  | Sys_cd "Errno + string"

fun exec :: "syscall \<Rightarrow> naming \<Rightarrow> (int \<times> naming) option" where
  "exec (Sys_open path flags) s = sys_open path flags s"
| "exec (Sys_read fh buf) s = map_option (\<lambda>(r, _, s'). (r, s')) (sys_read fh buf s)"
| "exec (Sys_write fh buf) s = sys_write fh buf s"
| "exec (Sys_seek fh offset origin) s = sys_seek fh offset origin s"
| "exec (Sys_close fh) s = sys_close fh s"
| "exec (Sys_mkdir path) s = sys_mkdir path s"
| "exec (Sys_touch path) s = sys_touch path s"
| "exec (Sys_readdir fh null n) s = map_option (\<lambda>(r, _, s'). (r, s')) (sys_readdir fh null n s)"
| "exec (Sys_cwd buf) s = map_option (\<lambda>(r, _). (r, s)) (sys_cwd buf s)"
| "exec (Sys_cd path) s = sys_cd path s"

text \<open>
  The arguments the kernel does not survive: flag bits that do not exist, a path that is not a string, and positions that leave the 64 bits.
\<close>

definition pos_fits :: "naming \<Rightarrow> nat \<Rightarrow> nat \<Rightarrow> bool" where
  "pos_fits s fh n \<longleftrightarrow> (\<forall>i obj. lookup_opened_object (OPEN_OBJECTS s) fh = Inr (i, obj) \<longrightarrow> pos obj + n < 2 ^ 64)"

fun call_ok :: "syscall \<Rightarrow> naming \<Rightarrow> bool" where
  "call_ok (Sys_open path flags) s \<longleftrightarrow> \<not> isl path \<and> OpenOptions_from_bits flags \<noteq> None"
| "call_ok (Sys_read fh buf) s \<longleftrightarrow> True"
| "call_ok (Sys_write fh buf) s \<longleftrightarrow> pos_fits s fh (length (case buf of None \<Rightarrow> [] | Some b \<Rightarrow> b))"
| "call_ok (Sys_seek fh offset origin) s \<longleftrightarrow> offset < 2 ^ 64 \<and> pos_fits s fh offset"
| "call_ok (Sys_readdir fh null n) s \<longleftrightarrow> pos_fits s fh 1"
| "call_ok (Sys_mkdir path) s \<longleftrightarrow> \<not> isl path"
| "call_ok (Sys_touch path) s \<longleftrightarrow> \<not> isl path"
| "call_ok (Sys_cd path) s \<longleftrightarrow> \<not> isl path"
| "call_ok c s \<longleftrightarrow> True"

lemma naming_wfD:
  assumes "naming_wf s"
  shows "fs_wf (ROOT s)" "table_wf (ROOT s) (OPEN_OBJECTS s)"
  using assms by (simp_all add: naming_wf_def)

lemma lookup_opened_SomeD:
  assumes "table_wf fs t" "lookup_opened_object t fh = Inr (i, obj)"
  shows "i < length (open_handles t)" "open_handles t ! i = (fh, Some obj)" "object_ok fs (named_object obj)" "pos obj < 2 ^ 64"
proof -
  obtain x where p: "position (\<lambda>(h, _). h = fh) (open_handles t) = Some i" "snd (open_handles t ! i) = Some obj"
    using assms(2) by (auto simp: lookup_opened_object_def split: option.splits)
  then show i: "i < length (open_handles t)" and e: "open_handles t ! i = (fh, Some obj)"
    using position_SomeD [OF p(1)] by (auto simp: case_prod_beta prod_eq_iff)
  show "object_ok fs (named_object obj)" "pos obj < 2 ^ 64" using assms(1) nth_mem [OF i] unfolding e table_wf_def by auto
qed

lemma store_pos_wf:
  assumes wf: "table_wf fs t" and i: "i < length (open_handles t)" and p: "p < 2 ^ 64"
  shows "table_wf fs (store_pos t i p)"
proof -
  obtain h obj where e: "open_handles t ! i = (h, Some obj)" "h < MAX_OPEN_OBJECTS" "object_ok fs (named_object obj)"
    using wf nth_mem [OF i] by (cases "open_handles t ! i") (auto simp: table_wf_def)
  then have "set (open_handles (store_pos t i p)) \<subseteq> insert (h, Some (obj\<lparr>pos := p\<rparr>)) (set (open_handles t))"
    by (simp add: store_pos_def set_update_subset_insert)
  moreover have "length (open_handles (store_pos t i p)) = length (open_handles t)" "free_handles (store_pos t i p) = free_handles t"
    by (simp_all add: store_pos_def)
  ultimately show ?thesis using wf e p unfolding table_wf_def by auto
qed

lemma File_write_returns:
  assumes "fs_wf fs" "f < length (fs_files fs)" "offset + length buf < 2 ^ 64"
  shows "\<exists>data. File_write fs f buf offset = Some (length buf, fs\<lparr>fs_files := (fs_files fs)[f := (fs_files fs ! f)\<lparr>file_data := data\<rparr>]\<rparr>)
    \<and> fs_wf (fs\<lparr>fs_files := (fs_files fs)[f := (fs_files fs ! f)\<lparr>file_data := data\<rparr>]\<rparr>)
    \<and> data = take offset (file_data (fs_files fs ! f) @ replicate (offset - length (file_data (fs_files fs ! f))) 0) @ buf @ drop (offset + length buf) (file_data (fs_files fs ! f))"
proof -
  let ?d = "file_data (fs_files fs ! f)"
  let ?data = "take offset (?d @ replicate (offset - length ?d) 0) @ buf @ drop (offset + length buf) ?d"
  let ?fs = "fs\<lparr>fs_files := (fs_files fs)[f := (fs_files fs ! f)\<lparr>file_data := ?data\<rparr>]\<rparr>"
  have ok: "file_ok (fs_files fs ! f)" using assms(1,2) by (simp add: fs_wf_def)
  have w: "File_write fs f buf offset = Some (length buf, ?fs)"
    using assms(2,3) by (auto simp: File_write_def panic_simps vec_resize_def Let_def)
  have "file_ok ((fs_files fs ! f)\<lparr>file_data := ?data\<rparr>)" using ok assms(3) by (auto simp: file_ok_def)
  then have "\<forall>file \<in> set (fs_files ?fs). file_ok file" using assms(1) set_update_subset_insert [of "fs_files fs" f] by (fastforce simp: fs_wf_def)
  moreover have "inode_ok ?fs = inode_ok fs" by (simp add: inode_ok_def fun_eq_iff split: TmpFsINode.split)
  ultimately have "fs_wf ?fs" using assms(1) by (simp add: fs_wf_def)
  with w show ?thesis by blast
qed

lemma File_read_returns:
  assumes "f < length (fs_files fs)"
  shows "File_read fs f buf offset = Some (min (length buf) (length (file_data (fs_files fs ! f)) - offset),
    take (length buf) (drop offset (file_data (fs_files fs ! f))) @ drop (length (file_data (fs_files fs ! f)) - offset) buf)"
  using assms by (auto simp: File_read_def panic_simps Let_def min_def)

text \<open>Each operation returns and keeps the state well-formed.\<close>

definition safe :: "('r \<times> naming) option \<Rightarrow> bool" where
  "safe c \<longleftrightarrow> (\<exists>r s'. c = Some (r, s') \<and> naming_wf s')"

lemma safeI: "naming_wf s' \<Longrightarrow> safe (Some (r, s'))"
  by (simp add: safe_def)

lemma open_object_safe:
  assumes "naming_wf s"
  shows "safe (open_object path flags s)"
proof -
  note W = naming_wfD [OF assms]
  obtain r where r: "lookup_named_object (ROOT s) path = Some r" "\<And>obj. r = Inr obj \<Longrightarrow> object_ok (ROOT s) obj" using lookup_returns [OF W(1)] by blast
  show ?thesis
  proof (cases "\<exists>obj. r = Inr obj \<and> \<not> (flags_contain flags DIRECTORY \<and> \<not> is_dir obj)")
    case True
    then obtain obj where obj: "r = Inr obj" "\<not> (flags_contain flags DIRECTORY \<and> \<not> is_dir obj)" by blast
    let ?o = "\<lparr>named_object = obj, pos = 0, options = flags\<rparr>"
    obtain h t where a: "allocate_handle (OPEN_OBJECTS s) ?o = (h, t)" by fastforce
    have "table_wf (ROOT s) t"
    proof (cases "position (\<lambda>value. value = 0) (free_handles (OPEN_OBJECTS s))")
      case None
      with a W(2) show ?thesis by (auto simp: allocate_handle_def find_free_handle_def)
    next
      case (Some i)
      note P = position_SomeD [OF Some]
      with count_used(1) [of i "free_handles (OPEN_OBJECTS s)"] a W(2) Some r(2) [OF obj(1)] show ?thesis
        by (auto simp: allocate_handle_def find_free_handle_def table_wf_def)
    qed
    then show ?thesis using W(1) r(1) obj a by (auto simp: open_object_def safe_def naming_wf_def)
  next
    case False
    then show ?thesis using r(1) assms by (cases r) (auto simp: open_object_def safe_def)
  qed
qed

lemma object_write_safe:
  assumes "naming_wf s" "pos_fits s fh (length buf)"
  shows "safe (object_write fh buf s)"
proof (cases "\<exists>i obj f. lookup_opened_object (OPEN_OBJECTS s) fh = Inr (i, obj) \<and> named_object obj = FileObject f")
  case True
  then obtain i obj f where l: "lookup_opened_object (OPEN_OBJECTS s) fh = Inr (i, obj)" "named_object obj = FileObject f" by blast
  note W = naming_wfD [OF assms(1)] and L = lookup_opened_SomeD [OF naming_wfD(2) [OF assms(1)] l(1)]
  have p: "pos obj + length buf < 2 ^ 64" using assms(2) l(1) by (simp add: pos_fits_def)
  from File_write_returns [OF W(1) _ p] L(3) l(2) obtain fs where w: "File_write (ROOT s) f buf (pos obj) = Some (length buf, fs)" "fs_wf fs" "fs_le (ROOT s) fs"
    by (fastforce simp: fs_le_def)
  have "table_wf fs (store_pos (OPEN_OBJECTS s) i (pos obj + length buf))" using store_pos_wf [OF table_wf_le [OF w(3) W(2)] L(1) p] .
  with w l p show ?thesis by (simp add: object_write_def as_file_def panic_simps safe_def naming_wf_def)
next
  case False
  then show ?thesis using assms(1) by (auto simp: object_write_def as_file_def safe_def split: sum.splits NamedObject.splits)
qed

lemma store_pos_safe: "naming_wf s \<Longrightarrow> i < length (open_handles (OPEN_OBJECTS s)) \<Longrightarrow> p < 2 ^ 64 \<Longrightarrow> naming_wf (s\<lparr>OPEN_OBJECTS := store_pos (OPEN_OBJECTS s) i p\<rparr>)"
  using store_pos_wf by (simp add: naming_wf_def)

lemma object_read_safe:
  assumes "naming_wf s"
  shows "\<exists>r buf' s'. object_read fh buf s = Some (r, buf', s') \<and> naming_wf s'"
proof (cases "\<exists>i obj f. lookup_opened_object (OPEN_OBJECTS s) fh = Inr (i, obj) \<and> named_object obj = FileObject f")
  case True
  then obtain i obj f where l: "lookup_opened_object (OPEN_OBJECTS s) fh = Inr (i, obj)" "named_object obj = FileObject f" by blast
  note L = lookup_opened_SomeD [OF naming_wfD(2) [OF assms] l(1)]
  have f: "f < length (fs_files (ROOT s))" using L(3) l(2) by simp
  then have "length (file_data (fs_files (ROOT s) ! f)) < 2 ^ 64" using naming_wfD(1) [OF assms] by (auto simp: fs_wf_def file_ok_def)
  then have p: "pos obj + min (length buf) (length (file_data (fs_files (ROOT s) ! f)) - pos obj) < 2 ^ 64" using L(4) by linarith
  show ?thesis using l File_read_returns [OF f, of buf "pos obj"] store_pos_safe [OF assms L(1) p] p
    by (simp add: object_read_def as_file_def panic_simps)
next
  case False
  then show ?thesis using assms by (auto simp: object_read_def as_file_def split: sum.splits NamedObject.splits)
qed

lemma object_seek_safe:
  assumes "naming_wf s" "offset < 2 ^ 64" "pos_fits s fh offset"
  shows "safe (object_seek fh offset origin s)"
proof (cases "\<exists>i obj f. lookup_opened_object (OPEN_OBJECTS s) fh = Inr (i, obj) \<and> named_object obj = FileObject f")
  case True
  then obtain i obj f where l: "lookup_opened_object (OPEN_OBJECTS s) fh = Inr (i, obj)" "named_object obj = FileObject f" by blast
  note L = lookup_opened_SomeD [OF naming_wfD(2) [OF assms(1)] l(1)]
  have "file_ok (fs_files (ROOT s) ! f)" using L(3) l(2) naming_wfD(1) [OF assms(1)] by (auto simp: fs_wf_def)
  moreover have "pos obj + offset < 2 ^ 64" using assms(3) l(1) by (simp add: pos_fits_def)
  ultimately show ?thesis using l L(3) store_pos_safe [OF assms(1) L(1)] assms(2)
    by (cases origin) (simp_all add: object_seek_def as_file_def File_stat_def file_ok_def panic_simps safe_def)
next
  case False
  then show ?thesis using assms(1) by (auto simp: object_seek_def as_file_def safe_def split: sum.splits NamedObject.splits)
qed

lemma object_readdir_safe:
  assumes "naming_wf s" "pos_fits s fh 1"
  shows "safe (object_readdir fh s)"
proof (cases "\<exists>i obj d. lookup_opened_object (OPEN_OBJECTS s) fh = Inr (i, obj) \<and> named_object obj = DirectoryObject d")
  case True
  then obtain i obj d where l: "lookup_opened_object (OPEN_OBJECTS s) fh = Inr (i, obj)" "named_object obj = DirectoryObject d" by blast
  note L = lookup_opened_SomeD [OF naming_wfD(2) [OF assms(1)] l(1)]
  have "pos obj + 1 < 2 ^ 64" using assms(2) l(1) by (simp add: pos_fits_def)
  then show ?thesis using l L(3) store_pos_safe [OF assms(1) L(1)]
    by (simp add: object_readdir_def as_dir_def Dir_readdir_def panic_simps safe_def)
next
  case False
  then show ?thesis using assms(1) by (auto simp: object_readdir_def as_dir_def safe_def split: sum.splits NamedObject.splits)
qed

lemma object_close_safe:
  assumes "naming_wf s"
  shows "safe (object_close fh s)"
proof (cases "position (\<lambda>(h, _). h = fh) (open_handles (OPEN_OBJECTS s))")
  case None
  then show ?thesis using assms by (simp add: object_close_def free_handle_def safe_def)
next
  case (Some i)
  let ?t = "OPEN_OBJECTS s"
  note W = naming_wfD [OF assms] and P = position_SomeD [OF Some]
  have i: "i < length (free_handles ?t)" using P W(2) length_filter_le [of "\<lambda>v. v \<noteq> 0" "free_handles ?t"] by (auto simp: table_wf_def)
  have "table_wf (ROOT s) \<lparr>open_handles = (butlast (open_handles ?t))[i := last (open_handles ?t)], free_handles = (free_handles ?t)[i := 0]\<rparr>"
    using W(2) P set_swap_removed [of i "open_handles ?t"] count_used(2) [OF i] by (auto simp: table_wf_def)
  then show ?thesis using Some i W(1) P by (simp add: object_close_def free_handle_def panic_simps safe_def naming_wf_def)
qed

lemma create_at_safe:
  assumes wf: "naming_wf s" and create: "\<And>d. d < length (fs_dirs (ROOT s)) \<Longrightarrow> \<exists>r fs'. create (ROOT s) d (last (split_path path)) = Some (r, fs') \<and> fs_wf fs' \<and> fs_le (ROOT s) fs'"
  shows "safe (create_at create path s)"
proof -
  obtain r where r: "lookup_dir (ROOT s) (parent_of (butlast (split_path path))) = Some r" "\<And>d. r = Inr d \<Longrightarrow> d < length (fs_dirs (ROOT s))"
    using lookup_dir_returns [OF naming_wfD(1) [OF wf]] by blast
  show ?thesis
  proof (cases r)
    case (Inr d)
    obtain r' fs' where "create (ROOT s) d (last (split_path path)) = Some (r', fs')" "fs_wf fs'" "fs_le (ROOT s) fs'" using create r(2) [OF Inr] by blast
    with Inr r(1) table_wf_le naming_wfD(2) [OF wf] show ?thesis by (auto simp: create_at_def Let_def safe_def naming_wf_def)
  qed (use r wf in \<open>simp add: create_at_def Let_def safe_def\<close>)
qed

lemma api_touch_safe: "naming_wf s \<Longrightarrow> safe (api_touch path s)"
  unfolding api_touch_def
proof (rule create_at_safe)
  fix d assume w: "naming_wf s" and "d < length (fs_dirs (ROOT s))"
  from create_file_cases [OF naming_wfD(1) [OF w] this(2), of "last (split_path path)"] creates_wf [OF naming_wfD(1) [OF w]] naming_wfD(1) [OF w]
  show "\<exists>r fs'. Dir_create_file (ROOT s) d (last (split_path path)) = Some (r, fs') \<and> fs_wf fs' \<and> fs_le (ROOT s) fs'"
    using creates_le fs_le_refl by blast
qed

lemma api_mkdir_safe: "naming_wf s \<Longrightarrow> safe (api_mkdir path s)"
  unfolding api_mkdir_def
proof (rule create_at_safe)
  fix d assume w: "naming_wf s" and "d < length (fs_dirs (ROOT s))"
  from create_dir_cases [OF naming_wfD(1) [OF w] this(2), of "last (split_path path)"] creates_wf [OF naming_wfD(1) [OF w]] naming_wfD(1) [OF w]
  show "\<exists>r fs'. Dir_create_dir (ROOT s) d (last (split_path path)) = Some (r, fs') \<and> fs_wf fs' \<and> fs_le (ROOT s) fs'"
    using creates_le fs_le_refl by blast
qed

lemma api_open_safe:
  assumes "naming_wf s"
  shows "safe (api_open path flags s)"
proof -
  obtain r s1 where o: "open_object path flags s = Some (r, s1)" "naming_wf s1" using open_object_safe [OF assms] unfolding safe_def by blast
  obtain r2 s2 where t: "api_touch path s1 = Some (r2, s2)" "naming_wf s2" using api_touch_safe [OF o(2)] unfolding safe_def by blast
  show ?thesis using o t open_object_safe [OF t(2)]
    by (cases r; cases r2; cases "flags_contain flags CREATE") (simp_all add: api_open_def safe_def)
qed

lemma api_cd_safe:
  assumes "naming_wf s"
  shows "safe (api_cd path s)"
proof -
  obtain r where "lookup_dir (ROOT s) path = Some r" using lookup_dir_returns [OF naming_wfD(1) [OF assms]] by blast
  then show ?thesis using assms by (cases r) (simp_all add: api_cd_def safe_def naming_wf_def)
qed

lemma sys_cwd_returns: "\<exists>r buf'. sys_cwd buf s = Some (r, buf')"
proof -
  have "\<exists>r buf'. api_cwd b s = Some (r, buf')" if "b \<noteq> []" for b
    using that by (cases b) (simp_all add: api_cwd_def panic_simps Let_def)
  then show ?thesis by (fastforce simp: sys_cwd_def split: option.splits)
qed

lemma sys_readdir_safe:
  assumes "naming_wf s" "pos_fits s fh 1"
  shows "\<exists>r de s'. sys_readdir fh null n s = Some (r, de, s') \<and> naming_wf s'"
proof -
  obtain r s1 where r: "object_readdir fh s = Some (r, s1)" "naming_wf s1" using object_readdir_safe [OF assms] unfolding safe_def by blast
  have "\<exists>r de. api_readdir fh True s = Some (r, de, s1)"
  proof (cases r)
    case (Inr x)
    with r(1) show ?thesis by (cases x) (simp_all add: api_readdir_def Let_def RawDirent_new_def slice_copy_def)
  qed (use r(1) in \<open>simp add: api_readdir_def\<close>)
  then show ?thesis using r(2) assms(1) by (auto simp: sys_readdir_def)
qed

lemma safe_ret: "safe c \<Longrightarrow> safe (c \<bind> (\<lambda>(r, s1). Some (f r, s1)))"
  by (auto simp: safe_def)

lemma exec_safe:
  assumes "naming_wf s" "call_ok c s"
  shows "safe (exec c s)"
proof (cases c)
  case (Sys_open path flags)
  with assms(2) obtain p f where p: "path = Inr p" "OpenOptions_from_bits flags = Some f" by (cases path) auto
  show ?thesis using safe_ret [OF api_open_safe [OF assms(1), of p f]] by (simp add: Sys_open p sys_open_def)
next
  case (Sys_read fh buf)
  have "safe (map_option (\<lambda>(r, _, s'). (r, s')) (sys_read fh (Some b) s))" if "b \<noteq> []" for b
    using object_read_safe [OF assms(1), of fh b] that by (auto simp: sys_read_def safe_def)
  then show ?thesis using assms(1) by (cases buf; cases "buf = Some []") (auto simp: Sys_read sys_read_def safe_def)
next
  case (Sys_write fh buf)
  have "safe (sys_write fh (Some b) s)" if "b \<noteq> []" "pos_fits s fh (length b)" for b
    using safe_ret [OF object_write_safe [OF assms(1) that(2)]] that(1) by (simp add: sys_write_def)
  then show ?thesis using assms by (cases buf; cases "buf = Some []") (auto simp: Sys_write sys_write_def safe_def)
next
  case (Sys_seek fh offset origin)
  then show ?thesis using assms by (auto simp: sys_seek_def intro!: safe_ret object_seek_safe)
next
  case (Sys_close fh)
  then show ?thesis using assms by (auto simp: sys_close_def intro!: safe_ret object_close_safe)
next
  case (Sys_mkdir path)
  then show ?thesis using assms by (cases path) (auto simp: sys_mkdir_def intro!: safe_ret api_mkdir_safe)
next
  case (Sys_touch path)
  then show ?thesis using assms by (cases path) (auto simp: sys_touch_def intro!: safe_ret api_touch_safe)
next
  case (Sys_readdir fh null n)
  then show ?thesis using sys_readdir_safe [OF assms(1), of fh null n] assms(2) by (auto simp: safe_def)
next
  case (Sys_cwd buf)
  then show ?thesis using sys_cwd_returns [of buf s] assms(1) by (auto simp: safe_def)
next
  case (Sys_cd path)
  then show ?thesis using assms by (cases path) (auto simp: sys_cd_def intro!: safe_ret api_cd_safe)
qed

inductive naming_reachable :: "naming \<Rightarrow> bool" where
  init: "naming_reachable naming_init"
| call: "naming_reachable s \<Longrightarrow> call_ok c s \<Longrightarrow> exec c s = Some (r, s') \<Longrightarrow> naming_reachable s'"

lemma reachable_wf: "naming_reachable s \<Longrightarrow> naming_wf s"
proof (induction rule: naming_reachable.induct)
  case (call s c r s')
  then show ?case using exec_safe [OF call(4,2)] by (simp add: safe_def)
qed (rule naming_init_wf)



section \<open>Paths\<close>

lemma split_path_ne [simp]: "split_path p \<noteq> []"
  by (induction p) (auto split: list.splits)

lemma split_path_no_slash: "x \<in> set (split_path p) \<Longrightarrow> CHR ''/'' \<notin> set x"
  by (induction p arbitrary: x) (auto split: list.splits if_splits)

lemma split_path_append: "CHR ''/'' \<notin> set x \<Longrightarrow> split_path (x @ CHR ''/'' # p) = x # split_path p"
  by (induction x) auto

lemma split_path_name: "CHR ''/'' \<notin> set x \<Longrightarrow> split_path x = [x]"
  by (induction x) auto

lemma split_join: "xs \<noteq> [] \<Longrightarrow> \<forall>x \<in> set xs. CHR ''/'' \<notin> set x \<Longrightarrow> split_path (join_path xs) = xs"
  by (induction xs rule: join_path.induct) (auto simp: split_path_append split_path_name)

lemma find_snoc: "List.find P (xs @ [y]) = (case List.find P xs of Some z \<Rightarrow> Some z | None \<Rightarrow> if P y then Some y else None)"
  by (induction xs) auto

lemma find_name_None: "name \<notin> fst ` set xs \<Longrightarrow> List.find (\<lambda>(file_name, _). file_name = name) xs = None"
  by (induction xs) auto

lemma Dir_lookup_creates:
  assumes "creates fs d name inode fs'" "e < length (fs_dirs fs)"
  shows "Dir_lookup fs' e n = (if e = d \<and> n = name then Some (Inr (inode_object inode)) else Dir_lookup fs e n)"
proof -
  have e: "e < length (fs_dirs fs')" using assms by (auto simp: creates_def fs_le_def)
  have files: "dir_files (fs_dirs fs' ! e) = (if e = d then dir_files (fs_dirs fs ! d) @ [(name, inode)] else dir_files (fs_dirs fs ! e))"
    and new: "name \<notin> fst ` set (dir_files (fs_dirs fs ! d))" using assms by (simp_all add: creates_def)
  show ?thesis
  proof (cases "e = d")
    case True
    then show ?thesis using assms(2) e files find_name_None [OF new]
      by (auto simp: Dir_lookup_def panic_simps find_snoc split: option.splits)
  qed (use assms(2) e files in \<open>simp add: Dir_lookup_def panic_simps\<close>)
qed

text \<open>A path that leads to an object still does.\<close>

lemma lookup_components_creates:
  assumes c: "creates fs d name inode fs'" and wf: "fs_wf fs"
  shows "e < length (fs_dirs fs) \<Longrightarrow> lookup_components fs e cs = Some (Inr obj) \<Longrightarrow> lookup_components fs' e cs = Some (Inr obj)"
proof (induction cs arbitrary: e)
  case (Cons c cs)
  obtain r where r: "Dir_lookup fs e c = Some r" "\<And>obj. r = Inr obj \<Longrightarrow> object_ok fs obj" using Dir_lookup_returns [OF wf Cons.prems(1)] by blast
  from Cons.prems(2) r obtain x where x: "r = Inr x" by (cases r) auto
  have "Dir_lookup fs d name = Some (Inl ENOENT)"
    using c by (auto simp: creates_def Dir_lookup_def panic_simps image_iff split: option.splits dest!: find_name_SomeD)
  then have new: "Dir_lookup fs' e c = Some (Inr x)" using Dir_lookup_creates [OF \<open>creates fs d name inode fs'\<close> Cons.prems(1), of c] r(1) x by (cases "e = d \<and> c = name") simp_all
  show ?case
  proof (cases "cs = []")
    case True
    then show ?thesis using Cons.prems(2) r(1) x new by simp
  next
    case False
    then obtain e' where e': "x = DirectoryObject e'" "lookup_components fs e' cs = Some (Inr obj)" using Cons.prems(2) r(1) x by (cases x) simp_all
    then have "e' < length (fs_dirs fs)" using r(2) x by simp
    from Cons.IH [OF this e'(2)] show ?thesis using new False e'(1) by simp
  qed
qed simp

lemma lookup_creates:
  assumes "creates fs d name inode fs'" "fs_wf fs" "lookup_named_object fs p = Some (Inr obj)"
  shows "lookup_named_object fs' p = Some (Inr obj)"
proof -
  have "0 < length (fs_dirs fs)" using assms(2) by (simp add: fs_wf_def)
  then show ?thesis using lookup_components_creates [OF assms(1,2), of 0] assms(3) by (auto simp: lookup_named_object_def root_dir_def split: if_splits)
qed

lemma lookup_components_snoc:
  "cs \<noteq> [] \<Longrightarrow> lookup_components fs e cs = Some (Inr (DirectoryObject d)) \<Longrightarrow> lookup_components fs e (cs @ [c]) = lookup_components fs d [c]"
proof (induction cs arbitrary: e)
  case (Cons x cs)
  then obtain obj where "Dir_lookup fs e x = Some (Inr obj)" by (auto split: bind_splits sum.splits)
  then show ?case using Cons by (cases obj; cases "cs = []") auto
qed simp

text \<open>The directory in which an absolute path without empty components creates its object.\<close>

lemma parent_lookup:
  assumes abs: "check_absolute_path path" "[] \<notin> set (tl (split_path path))" and d: "lookup_dir fs (parent_of (butlast (split_path path))) = Some (Inr d)"
    and more: "tl (split_path path) \<noteq> []"
  shows "lookup_components fs root_dir (tl (split_path path)) = lookup_components fs d [last (split_path path)]"
proof -
  obtain p where p: "path = CHR ''/'' # p" using abs(1) by (auto simp: check_absolute_path_def split: list.splits)
  define cs where "cs = split_path p"
  have sp: "split_path path = [] # cs" and cs: "cs \<noteq> []" by (simp_all add: p cs_def)
  show ?thesis
  proof (cases "butlast cs = []")
    case True
    then obtain c where c: "cs = [c]" using cs by (cases cs) (auto split: if_splits)
    moreover have "d = root_dir" using d c by (auto simp: sp parent_of_def lookup_dir_def lookup_named_object_def check_absolute_path_def)
    ultimately show ?thesis by (simp add: sp c)
  next
    case False
    have all: "\<forall>x \<in> set ([] # butlast cs). CHR ''/'' \<notin> set x" using split_path_no_slash [of _ p] by (auto simp: cs_def dest: in_set_butlastD)
    let ?j = "join_path ([] # butlast cs)"
    obtain b bs where b: "butlast cs = b # bs" using False by (cases "butlast cs") auto
    have ne: "b \<noteq> []" using abs(2) b in_set_butlastD [of b cs] by (auto simp: sp)
    have j: "?j = CHR ''/'' # join_path (b # bs)" by (simp add: b)
    have "join_path (b # bs) \<noteq> []" using ne by (cases bs) auto
    then have "lookup_named_object fs ?j = lookup_components fs root_dir (butlast cs)"
      using split_join [OF _ all] by (simp add: lookup_named_object_def check_absolute_path_def j)
    moreover have "parent_of (butlast (split_path path)) = ?j" using b by (auto simp: sp parent_of_def simp del: join_path.simps)
    ultimately have "lookup_components fs root_dir (butlast cs) = Some (Inr (DirectoryObject d))"
      using d by (auto simp: lookup_dir_def split: sum.splits NamedObject.splits bind_splits)
    from lookup_components_snoc [OF False this, of "last cs"] show ?thesis using cs by (simp add: sp)
  qed
qed



section \<open>Reading back\<close>

lemma usize_as_isize_small: "n < 2 ^ 63 \<Longrightarrow> usize_as_isize n = int n"
  by (simp add: usize_as_isize_def signed_of_nat signed_take_bit_int_eq_self)

lemma lookup_store_pos:
  assumes "lookup_opened_object t fh = Inr (i, obj)"
  shows "lookup_opened_object (store_pos t i p) fh = Inr (i, obj\<lparr>pos := p\<rparr>)" "store_pos (store_pos t i p) i q = store_pos t i q"
proof -
  have l: "position (\<lambda>(h, _). h = fh) (open_handles t) = Some i" "snd (open_handles t ! i) = Some obj"
    using assms by (auto simp: lookup_opened_object_def split: option.splits)
  note P = position_SomeD [OF l(1)]
  have e: "open_handles t ! i = (fh, Some obj)" using P l(2) by (auto simp: case_prod_beta prod_eq_iff)
  have "position (\<lambda>(h, _). h = fh) ((open_handles t)[i := (fh, Some (obj\<lparr>pos := p\<rparr>))]) = Some i" by (rule position_update [OF l(1)]) simp
  with P e show "lookup_opened_object (store_pos t i p) fh = Inr (i, obj\<lparr>pos := p\<rparr>)" by (simp add: lookup_opened_object_def store_pos_def)
  show "store_pos (store_pos t i p) i q = store_pos t i q" using P e by (simp add: store_pos_def)
qed

text \<open>
  C27. What is written through a handle is read back through it after seeking to where the writing started; bytes before
  that position and the other files do not change, and a gap behind the old end of the file reads as zeroes.
\<close>

theorem naming_write_read_roundtrip:
  assumes wf: "naming_wf s" and h: "lookup_opened_object (OPEN_OBJECTS s) fh = Inr (i, obj)" "named_object obj = FileObject f"
    and buf: "buf \<noteq> []" "length buf < 2 ^ 63" "pos obj + length buf < 2 ^ 64"
  shows "\<exists>s1 s2 s3. sys_write fh (Some buf) s = Some (int (length buf), s1) \<and> sys_seek fh (pos obj) 1 s1 = Some (0, s2)
    \<and> sys_read fh (Some (replicate (length buf) 0)) s2 = Some (int (length buf), Some buf, s3)
    \<and> (\<forall>g. g \<noteq> f \<longrightarrow> g < length (fs_files (ROOT s)) \<longrightarrow> fs_files (ROOT s3) ! g = fs_files (ROOT s) ! g)
    \<and> (\<forall>k < pos obj. file_data (fs_files (ROOT s3) ! f) ! k =
         (if k < length (file_data (fs_files (ROOT s) ! f)) then file_data (fs_files (ROOT s) ! f) ! k else 0))"
proof -
  let ?d = "file_data (fs_files (ROOT s) ! f)" and ?p = "pos obj" and ?n = "length buf"
  note W = naming_wfD [OF wf]
  have f: "f < length (fs_files (ROOT s))" using lookup_opened_SomeD(3) [OF W(2) h(1)] h(2) by simp
  define data where "data = take ?p (?d @ replicate (?p - length ?d) 0) @ buf @ drop (?p + ?n) ?d"
  define fs where "fs = (ROOT s)\<lparr>fs_files := (fs_files (ROOT s))[f := (fs_files (ROOT s) ! f)\<lparr>file_data := data\<rparr>]\<rparr>"
  have w: "File_write (ROOT s) f buf ?p = Some (?n, fs)" using File_write_returns [OF W(1) f buf(3)] by (auto simp: fs_def data_def)
  let ?t = "OPEN_OBJECTS s" and ?s1 = "s\<lparr>ROOT := fs, OPEN_OBJECTS := store_pos (OPEN_OBJECTS s) i (?p + ?n)\<rparr>"
  have 1: "sys_write fh (Some buf) s = Some (int ?n, ?s1)"
    using h w buf by (simp add: sys_write_def object_write_def as_file_def panic_simps convert_syscall_result_to_ret_code_def usize_as_isize_small)
  let ?s2 = "s\<lparr>ROOT := fs, OPEN_OBJECTS := store_pos ?t i ?p\<rparr>"
  have 2: "sys_seek fh ?p 1 ?s1 = Some (0, ?s2)"
    using lookup_store_pos [OF h(1)] h(2) by (simp add: sys_seek_def SeekOrigin_from_primitive_def object_seek_def as_file_def convert_syscall_result_to_ret_code_def usize_as_isize_small)
  have "length data - ?p \<ge> ?n" "take ?n (drop ?p data) = buf" "length data \<ge> ?p" by (simp_all add: data_def)
  moreover have "fs_files fs ! f = (fs_files (ROOT s) ! f)\<lparr>file_data := data\<rparr>" "f < length (fs_files fs)" using f by (simp_all add: fs_def)
  ultimately have "File_read fs f (replicate ?n 0) ?p = Some (?n, buf)" by (simp add: File_read_returns min_def)
  then have 3: "\<exists>s3. sys_read fh (Some (replicate ?n 0)) ?s2 = Some (int ?n, Some buf, s3) \<and> ROOT s3 = fs"
    using lookup_store_pos(1) [OF h(1), of ?p] h(2) buf
    by (simp add: sys_read_def object_read_def as_file_def panic_simps convert_syscall_result_to_ret_code_def usize_as_isize_small)
  have "data ! k = (if k < length ?d then ?d ! k else 0)" if "k < ?p" for k using that by (auto simp: data_def nth_append)
  with 1 2 3 f show ?thesis by (auto simp: fs_def nth_list_update)
qed

text \<open>One file, opened under handle 0.\<close>

definition sample_naming :: naming where
  "sample_naming = \<lparr>ROOT = \<lparr>fs_files = [File_new], fs_dirs = [Dir_new\<lparr>dir_files := [(''a'', INode_File 0)]\<rparr>]\<rparr>,
     OPEN_OBJECTS = \<lparr>open_handles = [(0, Some \<lparr>named_object = FileObject 0, pos = 2, options = READWRITE\<rparr>)],
       free_handles = 1 # replicate 4095 0\<rparr>, CWD = ''/''\<rparr>"

theorem naming_write_read_roundtrip_witness:
  "\<exists>s1 s2 s3. sys_write 0 (Some [5, 6]) sample_naming = Some (2, s1) \<and> sys_seek 0 2 1 s1 = Some (0, s2) \<and> sys_read 0 (Some [0, 0]) s2 = Some (2, Some [5, 6], s3)"
proof -
  have wf: "naming_wf sample_naming"
    by (simp add: sample_naming_def naming_wf_def fs_wf_def inode_ok_def table_wf_def MAX_OPEN_OBJECTS_def file_ok_def File_new_def Stat_zeroed_def)
  have l: "lookup_opened_object (OPEN_OBJECTS sample_naming) 0 = Inr (0, \<lparr>named_object = FileObject 0, pos = 2, options = READWRITE\<rparr>)"
    by (simp add: sample_naming_def lookup_opened_object_def)
  have r: "replicate 2 (0 :: 8 word) = [0, 0]" by (simp add: numeral_2_eq_2)
  have "length [5, 6 :: 8 word] = 2" by simp
  from naming_write_read_roundtrip [OF wf l, of 0 "[5, 6]", unfolded this r] show ?thesis by auto
qed

section \<open>The table of handles\<close>

text \<open>Three files are open; the handles are given out in order.\<close>

definition three_open :: naming where
  "three_open = \<lparr>ROOT = \<lparr>fs_files = [File_new, File_new, File_new], fs_dirs = [Dir_new\<lparr>dir_files := [(''a'', INode_File 0), (''b'', INode_File 1), (''c'', INode_File 2)]\<rparr>]\<rparr>,
     OPEN_OBJECTS = \<lparr>open_handles = map (\<lambda>i. (i, Some \<lparr>named_object = FileObject i, pos = 0, options = READWRITE\<rparr>)) [0, 1, 2],
       free_handles = [1, 1, 1] @ replicate 4093 0\<rparr>, CWD = ''/''\<rparr>"


end
