(* ===== verification/Scheduler.thy ===== *)
theory Scheduler
  imports D3OS_Prelude "HOL-Library.AList" "HOL-Library.Multiset"
begin

text \<open>
  The scheduler (\<^verbatim>\<open>kernel/src/process/scheduler.rs\<close>) and the list of processes that uses it (\<^verbatim>\<open>process.rs\<close>,
  \<^verbatim>\<open>process_manager.rs\<close>). A thread is its immutable part. The front of the ready queue is the head of the list. The time of the
  timer and the locks that other code holds are arguments; an operation that blocks the calling thread ends, in the
  model, where the next thread continues.
\<close>

section \<open>The state\<close>

record Thread =
  thread_id :: nat
  thread_process :: nat
  user_kickoff :: u64
  thread_entry :: u64

text \<open>\<^verbatim>\<open>ReadyState\<close>, the sleep list and the join map, which the code protects by a lock each.\<close>

record Scheduler =
  initialized :: bool
  current_thread :: "Thread option"
  ready_queue :: "Thread list"
  sleep_list :: "(Thread \<times> nat) list"
  join_map :: "(nat \<times> Thread list) list"

definition next_thread_id :: "nat \<Rightarrow> nat \<times> nat" where
  "next_thread_id THREAD_ID_COUNTER = (THREAD_ID_COUNTER, (THREAD_ID_COUNTER + 1) mod 2 ^ 64)"

definition Scheduler_new :: Scheduler where
  "Scheduler_new = \<lparr>initialized = False, current_thread = None, ready_queue = [], sleep_list = [], join_map = []\<rparr>"

definition set_init :: "Scheduler \<Rightarrow> Scheduler" where
  "set_init self = self\<lparr>initialized := True\<rparr>"

definition active_thread_ids :: "Scheduler \<Rightarrow> nat list" where
  "active_thread_ids self = map thread_id (ready_queue self) @ map (\<lambda>e. thread_id (fst e)) (sleep_list self)"

definition find_thread :: "Scheduler \<Rightarrow> nat \<Rightarrow> Thread option" where
  "find_thread self tid = find (\<lambda>t. thread_id t = tid) (ready_queue self)"

fun pop_back :: "'a list \<Rightarrow> ('a \<times> 'a list) option" where
  "pop_back [] = None"
| "pop_back (x # xs) = Some (last (x # xs), butlast (x # xs))"

section \<open>The operations\<close>

definition Scheduler_start :: "Scheduler \<Rightarrow> Scheduler option" where
  "Scheduler_start self = do {
     (t, q) \<leftarrow> pop_back (ready_queue self);
     Some (self\<lparr>current_thread := Some t, ready_queue := q\<rparr>)
   }"

definition ready :: "Scheduler \<Rightarrow> Thread \<Rightarrow> Scheduler" where
  "ready self thread = self\<lparr>ready_queue := thread # ready_queue self, join_map := AList.update (thread_id thread) [] (join_map self)\<rparr>"

text \<open>\<^verbatim>\<open>retain\<close> visits the entries in order.\<close>

fun check_sleep_list :: "nat \<Rightarrow> Thread list \<Rightarrow> (Thread \<times> nat) list \<Rightarrow> Thread list \<times> (Thread \<times> nat) list" where
  "check_sleep_list time queue [] = (queue, [])"
| "check_sleep_list time queue (entry # entries) =
     (if time \<ge> snd entry then check_sleep_list time (fst entry # queue) entries
      else let (q, es) = check_sleep_list time queue entries in (q, entry # es))"

definition wake_sleepers :: "nat \<Rightarrow> Scheduler \<Rightarrow> Scheduler" where
  "wake_sleepers time self =
     (let (q, es) = check_sleep_list time (ready_queue self) (sleep_list self) in self\<lparr>ready_queue := q, sleep_list := es\<rparr>)"

text \<open>The locks that are taken when \<^verbatim>\<open>switch_thread\<close> is called, and the time.\<close>

record switch_env =
  ready_locked :: bool
  sleep_locked :: bool
  stacks_locked :: bool
  tss_locked :: bool
  systime_ms :: nat

text \<open>The second result says whether the interrupt was acknowledged.\<close>

definition switch_thread :: "switch_env \<Rightarrow> bool \<Rightarrow> Scheduler \<Rightarrow> (Scheduler \<times> bool) option" where
  "switch_thread env interrupt self =
     (if ready_locked env \<or> \<not> initialized self then Some (self, False)
      else do {
        let self1 = (if sleep_locked env then self else wake_sleepers (systime_ms env) self);
        current \<leftarrow> current_thread self1;
        if stacks_locked env \<or> tss_locked env then Some (self1, False)
        else (case pop_back (ready_queue self1) of
            None \<Rightarrow> Some (self1, False)
          | Some (nxt, q) \<Rightarrow> Some (self1\<lparr>current_thread := Some nxt, ready_queue := current # q\<rparr>, interrupt))
      })"

text \<open>The loop of \<^verbatim>\<open>block\<close>; every iteration reads the time. The result says whether another thread runs now.\<close>

fun wait_for_ready :: "nat list \<Rightarrow> Scheduler \<Rightarrow> (Thread \<times> Scheduler) option" where
  "wait_for_ready clock self =
     (case pop_back (ready_queue self) of
        Some (t, q) \<Rightarrow> Some (t, self\<lparr>ready_queue := q\<rparr>)
      | None \<Rightarrow>
          (case clock of
             [] \<Rightarrow> None
           | time # rest \<Rightarrow> wait_for_ready rest (wake_sleepers time self)))"

declare wait_for_ready.simps [simp del]

definition block :: "nat list \<Rightarrow> Scheduler \<Rightarrow> (bool \<times> Scheduler) option" where
  "block clock self = do {
     (nxt, self1) \<leftarrow> wait_for_ready clock self;
     current \<leftarrow> current_thread self1;
     if thread_id current = thread_id nxt then Some (False, self1)
     else Some (True, self1\<lparr>current_thread := Some nxt\<rparr>)
   }"

definition sleep :: "nat list \<Rightarrow> nat \<Rightarrow> nat \<Rightarrow> Scheduler \<Rightarrow> Scheduler option" where
  "sleep clock systime ms self =
     (if \<not> initialized self then Some self
      else do {
        thread \<leftarrow> current_thread self;
        wakeup_time \<leftarrow> usize_add systime ms;
        (_, self1) \<leftarrow> block clock (self\<lparr>sleep_list := sleep_list self @ [(thread, wakeup_time)]\<rparr>);
        Some self1
      })"

definition join :: "nat list \<Rightarrow> nat \<Rightarrow> Scheduler \<Rightarrow> Scheduler option" where
  "join clock tid self = do {
     thread \<leftarrow> current_thread self;
     (case map_of (join_map self) tid of
        Some join_list \<Rightarrow> do {
          (_, self1) \<leftarrow> block clock (self\<lparr>join_map := AList.update tid (join_list @ [thread]) (join_map self)\<rparr>);
          Some self1
        }
      | None \<Rightarrow> Some self)
   }"

text \<open>\<^verbatim>\<open>for thread in join_list { ready_queue.push_front(thread) }\<close> and the removal of the entry.\<close>

definition release_joiners :: "nat \<Rightarrow> Scheduler \<Rightarrow> Scheduler option" where
  "release_joiners tid self = do {
     join_list \<leftarrow> map_of (join_map self) tid;
     Some (self\<lparr>ready_queue := fold (\<lambda>t q. t # q) join_list (ready_queue self), join_map := AList.delete tid (join_map self)\<rparr>)
   }"

definition exit_thread :: "nat list \<Rightarrow> Scheduler \<Rightarrow> Scheduler option" where
  "exit_thread clock self = do {
     current \<leftarrow> current_thread self;
     self1 \<leftarrow> release_joiners (thread_id current) self;
     (switched, self2) \<leftarrow> block clock self1;
     rust_assert switched;
     Some self2
   }"

definition kill :: "nat \<Rightarrow> Scheduler \<Rightarrow> Scheduler option" where
  "kill tid self = do {
     current \<leftarrow> current_thread self;
     rust_assert (thread_id current \<noteq> tid);
     self1 \<leftarrow> release_joiners tid self;
     Some (self1\<lparr>ready_queue := filter (\<lambda>t. thread_id t \<noteq> tid) (ready_queue self1)\<rparr>)
   }"

section \<open>Processes\<close>

text \<open>\<^verbatim>\<open>thread_ids\<close> of the process \<open>pid\<close>: every active id is looked up with \<^verbatim>\<open>scheduler().thread\<close>.\<close>

definition process_thread_ids :: "nat \<Rightarrow> Scheduler \<Rightarrow> nat list" where
  "process_thread_ids pid s =
     filter (\<lambda>tid. case find_thread s tid of Some t \<Rightarrow> thread_process t = pid | None \<Rightarrow> False) (active_thread_ids s)"

fun kill_threads :: "nat list \<Rightarrow> Scheduler \<Rightarrow> Scheduler option" where
  "kill_threads [] s = Some s"
| "kill_threads (tid # tids) s = do { s1 \<leftarrow> kill tid s; kill_threads tids s1 }"

definition kill_all_threads_but_current :: "nat \<Rightarrow> Scheduler \<Rightarrow> Scheduler option" where
  "kill_all_threads_but_current pid s = do {
     current \<leftarrow> current_thread s;
     kill_threads (filter (\<lambda>tid. tid \<noteq> thread_id current) (process_thread_ids pid s)) s
   }"

text \<open>The processes of the process manager, by their ids.\<close>

record ProcessManager =
  active_processes :: "nat list"
  exited_processes :: "nat list"

definition ProcessManager_new :: ProcessManager where
  "ProcessManager_new = \<lparr>active_processes = [], exited_processes = []\<rparr>"

definition kernel_process :: "ProcessManager \<Rightarrow> nat option" where
  "kernel_process self = (case active_processes self of [] \<Rightarrow> None | p # _ \<Rightarrow> Some p)"

definition current_process :: "ProcessManager \<Rightarrow> Scheduler \<Rightarrow> nat option" where
  "current_process self s =
     (if length (active_processes self) > 1 then map_option thread_process (current_thread s) else kernel_process self)"

definition retire_process :: "nat \<Rightarrow> nat \<Rightarrow> ProcessManager \<Rightarrow> ProcessManager option" where
  "retire_process index pid self = do {
     ps \<leftarrow> swap_remove (active_processes self) index;
     Some (self\<lparr>active_processes := ps, exited_processes := exited_processes self @ [pid]\<rparr>)
   }"

definition pm_exit :: "nat \<Rightarrow> ProcessManager \<Rightarrow> Scheduler \<Rightarrow> (ProcessManager \<times> Scheduler) option" where
  "pm_exit process_id self s = do {
     index \<leftarrow> position (\<lambda>p. p = process_id) (active_processes self);
     s1 \<leftarrow> kill_all_threads_but_current process_id s;
     self1 \<leftarrow> retire_process index process_id self;
     Some (self1, s1)
   }"

definition pm_kill :: "nat \<Rightarrow> ProcessManager \<Rightarrow> Scheduler \<Rightarrow> (ProcessManager \<times> Scheduler) option" where
  "pm_kill process_id self s = do {
     index \<leftarrow> position (\<lambda>p. p = process_id) (active_processes self);
     s1 \<leftarrow> kill_threads (process_thread_ids process_id s) s;
     self1 \<leftarrow> retire_process index process_id self;
     Some (self1, s1)
   }"

definition drop_exited_process :: "ProcessManager \<Rightarrow> ProcessManager" where
  "drop_exited_process self = self\<lparr>exited_processes := []\<rparr>"

definition sys_process_exit :: "nat list \<Rightarrow> ProcessManager \<Rightarrow> Scheduler \<Rightarrow> (ProcessManager \<times> Scheduler) option" where
  "sys_process_exit clock pm s = do {
     current \<leftarrow> current_thread s;
     (pm1, s1) \<leftarrow> pm_exit (thread_process current) pm s;
     s2 \<leftarrow> exit_thread clock s1;
     Some (pm1, s2)
   }"

section \<open>No thread is lost\<close>

definition parked :: "Scheduler \<Rightarrow> Thread list" where
  "parked s = ready_queue s @ map fst (sleep_list s) @ concat (map snd (join_map s))"

definition all_threads :: "Scheduler \<Rightarrow> Thread list" where
  "all_threads s = (case current_thread s of Some t \<Rightarrow> [t] | None \<Rightarrow> []) @ parked s"

definition sched_inv :: "Scheduler \<Rightarrow> bool" where
  "sched_inv s \<longleftrightarrow> initialized s \<and> current_thread s \<noteq> None \<and> distinct (map thread_id (all_threads s))
     \<and> distinct (map fst (join_map s)) \<and> set (map fst (join_map s)) = thread_id ` set (all_threads s)"

lemma pop_back_snoc [simp]: "pop_back (ys @ [y]) = Some (y, ys)"
  by (cases ys) simp_all

lemma pop_back_Some: "pop_back xs = Some (y, ys) \<longleftrightarrow> xs = ys @ [y]"
  by (cases xs rule: rev_cases) (auto simp: pop_back_snoc)

lemma pop_back_None: "pop_back xs = None \<longleftrightarrow> xs = []"
  by (cases xs) auto

lemma check_sleep_list_eq:
  "check_sleep_list time queue es = (rev (map fst (filter (\<lambda>e. snd e \<le> time) es)) @ queue, filter (\<lambda>e. \<not> snd e \<le> time) es)"
  by (induction es arbitrary: queue) simp_all

lemma wake_sleepers_simps [simp]:
  "current_thread (wake_sleepers time s) = current_thread s" "join_map (wake_sleepers time s) = join_map s"
  "initialized (wake_sleepers time s) = initialized s"
  "ready_queue (wake_sleepers time s) = rev (map fst (filter (\<lambda>e. snd e \<le> time) (sleep_list s))) @ ready_queue s"
  "sleep_list (wake_sleepers time s) = filter (\<lambda>e. \<not> snd e \<le> time) (sleep_list s)"
  by (simp_all add: wake_sleepers_def check_sleep_list_eq)

lemma mset_filter_split: "mset (map f (filter P xs)) + mset (map f (filter (\<lambda>x. \<not> P x) xs)) = mset (map f xs)"
  by (induction xs) simp_all

lemma mset_wake_sleepers [simp]: "mset (parked (wake_sleepers time s)) = mset (parked s)"
  unfolding parked_def wake_sleepers_simps mset_append mset_rev
    mset_filter_split [of fst "\<lambda>e. snd e \<le> time" "sleep_list s", symmetric]
  by (simp only: add.assoc add.commute add.left_commute)

end
