(* ===== verification/Thread_Context.thy ===== *)
theory Thread_Context
  imports Scheduler
begin

text \<open>
  Stacks of threads and switching between them (\<^verbatim>\<open>kernel/src/process/thread.rs\<close>): the frames that are prepared on the stack of a
  new thread, and the assembly code that stores and loads the registers. A processor has the registers the code names and a
  memory of 64-bit words, in which the kernel stacks lie; they have the same addresses in all address spaces.
  \<^verbatim>\<open>unlock_scheduler\<close>, which is called with the registers of the next thread, is an argument.
\<close>

section \<open>The processor\<close>

datatype reg = R8 | R9 | R10 | R11 | R12 | R13 | R14 | R15 | RAX | RBX | RCX | RDX | RSI | RDI | RBP | RFLAGS

record cpu =
  regs :: "reg \<Rightarrow> u64"
  rsp :: u64
  rip :: u64
  seg_cs :: u64
  seg_ss :: u64
  cr3 :: u64
  tss_rsp0 :: u64
  words :: "u64 \<Rightarrow> u64"

definition push_word :: "u64 \<Rightarrow> cpu \<Rightarrow> cpu" where
  "push_word v c = c\<lparr>rsp := rsp c - 8, words := (words c)(rsp c - 8 := v)\<rparr>"

definition push_reg :: "reg \<Rightarrow> cpu \<Rightarrow> cpu" where
  "push_reg r c = push_word (regs c r) c"

definition pop_reg :: "reg \<Rightarrow> cpu \<Rightarrow> cpu" where
  "pop_reg r c = c\<lparr>regs := (regs c)(r := words c (rsp c)), rsp := rsp c + 8\<rparr>"

definition ret :: "cpu \<Rightarrow> cpu" where
  "ret c = c\<lparr>rip := words c (rsp c), rsp := rsp c + 8\<rparr>"

definition iretq :: "cpu \<Rightarrow> cpu" where
  "iretq c = c\<lparr>rip := words c (rsp c), seg_cs := words c (rsp c + 8), regs := (regs c)(RFLAGS := words c (rsp c + 16)),
     rsp := words c (rsp c + 24), seg_ss := words c (rsp c + 32)\<rparr>"

text \<open>The order in which the registers are pushed.\<close>

definition saved_regs :: "reg list" where
  "saved_regs = [RFLAGS, R8, R9, R10, R11, R12, R13, R14, R15, RAX, RBX, RCX, RDX, RSI, RDI, RBP]"

definition save_regs :: "cpu \<Rightarrow> cpu" where
  "save_regs c = fold push_reg saved_regs c"

definition load_regs :: "cpu \<Rightarrow> cpu" where
  "load_regs c = fold pop_reg (rev saved_regs) c"

text \<open>\<^verbatim>\<open>call unlock_scheduler\<close> at address \<open>ra\<close>; the callee removes the return address.\<close>

definition call_unlock :: "(cpu \<Rightarrow> cpu) \<Rightarrow> u64 \<Rightarrow> cpu \<Rightarrow> cpu" where
  "call_unlock unlock ra c = ret (unlock (push_word ra c))"

definition thread_kernel_start :: "(cpu \<Rightarrow> cpu) \<Rightarrow> u64 \<Rightarrow> u64 \<Rightarrow> cpu \<Rightarrow> cpu" where
  "thread_kernel_start unlock ra old_rsp0 c = ret (call_unlock unlock ra (load_regs (c\<lparr>rsp := old_rsp0\<rparr>)))"

definition thread_user_start :: "u64 \<Rightarrow> u64 \<Rightarrow> cpu \<Rightarrow> cpu" where
  "thread_user_start old_rsp0 entry c = iretq (c\<lparr>rsp := old_rsp0, regs := (regs c)(RDI := entry)\<rparr>)"

text \<open>The first half of \<^verbatim>\<open>thread_switch\<close> stores the registers of the current thread and its stack pointer.\<close>

definition save_context :: "u64 \<Rightarrow> cpu \<Rightarrow> cpu" where
  "save_context current_rsp0 c = (let c1 = save_regs c in c1\<lparr>words := (words c1)(current_rsp0 := rsp c1)\<rparr>)"

text \<open>\<open>tss_ptr\<close> is the address that is loaded from core local storage.\<close>

definition thread_switch :: "(cpu \<Rightarrow> cpu) \<Rightarrow> u64 \<Rightarrow> u64 \<Rightarrow> u64 \<Rightarrow> u64 \<Rightarrow> u64 \<Rightarrow> u64 \<Rightarrow> cpu \<Rightarrow> cpu" where
  "thread_switch unlock ra tss_ptr current_rsp0 next_rsp0 next_rsp0_end next_cr3 c =
     (let c2 = save_context current_rsp0 c;
          c3 = c2\<lparr>regs := (regs c2)(RAX := tss_ptr), tss_rsp0 := next_rsp0_end\<rparr>;
          c4 = c3\<lparr>cr3 := next_cr3, rsp := next_rsp0\<rparr>
      in ret (call_unlock unlock ra (load_regs c4)))"

section \<open>Stacks\<close>

definition KERNEL_STACK_PAGES :: nat where "KERNEL_STACK_PAGES = 64"
definition MAX_USER_STACK_SIZE :: nat where "MAX_USER_STACK_SIZE = 0x40000000"

text \<open>A vector over the memory of a stack.\<close>

record KernelStack =
  ks_ptr :: u64
  ks_capacity :: nat
  ks_elems :: "u64 list"

record UserStack =
  us_ptr :: u64
  us_capacity :: nat

record Stacks =
  kernel_stack :: KernelStack
  user_stack :: UserStack
  old_rsp0 :: u64

definition Stacks_new :: "KernelStack \<Rightarrow> UserStack \<Rightarrow> Stacks" where
  "Stacks_new ks us = \<lparr>kernel_stack = ks, user_stack = us, old_rsp0 = 0\<rparr>"

definition alloc_user_stack :: "u64 \<Rightarrow> nat \<Rightarrow> UserStack" where
  "alloc_user_stack start_addr size_in_bytes = \<lparr>us_ptr = start_addr, us_capacity = size_in_bytes div 8\<rparr>"

definition is_kernel_thread :: "Stacks \<Rightarrow> bool" where
  "is_kernel_thread stacks \<longleftrightarrow> us_capacity (user_stack stacks) = 0"

definition user_stack_start :: "Stacks \<Rightarrow> u64" where
  "user_stack_start stacks = us_ptr (user_stack stacks)"

text \<open>\<^verbatim>\<open>VirtAddr::new\<close> and the addition on addresses, which panic outside the canonical addresses.\<close>

definition virt_addr_new :: "u64 \<Rightarrow> u64 option" where
  "virt_addr_new a = (if unat a < 2 ^ 47 \<or> 2 ^ 64 - 2 ^ 47 \<le> unat a then Some a else None)"

definition virt_offset :: "u64 \<Rightarrow> nat \<Rightarrow> u64 option" where
  "virt_offset a n = do { rust_assert (unat a + n < 2 ^ 64); virt_addr_new (a + of_nat n) }"

definition kernel_stack_addr :: "Stacks \<Rightarrow> u64 option" where
  "kernel_stack_addr stacks = virt_offset (ks_ptr (kernel_stack stacks)) (ks_capacity (kernel_stack stacks) * 8)"

text \<open>Storing \<open>v\<close> at \<open>capacity - k\<close>.\<close>

definition from_top :: "nat \<Rightarrow> nat \<Rightarrow> u64 \<Rightarrow> u64 list \<Rightarrow> u64 list option" where
  "from_top capacity k v xs = do { rust_assert (k \<le> capacity); upd xs (capacity - k) v }"

fun put_all :: "nat \<Rightarrow> (nat \<times> u64) list \<Rightarrow> u64 list \<Rightarrow> u64 list option" where
  "put_all capacity [] xs = Some xs"
| "put_all capacity ((k, v) # kvs) xs = do { ys \<leftarrow> from_top capacity k v xs; put_all capacity kvs ys }"

text \<open>A return address, the address of \<^verbatim>\<open>kickoff_kernel_thread\<close>, the flags and the registers.\<close>

definition start_frame :: "u64 \<Rightarrow> (nat \<times> u64) list" where
  "start_frame kickoff = [(1, 0x00DEAD00), (2, kickoff), (3, 0x202)] @ map (\<lambda>k. (k, 0)) [4..<19]"

text \<open>\<open>kickoff\<close> is the address of \<^verbatim>\<open>kickoff_kernel_thread\<close>. The vector is empty when a thread is created.\<close>

definition prepare_kernel_stack :: "u64 \<Rightarrow> Stacks \<Rightarrow> Stacks option" where
  "prepare_kernel_stack kickoff stacks = do {
     let ks = kernel_stack stacks;
     let capacity = ks_capacity ks;
     rust_assert (length (ks_elems ks) + capacity \<le> capacity);
     xs \<leftarrow> put_all capacity (start_frame kickoff) (ks_elems ks @ replicate capacity 0);
     sp \<leftarrow> virt_offset (ks_ptr ks) ((capacity - 18) * 8);
     Some (stacks\<lparr>kernel_stack := ks\<lparr>ks_elems := xs\<rparr>, old_rsp0 := sp\<rparr>)
   }"

text \<open>\<^verbatim>\<open>SegmentSelector::new(index, Ring3)\<close>\<close>

definition selector_ring3 :: "nat \<Rightarrow> u64" where
  "selector_ring3 index = of_nat (index * 8 + 3)"

definition switch_to_user_mode :: "u64 \<Rightarrow> Stacks \<Rightarrow> Stacks option" where
  "switch_to_user_mode kickoff_addr stacks = do {
     let ks = kernel_stack stacks;
     let capacity = ks_capacity ks;
     let user = user_stack stacks;
     rust_assert (1 \<le> us_capacity user \<and> unat (us_ptr user) + (us_capacity user - 1) * 8 < 2 ^ 64);
     xs \<leftarrow> put_all capacity [(6, kickoff_addr), (5, selector_ring3 4), (4, 0x202), (3, us_ptr user + of_nat ((us_capacity user - 1) * 8)),
        (2, selector_ring3 3), (1, 0x00DEAD00)] (ks_elems ks);
     sp \<leftarrow> virt_offset (ks_ptr ks) ((capacity - 6) * 8);
     Some (stacks\<lparr>kernel_stack := ks\<lparr>ks_elems := xs\<rparr>, old_rsp0 := sp\<rparr>)
   }"

text \<open>The elements of the vector are in memory.\<close>

definition stack_in_memory :: "KernelStack \<Rightarrow> (u64 \<Rightarrow> u64) \<Rightarrow> bool" where
  "stack_in_memory ks mem \<longleftrightarrow> (\<forall>i < length (ks_elems ks). mem (ks_ptr ks + of_nat (i * 8)) = ks_elems ks ! i)"

section \<open>Saving and loading registers\<close>

lemma push_reg_simps [simp]:
  "rsp (push_reg r c) = rsp c - 8" "regs (push_reg r c) = regs c" "cr3 (push_reg r c) = cr3 c"
  "words (push_reg r c) = (words c)(rsp c - 8 := regs c r)"
  by (simp_all add: push_reg_def push_word_def)

lemma pop_reg_simps [simp]:
  "rsp (pop_reg r c) = rsp c + 8" "regs (pop_reg r c) = (regs c)(r := words c (rsp c))" "cr3 (pop_reg r c) = cr3 c" "tss_rsp0 (pop_reg r c) = tss_rsp0 c"
  "words (pop_reg r c) = words c"
  by (simp_all add: pop_reg_def)

lemma push_regs:
  "rsp (fold push_reg rs c) = rsp c - of_nat (8 * length rs)" "regs (fold push_reg rs c) = regs c" "cr3 (fold push_reg rs c) = cr3 c"
  by (induction rs arbitrary: c) (simp_all add: diff_diff_eq distrib_left)

lemma word_offset_eq:
  assumes "m < 2 ^ 60" "n < 2 ^ 60"
  shows "a - of_nat (8 * m) = a - (of_nat (8 * n) :: u64) \<longleftrightarrow> m = n"
proof -
  have "unat (of_nat (8 * m) :: u64) = 8 * m" "unat (of_nat (8 * n) :: u64) = 8 * n" using assms by (intro unat_of_nat_bound; simp)+
  then have "(of_nat (8 * m) :: u64) = of_nat (8 * n) \<longleftrightarrow> m = n" by (metis mult_cancel1 zero_neq_numeral)
  then show ?thesis by simp
qed

lemma push_regs_words:
  assumes "length rs < 2 ^ 60" "\<And>i. i < length rs \<Longrightarrow> a \<noteq> rsp c - of_nat (8 * Suc i)"
  shows "words (fold push_reg rs c) a = words c a"
  using assms
proof (induction rs arbitrary: c)
  case (Cons r rs)
  let ?c = "push_reg r c"
  have "a \<noteq> rsp ?c - of_nat (8 * Suc i)" if "i < length rs" for i using Cons.prems(2) [of "Suc i"] that by (simp add: diff_diff_eq distrib_left)
  then have "words (fold push_reg rs ?c) a = words ?c a" using Cons.IH [of ?c] Cons.prems(1) by simp
  moreover have "a \<noteq> rsp c - 8" using Cons.prems(2) [of 0] by simp
  ultimately show ?case by simp
qed simp

lemma push_regs_saved:
  assumes "length rs < 2 ^ 60" "i < length rs"
  shows "words (fold push_reg rs c) (rsp c - of_nat (8 * Suc i)) = regs c (rs ! i)"
  using assms
proof (induction rs arbitrary: c i)
  case (Cons r rs)
  let ?c = "push_reg r c"
  show ?case
  proof (cases i)
    case 0
    have "rsp c - of_nat (8 * 1) \<noteq> rsp c - of_nat (8 * Suc (Suc j))" if "j < length rs" for j
      using word_offset_eq [of 1 "Suc (Suc j)" "rsp c"] that Cons.prems(1) by simp
    then have "words (fold push_reg rs ?c) (rsp c - 8) = words ?c (rsp c - 8)"
      using push_regs_words [of rs "rsp c - 8" ?c] Cons.prems(1) by (simp add: diff_diff_eq distrib_left)
    with 0 show ?thesis by simp
  next
    case (Suc k)
    then show ?thesis using Cons.IH [of k ?c] Cons.prems by (simp add: diff_diff_eq distrib_left)
  qed
qed simp

lemma pop_regs:
  "rsp (fold pop_reg rs c) = rsp c + of_nat (8 * length rs)" "words (fold pop_reg rs c) = words c" "cr3 (fold pop_reg rs c) = cr3 c"
  "tss_rsp0 (fold pop_reg rs c) = tss_rsp0 c" "r \<notin> set rs \<Longrightarrow> regs (fold pop_reg rs c) r = regs c r"
  by (induction rs arbitrary: c) (simp_all add: add.assoc distrib_left)

lemma pop_regs_loaded:
  assumes "distinct rs" "i < length rs"
  shows "regs (fold pop_reg rs c) (rs ! i) = words c (rsp c + of_nat (8 * i))"
  using assms
proof (induction rs arbitrary: c i)
  case (Cons r rs)
  show ?case
  proof (cases i)
    case 0
    then show ?thesis using Cons.prems(1) by (simp add: pop_regs)
  next
    case (Suc k)
    then show ?thesis using Cons.IH [of k "pop_reg r c"] Cons.prems by (simp add: add.assoc distrib_left)
  qed
qed simp

lemma saved_regs_simps: "length saved_regs = 16" "distinct saved_regs" "set saved_regs = UNIV"
proof -
  show "length saved_regs = 16" "distinct saved_regs" by (simp_all add: saved_regs_def)
  have "r \<in> set saved_regs" for r by (cases r) (simp_all add: saved_regs_def)
  then show "set saved_regs = UNIV" by blast
qed

text \<open>The registers \<open>f\<close> and the return address \<open>ra\<close> lie on the stack from \<open>b\<close> on.\<close>

definition frame_at :: "u64 \<Rightarrow> (reg \<Rightarrow> u64) \<Rightarrow> u64 \<Rightarrow> (u64 \<Rightarrow> u64) \<Rightarrow> bool" where
  "frame_at b f ra mem \<longleftrightarrow> (\<forall>j < 16. mem (b + of_nat (8 * j)) = f (rev saved_regs ! j)) \<and> mem (b + 128) = ra"

lemma save_regs_frame: "frame_at (rsp c - 128) (regs c) (words c (rsp c)) (words (save_regs c))"
  unfolding frame_at_def
proof (intro conjI allI impI)
  fix j :: nat assume j: "j < 16"
  have "rsp c - 128 + of_nat (8 * j) = rsp c - of_nat (8 * Suc (15 - j))" using j by (simp add: of_nat_diff algebra_simps)
  moreover have "rev saved_regs ! j = saved_regs ! (15 - j)" using j by (simp add: rev_nth saved_regs_simps(1))
  moreover have "words (save_regs c) (rsp c - of_nat (8 * Suc (15 - j))) = regs c (saved_regs ! (15 - j))"
    unfolding save_regs_def by (rule push_regs_saved) (use saved_regs_simps(1) in simp_all)
  ultimately show "words (save_regs c) (rsp c - 128 + of_nat (8 * j)) = regs c (rev saved_regs ! j)" by metis
next
  have "rsp c \<noteq> rsp c - of_nat (8 * Suc i)" if "i < 16" for i using word_offset_eq [of 0 "Suc i" "rsp c"] that by simp
  then show "words (save_regs c) (rsp c - 128 + 128) = words c (rsp c)"
    using push_regs_words [of saved_regs "rsp c" c] saved_regs_simps(1) by (simp add: save_regs_def)
qed

lemma load_regs_frame:
  assumes "frame_at (rsp c) f ra (words c)"
  shows "regs (load_regs c) = f" "rsp (load_regs c) = rsp c + 128" "words (load_regs c) = words c" "cr3 (load_regs c) = cr3 c" "tss_rsp0 (load_regs c) = tss_rsp0 c"
proof -
  show "rsp (load_regs c) = rsp c + 128" "words (load_regs c) = words c" "cr3 (load_regs c) = cr3 c" "tss_rsp0 (load_regs c) = tss_rsp0 c"
    by (simp_all add: load_regs_def pop_regs saved_regs_simps(1))
  show "regs (load_regs c) = f"
  proof
    fix r
    have "r \<in> set (rev saved_regs)" by (simp add: saved_regs_simps(3))
    then obtain j where j: "j < 16" "r = rev saved_regs ! j" using saved_regs_simps(1) by (metis in_set_conv_nth length_rev)
    with assms pop_regs_loaded [of "rev saved_regs" j c] show "regs (load_regs c) r = f r"
      by (simp add: load_regs_def frame_at_def saved_regs_simps(1,2))
  qed
qed

section \<open>Calling the scheduler\<close>

text \<open>
  What the calling convention says of \<^verbatim>\<open>unlock_scheduler\<close>: the stack pointer and the registers that belong to the caller are kept, its return
  address and the word above are not written, interrupts stay as they are, and the address space is not changed.
\<close>

definition kept_regs :: "reg set" where
  "kept_regs = {RBX, RBP, R12, R13, R14, R15}"

definition keeps_convention :: "(cpu \<Rightarrow> cpu) \<Rightarrow> bool" where
  "keeps_convention unlock \<longleftrightarrow> (\<forall>c. rsp (unlock c) = rsp c \<and> (\<forall>r \<in> kept_regs. regs (unlock c) r = regs c r)
     \<and> regs (unlock c) RFLAGS AND 0x200 = regs c RFLAGS AND 0x200 \<and> cr3 (unlock c) = cr3 c \<and> tss_rsp0 (unlock c) = tss_rsp0 c
     \<and> words (unlock c) (rsp c) = words c (rsp c) \<and> words (unlock c) (rsp c + 8) = words c (rsp c + 8))"

text \<open>Where a processor continues after its stack pointer has been set to a saved frame.\<close>

definition continues_at :: "(reg \<Rightarrow> u64) \<Rightarrow> u64 \<Rightarrow> u64 \<Rightarrow> cpu \<Rightarrow> bool" where
  "continues_at f sp ip e \<longleftrightarrow> rip e = ip \<and> rsp e = sp \<and> (\<forall>r \<in> kept_regs. regs e r = f r) \<and> regs e RFLAGS AND 0x200 = f RFLAGS AND 0x200"

lemma continue_frame:
  assumes "keeps_convention unlock" "frame_at (rsp c) f ip (words c)"
  shows "continues_at f (rsp c + 136) ip (ret (call_unlock unlock ra (load_regs c)))
    \<and> cr3 (ret (call_unlock unlock ra (load_regs c))) = cr3 c \<and> tss_rsp0 (ret (call_unlock unlock ra (load_regs c))) = tss_rsp0 c"
proof -
  let ?d = "push_word ra (load_regs c)"
  note L = load_regs_frame [OF assms(2)]
  have d: "rsp ?d = rsp c + 120" "words ?d (rsp c + 128) = ip" "regs ?d = f" "cr3 ?d = cr3 c" "tss_rsp0 ?d = tss_rsp0 c"
    using L assms(2) by (simp_all add: push_word_def frame_at_def)
  have "rsp ?d + 8 = rsp c + 128" using d(1) by simp
  then have "words (unlock ?d) (rsp c + 128) = ip" using assms(1) d(2) unfolding keeps_convention_def by metis
  then have "words (unlock ?d) (128 + rsp c) = ip" by (simp add: add.commute)
  with assms(1) d show ?thesis by (simp add: keeps_convention_def call_unlock_def ret_def continues_at_def)
qed

section \<open>Properties\<close>

text \<open>The words of its own frame and those that \<^verbatim>\<open>thread_switch\<close> pushes.\<close>

definition own_frame :: "cpu \<Rightarrow> u64 set" where
  "own_frame c = set (map (\<lambda>j. rsp c - 128 + of_nat (8 * j)) [0..<17])"

definition pushed_words :: "cpu \<Rightarrow> u64 set" where
  "pushed_words c = set (map (\<lambda>i. rsp c - of_nat (8 * Suc i)) [0..<16])"

lemma frame_at_cong:
  assumes "frame_at b f ip mem" "\<And>j. j < 17 \<Longrightarrow> mem' (b + of_nat (8 * j)) = mem (b + of_nat (8 * j))"
  shows "frame_at b f ip mem'"
  using assms(1) assms(2) [of 16] assms(2) by (simp add: frame_at_def)

lemma save_context_words:
  "words (save_context slot c) = (words (save_regs c))(slot := rsp c - 128)"
  by (simp add: save_context_def Let_def save_regs_def push_regs saved_regs_simps)

lemma save_context_other: "a \<noteq> slot \<Longrightarrow> a \<notin> pushed_words c \<Longrightarrow> words (save_context slot c) a = words c a"
  using push_regs_words [of saved_regs a c] by (auto simp: save_context_words save_regs_def pushed_words_def saved_regs_simps image_iff simp del: upt_rec_numeral)


text \<open>One thread with its stack below address 10000 (hexadecimal) and another one below 20000.\<close>

definition sample_cpu :: "u64 \<Rightarrow> (u64 \<Rightarrow> u64) \<Rightarrow> cpu" where
  "sample_cpu sp mem = \<lparr>regs = (\<lambda>r. case r of RBX \<Rightarrow> 7 | RFLAGS \<Rightarrow> 0x246 | _ \<Rightarrow> 1), rsp = sp, rip = 0x5000, seg_cs = 8, seg_ss = 16, cr3 = 0x1000,
     tss_rsp0 = 0, words = mem\<rparr>"


section \<open>New threads\<close>

lemma put_all_ok:
  assumes "length xs = capacity" "\<forall>(k, v) \<in> set kvs. 1 \<le> k \<and> k \<le> capacity" "distinct (map fst kvs)"
  shows "\<exists>ys. put_all capacity kvs xs = Some ys \<and> length ys = capacity \<and> (\<forall>(k, v) \<in> set kvs. ys ! (capacity - k) = v)
    \<and> (\<forall>i < capacity. capacity - i \<notin> fst ` set kvs \<longrightarrow> ys ! i = xs ! i)"
  using assms
proof (induction kvs arbitrary: xs)
  case (Cons kv kvs)
  obtain k v where kv: "kv = (k, v)" by fastforce
  have k: "1 \<le> k" "k \<le> capacity" "k \<notin> fst ` set kvs" using Cons.prems(2,3) kv by auto
  let ?xs = "xs[capacity - k := v]"
  obtain ys where ys: "put_all capacity kvs ?xs = Some ys" "length ys = capacity" "\<forall>(k, v) \<in> set kvs. ys ! (capacity - k) = v"
    "\<forall>i < capacity. capacity - i \<notin> fst ` set kvs \<longrightarrow> ys ! i = ?xs ! i" using Cons.IH [of ?xs] Cons.prems by auto
  have "ys ! (capacity - k) = v" using ys(4) k Cons.prems(1) by simp
  moreover have "ys ! i = xs ! i" if "i < capacity" "capacity - i \<notin> fst ` set (kv # kvs)" for i
  proof -
    have "i \<noteq> capacity - k" using that kv k by auto
    with ys(4) that show ?thesis by simp
  qed
  ultimately show ?case using ys k Cons.prems(1) kv by (auto simp: from_top_def panic_simps)
qed simp

definition stack_word :: "KernelStack \<Rightarrow> nat \<Rightarrow> u64" where
  "stack_word ks i = ks_ptr ks + of_nat (i * 8)"

lemma virt_offset_stack:
  assumes "unat (ks_ptr ks) + ks_capacity ks * 8 < 2 ^ 47" "i \<le> ks_capacity ks"
  shows "virt_offset (ks_ptr ks) (i * 8) = Some (stack_word ks i)"
proof -
  have b: "unat (ks_ptr ks) + i * 8 < 2 ^ 47" using assms by linarith
  then have "unat (stack_word ks i) = unat (ks_ptr ks) + i * 8" by (simp add: stack_word_def unat_word_ariths unat_of_nat)
  with b show ?thesis by (simp add: virt_offset_def virt_addr_new_def panic_simps stack_word_def)
qed

lemma stack_word_above:
  assumes "j < k" "k \<le> length (ks_elems ks)" "stack_in_memory ks mem"
  shows "mem (stack_word ks (length (ks_elems ks) - k) + of_nat (8 * j)) = ks_elems ks ! (length (ks_elems ks) - (k - j))"
proof -
  have e: "stack_word ks (length (ks_elems ks) - k) + of_nat (8 * j) = stack_word ks (length (ks_elems ks) - (k - j))"
    using assms(1,2) by (simp add: stack_word_def of_nat_diff algebra_simps)
  have "length (ks_elems ks) - (k - j) < length (ks_elems ks)" using assms(1,2) by simp
  with assms(3) show ?thesis unfolding e unfolding stack_in_memory_def stack_word_def by blast
qed

lemma start_frame_simps:
  "distinct (map fst (start_frame kickoff))" "\<forall>(k, v) \<in> set (start_frame kickoff). 1 \<le> k \<and> k \<le> 18"
  "(2, kickoff) \<in> set (start_frame kickoff)" "j < 16 \<Longrightarrow> (18 - j, if j = 15 then 0x202 else 0) \<in> set (start_frame kickoff)"
proof -
  show "distinct (map fst (start_frame kickoff))" "\<forall>(k, v) \<in> set (start_frame kickoff). 1 \<le> k \<and> k \<le> 18" "(2, kickoff) \<in> set (start_frame kickoff)"
    by (simp_all add: start_frame_def)
  assume j: "j < 16"
  then have "j \<noteq> 15 \<Longrightarrow> 18 - j \<in> set [4..<19]" unfolding set_upt by auto
  with j show "(18 - j, if j = 15 then 0x202 else 0) \<in> set (start_frame kickoff)" by (auto simp: start_frame_def simp del: upt_rec_numeral)
qed

lemma prepare_kernel_stack_ok:
  assumes ks: "ks_elems ks = []" "18 \<le> ks_capacity ks" "unat (ks_ptr ks) + ks_capacity ks * 8 < 2 ^ 47"
  shows "\<exists>xs. prepare_kernel_stack kickoff (Stacks_new ks us) =
      Some \<lparr>kernel_stack = ks\<lparr>ks_elems := xs\<rparr>, user_stack = us, old_rsp0 = stack_word ks (ks_capacity ks - 18)\<rparr> \<and> length xs = ks_capacity ks
    \<and> (\<forall>mem. stack_in_memory (ks\<lparr>ks_elems := xs\<rparr>) mem \<longrightarrow> frame_at (stack_word ks (ks_capacity ks - 18)) (\<lambda>r. if r = RFLAGS then 0x202 else 0) kickoff mem)"
proof -
  let ?n = "ks_capacity ks"
  note F = start_frame_simps [where kickoff = kickoff]
  obtain xs where xs: "put_all ?n (start_frame kickoff) (replicate ?n 0) = Some xs" "length xs = ?n" "\<forall>(k, v) \<in> set (start_frame kickoff). xs ! (?n - k) = v"
    using put_all_ok [of "replicate ?n 0" ?n "start_frame kickoff"] F(1,2) ks(2) by fastforce
  have "frame_at (stack_word ks (?n - 18)) (\<lambda>r. if r = RFLAGS then 0x202 else 0) kickoff mem" if m: "stack_in_memory (ks\<lparr>ks_elems := xs\<rparr>) mem" for mem
    unfolding frame_at_def
  proof (intro conjI allI impI)
    have w: "mem (stack_word ks (?n - 18) + of_nat (8 * j)) = xs ! (?n - (18 - j))" if "j < 18" for j
      using stack_word_above [OF that _ m] ks(2) xs(2) by (simp add: stack_word_def)
    show "mem (stack_word ks (?n - 18) + 128) = kickoff" using w [of 16] xs(3) F(3) by auto
    fix j :: nat assume j: "j < 16"
    have "xs ! (?n - (18 - j)) = (if j = 15 then 0x202 else 0)" using bspec [OF xs(3) F(4) [OF j]] by simp
    moreover have "rev saved_regs ! j = RFLAGS \<longleftrightarrow> j = 15"
      using nth_eq_iff_index_eq [of "rev saved_regs" j 15] j by (simp add: saved_regs_def)
    ultimately show "mem (stack_word ks (?n - 18) + of_nat (8 * j)) = (if rev saved_regs ! j = RFLAGS then 0x202 else 0)" using w [of j] j by simp
  qed
  moreover have "prepare_kernel_stack kickoff (Stacks_new ks us) = Some \<lparr>kernel_stack = ks\<lparr>ks_elems := xs\<rparr>, user_stack = us, old_rsp0 = stack_word ks (?n - 18)\<rparr>"
    using xs(1) virt_offset_stack [OF ks(3), of "?n - 18"] ks(1)
    by (simp add: prepare_kernel_stack_def Let_def Stacks_new_def panic_simps)
  ultimately show ?thesis using xs(2) by blast
qed

lemma switch_to_user_mode_ok:
  assumes ks: "length (ks_elems ks) = ks_capacity ks" "18 \<le> ks_capacity ks" "unat (ks_ptr ks) + ks_capacity ks * 8 < 2 ^ 47"
    and us: "1 \<le> us_capacity us" "unat (us_ptr us) + us_capacity us * 8 < 2 ^ 47"
  shows "\<exists>ys. switch_to_user_mode kick \<lparr>kernel_stack = ks, user_stack = us, old_rsp0 = sp\<rparr> =
      Some \<lparr>kernel_stack = ks\<lparr>ks_elems := ys\<rparr>, user_stack = us, old_rsp0 = stack_word ks (ks_capacity ks - 6)\<rparr>
    \<and> (\<forall>mem. stack_in_memory (ks\<lparr>ks_elems := ys\<rparr>) mem \<longrightarrow> (\<forall>j < 5. mem (stack_word ks (ks_capacity ks - 6) + of_nat (8 * j)) =
        [kick, selector_ring3 4, 0x202, us_ptr us + of_nat ((us_capacity us - 1) * 8), selector_ring3 3] ! j))"
proof -
  let ?n = "ks_capacity ks" and ?top = "us_ptr us + of_nat ((us_capacity us - 1) * 8)"
  let ?kvs = "[(6, kick), (5, selector_ring3 4), (4, 0x202), (3, ?top), (2, selector_ring3 3), (1, 0x00DEAD00)]"
  obtain ys where ys: "put_all ?n ?kvs (ks_elems ks) = Some ys" "length ys = ?n" "\<forall>(k, v) \<in> set ?kvs. ys ! (?n - k) = v"
    using put_all_ok [of "ks_elems ks" ?n ?kvs] ks(1,2) by auto
  have "switch_to_user_mode kick \<lparr>kernel_stack = ks, user_stack = us, old_rsp0 = sp\<rparr> =
      Some \<lparr>kernel_stack = ks\<lparr>ks_elems := ys\<rparr>, user_stack = us, old_rsp0 = stack_word ks (?n - 6)\<rparr>"
    using ys(1) virt_offset_stack [OF ks(3), of "?n - 6"] us by (simp add: switch_to_user_mode_def Let_def panic_simps del: put_all.simps)
  moreover have "mem (stack_word ks (?n - 6) + of_nat (8 * j)) = [kick, selector_ring3 4, 0x202, ?top, selector_ring3 3] ! j"
    if m: "stack_in_memory (ks\<lparr>ks_elems := ys\<rparr>) mem" and j: "j < 5" for mem j
  proof -
    have "mem (stack_word ks (?n - 6) + of_nat (8 * j)) = ys ! (?n - (6 - j))"
      using stack_word_above [OF _ _ m, of j 6] j ks(2) ys(2) by (simp add: stack_word_def)
    moreover have "j \<in> {0, 1, 2, 3, 4}" using j by auto
    ultimately show ?thesis using ys(3) by auto
  qed
  ultimately show ?thesis by blast
qed


text \<open>A kernel stack of 64 pages at 100000 (hexadecimal), and the memory that holds the elements of a vector.\<close>

definition sample_kernel_stack :: KernelStack where
  "sample_kernel_stack = \<lparr>ks_ptr = 0x100000, ks_capacity = KERNEL_STACK_PAGES * 512, ks_elems = []\<rparr>"

definition memory_of :: "KernelStack \<Rightarrow> u64 \<Rightarrow> u64" where
  "memory_of ks a = ks_elems ks ! (unat (a - ks_ptr ks) div 8)"

lemma memory_of_stack: "length (ks_elems ks) < 2 ^ 32 \<Longrightarrow> stack_in_memory ks (memory_of ks)"
  unfolding stack_in_memory_def memory_of_def
proof (intro allI impI)
  fix i assume "length (ks_elems ks) < 2 ^ 32" "i < length (ks_elems ks)"
  then have "unat (of_nat (i * 8) :: u64) = i * 8" by (intro unat_of_nat_bound) simp
  then show "ks_elems ks ! (unat (ks_ptr ks + of_nat (i * 8) - ks_ptr ks) div 8) = ks_elems ks ! i" by simp
qed


end
