(* ===== verification/Program_Loader.thy ===== *)
theory Program_Loader
  imports Address_Space_Properties Thread_Context Naming
begin

text \<open>
  Loading a program (\<^verbatim>\<open>load_application\<close> of \<^verbatim>\<open>kernel/src/process/thread.rs\<close>): the segments of its file are mapped and copied, its arguments are written
  into a page of its address space, and the runtime of the program (\<^verbatim>\<open>library/runtime/src/env.rs\<close>) reads them there.
  Around it, the creation of processes (\<^verbatim>\<open>process_manager.rs\<close>) and threads, and the system calls that start them.
  The parser of the file format is not part of the repository; the segments it reports are an argument.
\<close>

section \<open>Segments\<close>

record ProgramHeader =
  p_type :: u32
  p_offset :: nat
  p_vaddr :: u64
  p_filesz :: nat
  p_memsz :: nat

definition PT_LOAD :: u32 where "PT_LOAD = 1"

definition page_count :: "nat \<Rightarrow> nat" where
  "page_count n = (if n mod 4096 = 0 then n div 4096 else n div 4096 + 1)"

text \<open>The loop that clears the pages behind the data, from \<open>dest_offset\<close> on.\<close>

fun clear_bss :: "'e entry_ops \<Rightarrow> VirtualAddressSpace \<Rightarrow> 'e pt_mem \<Rightarrow> nat \<Rightarrow> nat \<Rightarrow> nat \<Rightarrow> phys_mem \<Rightarrow> phys_mem option" where
  "clear_bss E space s dest_page_start dest_offset 0 mem = Some mem"
| "clear_bss E space s dest_page_start dest_offset (Suc n) mem = do {
     phys \<leftarrow> get_phys E space (of_nat (dest_page_start + dest_offset)) s;
     dest \<leftarrow> phys;
     clear_bss E space s dest_page_start (dest_offset + 4096) n (write_phys dest (replicate 4096 0) mem)
   }"

text \<open>\<open>elf\<close> is the file, byte by byte.\<close>

definition load_segment ::
    "'e entry_ops \<Rightarrow> (nat \<Rightarrow> u8) \<Rightarrow> u8 list \<Rightarrow> ProgramHeader \<Rightarrow> VirtualAddressSpace \<Rightarrow> 'e pt_mem \<Rightarrow> phys_mem
      \<Rightarrow> (VirtualAddressSpace \<times> 'e pt_mem \<times> phys_mem) option" where
  "load_segment E elf name header space s mem = do {
     let total_page_count = page_count (p_memsz header);
     let code_page_count = page_count (p_filesz header);
     virt_start \<leftarrow> page_from_u64 (p_vaddr header) \<bind> result_ok;
     (vma, space1, s1) \<leftarrow> user_alloc_map_full E space (Some virt_start) total_page_count Code name s;
     vma \<leftarrow> vma;
     mem1 \<leftarrow> copy_to_addr_space E (\<lambda>i. elf (p_offset header + i)) space1 (pr_start (vma_range vma)) (p_filesz header) True s1 mem;
     mem2 \<leftarrow> (if total_page_count > code_page_count
              then clear_bss E space1 s1 (pr_start (vma_range vma) * 4096) (code_page_count * 4096) (total_page_count - code_page_count) mem1
              else Some mem1);
     Some (space1, s1, mem2)
   }"

fun load_segments ::
    "'e entry_ops \<Rightarrow> (nat \<Rightarrow> u8) \<Rightarrow> u8 list \<Rightarrow> ProgramHeader list \<Rightarrow> VirtualAddressSpace \<Rightarrow> 'e pt_mem \<Rightarrow> phys_mem
      \<Rightarrow> (VirtualAddressSpace \<times> 'e pt_mem \<times> phys_mem) option" where
  "load_segments E elf name [] space s mem = Some (space, s, mem)"
| "load_segments E elf name (header # headers) space s mem =
     (if p_type header = PT_LOAD then do {
        (space1, s1, mem1) \<leftarrow> load_segment E elf name header space s mem;
        load_segments E elf name headers space1 s1 mem1
      }
      else load_segments E elf name headers space s mem)"

definition parse_and_map_elf_bin ::
    "'e entry_ops \<Rightarrow> ((nat \<Rightarrow> u8) \<Rightarrow> (ProgramHeader list \<times> u64) option) \<Rightarrow> (nat \<Rightarrow> u8) \<Rightarrow> u8 list \<Rightarrow> VirtualAddressSpace \<Rightarrow> 'e pt_mem \<Rightarrow> phys_mem
      \<Rightarrow> (u64 \<times> VirtualAddressSpace \<times> 'e pt_mem \<times> phys_mem) option" where
  "parse_and_map_elf_bin E parse elf name space s mem = do {
     (headers, entry) \<leftarrow> parse elf;
     (space1, s1, mem1) \<leftarrow> load_segments E elf name headers space s mem;
     Some (entry, space1, s1, mem1)
   }"

section \<open>Arguments\<close>

definition USER_SPACE_ENV_START :: nat where
  "USER_SPACE_ENV_START = USER_SPACE_START + 0x40000000"

text \<open>A string that is written to \<open>target\<close> with the terminating zero.\<close>

definition write_cstr :: "u64 \<Rightarrow> u8 list \<Rightarrow> phys_mem \<Rightarrow> phys_mem" where
  "write_cstr target arg mem = write_phys (target + of_nat (length arg)) [0] (write_phys target arg mem)"

fun copy_arg_list :: "u64 \<Rightarrow> u64 \<Rightarrow> nat \<Rightarrow> nat \<Rightarrow> nat \<Rightarrow> u8 list list \<Rightarrow> phys_mem \<Rightarrow> phys_mem option" where
  "copy_arg_list argv args_begin args_begin_virt i offset [] mem = Some mem"
| "copy_arg_list argv args_begin args_begin_virt i offset (arg # args) mem = do {
     let mem1 = write_cstr (args_begin + of_nat offset) arg mem;
     ptr \<leftarrow> virt_add args_begin_virt offset;
     copy_arg_list argv args_begin args_begin_virt (Suc i) (offset + length arg + 1) args
       (write_phys (argv + of_nat (8 * (i + 1))) (to_le 8 (of_nat ptr :: u64)) mem1)
   }"

definition env_page_count :: "u8 list list \<Rightarrow> nat" where
  "env_page_count args =
     (let env_size = sum_list (map length args) in
      if env_size > 0 \<and> env_size mod 4096 = 0 then env_size div 4096 else env_size div 4096 + 1)"

text \<open>Writing \<^verbatim>\<open>argc\<close>, \<^verbatim>\<open>argv\<close> and the strings, once the environment has the physical address \<open>env\<close>.\<close>

definition write_args :: "u64 \<Rightarrow> u8 list \<Rightarrow> u8 list list \<Rightarrow> phys_mem \<Rightarrow> phys_mem option" where
  "write_args env name args mem = do {
     env_addr \<leftarrow> virt_addr (unat env);
     argv \<leftarrow> virt_add env_addr 8;
     let argv = of_nat argv;
     let mem1 = write_phys env (to_le 8 (of_nat (length args + 1) :: u64)) mem;
     let args_begin = argv + of_nat (8 * (length args + 1));
     args_begin_virt \<leftarrow> virt_add USER_SPACE_ENV_START 8;
     args_begin_virt \<leftarrow> virt_add args_begin_virt ((length args + 1) * 8);
     let mem2 = write_cstr args_begin name mem1;
     let mem3 = write_phys argv (to_le 8 (of_nat args_begin_virt :: u64)) mem2;
     copy_arg_list argv args_begin args_begin_virt 0 (length name + 1) args mem3
   }"

definition copy_args ::
    "'e entry_ops \<Rightarrow> u8 list \<Rightarrow> u8 list list \<Rightarrow> VirtualAddressSpace \<Rightarrow> 'e pt_mem \<Rightarrow> phys_mem \<Rightarrow> (VirtualAddressSpace \<times> 'e pt_mem \<times> phys_mem) option" where
  "copy_args E name args space s mem = do {
     let env_virt_start = USER_SPACE_ENV_START div 4096;
     (vma, space1, s1) \<leftarrow> user_alloc_map_full E space (Some env_virt_start) (env_page_count args) Environment (map (of_nat \<circ> of_char) ''env'') s;
     _ \<leftarrow> vma;
     rust_assert (env_page_count args \<le> 1);
     phys \<leftarrow> get_phys E space1 (of_nat (env_virt_start * 4096)) s1;
     env_frame \<leftarrow> phys;
     mem1 \<leftarrow> write_args env_frame name args mem;
     Some (space1, s1, mem1)
   }"

section \<open>Reading the arguments in the program\<close>

text \<open>What the program sees at a virtual address; \<open>None\<close> is a fault.\<close>

definition user_byte :: "'e entry_ops \<Rightarrow> VirtualAddressSpace \<Rightarrow> 'e pt_mem \<Rightarrow> phys_mem \<Rightarrow> u64 \<Rightarrow> u8 option" where
  "user_byte E space s mem a = do { phys \<leftarrow> get_phys E space a s; p \<leftarrow> phys; Some (mem p) }"

fun read_bytes :: "(u64 \<Rightarrow> u8 option) \<Rightarrow> u64 \<Rightarrow> nat \<Rightarrow> u8 list option" where
  "read_bytes rd a 0 = Some []"
| "read_bytes rd a (Suc n) = do { b \<leftarrow> rd a; bs \<leftarrow> read_bytes rd (a + 1) n; Some (b # bs) }"

definition read_word :: "(u64 \<Rightarrow> u8 option) \<Rightarrow> u64 \<Rightarrow> u64 option" where
  "read_word rd a = do { bs \<leftarrow> read_bytes rd a 8; Some (from_le bs) }"

partial_function (option) strlen_from :: "(u64 \<Rightarrow> u8 option) \<Rightarrow> u64 \<Rightarrow> nat \<Rightarrow> nat option" where
  "strlen_from rd str len = do { b \<leftarrow> rd (str + of_nat len); if b \<noteq> 0 then strlen_from rd str (len + 1) else Some len }"

definition strlen :: "(u64 \<Rightarrow> u8 option) \<Rightarrow> u64 \<Rightarrow> nat option" where
  "strlen rd str = strlen_from rd str 0"

definition ARGC_PTR :: u64 where "ARGC_PTR = of_nat USER_SPACE_ENV_START"
definition ARGV_PTR :: u64 where "ARGV_PTR = of_nat (USER_SPACE_ENV_START + 8)"

text \<open>\<^verbatim>\<open>CStr::from_bytes_with_nul\<close>: the only zero is the last byte.\<close>

definition from_bytes_with_nul :: "u8 list \<Rightarrow> u8 list option" where
  "from_bytes_with_nul bs = (if bs \<noteq> [] \<and> last bs = 0 \<and> 0 \<notin> set (butlast bs) then Some (butlast bs) else None)"

text \<open>\<^verbatim>\<open>Args::next\<close>, with the index before and after.\<close>

definition Args_next :: "(u64 \<Rightarrow> u8 option) \<Rightarrow> nat \<Rightarrow> (u8 list option \<times> nat) option" where
  "Args_next rd index = do {
     argc \<leftarrow> read_word rd ARGC_PTR;
     if index \<ge> unat argc then Some (None, index)
     else do {
       arg \<leftarrow> read_word rd (ARGV_PTR + of_nat (8 * index));
       len \<leftarrow> strlen rd arg;
       if arg = 0 then Some (None, index + 1)
       else do {
         bs \<leftarrow> read_bytes rd arg (len + 1);
         case from_bytes_with_nul bs of
           None \<Rightarrow> Some (None, index + 1)
         | Some cstr \<Rightarrow> do { rust_assert (utf8_valid cstr); Some (Some cstr, index + 1) }
       }
     }
   }"

section \<open>Processes and threads\<close>

text \<open>
  The processes by their ids with their address spaces, the counters of the ids, the page tables and the memory. The contents of the
  kernel stacks are part of the threads.
\<close>

record 'e os_state =
  os_manager :: ProcessManager
  os_spaces :: "nat \<rightharpoonup> VirtualAddressSpace"
  os_next_pid :: nat
  os_next_tid :: nat
  os_tables :: "'e pt_mem"
  os_memory :: phys_mem

definition next_process_id :: "nat \<Rightarrow> nat \<times> nat" where
  "next_process_id PROCESS_ID_COUNTER = (PROCESS_ID_COUNTER, (PROCESS_ID_COUNTER + 1) mod 2 ^ 64)"

text \<open>\<^verbatim>\<open>Process::new\<close>, and the process added to the active ones.\<close>

definition add_process :: "u8 \<Rightarrow> Paging \<Rightarrow> 'e os_state \<Rightarrow> (nat \<times> 'e os_state) option" where
  "add_process virtual_bits tables st = do {
     let (pid, next_pid) = next_process_id (os_next_pid st);
     space \<leftarrow> VirtualAddressSpace_new virtual_bits tables;
     Some (pid, st\<lparr>os_next_pid := next_pid, os_spaces := (os_spaces st)(pid \<mapsto> space),
       os_manager := (os_manager st)\<lparr>active_processes := active_processes (os_manager st) @ [pid]\<rparr>\<rparr>)
   }"

definition create_process :: "'e entry_ops \<Rightarrow> u8 \<Rightarrow> 'e os_state \<Rightarrow> (nat \<times> 'e os_state) option" where
  "create_process E virtual_bits st = do {
     kp \<leftarrow> kernel_process (os_manager st);
     kernel_space \<leftarrow> os_spaces st kp;
     (tables, s1) \<leftarrow> clone_address_space E kernel_space (os_tables st);
     add_process virtual_bits tables (st\<lparr>os_tables := s1\<rparr>)
   }"

definition kernel_area :: "PhysFrameRange \<Rightarrow> VmaType \<Rightarrow> u8 list \<Rightarrow> VirtualAddressSpace \<Rightarrow> VirtualAddressSpace option" where
  "kernel_area region typ tag space = do {
     start_page \<leftarrow> page_from_u64 (of_nat (fr_start region * 4096)) \<bind> result_ok;
     (vma, space1) \<leftarrow> alloc_vma space (Some start_page) (fr_len region) Kernel typ tag;
     _ \<leftarrow> vma;
     Some space1
   }"

definition create_kernel_process :: "'e entry_ops \<Rightarrow> u8 \<Rightarrow> PhysFrameRange \<Rightarrow> PhysFrameRange \<Rightarrow> 'e os_state \<Rightarrow> (nat \<times> 'e os_state) option" where
  "create_kernel_process E virtual_bits kernel_image_region heap_region st = do {
     rust_assert (kernel_process (os_manager st) = None);
     (tables, s1) \<leftarrow> create_kernel_address_space E (os_tables st);
     (pid, st1) \<leftarrow> add_process virtual_bits tables (st\<lparr>os_tables := s1\<rparr>);
     space \<leftarrow> os_spaces st1 pid;
     space1 \<leftarrow> kernel_area heap_region Heap (map (of_nat \<circ> of_char) ''heap'') space;
     space2 \<leftarrow> kernel_area kernel_image_region Code (map (of_nat \<circ> of_char) ''code'') space1;
     Some (pid, st1\<lparr>os_spaces := (os_spaces st1)(pid \<mapsto> space2)\<rparr>)
   }"

definition alloc_kernel_stack :: "'e entry_ops \<Rightarrow> nat \<Rightarrow> u8 list \<Rightarrow> 'e os_state \<Rightarrow> (KernelStack \<times> 'e os_state) option" where
  "alloc_kernel_stack E pid tag_str st = do {
     space \<leftarrow> os_spaces st pid;
     (start_page, space1, s1) \<leftarrow> kernel_alloc_map_identity E space KERNEL_STACK_PAGES (PRESENT OR WRITABLE) VmaType.KernelStack tag_str (os_tables st);
     Some (\<lparr>ks_ptr = of_nat (pr_start start_page * 4096), ks_capacity = KERNEL_STACK_PAGES * 4096 div 8, ks_elems = []\<rparr>,
       st\<lparr>os_spaces := (os_spaces st)(pid \<mapsto> space1), os_tables := s1\<rparr>)
   }"

definition MAIN_USER_STACK_START :: nat where
  "MAIN_USER_STACK_START = USER_SPACE_ENV_START + 0x40000000"

definition take_thread_id :: "'e os_state \<Rightarrow> nat \<times> 'e os_state" where
  "take_thread_id st = (let (tid, next_tid) = next_thread_id (os_next_tid st) in (tid, st\<lparr>os_next_tid := next_tid\<rparr>))"

text \<open>\<open>kickoff\<close> is the address of \<^verbatim>\<open>kickoff_kernel_thread\<close>.\<close>

definition new_kernel_thread :: "'e entry_ops \<Rightarrow> u64 \<Rightarrow> u64 \<Rightarrow> u8 list \<Rightarrow> Scheduler \<Rightarrow> 'e os_state \<Rightarrow> (Thread \<times> Stacks \<times> 'e os_state) option" where
  "new_kernel_thread E kickoff entry tag_str sched st = do {
     pid \<leftarrow> current_process (os_manager st) sched;
     let (tid, st1) = take_thread_id st;
     (ks, st2) \<leftarrow> alloc_kernel_stack E pid tag_str st1;
     let us = alloc_user_stack (of_nat MAIN_USER_STACK_START) 0;
     kp \<leftarrow> kernel_process (os_manager st);
     stacks \<leftarrow> prepare_kernel_stack kickoff (Stacks_new ks us);
     Some (\<lparr>thread_id = tid, thread_process = kp, user_kickoff = 0, thread_entry = entry\<rparr>, stacks, st2)
   }"

definition new_user_thread :: "'e entry_ops \<Rightarrow> u64 \<Rightarrow> nat \<Rightarrow> u64 \<Rightarrow> u64 \<Rightarrow> 'e os_state \<Rightarrow> (Thread \<times> Stacks \<times> 'e os_state) option" where
  "new_user_thread E kickoff parent kickoff_addr entry st = do {
     let (tid, st1) = take_thread_id st;
     (ks, st2) \<leftarrow> alloc_kernel_stack E parent (map (of_nat \<circ> of_char) ''userthread'') st1;
     space \<leftarrow> os_spaces st2 parent;
     (stack_vma, space1, s1) \<leftarrow> user_alloc_map_partial E space None (MAX_USER_STACK_SIZE div 4096) VmaType.UserStack (map (of_nat \<circ> of_char) ''usrstack'') 1 True (os_tables st2);
     stack_vma \<leftarrow> stack_vma;
     let us = alloc_user_stack (of_nat (vma_start stack_vma)) MAX_USER_STACK_SIZE;
     stacks \<leftarrow> prepare_kernel_stack kickoff (Stacks_new ks us);
     Some (\<lparr>thread_id = tid, thread_process = parent, user_kickoff = kickoff_addr, thread_entry = entry\<rparr>, stacks,
       st2\<lparr>os_spaces := (os_spaces st2)(parent \<mapsto> space1), os_tables := s1\<rparr>)
   }"

text \<open>\<open>entry_fn\<close> is the address of the local function that is never called.\<close>

definition load_application ::
    "'e entry_ops \<Rightarrow> u8 \<Rightarrow> ((nat \<Rightarrow> u8) \<Rightarrow> (ProgramHeader list \<times> u64) option) \<Rightarrow> u64 \<Rightarrow> u64 \<Rightarrow> (nat \<Rightarrow> u8) \<Rightarrow> u8 list \<Rightarrow> u8 list list \<Rightarrow> Scheduler \<Rightarrow> 'e os_state
      \<Rightarrow> (Thread \<times> Stacks \<times> 'e os_state) option" where
  "load_application E virtual_bits parse kickoff entry_fn elf name args sched st = do {
     _ \<leftarrow> current_process (os_manager st) sched;
     (pid, st1) \<leftarrow> create_process E virtual_bits st;
     let (tid, st2) = take_thread_id st1;
     space \<leftarrow> os_spaces st2 pid;
     (entry, space1, s1, mem1) \<leftarrow> parse_and_map_elf_bin E parse elf name space (os_tables st2) (os_memory st2);
     (space2, s2, mem2) \<leftarrow> copy_args E name args space1 s1 mem1;
     entry \<leftarrow> virt_addr_new entry;
     new_user_thread E kickoff pid entry entry_fn (st2\<lparr>os_spaces := (os_spaces st2)(pid \<mapsto> space2), os_tables := s2, os_memory := mem2\<rparr>)
   }"

definition sys_thread_create :: "'e entry_ops \<Rightarrow> u64 \<Rightarrow> u64 \<Rightarrow> u64 \<Rightarrow> Scheduler \<Rightarrow> 'e os_state \<Rightarrow> (int \<times> Stacks \<times> Scheduler \<times> 'e os_state) option" where
  "sys_thread_create E kickoff kickoff_addr entry sched st = do {
     pid \<leftarrow> current_process (os_manager st) sched;
     kickoff_addr \<leftarrow> virt_addr_new kickoff_addr;
     (thread, stacks, st1) \<leftarrow> new_user_thread E kickoff pid kickoff_addr entry st;
     Some (usize_as_isize (thread_id thread), stacks, ready sched thread, st1)
   }"

text \<open>\<open>initrd\<close> has the files of the initial ramdisk by their names. The result has the stacks of the new thread, if there is one.\<close>

definition sys_process_execute_binary ::
    "'e entry_ops \<Rightarrow> u8 \<Rightarrow> ((nat \<Rightarrow> u8) \<Rightarrow> (ProgramHeader list \<times> u64) option) \<Rightarrow> u64 \<Rightarrow> u64 \<Rightarrow> (u8 list \<times> (nat \<Rightarrow> u8)) list \<Rightarrow> u8 list \<Rightarrow> u8 list list \<Rightarrow> Scheduler
      \<Rightarrow> 'e os_state \<Rightarrow> (int \<times> Stacks option \<times> Scheduler \<times> 'e os_state) option" where
  "sys_process_execute_binary E virtual_bits parse kickoff entry_fn initrd app_name args sched st = do {
     rust_assert (utf8_valid app_name);
     case find (\<lambda>(filename, data). filename = app_name) initrd of
       Some (filename, data) \<Rightarrow> do {
         (thread, stacks, st1) \<leftarrow> load_application E virtual_bits parse kickoff entry_fn data app_name args sched st;
         Some (usize_as_isize (thread_id thread), Some stacks, ready sched thread, st1)
       }
     | None \<Rightarrow> Some (Errno_code ENOENT, None, sched, st)
   }"

end
