(* ===== verification/Program_Loader_Properties.thy ===== *)
theory Program_Loader_Properties
  imports Program_Loader
begin

text \<open>
  What a program finds when it starts: its segments with their data, and its arguments. Two groups of lemmas describe the page
  of the arguments, as the kernel writes it through its physical address and as the program reads it through its own.
\<close>

section \<open>A page of memory\<close>

text \<open>The page at \<open>b\<close> has the bytes \<open>bs\<close> from \<open>o\<close> on.\<close>

definition holds :: "u64 \<Rightarrow> phys_mem \<Rightarrow> nat \<Rightarrow> u8 list \<Rightarrow> bool" where
  "holds b mem off bs \<longleftrightarrow> (\<forall>i < length bs. mem (b + of_nat (off + i)) = bs ! i)"

lemma write_phys_at:
  assumes "off + length bs \<le> 2 ^ 32" "i < 2 ^ 32"
  shows "write_phys (b + of_nat off) bs mem (b + of_nat i) = (if off \<le> i \<and> i < off + length bs then bs ! (i - off) else mem (b + of_nat i))"
proof (cases "off \<le> i")
  case True
  then have "b + of_nat i - (b + of_nat off) = (of_nat (i - off) :: u64)" by (simp add: of_nat_diff)
  moreover have "unat (of_nat (i - off) :: u64) = i - off" by (rule unat_of_nat_bound) (use assms in simp)
  ultimately show ?thesis using True by (auto simp: write_phys_def)
next
  case False
  let ?d = "b + of_nat i - (b + of_nat off) :: u64"
  have "\<not> unat ?d < length bs"
  proof
    assume d: "unat ?d < length bs"
    have "of_nat i = (of_nat (off + unat ?d) :: u64)" by simp
    then have "unat (of_nat i :: u64) = unat (of_nat (off + unat ?d) :: u64)" by (simp only:)
    moreover have "unat (of_nat i :: u64) = i" by (rule unat_of_nat_bound) (use assms in simp)
    moreover have "unat (of_nat (off + unat ?d) :: u64) = off + unat ?d" by (rule unat_of_nat_bound) (use assms d in simp)
    ultimately show False using False by linarith
  qed
  then show ?thesis using False by (simp add: write_phys_def)
qed

lemma write_phys_outside:
  assumes "off + length bs \<le> 4096" "\<forall>i < 4096. x \<noteq> b + of_nat i"
  shows "write_phys (b + of_nat off) bs mem x = mem x"
proof -
  have "x = b + of_nat (off + unat (x - (b + of_nat off)))" by simp
  then have "\<not> off + unat (x - (b + of_nat off)) < 4096" using assms(2) by blast
  then have "\<not> unat (x - (b + of_nat off)) < length bs" using assms(1) by linarith
  then show ?thesis by (simp add: write_phys_def)
qed

lemma holds_write: "off + length bs \<le> 2 ^ 32 \<Longrightarrow> holds b (write_phys (b + of_nat off) bs mem) off bs"
  unfolding holds_def by (auto simp: write_phys_at simp del: of_nat_add)

lemma holds_cong: "\<lbrakk>holds b mem off bs; \<And>i. off \<le> i \<Longrightarrow> i < off + length bs \<Longrightarrow> mem' (b + of_nat i) = mem (b + of_nat i)\<rbrakk> \<Longrightarrow> holds b mem' off bs"
  unfolding holds_def by (simp del: of_nat_add)

lemma write_cstr_at: "write_cstr (b + of_nat off) arg mem = write_phys (b + of_nat off) (arg @ [0]) mem"
  if "off + length arg + 1 \<le> 2 ^ 32"
proof
  fix x
  let ?d = "x - (b + of_nat off)"
  have u: "unat (of_nat (length arg) :: u64) = length arg" by (rule unat_of_nat_bound) (use that in simp)
  have "?d - of_nat (length arg) = 0 \<longleftrightarrow> ?d = of_nat (length arg)" by (rule right_minus_eq)
  also have "\<dots> \<longleftrightarrow> unat ?d = length arg" unfolding word_unat_eq_iff u ..
  finally have "unat (x - (b + of_nat off + of_nat (length arg))) < 1 \<longleftrightarrow> unat ?d = length arg" by (simp only: less_one unat_eq_0 diff_diff_eq)
  then show "write_cstr (b + of_nat off) arg mem x = write_phys (b + of_nat off) (arg @ [0]) mem x"
    unfolding write_cstr_def write_phys_def by (auto simp: nth_append)
qed

section \<open>Writing the arguments\<close>

text \<open>
  The strings and the pointers to them, for the arguments from the number \<open>slot\<close> on: the pointers are stored behind the number of arguments,
  the strings from \<open>begin_at + off\<close> on.
\<close>

fun store_args :: "u64 \<Rightarrow> nat \<Rightarrow> nat \<Rightarrow> nat \<Rightarrow> u8 list list \<Rightarrow> phys_mem \<Rightarrow> phys_mem" where
  "store_args b begin_at slot off [] mem = mem"
| "store_args b begin_at slot off (arg # args) mem =
     store_args b begin_at (Suc slot) (off + length arg + 1) args
       (write_phys (b + of_nat (8 + 8 * slot)) (to_le 8 (of_nat (USER_SPACE_ENV_START + begin_at + off) :: u64))
          (write_cstr (b + of_nat (begin_at + off)) arg mem))"

abbreviation args_size :: "u8 list list \<Rightarrow> nat" where
  "args_size args \<equiv> sum_list (map (\<lambda>a. length a + 1) args)"

definition arg_offset :: "u8 list list \<Rightarrow> nat \<Rightarrow> nat" where
  "arg_offset args k = args_size (take k args)"

lemma arg_offset_simps [simp]: "arg_offset args 0 = 0" "arg_offset (a # args) (Suc k) = length a + 1 + arg_offset args k"
  by (simp_all add: arg_offset_def)

lemma arg_offset_bound: "k < length args \<Longrightarrow> arg_offset args k + length (args ! k) + 1 \<le> args_size args"
  by (induction args arbitrary: k) (auto simp: nth_Cons split: nat.split)

lemma low_virt_addr: "a < 2 ^ 47 \<Longrightarrow> virt_addr a = Some a"
  by (simp add: virt_addr_def page_ok_def div_less_iff_less_mult)

lemma copy_arg_list_store:
  assumes "USER_SPACE_ENV_START + begin_at + off + args_size args < 2 ^ 47"
  shows "copy_arg_list (b + 8) (b + of_nat begin_at) (USER_SPACE_ENV_START + begin_at) i off args mem = Some (store_args b begin_at (Suc i) off args mem)"
  using assms
proof (induction args arbitrary: i off mem)
  case (Cons arg args)
  have "virt_add (USER_SPACE_ENV_START + begin_at) off = Some (USER_SPACE_ENV_START + begin_at + off)"
    using Cons.prems by (simp add: virt_add_def low_virt_addr)
  then show ?case using Cons.IH [of "off + length arg + 1" "Suc i"] Cons.prems by (simp add: Let_def algebra_simps)
qed simp

lemma write_args_store:
  assumes b: "unat b + 4096 \<le> 2 ^ 47" and fits: "8 + 8 * (length args + 1) + args_size (name # args) \<le> 2 ^ 32"
  shows "write_args b name args mem = Some (store_args b (8 + 8 * (length args + 1)) 0 0 (name # args) (write_phys b (to_le 8 (of_nat (length args + 1) :: u64)) mem))"
proof -
  let ?B = "8 + 8 * (length args + 1)"
  have u: "unat (b + 8) = unat b + 8" using b by (simp add: unat_add_lem [THEN iffD1])
  have v: "virt_addr (unat b) = Some (unat b)" "virt_add (unat b) 8 = Some (unat (b + 8))" using b u by (simp_all add: virt_add_def low_virt_addr)
  have e: "virt_add USER_SPACE_ENV_START 8 = Some (USER_SPACE_ENV_START + 8)" "virt_add (USER_SPACE_ENV_START + 8) ((length args + 1) * 8) = Some (USER_SPACE_ENV_START + ?B)"
    using fits by (simp_all add: virt_add_def low_virt_addr USER_SPACE_ENV_START_def USER_SPACE_START_def)
  have a: "of_nat (unat (b + 8)) = b + 8" "b + 8 + of_nat (8 * (length args + 1)) = b + of_nat ?B" by simp_all
  have lim: "USER_SPACE_ENV_START + ?B + (length name + 1) + args_size args < 2 ^ 47" using fits by (simp add: USER_SPACE_ENV_START_def USER_SPACE_START_def)
  show ?thesis unfolding write_args_def v bind.bind_lunit Let_def a e copy_arg_list_store [OF lim] by (simp add: add.commute)
qed

lemma store_args_other:
  assumes "8 + 8 * (slot + length args) \<le> begin_at" "begin_at + off + args_size args \<le> 2 ^ 32"
    and "i < 8 + 8 * slot \<or> begin_at \<le> i \<and> i < begin_at + off"
  shows "store_args b begin_at slot off args mem (b + of_nat i) = mem (b + of_nat i)"
  using assms
proof (induction args arbitrary: slot off mem)
  case (Cons arg args)
  let ?m = "write_phys (b + of_nat (8 + 8 * slot)) (to_le 8 (of_nat (USER_SPACE_ENV_START + begin_at + off) :: u64)) (write_cstr (b + of_nat (begin_at + off)) arg mem)"
  have c: "write_cstr (b + of_nat (begin_at + off)) arg mem = write_phys (b + of_nat (begin_at + off)) (arg @ [0]) mem"
    using Cons.prems(2) by (intro write_cstr_at) simp
  have i: "i < 2 ^ 32" using Cons.prems by auto
  have "store_args b begin_at (Suc slot) (off + length arg + 1) args ?m (b + of_nat i) = ?m (b + of_nat i)" using Cons.prems by (intro Cons.IH) auto
  also have "\<dots> = write_cstr (b + of_nat (begin_at + off)) arg mem (b + of_nat i)" using Cons.prems i by (subst write_phys_at) auto
  also have "\<dots> = mem (b + of_nat i)" unfolding c using Cons.prems i by (subst write_phys_at) auto
  finally show ?case by (simp only: store_args.simps)
qed simp

lemma store_args_outside:
  assumes "8 + 8 * (slot + length args) \<le> begin_at" "begin_at + off + args_size args \<le> 4096" and out: "\<forall>i < 4096. x \<noteq> b + of_nat i"
  shows "store_args b begin_at slot off args mem x = mem x"
  using assms(1,2)
proof (induction args arbitrary: slot off mem)
  case (Cons arg args)
  let ?m = "write_phys (b + of_nat (8 + 8 * slot)) (to_le 8 (of_nat (USER_SPACE_ENV_START + begin_at + off) :: u64)) (write_cstr (b + of_nat (begin_at + off)) arg mem)"
  have c: "write_cstr (b + of_nat (begin_at + off)) arg mem = write_phys (b + of_nat (begin_at + off)) (arg @ [0]) mem"
    using Cons.prems(2) by (intro write_cstr_at) simp
  have "store_args b begin_at (Suc slot) (off + length arg + 1) args ?m x = ?m x" using Cons.prems by (intro Cons.IH) auto
  also have "\<dots> = write_cstr (b + of_nat (begin_at + off)) arg mem x" using Cons.prems by (intro write_phys_outside [OF _ out]) simp
  also have "\<dots> = mem x" unfolding c using Cons.prems by (intro write_phys_outside [OF _ out]) simp
  finally show ?case by (simp only: store_args.simps)
qed simp

lemma store_args_holds:
  assumes "8 + 8 * (slot + length args) \<le> begin_at" "begin_at + off + args_size args \<le> 2 ^ 32" "k < length args"
  shows "holds b (store_args b begin_at slot off args mem) (8 + 8 * (slot + k)) (to_le 8 (of_nat (USER_SPACE_ENV_START + begin_at + off + arg_offset args k) :: u64))
    \<and> holds b (store_args b begin_at slot off args mem) (begin_at + off + arg_offset args k) (args ! k @ [0])"
  using assms
proof (induction args arbitrary: slot off mem k)
  case (Cons arg args)
  let ?p = "to_le 8 (of_nat (USER_SPACE_ENV_START + begin_at + off) :: u64)"
  let ?m = "write_phys (b + of_nat (8 + 8 * slot)) ?p (write_cstr (b + of_nat (begin_at + off)) arg mem)"
  have c: "write_cstr (b + of_nat (begin_at + off)) arg mem = write_phys (b + of_nat (begin_at + off)) (arg @ [0]) mem"
    using Cons.prems(2) by (intro write_cstr_at) simp
  have pre: "8 + 8 * (Suc slot + length args) \<le> begin_at" "begin_at + (off + length arg + 1) + args_size args \<le> 2 ^ 32" using Cons.prems(1,2) by simp_all
  note other = store_args_other [OF pre, of _ b ?m]
  show ?case
  proof (cases k)
    case 0
    have "holds b ?m (8 + 8 * slot) ?p" using Cons.prems(1,2) by (intro holds_write) simp
    then have 1: "holds b (store_args b begin_at (Suc slot) (off + length arg + 1) args ?m) (8 + 8 * slot) ?p" by (rule holds_cong) (rule other, simp)
    have "holds b (write_phys (b + of_nat (begin_at + off)) (arg @ [0]) mem) (begin_at + off) (arg @ [0])" using Cons.prems(2) by (intro holds_write) simp
    then have "holds b ?m (begin_at + off) (arg @ [0])" unfolding c
    proof (rule holds_cong)
      fix i assume "begin_at + off \<le> i" "i < begin_at + off + length (arg @ [0])"
      then show "write_phys (b + of_nat (8 + 8 * slot)) ?p (write_phys (b + of_nat (begin_at + off)) (arg @ [0]) mem) (b + of_nat i) =
          write_phys (b + of_nat (begin_at + off)) (arg @ [0]) mem (b + of_nat i)" using Cons.prems(1,2) by (subst write_phys_at) auto
    qed
    then have 2: "holds b (store_args b begin_at (Suc slot) (off + length arg + 1) args ?m) (begin_at + off) (arg @ [0])" by (rule holds_cong) (rule other, simp)
    from 1 2 0 show ?thesis by simp
  next
    case (Suc j)
    then have "8 * (slot + k) = 8 * (Suc slot + j)" "off + arg_offset (arg # args) k = off + length arg + 1 + arg_offset args j" "(arg # args) ! k = args ! j" by simp_all
    then show ?thesis using Cons.IH [OF pre, of j ?m] Cons.prems(3) Suc by (simp add: add.assoc)
  qed
qed simp

section \<open>Reading the arguments\<close>

text \<open>\<open>rd\<close> reads the page at \<open>b\<close> at the address of the environment.\<close>

definition reads_env :: "(u64 \<Rightarrow> u8 option) \<Rightarrow> u64 \<Rightarrow> phys_mem \<Rightarrow> bool" where
  "reads_env rd b mem \<longleftrightarrow> (\<forall>i < 4096. rd (of_nat (USER_SPACE_ENV_START + i)) = Some (mem (b + of_nat i)))"

lemma read_bytes_eq: "\<forall>i < length bs. rd (a + of_nat i) = Some (bs ! i) \<Longrightarrow> read_bytes rd a (length bs) = Some bs"
proof (induction bs arbitrary: a)
  case (Cons x bs)
  have "rd a = Some x" using spec [OF Cons.prems, of 0] by simp
  moreover have "\<forall>i < length bs. rd (a + 1 + of_nat i) = Some (bs ! i)"
  proof (intro allI impI)
    fix i assume "i < length bs"
    with spec [OF Cons.prems, of "Suc i"] show "rd (a + 1 + of_nat i) = Some (bs ! i)" by (simp add: algebra_simps)
  qed
  ultimately show ?case using Cons.IH by simp
qed simp

lemma reads_env_bytes:
  assumes "reads_env rd b mem" "holds b mem off bs" "off + length bs \<le> 4096"
  shows "i < length bs \<Longrightarrow> rd (of_nat (USER_SPACE_ENV_START + off) + of_nat i) = Some (bs ! i)"
    "read_bytes rd (of_nat (USER_SPACE_ENV_START + off)) (length bs) = Some bs"
proof -
  show "rd (of_nat (USER_SPACE_ENV_START + off) + of_nat i) = Some (bs ! i)" if "i < length bs" for i
  proof -
    have "rd (of_nat (USER_SPACE_ENV_START + (off + i))) = Some (mem (b + of_nat (off + i)))" using assms(1,3) that by (simp add: reads_env_def del: of_nat_add)
    then show ?thesis using assms(2) that by (simp add: holds_def add.assoc)
  qed
  then show "read_bytes rd (of_nat (USER_SPACE_ENV_START + off)) (length bs) = Some bs" by (intro read_bytes_eq) blast
qed

lemma strlen_eq:
  assumes "\<forall>i < length (str @ [0]). rd (a + of_nat i) = Some ((str @ [0]) ! i)" "0 \<notin> set str"
  shows "strlen rd a = Some (length str)"
proof -
  have "strlen_from rd a len = Some (length str)" if "len \<le> length str" for len
    using that
  proof (induction "length str - len" arbitrary: len)
    case 0
    then have "rd (a + of_nat len) = Some 0" using assms(1) by (simp add: nth_append)
    then show ?case using 0 by (subst strlen_from.simps) simp
  next
    case (Suc n)
    then have l: "len < length str" by simp
    have "rd (a + of_nat len) = Some (str ! len)" using assms(1) l by (simp add: nth_append)
    moreover have "str ! len \<noteq> 0" using assms(2) l by (metis nth_mem)
    moreover have "strlen_from rd a (len + 1) = Some (length str)" using Suc l by (intro Suc.hyps(1)) simp_all
    ultimately show ?case by (subst strlen_from.simps) simp
  qed
  then show ?thesis by (simp add: strlen_def)
qed

lemma Args_next_holds:
  assumes rd: "reads_env rd b mem" and argc: "holds b mem 0 (to_le 8 (of_nat n :: u64))" "n < 2 ^ 64"
    and ptr: "index < n \<Longrightarrow> holds b mem (8 + 8 * index) (to_le 8 (of_nat (USER_SPACE_ENV_START + off) :: u64)) \<and> 16 + 8 * index \<le> 4096"
    and arg: "index < n \<Longrightarrow> holds b mem off (arg @ [0]) \<and> off + length arg + 1 \<le> 4096 \<and> 0 \<notin> set arg \<and> utf8_valid arg"
  shows "Args_next rd index = Some (if index < n then (Some arg, index + 1) else (None, index))"
proof -
  have c: "read_word rd ARGC_PTR = Some (of_nat n)" using reads_env_bytes(2) [OF rd argc(1)] by (simp add: read_word_def ARGC_PTR_def)
  have u: "unat (of_nat n :: u64) = n" by (rule unat_of_nat_bound) (use argc(2) in simp)
  show ?thesis
  proof (cases "index < n")
    case True
    let ?a = "of_nat (USER_SPACE_ENV_START + off) :: u64"
    have p: "read_word rd (ARGV_PTR + of_nat (8 * index)) = Some ?a"
      using reads_env_bytes(2) [OF rd conjunct1 [OF ptr [OF True]]] ptr [OF True] by (simp add: read_word_def ARGV_PTR_def algebra_simps)
    have o: "off + length (arg @ [0]) \<le> 4096" using arg [OF True] by simp
    note r = reads_env_bytes [OF rd conjunct1 [OF arg [OF True]] o]
    have s: "strlen rd ?a = Some (length arg)" using r(1) arg [OF True] by (intro strlen_eq) blast+
    have "unat ?a = USER_SPACE_ENV_START + off" by (rule unat_of_nat_bound) (use o in \<open>simp add: USER_SPACE_ENV_START_def USER_SPACE_START_def\<close>)
    then have z: "?a \<noteq> 0" by (auto simp: USER_SPACE_ENV_START_def USER_SPACE_START_def)
    have "read_bytes rd ?a (length arg + 1) = Some (arg @ [0])" using r(2) by simp
    then show ?thesis using True arg [OF True] c u p s z unfolding Args_next_def
      by (simp add: from_bytes_with_nul_def panic_simps del: of_nat_add read_bytes.simps add_Suc_right Suc_eq_plus1 [symmetric])
  next
    case False
    then show ?thesis using c u by (simp add: Args_next_def)
  qed
qed

section \<open>Memory at a given address\<close>

text \<open>User pages whose frames are not free, so that what is allocated later does not touch them.\<close>

definition private_pages :: "'e entry_ops \<Rightarrow> VirtualAddressSpace \<Rightarrow> 'e pt_mem \<Rightarrow> bool" where
  "private_pages E self s \<longleftrightarrow> (\<forall>q f. USER_SPACE_START div 4096 \<le> q \<and> q < 2 ^ 35 \<and> frame_of E (page_tables self) s q = Some f \<longrightarrow> f \<notin> free_of s \<and> f < 2 ^ 40)"

definition process_ok :: "'e entry_ops \<Rightarrow> VirtualAddressSpace \<Rightarrow> 'e pt_mem \<Rightarrow> bool" where
  "process_ok E self s \<longleftrightarrow> space_inv self \<and> (\<exists>F. address_space E (page_tables self) F s) \<and> private_pages E self s \<and> (\<forall>f \<in> free_of s. f < 2 ^ 34)"

text \<open>The pages \<open>p\<close> to \<open>p + n\<close> are free in \<open>self\<close> and there are enough frames for them.\<close>

definition room_for :: "nat \<Rightarrow> nat \<Rightarrow> VirtualAddressSpace \<Rightarrow> 'e pt_mem \<Rightarrow> bool" where
  "room_for p n self s \<longleftrightarrow> 0 < n \<and> gap_at (p * 4096) (n * 4096) (vmas self) \<and> USER_SPACE_START \<le> p * 4096 \<and> (p + n) * 4096 \<le> last_usable_user_addr self
     \<and> 4 * n \<le> card (free_of s)"

lemma user_alloc_map_at:
  assumes E: "page_table_entry E" and ok: "process_ok E self s" and room: "room_for p n self s"
  obtains vma self' s' g where "user_alloc_map_full E self (Some p) n typ tag s = Some (Some vma, self', s')" "vma_range vma = \<lparr>pr_start = p, pr_end = p + n\<rparr>"
    "process_ok E self' s'" "frames_at E self' s' p n g" "\<forall>j < n. g j \<in> free_of s"
    "\<forall>q. q < 2 ^ 35 \<and> q \<notin> {p..<p + n} \<longrightarrow> frame_of E (page_tables self') s' q = frame_of E (page_tables self) s q"
    "set (virtual_memory_areas self') \<subseteq> insert (vma_start vma, vma) (set (virtual_memory_areas self))" "free_of s' \<subseteq> free_of s"
    "last_usable_user_addr self' = last_usable_user_addr self"
proof -
  obtain F where A: "address_space E (page_tables self) F s" and inv: "space_inv self" and priv: "private_pages E self s" and low: "\<forall>f \<in> free_of s. f < 2 ^ 34"
    using ok by (auto simp: process_ok_def)
  have n: "0 < n" and gap: "gap_at (p * 4096) (n * 4096) (vmas self)" and b: "USER_SPACE_START \<le> p * 4096" "(p + n) * 4096 \<le> last_usable_user_addr self"
    and enough: "4 * n \<le> card (free_of s)" using room by (simp_all add: room_for_def)
  obtain vma self' where a: "alloc_at self p n User typ tag = Some (Some vma, self')" "space_inv self'"
    "vma = VirtualMemoryArea_new_with_tag User \<lparr>pr_start = p, pr_end = p + n\<rparr> typ tag" "page_tables self' = page_tables self"
    "set (virtual_memory_areas self') = insert (vma_start vma, vma) {x \<in> set (virtual_memory_areas self). fst x \<noteq> vma_start vma}"
    using alloc_at_gap [OF inv n gap b(2), of User "typ" tag] b(1) by auto
  have r: "vma_range vma = \<lparr>pr_start = p, pr_end = p + n\<rparr>" by (simp add: a(3))
  have lim: "p + n < 2 ^ 35" using b(2) space_invD(4) [OF inv] by simp
  have en: "4 * max 1 (p + n - p) \<le> card (free_of s)" using enough n by (simp add: max_def)
  obtain F' s' h A' where m: "Paging_map E (page_tables self) \<lparr>pr_start = p, pr_end = p + n\<rparr> User (PRESENT OR WRITABLE OR USER_ACCESSIBLE) s = Some s'"
    "address_space E (page_tables self) F' s'" "free_of s' = free_of s - F' - A'" "inj_on h {p..<p + n} \<and> A' = h ` {p..<p + n} \<and> A' \<subseteq> free_of s \<and> A' \<inter> F' = {}"
    "\<forall>x. x div 512 ^ 4 = 0 \<longrightarrow> frame_of E (page_tables self) s' x = (if p \<le> x \<and> x < p + n then Some (h x) else frame_of E (page_tables self) s x)"
    by (rule Paging_map_frames [OF E A user_flags _ lim en, of User]) auto
  have d: "x div 512 ^ 4 = 0" if "x < 2 ^ 35" for x :: nat using that by simp
  have hA: "h (p + j) \<in> A'" "h (p + j) \<in> free_of s" if "j < n" for j using m(4) that by auto
  have fr: "frames_at E self' s' p n (\<lambda>j. h (p + j))" unfolding frames_at_def a(4)
  proof (intro conjI allI impI)
    show "\<exists>F. address_space E (page_tables self) F s'" using m(2) by blast
    show "p + n \<le> 2 ^ 35" using lim by simp
    show "inj_on (\<lambda>j. h (p + j)) {..<n}" using m(4) by (intro inj_onI) (auto dest!: inj_onD)
    fix j assume j: "j < n"
    show "frame_of E (page_tables self) s' (p + j) = Some (h (p + j))" using m(5) d [of "p + j"] lim j by simp
    show "h (p + j) < 2 ^ 40" using low hA(2) [OF j] by fastforce
  qed
  have pp: "private_pages E self' s'" unfolding private_pages_def a(4)
  proof (intro allI impI)
    fix q f assume q: "USER_SPACE_START div 4096 \<le> q \<and> q < 2 ^ 35 \<and> frame_of E (page_tables self) s' q = Some f"
    then have "(if p \<le> q \<and> q < p + n then Some (h q) else frame_of E (page_tables self) s q) = Some f" using m(5) d by auto
    moreover have "f \<notin> free_of s' \<and> f < 2 ^ 40" if "p \<le> q \<and> q < p + n" "h q = f"
      using hA [of "q - p"] that low m(3) by fastforce
    moreover have "f \<notin> free_of s' \<and> f < 2 ^ 40" if "frame_of E (page_tables self) s q = Some f" using priv q that m(3) by (auto simp: private_pages_def)
    ultimately show "f \<notin> free_of s' \<and> f < 2 ^ 40" by (auto split: if_splits)
  qed
  show thesis
  proof (rule that [OF _ r _ fr])
    show "user_alloc_map_full E self (Some p) n typ tag s = Some (Some vma, self', s')" using a(1,4) m(1) r by (simp add: user_alloc_map_full_def alloc_vma_def)
    show "process_ok E self' s'" using a(2,4) m(2,3) pp low by (auto simp: process_ok_def)
    show "\<forall>j < n. h (p + j) \<in> free_of s" using hA(2) by blast
    show "\<forall>q. q < 2 ^ 35 \<and> q \<notin> {p..<p + n} \<longrightarrow> frame_of E (page_tables self') s' q = frame_of E (page_tables self) s q" using m(5) d a(4) by auto
    show "set (virtual_memory_areas self') \<subseteq> insert (vma_start vma, vma) (set (virtual_memory_areas self))" using a(5) by auto
    show "free_of s' \<subseteq> free_of s" using m(3) by auto
    show "last_usable_user_addr self' = last_usable_user_addr self" using a(1) by (auto simp: alloc_at_def Let_def split: if_splits option.splits bind_splits)
  qed
qed

lemma frame_bytes_differ:
  assumes "f \<noteq> f'" "f < 2 ^ 40" "f' < 2 ^ 40" "i < 4096" "i' < 4096"
  shows "(of_nat (f * 4096 + i) :: u64) \<noteq> of_nat (f' * 4096 + i')"
proof
  assume e: "(of_nat (f * 4096 + i) :: u64) = of_nat (f' * 4096 + i')"
  have "unat (of_nat (f * 4096 + i) :: u64) = f * 4096 + i" "unat (of_nat (f' * 4096 + i') :: u64) = f' * 4096 + i'"
    using assms by (intro unat_of_nat_bound; simp)+
  with e have "f * 4096 + i = f' * 4096 + i'" by metis
  from arg_cong [OF this, of "\<lambda>n. n div 4096"] show False using assms by simp
qed

lemma user_byte_frame:
  assumes "process_ok E self s" "unat a < 2 ^ 47"
  shows "user_byte E self s mem a = map_option (\<lambda>f. mem (at_frame a f)) (frame_of E (page_tables self) s (page_of a))"
proof -
  obtain F where A: "address_space E (page_tables self) F s" using assms(1) by (auto simp: process_ok_def)
  have "lower_48 a" using assms(2) by (simp add: lower_48_def)
  then show ?thesis unfolding user_byte_def get_phys_low [OF \<open>lower_48 a\<close> assms(2)] translate_address_space [OF A]
    by (cases "frame_of E (page_tables self) s (page_of a)") simp_all
qed

text \<open>Every byte the process had outside the new area is as before.\<close>

definition bytes_kept :: "'e entry_ops \<Rightarrow> nat \<Rightarrow> nat \<Rightarrow> VirtualAddressSpace \<Rightarrow> 'e pt_mem \<Rightarrow> phys_mem \<Rightarrow> VirtualAddressSpace \<Rightarrow> 'e pt_mem \<Rightarrow> phys_mem \<Rightarrow> bool" where
  "bytes_kept E p n self s mem self' s' mem' \<longleftrightarrow> (\<forall>a. USER_SPACE_START \<le> unat a \<and> unat a < 2 ^ 47 \<and> page_of a \<notin> {p..<p + n} \<longrightarrow>
     user_byte E self' s' mem' a = user_byte E self s mem a)"

lemma bytes_kept_frames:
  assumes ok: "process_ok E self s" "process_ok E self' s'" and g: "\<forall>j < n. g j \<in> free_of s"
    and same: "\<forall>q. q < 2 ^ 35 \<and> q \<notin> {p..<p + n} \<longrightarrow> frame_of E (page_tables self') s' q = frame_of E (page_tables self) s q"
    and mem: "\<forall>x. (\<forall>j < n. \<forall>i < 4096. x \<noteq> of_nat (g j * 4096 + i)) \<longrightarrow> mem' x = mem x"
  shows "bytes_kept E p n self s mem self' s' mem'"
  unfolding bytes_kept_def
proof (intro allI impI)
  fix a :: u64
  assume a: "USER_SPACE_START \<le> unat a \<and> unat a < 2 ^ 47 \<and> page_of a \<notin> {p..<p + n}"
  have q: "page_of a < 2 ^ 35" "USER_SPACE_START div 4096 \<le> page_of a" using a by (simp_all add: div_le_mono div_less_iff_less_mult)
  have "mem' (at_frame a f) = mem (at_frame a f)" if f: "frame_of E (page_tables self) s (page_of a) = Some f" for f
  proof -
    have nf: "f \<notin> free_of s" "f < 2 ^ 40" using ok(1) q f by (auto simp: process_ok_def private_pages_def)
    have "\<forall>j < n. \<forall>i < 4096. at_frame a f \<noteq> of_nat (g j * 4096 + i)"
    proof (intro allI impI)
      fix j i :: nat assume j: "j < n" "i < 4096"
      have "g j \<in> free_of s" using g j by blast
      then have "f \<noteq> g j" "g j < 2 ^ 34" using ok(1) nf(1) by (auto simp: process_ok_def)
      then show "at_frame a f \<noteq> of_nat (g j * 4096 + i)" using nf(2) j(2) by (intro frame_bytes_differ) simp_all
    qed
    then show ?thesis using mem by blast
  qed
  moreover have "frame_of E (page_tables self') s' (page_of a) = frame_of E (page_tables self) s (page_of a)" using same a q(1) by blast
  ultimately show "user_byte E self' s' mem' a = user_byte E self s mem a" using a user_byte_frame [OF ok(1)] user_byte_frame [OF ok(2)]
    by (cases "frame_of E (page_tables self) s (page_of a)") simp_all
qed

section \<open>The arguments of a program\<close>

definition args_fit :: "u8 list \<Rightarrow> u8 list list \<Rightarrow> bool" where
  "args_fit name args \<longleftrightarrow> 8 + 8 * (length args + 1) + args_size (name # args) \<le> 4096"

lemma env_one_page: "args_fit name args \<Longrightarrow> env_page_count args = 1"
proof -
  assume f: "args_fit name args"
  have "sum_list (map length args) \<le> args_size args" by (induction args) auto
  then have "sum_list (map length args) < 4096" using f by (simp add: args_fit_def)
  then show ?thesis by (auto simp: env_page_count_def Let_def)
qed

abbreviation env_page :: nat where
  "env_page \<equiv> 0x10040000"

lemma env_page_simps: "USER_SPACE_ENV_START div 4096 = env_page" "USER_SPACE_ENV_START = env_page * 4096"
  by (simp_all add: USER_SPACE_ENV_START_def USER_SPACE_START_def)

lemma copy_args_eval:
  assumes E: "page_table_entry E" and ok: "process_ok E self s" and room: "room_for env_page 1 self s" and one: "env_page_count args = 1"
    and lim: "8 + 8 * (length args + 1) + args_size (name # args) \<le> 2 ^ 32"
  obtains self' s' mem' g where "copy_args E name args self s mem = Some (self', s', mem')" "process_ok E self' s'" "frames_at E self' s' env_page 1 g" "\<forall>j < 1. g j \<in> free_of s"
    "\<forall>q. q < 2 ^ 35 \<and> q \<notin> {env_page..<env_page + 1} \<longrightarrow> frame_of E (page_tables self') s' q = frame_of E (page_tables self) s q"
    "mem' = store_args (of_nat (g 0 * 4096)) (8 + 8 * (length args + 1)) 0 0 (name # args) (write_phys (of_nat (g 0 * 4096)) (to_le 8 (of_nat (length args + 1) :: u64)) mem)"
proof -
  obtain vma self' s' g where u: "user_alloc_map_full E self (Some env_page) 1 Environment (map (of_nat \<circ> of_char) ''env'') s = Some (Some vma, self', s')"
    "process_ok E self' s'" "frames_at E self' s' env_page 1 g" "\<forall>j < 1. g j \<in> free_of s"
    "\<forall>q. q < 2 ^ 35 \<and> q \<notin> {env_page..<env_page + 1} \<longrightarrow> frame_of E (page_tables self') s' q = frame_of E (page_tables self) s q"
    by (rule user_alloc_map_at [OF E ok room, of Environment "map (of_nat \<circ> of_char) ''env''"])
  let ?b = "of_nat (g 0 * 4096) :: u64"
  define mem' where "mem' = store_args ?b (8 + 8 * (length args + 1)) 0 0 (name # args) (write_phys ?b (to_le 8 (of_nat (length args + 1) :: u64)) mem)"
  have g0: "g 0 < 2 ^ 34" using ok u(4) by (auto simp: process_ok_def)
  have b: "unat ?b = g 0 * 4096" by (rule unat_of_nat_bound) (use g0 in simp)
  have ph: "get_phys E self' (of_nat (env_page * 4096)) s' = Some (Some ?b)" using frames_at_phys [OF u(3), of 0] by (simp add: byte_addr_def)
  have w: "write_args ?b name args mem = Some mem'" unfolding mem'_def using lim g0 b by (intro write_args_store) simp_all
  have "copy_args E name args self s mem = Some (self', s', mem')"
    unfolding copy_args_def Let_def one env_page_simps(1) u(1) using ph w by (simp add: panic_simps)
  then show thesis using that u(2-5) mem'_def by blast
qed

lemma copy_args_ok:
  assumes E: "page_table_entry E" and ok: "process_ok E self s" and room: "room_for env_page 1 self s" and fits: "args_fit name args"
  obtains self' s' mem' b where "copy_args E name args self s mem = Some (self', s', mem')" "process_ok E self' s'" "reads_env (user_byte E self' s' mem') b mem'"
    "mem' = store_args b (8 + 8 * (length args + 1)) 0 0 (name # args) (write_phys b (to_le 8 (of_nat (length args + 1) :: u64)) mem)"
    "bytes_kept E env_page 1 self s mem self' s' mem'"
proof -
  have lim: "8 + 8 * (length args + 1) + args_size (name # args) \<le> 2 ^ 32" using fits by (simp add: args_fit_def)
  obtain self' s' mem' g where u: "copy_args E name args self s mem = Some (self', s', mem')" "process_ok E self' s'" "frames_at E self' s' env_page 1 g" "\<forall>j < 1. g j \<in> free_of s"
    "\<forall>q. q < 2 ^ 35 \<and> q \<notin> {env_page..<env_page + 1} \<longrightarrow> frame_of E (page_tables self') s' q = frame_of E (page_tables self) s q"
    and mem': "mem' = store_args (of_nat (g 0 * 4096)) (8 + 8 * (length args + 1)) 0 0 (name # args) (write_phys (of_nat (g 0 * 4096)) (to_le 8 (of_nat (length args + 1) :: u64)) mem)"
    by (rule copy_args_eval [OF E ok room env_one_page [OF fits] lim])
  let ?b = "of_nat (g 0 * 4096) :: u64"
  have f: "frame_of E (page_tables self') s' env_page = Some (g 0)" using u(3) by (auto simp: frames_at_def)
  have out: "mem' x = mem x" if "\<forall>j < 1. \<forall>i < 4096. x \<noteq> of_nat (g j * 4096 + i)" for x
  proof -
    have o: "\<forall>i < 4096. x \<noteq> ?b + of_nat i" using that by simp
    have "mem' x = write_phys ?b (to_le 8 (of_nat (length args + 1) :: u64)) mem x" unfolding mem' using fits by (intro store_args_outside [OF _ _ o]) (simp_all add: args_fit_def)
    also have "\<dots> = mem x" using write_phys_outside [of 0 "to_le 8 (of_nat (length args + 1) :: u64)" x ?b mem, OF _ o] by simp
    finally show ?thesis .
  qed
  have rd: "reads_env (user_byte E self' s' mem') ?b mem'" unfolding reads_env_def
  proof (intro allI impI)
    fix i :: nat assume i: "i < 4096"
    let ?a = "of_nat (USER_SPACE_ENV_START + i) :: u64"
    have a: "unat ?a = env_page * 4096 + i" unfolding env_page_simps by (rule unat_of_nat_bound) (use i in simp)
    have dm: "(q * 4096 + i) div 4096 = q" "(q * 4096 + i) mod 4096 = i" for q using i by simp_all
    have "page_of ?a = env_page" "unat ?a mod 4096 = i" unfolding a by (rule dm)+
    then show "user_byte E self' s' mem' ?a = Some (mem' (?b + of_nat i))"
      using user_byte_frame [OF u(2), of ?a mem'] f a i by simp
  qed
  have "bytes_kept E env_page 1 self s mem self' s' mem'" using out u(2,4,5) ok by (intro bytes_kept_frames) auto
  then show thesis using that u(1,2) rd mem' by blast
qed


text \<open>A process without areas, on the sample page tables.\<close>

definition sample_process :: VirtualAddressSpace where
  "sample_process = sample_space\<lparr>virtual_memory_areas := []\<rparr>"

lemma sample_process_ok: "process_ok x86_entry sample_process sample_pt_mem" "room_for env_page 1 sample_process sample_pt_mem"
proof -
  have t: "page_tables sample_process = sample_paging" by (simp add: sample_process_def sample_space_simps)
  have "space_inv sample_process" using sample_space_ok(1) by (simp add: sample_process_def space_inv_def)
  moreover have "address_space x86_entry (page_tables sample_process) {1} sample_pt_mem" using sample_address_space(1) t by simp
  moreover have "private_pages x86_entry sample_process sample_pt_mem" using sample_address_space(2) by (simp add: private_pages_def t)
  moreover have "\<forall>f \<in> free_of sample_pt_mem. f < 2 ^ 34" by (simp add: sample_pt_mem_simps)
  ultimately show "process_ok x86_entry sample_process sample_pt_mem" by (auto simp: process_ok_def)
  show "room_for env_page 1 sample_process sample_pt_mem"
    by (simp add: room_for_def sample_process_def sample_space_simps sample_pt_mem_simps gap_at_def USER_SPACE_START_def)
qed


text \<open>
  C38. The size of the environment is computed from the lengths of the arguments only. With 511 or more empty arguments one page is
  mapped, and the pointers to the arguments are written past its end: the first bytes of the next physical frame, whoever owns it, become a pointer.
\<close>

theorem arguments_overrun_page:
  assumes E: "page_table_entry E" and ok: "process_ok E self s" and room: "room_for env_page 1 self s" and n: "511 \<le> n" "n < 2 ^ 20" "length name < 2 ^ 20"
  shows "\<exists>self' s' mem' f. copy_args E name (replicate n []) self s mem = Some (self', s', mem') \<and> frame_of E (page_tables self') s' env_page = Some f \<and> f \<in> free_of s
    \<and> (\<forall>i < 8. mem' (of_nat ((f + 1) * 4096 + i)) = to_le 8 (of_nat (USER_SPACE_ENV_START + 16 + 8 * n + length name + 511) :: u64) ! i)"
proof -
  let ?args = "replicate n [] :: u8 list list"
  have one: "env_page_count ?args = 1" by (simp add: env_page_count_def sum_list_replicate Let_def)
  have lim: "8 + 8 * (length ?args + 1) + args_size (name # ?args) \<le> 2 ^ 32" using n by (simp add: sum_list_replicate)
  obtain self' s' mem' g where u: "copy_args E name ?args self s mem = Some (self', s', mem')" "frames_at E self' s' env_page 1 g" "\<forall>j < 1. g j \<in> free_of s"
    and mem': "mem' = store_args (of_nat (g 0 * 4096)) (8 + 8 * (length ?args + 1)) 0 0 (name # ?args) (write_phys (of_nat (g 0 * 4096)) (to_le 8 (of_nat (length ?args + 1) :: u64)) mem)"
    by (rule copy_args_eval [OF E ok room one lim])
  let ?b = "of_nat (g 0 * 4096) :: u64" and ?v = "USER_SPACE_ENV_START + 16 + 8 * n + length name + 511"
  have "arg_offset (name # ?args) 511 = length name + 511" using n(1) by (simp add: arg_offset_def take_Cons' sum_list_replicate min_def)
  then have p: "USER_SPACE_ENV_START + (8 + 8 * (length ?args + 1)) + 0 + arg_offset (name # ?args) 511 = ?v" by simp
  have "511 < length (name # ?args)" using n(1) by simp
  from store_args_holds [OF _ _ this, of 0 "8 + 8 * (length ?args + 1)" 0 ?b, folded mem'] lim
  have "holds ?b mem' (8 + 8 * (0 + 511)) (to_le 8 (of_nat ?v :: u64))" unfolding p mem' by simp
  then have h: "\<forall>i < 8. mem' (?b + of_nat (4096 + i)) = to_le 8 (of_nat ?v :: u64) ! i" by (simp add: holds_def)
  have "?b + of_nat (4096 + i) = of_nat ((g 0 + 1) * 4096 + i)" for i by (simp add: algebra_simps)
  with h have "\<forall>i < 8. mem' (of_nat ((g 0 + 1) * 4096 + i)) = to_le 8 (of_nat ?v :: u64) ! i" by metis
  moreover have "frame_of E (page_tables self') s' env_page = Some (g 0)" "g 0 \<in> free_of s" using u(2,3) by (auto simp: frames_at_def)
  ultimately show ?thesis using u(1) by blast
qed

theorem arguments_overrun_page_witness:
  "\<exists>self' s' mem' f. copy_args x86_entry [0x73, 0x68] (replicate 600 []) sample_process sample_pt_mem (\<lambda>_. 7) = Some (self', s', mem') \<and> mem' (of_nat ((f + 1) * 4096 + 5)) = 1
    \<and> frame_of x86_entry (page_tables self') s' env_page = Some f"
proof -
  obtain self' s' mem' f where r: "copy_args x86_entry [0x73, 0x68] (replicate 600 []) sample_process sample_pt_mem (\<lambda>_. 7) = Some (self', s', mem')"
    "frame_of x86_entry (page_tables self') s' env_page = Some f"
    "\<forall>i < 8. mem' (of_nat ((f + 1) * 4096 + i)) = to_le 8 (of_nat (USER_SPACE_ENV_START + 16 + 8 * 600 + length ([0x73, 0x68] :: u8 list) + 511) :: u64) ! i"
    using arguments_overrun_page [OF x86_entry_laws sample_process_ok, of 600 "[0x73, 0x68]" "\<lambda>_. 7"] by auto
  have "to_le 8 (of_nat (USER_SPACE_ENV_START + 16 + 8 * 600 + length ([0x73, 0x68] :: u8 list) + 511) :: u64) ! 5 = 1"
    by (simp add: to_le_def USER_SPACE_ENV_START_def USER_SPACE_START_def drop_bit_eq_div)
  moreover have "mem' (of_nat ((f + 1) * 4096 + 5)) = to_le 8 (of_nat (USER_SPACE_ENV_START + 16 + 8 * 600 + length ([0x73, 0x68] :: u8 list) + 511) :: u64) ! 5"
    by (rule r(3) [rule_format]) simp
  ultimately show ?thesis using r(1,2) by metis
qed

section \<open>The segments of a program\<close>

lemma frames_at_less: "frames_at E self s p n g \<Longrightarrow> k \<le> n \<Longrightarrow> frames_at E self s p k g"
  unfolding frames_at_def by (auto intro: inj_on_subset)

lemma byte_addr_unat:
  assumes "frames_at E self s p n g" "i < 4096 * n"
  shows "unat (byte_addr g i) = g (i div 4096) * 4096 + i mod 4096" "unat (byte_addr g i) div 4096 = g (i div 4096)"
proof -
  have "i div 4096 < n" using assms(2) by (simp add: div_less_iff_less_mult mult.commute)
  then have "g (i div 4096) < 2 ^ 40" using assms(1) by (simp add: frames_at_def)
  then show u: "unat (byte_addr g i) = g (i div 4096) * 4096 + i mod 4096" unfolding byte_addr_def by (intro unat_of_nat_bound) simp
  show "unat (byte_addr g i) div 4096 = g (i div 4096)" unfolding u by simp
qed

lemma zero_page:
  assumes "f < 2 ^ 40"
  shows "write_phys (of_nat (f * 4096)) (replicate 4096 0) mem x = (if unat x div 4096 = f then 0 else mem x)"
proof -
  have "f * 4096 \<le> unat x \<and> unat x < f * 4096 + 4096 \<longleftrightarrow> unat x div 4096 = f" by (auto simp: div_nat_eqI)
  then show ?thesis using write_zeroes [of "f * 4096" 4096 mem x] assms by simp
qed

lemma clear_bss_eq:
  assumes fr: "frames_at E self s p n g" and "j + m \<le> n"
  shows "clear_bss E self s (p * 4096) (4096 * j) m mem = Some (\<lambda>x. if unat x div 4096 \<in> g ` {j..<j + m} then 0 else mem x)"
  using assms(2)
proof (induction m arbitrary: j mem)
  case (Suc m)
  have "get_phys E self (of_nat (p * 4096 + 4096 * j)) s = Some (Some (of_nat (g j * 4096)))" using frames_at_phys [OF fr, of j] Suc.prems by (simp add: byte_addr_def)
  moreover have "g j < 2 ^ 40" using fr Suc.prems by (simp add: frames_at_def)
  then have "write_phys (of_nat (g j * 4096)) (replicate 4096 0) mem = (\<lambda>x. if unat x div 4096 = g j then 0 else mem x)" by (intro ext zero_page)
  ultimately have "clear_bss E self s (p * 4096) (4096 * j) (Suc m) mem = clear_bss E self s (p * 4096) (4096 * Suc j) m (\<lambda>x. if unat x div 4096 = g j then 0 else mem x)"
    by (simp add: add.commute)
  also have "\<dots> = Some (\<lambda>x. if unat x div 4096 \<in> g ` {Suc j..<Suc j + m} then 0 else if unat x div 4096 = g j then 0 else mem x)"
    using Suc.prems by (intro Suc.IH) simp
  also have "\<dots> = Some (\<lambda>x. if unat x div 4096 \<in> g ` {j..<j + Suc m} then 0 else mem x)"
  proof -
    have "{j..<j + Suc m} = insert j {Suc j..<Suc j + m}" by auto
    then show ?thesis by (simp add: fun_eq_iff)
  qed
  finally show ?case .
qed simp

text \<open>Data that fills its pages, or less than a page.\<close>

lemma copy_to_addr_space_filled:
  assumes fr: "frames_at E self s p k g" and t: "4096 * (k - 1) < total_bytes" "total_bytes \<le> 4096 * k" and whole: "total_bytes = 4096 * k \<or> k = 1"
  obtains mem' where "copy_to_addr_space E src self p total_bytes True s mem = Some mem'" "\<forall>i < 4096 * k. mem' (byte_addr g i) = (if i < total_bytes then src i else 0)"
    "\<forall>x. (\<forall>l < k. unat x div 4096 \<noteq> g l) \<longrightarrow> mem' x = mem x"
proof -
  obtain m1 where c: "copy_to_addr_space E src self p total_bytes True s mem =
      Some (if True \<and> total_bytes < 4096 * k then write_phys (of_nat (g (k - 1) * 4096 + total_bytes)) (replicate (4096 * k - total_bytes) 0) m1 else m1)"
    "\<forall>i < total_bytes. m1 (byte_addr g i) = src i" "\<forall>x. (\<forall>i < total_bytes. x \<noteq> byte_addr g i) \<longrightarrow> m1 x = mem x"
    by (rule copy_to_addr_space_eval [OF fr t])
  have out: "m1 x = mem x" if x: "\<forall>l < k. unat x div 4096 \<noteq> g l" for x
  proof -
    have "x \<noteq> byte_addr g i" if "i < total_bytes" for i
    proof -
      have i: "i < 4096 * k" "i div 4096 < k" using that t(2) by (simp_all add: div_less_iff_less_mult mult.commute)
      show ?thesis using byte_addr_unat(2) [OF fr i(1)] x i(2) by metis
    qed
    then show ?thesis using c(3) by blast
  qed
  show thesis
  proof (cases "total_bytes = 4096 * k")
    case True
    then show thesis using that [of m1] c(1,2) out by simp
  next
    case False
    then have k: "k = 1" "total_bytes < 4096" using whole t(2) by simp_all
    have g0: "g 0 < 2 ^ 40" using fr k(1) by (simp add: frames_at_def)
    let ?m = "write_phys (of_nat (g 0 * 4096 + total_bytes)) (replicate (4096 - total_bytes) 0) m1"
    have z: "?m x = (if g 0 * 4096 + total_bytes \<le> unat x \<and> unat x < g 0 * 4096 + total_bytes + (4096 - total_bytes) then 0 else m1 x)" for x
      by (rule write_zeroes) (use g0 k in simp)
    have "copy_to_addr_space E src self p total_bytes True s mem = Some ?m" using c(1) k by simp
    moreover have "\<forall>i < 4096 * k. ?m (byte_addr g i) = (if i < total_bytes then src i else 0)"
    proof (intro allI impI)
      fix i assume i: "i < 4096 * k"
      have u: "unat (byte_addr g i) = g 0 * 4096 + i" using byte_addr_unat(1) [OF fr i] i k(1) by simp
      show "?m (byte_addr g i) = (if i < total_bytes then src i else 0)" unfolding z u using c(2) i k by auto
    qed
    moreover have "\<forall>x. (\<forall>l < k. unat x div 4096 \<noteq> g l) \<longrightarrow> ?m x = mem x"
    proof (intro allI impI)
      fix x :: u64 assume x: "\<forall>l < k. unat x div 4096 \<noteq> g l"
      then have "unat x div 4096 \<noteq> g 0" using k(1) by simp
      then have "\<not> (g 0 * 4096 + total_bytes \<le> unat x \<and> unat x < g 0 * 4096 + total_bytes + (4096 - total_bytes))" using k(2) by (auto simp: div_nat_eqI)
      then show "?m x = mem x" unfolding z using out [OF x] by auto
    qed
    ultimately show thesis by (rule that)
  qed
qed

lemma page_count_div: "page_count n = (n + 4095) div 4096"
proof -
  obtain q r where n: "n = q * 4096 + r" "r < 4096" by (metis div_mult_mod_eq mod_less_divisor zero_less_numeral)
  have "(q * 4096 + r + 4095) div 4096 = q + (r + 4095) div 4096" by (simp add: add.assoc)
  moreover have "(r + 4095) div 4096 = (if r = 0 then 0 else 1)" using n(2) by (auto intro: div_nat_eqI)
  ultimately show ?thesis using n by (simp add: page_count_def)
qed

lemma page_count_bounds:
  assumes "0 < n"
  shows "4096 * (page_count n - 1) < n" "n \<le> 4096 * page_count n" "0 < page_count n"
proof -
  define q r where "q = (n + 4095) div 4096" and "r = (n + 4095) mod 4096"
  have "n + 4095 = q * 4096 + r" "r < 4096" by (simp_all add: q_def r_def)
  then show "4096 * (page_count n - 1) < n" "n \<le> 4096 * page_count n" "0 < page_count n" using assms unfolding page_count_div q_def [symmetric] by (cases q; simp)+
qed

lemma page_count_mono: "m \<le> n \<Longrightarrow> page_count m \<le> page_count n"
  unfolding page_count_div by (intro div_le_mono) simp

text \<open>
  C37. A segment whose data fills its pages or ends in the first one is loaded as the file says: \<^verbatim>\<open>load_segment\<close> returns, the program
  sees the bytes of the file at the addresses of the segment and zeroes behind them up to the end of the last page, and no other byte
  of the process changes.
\<close>

theorem load_segment_correct:
  assumes E: "page_table_entry E" and ok: "process_ok E self s" and room: "room_for p (page_count (p_memsz h)) self s" and vaddr: "unat (p_vaddr h) = p * 4096"
    and sz: "0 < p_filesz h" "p_filesz h \<le> p_memsz h" "p_filesz h mod 4096 = 0 \<or> p_filesz h < 4096"
  shows "\<exists>self' s' mem'. load_segment E elf name h self s mem = Some (self', s', mem') \<and> process_ok E self' s'
    \<and> bytes_kept E p (page_count (p_memsz h)) self s mem self' s' mem'
    \<and> (\<forall>i < 4096 * page_count (p_memsz h). user_byte E self' s' mem' (p_vaddr h + of_nat i) = Some (if i < p_filesz h then elf (p_offset h + i) else 0))"
proof -
  let ?n = "page_count (p_memsz h)" and ?k = "page_count (p_filesz h)"
  have kn: "?k \<le> ?n" by (rule page_count_mono [OF sz(2)])
  note k = page_count_bounds [OF sz(1)]
  have last: "(p + ?n) * 4096 < 2 ^ 47" using room ok space_invD(4) [of self] by (auto simp: room_for_def process_ok_def)
  have whole: "p_filesz h = 4096 * ?k \<or> ?k = 1" using sz(1,3) by (auto simp: page_count_def)
  obtain vma self' s' g where u: "user_alloc_map_full E self (Some p) ?n Code name s = Some (Some vma, self', s')" "vma_range vma = \<lparr>pr_start = p, pr_end = p + ?n\<rparr>"
    "process_ok E self' s'" "frames_at E self' s' p ?n g" "\<forall>j < ?n. g j \<in> free_of s"
    "\<forall>q. q < 2 ^ 35 \<and> q \<notin> {p..<p + ?n} \<longrightarrow> frame_of E (page_tables self') s' q = frame_of E (page_tables self) s q"
    by (rule user_alloc_map_at [OF E ok room, of Code name])
  obtain m1 where c: "copy_to_addr_space E (\<lambda>i. elf (p_offset h + i)) self' p (p_filesz h) True s' mem = Some m1"
    "\<forall>i < 4096 * ?k. m1 (byte_addr g i) = (if i < p_filesz h then elf (p_offset h + i) else 0)" "\<forall>x. (\<forall>l < ?k. unat x div 4096 \<noteq> g l) \<longrightarrow> m1 x = mem x"
    by (rule copy_to_addr_space_filled [OF frames_at_less [OF u(4) kn] k(1,2) whole])
  define m2 where "m2 = (\<lambda>x :: u64. if unat x div 4096 \<in> g ` {?k..<?k + (?n - ?k)} then 0 else m1 x)"
  have cl: "clear_bss E self' s' (p * 4096) (4096 * ?k) (?n - ?k) m1 = Some m2" unfolding m2_def using kn by (intro clear_bss_eq [OF u(4)]) simp
  have b: "(if ?n > ?k then clear_bss E self' s' (p * 4096) (?k * 4096) (?n - ?k) m1 else Some m1) = Some m2"
  proof (cases "?n > ?k")
    case True
    then show ?thesis using cl by (simp add: mult.commute)
  next
    case False
    then have "?n - ?k = 0" by simp
    then show ?thesis using False unfolding m2_def by simp
  qed
  have "page_from_u64 (p_vaddr h) \<bind> result_ok = Some p" using vaddr page_of_low [of p] last by (simp add: page_from_u64_def result_ok_def panic_simps)
  then have run: "load_segment E elf name h self s mem = Some (self', s', m2)" unfolding load_segment_def Let_def using u(1,2) c(1) b by (auto split: if_splits)
  have m2: "m2 (byte_addr g i) = (if i < p_filesz h then elf (p_offset h + i) else 0)" if i: "i < 4096 * ?n" for i
  proof (cases "i < 4096 * ?k")
    case True
    then have ik: "i div 4096 < ?k" by (simp add: div_less_iff_less_mult mult.commute)
    have "g (i div 4096) \<notin> g ` {?k..<?k + (?n - ?k)}"
    proof
      assume "g (i div 4096) \<in> g ` {?k..<?k + (?n - ?k)}"
      then obtain l where l: "?k \<le> l" "l < ?n" "g (i div 4096) = g l" using kn by auto
      have "inj_on g {..<?n}" using u(4) by (simp add: frames_at_def)
      from inj_onD [OF this l(3)] show False using l ik kn by simp
    qed
    then show ?thesis using c(2) True byte_addr_unat(2) [OF u(4) i] by (simp add: m2_def)
  next
    case False
    then have "?k \<le> i div 4096" "i div 4096 < ?n" using i by (simp_all add: less_eq_div_iff_mult_less_eq div_less_iff_less_mult mult.commute)
    then have "m2 (byte_addr g i) = 0" using byte_addr_unat(2) [OF u(4) i] kn by (auto simp: m2_def)
    then show ?thesis using False k(2) by simp
  qed
  have ub: "user_byte E self' s' m2 (p_vaddr h + of_nat i) = Some (m2 (byte_addr g i))" if i: "i < 4096 * ?n" for i
  proof -
    have "p_vaddr h = of_nat (unat (p_vaddr h))" by simp
    then have e: "p_vaddr h + of_nat i = of_nat (p * 4096 + i)" unfolding vaddr by simp
    have a: "unat (p_vaddr h + of_nat i) = p * 4096 + i" unfolding e by (rule unat_of_nat_bound) (use last i in simp)
    have pg: "page_of (p_vaddr h + of_nat i) = p + i div 4096" "unat (p_vaddr h + of_nat i) mod 4096 = i mod 4096" unfolding a by simp_all
    have "i div 4096 < ?n" using i by (simp add: div_less_iff_less_mult mult.commute)
    then have "frame_of E (page_tables self') s' (p + i div 4096) = Some (g (i div 4096))" using u(4) by (simp add: frames_at_def)
    then show ?thesis using user_byte_frame [OF u(3), of "p_vaddr h + of_nat i" m2] pg a last i by (simp add: byte_addr_def)
  qed
  have "bytes_kept E p ?n self s mem self' s' m2"
  proof (rule bytes_kept_frames [OF ok u(3,5,6)], intro allI impI)
    fix x :: u64 assume x: "\<forall>j < ?n. \<forall>i < 4096. x \<noteq> of_nat (g j * 4096 + i)"
    have "unat x div 4096 \<noteq> g l" if l: "l < ?n" for l
    proof
      assume "unat x div 4096 = g l"
      then have "g l * 4096 + unat x mod 4096 = unat x" using div_mult_mod_eq [of "unat x" 4096] by simp
      then have "x = of_nat (g l * 4096 + unat x mod 4096)" by (simp only:) simp
      moreover have "unat x mod 4096 < 4096" by simp
      ultimately show False using x l by blast
    qed
    then have "unat x div 4096 \<notin> g ` {..<?n}" by blast
    then have "unat x div 4096 \<notin> g ` {?k..<?k + (?n - ?k)}" "\<forall>l < ?k. unat x div 4096 \<noteq> g l" using kn by auto
    then show "m2 x = mem x" using c(3) by (simp add: m2_def)
  qed
  with run u(3) ub m2 show ?thesis by (intro exI [of _ self'] exI [of _ s'] exI [of _ m2]) simp
qed

text \<open>A segment of three pages with 16 bytes of data.\<close>

definition sample_header :: ProgramHeader where
  "sample_header = \<lparr>p_type = PT_LOAD, p_offset = 64, p_vaddr = 0x10000000000, p_filesz = 16, p_memsz = 10000\<rparr>"

theorem load_segment_correct_witness:
  "\<exists>self' s' mem'. load_segment x86_entry (\<lambda>i. of_nat i) [] sample_header sample_process sample_pt_mem (\<lambda>_. 7) = Some (self', s', mem')
    \<and> user_byte x86_entry self' s' mem' 0x10000000004 = Some 68 \<and> user_byte x86_entry self' s' mem' 0x10000002001 = Some 0"
proof -
  have h: "unat (p_vaddr sample_header) = 0x10000000 * 4096" "0 < p_filesz sample_header" "p_filesz sample_header \<le> p_memsz sample_header"
    "p_filesz sample_header mod 4096 = 0 \<or> p_filesz sample_header < 4096" "page_count (p_memsz sample_header) = 3" by (simp_all add: sample_header_def page_count_def)
  have room: "room_for 0x10000000 (page_count (p_memsz sample_header)) sample_process sample_pt_mem" unfolding h(5)
    by (simp add: room_for_def sample_process_def sample_space_simps sample_pt_mem_simps gap_at_def USER_SPACE_START_def)
  obtain self' s' mem' where r: "load_segment x86_entry (\<lambda>i. of_nat i) [] sample_header sample_process sample_pt_mem (\<lambda>_. 7) = Some (self', s', mem')"
    "\<forall>i < 4096 * 3. user_byte x86_entry self' s' mem' (p_vaddr sample_header + of_nat i) = Some (if i < p_filesz sample_header then of_nat (p_offset sample_header + i) else 0)"
    using load_segment_correct [OF x86_entry_laws sample_process_ok(1) room h(1-4), of "\<lambda>i. of_nat i" "[]" "\<lambda>_. 7"] unfolding h(5) by (elim exE conjE) (rule that)
  have "user_byte x86_entry self' s' mem' 0x10000000004 = Some 68" using r(2) [rule_format, of 4] by (simp add: sample_header_def)
  moreover have "user_byte x86_entry self' s' mem' 0x10000002001 = Some 0" using r(2) [rule_format, of 8193] by (simp add: sample_header_def)
  ultimately show ?thesis using r(1) by blast
qed

end
