(* ===== verification/Block_Storage.thy ===== *)
theory Block_Storage
  imports D3OS_Prelude
begin

text \<open>
  Block devices of the kernel (\<^verbatim>\<open>kernel/src/storage\<close>): partitions of a drive and the names under which drives and partitions are registered. The
  drives are an argument, as is the parser of the partition table, which is not part of the repository.
\<close>

section \<open>Partitions\<close>

text \<open>A drive reads into and writes from a buffer; the number of sectors is the first result.\<close>

record ('d, 's) drive_ops =
  drive_read :: "'d \<Rightarrow> u64 \<Rightarrow> nat \<Rightarrow> u8 list \<Rightarrow> 's \<Rightarrow> (nat \<times> u8 list \<times> 's) option"
  drive_write :: "'d \<Rightarrow> u64 \<Rightarrow> nat \<Rightarrow> u8 list \<Rightarrow> 's \<Rightarrow> (nat \<times> 's) option"

record 'd Partition =
  part_device :: 'd
  start_sector :: u64
  sector_count :: u64

definition Partition_new :: "'d \<Rightarrow> u64 \<Rightarrow> u64 \<Rightarrow> 'd Partition" where
  "Partition_new device start n = \<lparr>part_device = device, start_sector = start, sector_count = n\<rparr>"

definition Partition_read :: "('d, 's) drive_ops \<Rightarrow> 'd Partition \<Rightarrow> u64 \<Rightarrow> nat \<Rightarrow> u8 list \<Rightarrow> 's \<Rightarrow> (nat \<times> u8 list \<times> 's) option" where
  "Partition_read D self sector n buffer s =
     (if sector \<ge> sector_count self then Some (0, buffer, s)
      else do {
        sector \<leftarrow> rust_add sector (start_sector self);
        left_sectors \<leftarrow> rust_sub (sector_count self) sector;
        drive_read D (part_device self) sector (min n (unat left_sectors)) buffer s
      })"

definition Partition_write :: "('d, 's) drive_ops \<Rightarrow> 'd Partition \<Rightarrow> u64 \<Rightarrow> nat \<Rightarrow> u8 list \<Rightarrow> 's \<Rightarrow> (nat \<times> 's) option" where
  "Partition_write D self sector n buffer s =
     (if sector \<ge> sector_count self then Some (0, s)
      else do {
        sector \<leftarrow> rust_add sector (start_sector self);
        left_sectors \<leftarrow> rust_sub (sector_count self) sector;
        drive_write D (part_device self) sector (min n (unat left_sectors)) buffer s
      })"

text \<open>\<open>parse\<close> is the parser of the partition table: the start and the length of every entry in use.\<close>

definition scan_partitions :: "('d, 's) drive_ops \<Rightarrow> (u8 list \<Rightarrow> (u32 \<times> u32) option list option) \<Rightarrow> 'd \<Rightarrow> 's \<Rightarrow> ('d Partition list \<times> 's) option" where
  "scan_partitions D parse device s = do {
     (_, buffer, s1) \<leftarrow> drive_read D device 0 1 (replicate 512 0) s;
     Some (case parse buffer of
             None \<Rightarrow> []
           | Some entries \<Rightarrow> map (\<lambda>(start, n). Partition_new device (ucast start) (ucast n)) (List.map_filter id entries), s1)
   }"

definition lba_to_chs :: "u64 \<Rightarrow> u8 \<Rightarrow> u8 \<Rightarrow> (u16 \<times> u8 \<times> u8) option" where
  "lba_to_chs lba heads sectors_per_cylinder = do {
     let n = unat heads * unat sectors_per_cylinder;
     rust_assert (n \<noteq> 0);
     Some (of_nat (unat lba div n), of_nat (unat lba mod n), of_nat (unat lba mod unat sectors_per_cylinder))
   }"

section \<open>Names\<close>

datatype 'd block_device = Drive 'd | Part "'d Partition"

record 'd storage =
  BLOCK_DEVICES :: "string \<rightharpoonup> 'd block_device"
  DEVICE_TYPES :: "string \<rightharpoonup> nat"

fun decimal :: "nat \<Rightarrow> string" where
  "decimal n = (if n < 10 then [char_of (48 + n)] else decimal (n div 10) @ [char_of (48 + n mod 10)])"

declare decimal.simps [simp del]

fun add_partitions :: "string \<Rightarrow> nat \<Rightarrow> 'd Partition list \<Rightarrow> (string \<rightharpoonup> 'd block_device) \<Rightarrow> (string \<rightharpoonup> 'd block_device)" where
  "add_partitions name index [] drives = drives"
| "add_partitions name index (part # parts) drives =
     add_partitions name (index + 1) parts (drives(name @ ''p'' @ decimal index \<mapsto> Part part))"

definition add_block_device :: "('d, 's) drive_ops \<Rightarrow> (u8 list \<Rightarrow> (u32 \<times> u32) option list option) \<Rightarrow> string \<Rightarrow> 'd \<Rightarrow> 'd storage \<Rightarrow> 's \<Rightarrow> ('d storage \<times> 's) option" where
  "add_block_device D parse typ drive st s = do {
     let index = (case DEVICE_TYPES st typ of Some i \<Rightarrow> i | None \<Rightarrow> 0);
     let name = typ @ decimal index;
     next_index \<leftarrow> usize_add index 1;
     (partitions, s1) \<leftarrow> scan_partitions D parse drive s;
     Some (st\<lparr>DEVICE_TYPES := (DEVICE_TYPES st)(typ \<mapsto> next_index),
              BLOCK_DEVICES := add_partitions name 0 partitions ((BLOCK_DEVICES st)(name \<mapsto> Drive drive))\<rparr>, s1)
   }"

definition block_device :: "string \<Rightarrow> 'd storage \<Rightarrow> 'd block_device option" where
  "block_device name st = BLOCK_DEVICES st name"

section \<open>What a partition reaches\<close>

lemma limited_transfer:
  "(do { sector \<leftarrow> rust_add sector start; left_sectors \<leftarrow> rust_sub n sector; f sector (unat left_sectors) }) =
     (if unat start + unat sector \<le> unat n then f (start + sector) (unat n - (unat start + unat sector)) else None)"
  for sector start n :: u64
proof (cases "unat start + unat sector \<le> unat n")
  case True
  moreover have "unat n < 2 ^ 64" using unsigned_less [of n] by simp
  ultimately have l: "unat sector + unat start < 2 ^ 64" by linarith
  then have u: "unat (sector + start) = unat sector + unat start" using unat_add_lem [of sector start] by simp
  then have le: "sector + start \<le> n" using True by (simp add: word_le_nat_alt)
  then have "unat (n - (sector + start)) = unat n - (unat start + unat sector)" using unat_sub [OF le] u by simp
  with le l have "(do { sector \<leftarrow> rust_add sector start; left_sectors \<leftarrow> rust_sub n sector; f sector (unat left_sectors) }) = f (sector + start) (unat n - (unat start + unat sector))"
    by (simp add: rust_add_def rust_sub_def)
  then show ?thesis using True by (simp add: add.commute)
next
  case False
  have "rust_sub n (sector + start) = None" if "unat sector + unat start < 2 ^ 64"
  proof -
    have "unat (sector + start) = unat sector + unat start" using that unat_add_lem [of sector start] by simp
    then show ?thesis using False by (simp add: rust_sub_def word_le_nat_alt)
  qed
  then show ?thesis using False by (simp add: rust_add_def)
qed

text \<open>
  C39. An access to a partition never leaves it: the drive is asked for sectors of the partition only, or not at all. But the
  number of sectors that are left is computed from the sector on the drive: as many sectors as lie before the partition are missing at its end. An
  access to them does not return, and one that reaches them is cut short; a partition that starts behind its own length cannot be
  accessed at all.
\<close>

theorem partition_access_bounds:
  fixes p :: "'d Partition" and sector :: u64
  defines "start \<equiv> unat (start_sector p)" and "len \<equiv> unat (sector_count p)"
  shows "Partition_read D p sector n buffer s =
      (if len \<le> unat sector then Some (0, buffer, s)
       else if len < start + unat sector then None
       else drive_read D (part_device p) (start_sector p + sector) (min n (len - (start + unat sector))) buffer s)
    \<and> Partition_write D p sector n buffer s' =
      (if len \<le> unat sector then Some (0, s')
       else if len < start + unat sector then None
       else drive_write D (part_device p) (start_sector p + sector) (min n (len - (start + unat sector))) buffer s')
    \<and> (start + unat sector \<le> len \<longrightarrow> unat (start_sector p + sector) = start + unat sector
        \<and> start + unat sector + min n (len - (start + unat sector)) \<le> start + (len - start))"
proof (intro conjI impI)
  assume "start + unat sector \<le> len"
  moreover have "len < 2 ^ 64" unfolding len_def using unsigned_less [of "sector_count p"] by simp
  ultimately show "unat (start_sector p + sector) = start + unat sector" using unat_add_lem [of "start_sector p" sector] unfolding start_def by simp
qed (auto simp: Partition_read_def Partition_write_def start_def len_def word_le_nat_alt
    limited_transfer [where f = "\<lambda>sector left_sectors. drive_read D (part_device p) sector (min n left_sectors) buffer s"]
    limited_transfer [where f = "\<lambda>sector left_sectors. drive_write D (part_device p) sector (min n left_sectors) buffer s'"])

theorem partition_access_bounds_witness:
  "Partition_read \<lparr>drive_read = (\<lambda>d sector n buffer s. Some (n, buffer, s)), drive_write = (\<lambda>d sector n buffer s. Some (n, s))\<rparr> (Partition_new () 10 100) 80 50 [] () = Some (10, [], ())
   \<and> Partition_read \<lparr>drive_read = (\<lambda>d sector n buffer s. Some (n, buffer, s)), drive_write = (\<lambda>d sector n buffer s. Some (n, s))\<rparr> (Partition_new () 10 100) 95 1 [] () = None"
  using partition_access_bounds [of "\<lparr>drive_read = (\<lambda>d sector n buffer s. Some (n, buffer, s)), drive_write = (\<lambda>d sector n buffer s. Some (n, s))\<rparr>" "Partition_new () 10 100" 80 50 "[]" "()" "()"]
    partition_access_bounds [of "\<lparr>drive_read = (\<lambda>d sector n buffer s. Some (n, buffer, s)), drive_write = (\<lambda>d sector n buffer s. Some (n, s))\<rparr>" "Partition_new () 10 100" 95 1 "[]" "()" "()"]
  by (simp add: Partition_new_def)

section \<open>What is registered under a name\<close>

lemma length_decimal: "0 < length (decimal n)"
  by (subst decimal.simps) simp

lemma decimal_inj: "decimal m = decimal n \<Longrightarrow> m = n"
proof (induction m arbitrary: n rule: decimal.induct)
  case (1 m)
  have d: "(char_of (48 + i) :: char) = char_of (48 + j) \<Longrightarrow> i = j" if "i < 10" "j < 10" for i j :: nat
    using that by (simp add: char_of_eq_iff take_bit_eq_mod)
  show ?case
  proof (cases "m < 10 \<or> n < 10")
    case True
    have l: "length (decimal k) = 1 \<longleftrightarrow> k < 10" for k using length_decimal [of "k div 10"] by (subst decimal.simps) auto
    then have "m < 10" "n < 10" using True "1.prems" by metis+
    then show ?thesis using "1.prems" d by (simp add: decimal.simps)
  next
    case False
    then have e: "decimal (m div 10) = decimal (n div 10)" "(char_of (48 + m mod 10) :: char) = char_of (48 + n mod 10)"
      using "1.prems" decimal.simps [of m] decimal.simps [of n] by simp_all
    have "m div 10 = n div 10" using "1.IH" False e(1) by simp
    moreover have "m mod 10 = n mod 10" using d e(2) by simp
    ultimately show ?thesis by (metis div_mult_mod_eq)
  qed
qed

lemma add_partitions_other: "\<forall>i < length ps. x \<noteq> name @ ''p'' @ decimal (index + i) \<Longrightarrow> add_partitions name index ps drives x = drives x"
proof (induction ps arbitrary: index drives)
  case (Cons part parts)
  have "\<forall>i < length parts. x \<noteq> name @ ''p'' @ decimal (index + 1 + i)"
  proof (intro allI impI)
    fix i assume "i < length parts"
    with spec [OF Cons.prems, of "Suc i"] show "x \<noteq> name @ ''p'' @ decimal (index + 1 + i)" by simp
  qed
  moreover have "x \<noteq> name @ ''p'' @ decimal index" using spec [OF Cons.prems, of 0] by simp
  ultimately show ?case using Cons.IH [of "index + 1"] by simp
qed simp

lemma add_partitions_at: "i < length ps \<Longrightarrow> add_partitions name index ps drives (name @ ''p'' @ decimal (index + i)) = Some (Part (ps ! i))"
proof (induction ps arbitrary: i index drives)
  case (Cons part parts)
  show ?case
  proof (cases i)
    case 0
    have "\<forall>j < length parts. name @ ''p'' @ decimal index \<noteq> name @ ''p'' @ decimal (index + 1 + j)" by (auto dest!: decimal_inj)
    then show ?thesis using 0 add_partitions_other [of parts "name @ ''p'' @ decimal index" name "index + 1"] by simp
  next
    case (Suc j)
    then show ?thesis using Cons.IH [of j "index + 1"] Cons.prems by simp
  qed
qed simp

text \<open>A registered drive is found under its type and number, and its partitions under their numbers; other names stay.\<close>

lemma add_block_device_lookup:
  assumes "add_block_device D parse typ drive st s = Some (st', s')"
  defines "name \<equiv> typ @ decimal (case DEVICE_TYPES st typ of Some i \<Rightarrow> i | None \<Rightarrow> 0)"
  obtains ps where "scan_partitions D parse drive s = Some (ps, s')" "block_device name st' = Some (Drive drive)"
    "\<forall>i < length ps. block_device (name @ ''p'' @ decimal i) st' = Some (Part (ps ! i))"
    "\<forall>x. x \<noteq> name \<and> (\<forall>i. x \<noteq> name @ ''p'' @ decimal i) \<longrightarrow> block_device x st' = block_device x st"
proof -
  obtain ps where ps: "scan_partitions D parse drive s = Some (ps, s')"
    and st': "BLOCK_DEVICES st' = add_partitions name 0 ps ((BLOCK_DEVICES st)(name \<mapsto> Drive drive))"
    using assms(1) unfolding add_block_device_def name_def Let_def by (auto split: bind_splits)
  show thesis
  proof (rule that [OF ps])
    show "block_device name st' = Some (Drive drive)" unfolding block_device_def st' by (subst add_partitions_other) auto
    show "\<forall>i < length ps. block_device (name @ ''p'' @ decimal i) st' = Some (Part (ps ! i))"
      unfolding block_device_def st' using add_partitions_at [of _ ps name 0] by simp
    show "\<forall>x. x \<noteq> name \<and> (\<forall>i. x \<noteq> name @ ''p'' @ decimal i) \<longrightarrow> block_device x st' = block_device x st"
      unfolding block_device_def st' by (auto simp: add_partitions_other)
  qed
qed

text \<open>The head of an address is its remainder in the cylinder, so it counts sectors and can exceed the number of heads.\<close>

lemma lba_to_chs_head: "lba_to_chs 63 16 63 = Some (0, 63, 0)"
  by (simp add: lba_to_chs_def panic_simps)

end
