(* ===== verification/PCI_Bus.thy ===== *)
theory PCI_Bus
  imports Virtio_Core
begin

text \<open>
  The PCI bus (\<^verbatim>\<open>transport/pci/bus.rs\<close>): access to the configuration space, enumeration of the functions of a bus, base address
  registers and capabilities. The configuration space behind \<^verbatim>\<open>ConfigurationAccess\<close> is an argument.
\<close>

section \<open>Constants and types\<close>

definition INVALID_READ :: u32 where "INVALID_READ = 0xffffffff"
definition MAX_DEVICES :: u8 where "MAX_DEVICES = 32"
definition MAX_FUNCTIONS :: u8 where "MAX_FUNCTIONS = 8"
definition STATUS_COMMAND_OFFSET :: u8 where "STATUS_COMMAND_OFFSET = 0x04"
definition BAR0_OFFSET :: u8 where "BAR0_OFFSET = 0x10"
definition PCI_CAP_ID_VNDR :: u8 where "PCI_CAP_ID_VNDR = 0x09"

text \<open>The flags that \<^verbatim>\<open>from_bits_truncate\<close> keeps.\<close>

definition PciStatus_all :: u16 where "PciStatus_all = 0xF9B8"
definition Command_all :: u16 where "Command_all = 0x077F"

definition CAPABILITIES_LIST :: u16 where "CAPABILITIES_LIST = 0x10"
definition IO_SPACE :: u16 where "IO_SPACE = 1"
definition MEMORY_SPACE :: u16 where "MEMORY_SPACE = 2"

datatype PciError = InvalidBarType

record DeviceFunction =
  df_bus :: u8
  df_device :: u8
  df_function :: u8

definition DeviceFunction_valid :: "DeviceFunction \<Rightarrow> bool" where
  "DeviceFunction_valid self \<longleftrightarrow> df_device self < 32 \<and> df_function self < 8"

datatype HeaderType = Standard | PciPciBridge | PciCardbusBridge | Unrecognised u8

definition HeaderType_from :: "u8 \<Rightarrow> HeaderType" where
  "HeaderType_from v = (if v = 0 then Standard else if v = 1 then PciPciBridge else if v = 2 then PciCardbusBridge else Unrecognised v)"

record DeviceFunctionInfo =
  vendor_id :: u16
  device_id :: u16
  pci_class :: u8
  sub_class :: u8
  prog_if :: u8
  revision :: u8
  header_type :: HeaderType

datatype MemoryBarType = Width32 | Below1MiB | Width64

fun MemoryBarType_into :: "MemoryBarType \<Rightarrow> u8" where
  "MemoryBarType_into Width32 = 0"
| "MemoryBarType_into Below1MiB = 1"
| "MemoryBarType_into Width64 = 2"

definition MemoryBarType_try_from :: "u8 \<Rightarrow> PciError + MemoryBarType" where
  "MemoryBarType_try_from v = (if v = 0 then Inr Width32 else if v = 1 then Inr Below1MiB else if v = 2 then Inr Width64 else Inl InvalidBarType)"

datatype BarInfo =
    BarMemory (bar_address_type: MemoryBarType) (bar_prefetchable: bool) (bar_address: u64) (bar_size: u64)
  | BarIO u32 u32

fun takes_two_entries :: "BarInfo \<Rightarrow> bool" where
  "takes_two_entries (BarMemory t p a s) = (t = Width64)"
| "takes_two_entries (BarIO a s) = False"

fun memory_address_size :: "BarInfo \<Rightarrow> (u64 \<times> u64) option" where
  "memory_address_size (BarMemory t p a s) = Some (a, s)"
| "memory_address_size (BarIO a s) = None"

section \<open>Access to the configuration space\<close>

record 'c ConfigurationAccess =
  read_word :: "'c \<Rightarrow> DeviceFunction \<Rightarrow> u8 \<Rightarrow> u32 option"
  write_word :: "'c \<Rightarrow> DeviceFunction \<Rightarrow> u8 \<Rightarrow> u32 \<Rightarrow> 'c option"

datatype Cam = MmioCam | Ecam

fun Cam_size :: "Cam \<Rightarrow> u32" where
  "Cam_size MmioCam = 0x1000000"
| "Cam_size Ecam = 0x10000000"

definition cam_offset :: "Cam \<Rightarrow> DeviceFunction \<Rightarrow> u8 \<Rightarrow> u32 option" where
  "cam_offset self device_function register_offset = do {
     rust_assert (DeviceFunction_valid device_function);
     let bdf = push_bit 8 (ucast (df_bus device_function)) OR push_bit 3 (ucast (df_device device_function)) OR ucast (df_function device_function);
     let address = push_bit (case self of MmioCam \<Rightarrow> 8 | Ecam \<Rightarrow> 12) bdf OR ucast register_offset;
     rust_assert (address < Cam_size self);
     rust_assert (address AND 3 = 0);
     Some address
   }"

text \<open>
  Access through a memory mapped region of as many words as the mechanism has. What a load and a store do to the region is up to the
  devices behind it: \<open>mmio_read\<close> and \<open>mmio_write\<close> are arguments.
\<close>

definition mmio_get :: "Cam \<Rightarrow> nat \<Rightarrow> nat option" where
  "mmio_get cam i = (if i < unat (Cam_size cam) div 4 then Some i else None)"

definition MmioCam_read_word :: "('m \<Rightarrow> nat \<Rightarrow> u32) \<Rightarrow> Cam \<Rightarrow> 'm \<Rightarrow> DeviceFunction \<Rightarrow> u8 \<Rightarrow> u32 option" where
  "MmioCam_read_word mmio_read cam mmio device_function register_offset = do {
     address \<leftarrow> cam_offset cam device_function register_offset;
     i \<leftarrow> mmio_get cam (unat (drop_bit 2 address));
     Some (mmio_read mmio i)
   }"

definition MmioCam_write_word :: "('m \<Rightarrow> nat \<Rightarrow> u32 \<Rightarrow> 'm) \<Rightarrow> Cam \<Rightarrow> 'm \<Rightarrow> DeviceFunction \<Rightarrow> u8 \<Rightarrow> u32 \<Rightarrow> 'm option" where
  "MmioCam_write_word mmio_write cam mmio device_function register_offset data = do {
     address \<leftarrow> cam_offset cam device_function register_offset;
     i \<leftarrow> mmio_get cam (unat (drop_bit 2 address));
     Some (mmio_write mmio i data)
   }"

definition MmioCam_access :: "('m \<Rightarrow> nat \<Rightarrow> u32) \<Rightarrow> ('m \<Rightarrow> nat \<Rightarrow> u32 \<Rightarrow> 'm) \<Rightarrow> Cam \<Rightarrow> 'm ConfigurationAccess" where
  "MmioCam_access mmio_read mmio_write cam = \<lparr>read_word = MmioCam_read_word mmio_read cam, write_word = MmioCam_write_word mmio_write cam\<rparr>"

section \<open>Status, command and base address registers\<close>

definition get_status_command :: "'c ConfigurationAccess \<Rightarrow> 'c \<Rightarrow> DeviceFunction \<Rightarrow> (u16 \<times> u16) option" where
  "get_status_command C root device_function = do {
     status_command \<leftarrow> read_word C root device_function STATUS_COMMAND_OFFSET;
     Some (ucast (drop_bit 16 status_command) AND PciStatus_all, ucast status_command AND Command_all)
   }"

definition set_command :: "'c ConfigurationAccess \<Rightarrow> 'c \<Rightarrow> DeviceFunction \<Rightarrow> u16 \<Rightarrow> 'c option" where
  "set_command C root device_function command = write_word C root device_function STATUS_COMMAND_OFFSET (ucast command)"

text \<open>\<^verbatim>\<open>BAR0_OFFSET + 4 * bar_index\<close>, which overflows for an index of 60 or more.\<close>

definition bar_offset :: "u8 \<Rightarrow> u8 option" where
  "bar_offset bar_index = do { rust_assert (4 * unat bar_index < 256); rust_add BAR0_OFFSET (4 * bar_index) }"

text \<open>The upper half of the address and of the size; an error leaves the function before the registers are restored.\<close>

definition bar_top :: "'c ConfigurationAccess \<Rightarrow> 'c \<Rightarrow> DeviceFunction \<Rightarrow> u8 \<Rightarrow> u32 \<Rightarrow> u64 \<Rightarrow> ((PciError + u32 \<times> u32) \<times> 'c) option" where
  "bar_top C root device_function bar_index bar_orig size_mask =
     (if bar_orig AND 7 = 4
      then if bar_index \<ge> 5 then Some (Inl InvalidBarType, root)
           else do {
             off \<leftarrow> bar_offset (bar_index + 1);
             bar_top_orig \<leftarrow> read_word C root device_function off;
             root1 \<leftarrow> write_word C root device_function off 0xffffffff;
             size_top \<leftarrow> read_word C root1 device_function off;
             root2 \<leftarrow> write_word C root1 device_function off bar_top_orig;
             Some (Inr (bar_top_orig, size_top), root2)
           }
      else Some (Inr (0, if size_mask = 0 then 0 else 0xffffffff), root))"

definition bar_result :: "u32 \<Rightarrow> u32 \<Rightarrow> u64 \<Rightarrow> PciError + BarInfo option" where
  "bar_result bar_orig address_top size_mask =
     (let io_space = (bar_orig AND 1 = 1);
          flag_bits = (if io_space then 3 else 15);
          sz = NOT (size_mask AND NOT flag_bits) + 1
      in if size_mask = 0 then Inr None
         else if io_space then Inr (Some (BarIO (bar_orig AND 0xfffffffc) (ucast sz)))
         else map_sum id (\<lambda>t. Some (BarMemory t (bar_orig AND 8 \<noteq> 0) (ucast (bar_orig AND 0xfffffff0) OR push_bit 32 (ucast address_top)) sz))
                (MemoryBarType_try_from (ucast (drop_bit 1 (bar_orig AND 6)))))"

definition bar_info :: "'c ConfigurationAccess \<Rightarrow> 'c \<Rightarrow> DeviceFunction \<Rightarrow> u8 \<Rightarrow> ((PciError + BarInfo option) \<times> 'c) option" where
  "bar_info C root device_function bar_index = do {
     (_, command_orig) \<leftarrow> get_status_command C root device_function;
     let command_disable_decode = command_orig AND NOT (IO_SPACE OR MEMORY_SPACE);
     root1 \<leftarrow> (if command_disable_decode \<noteq> command_orig then set_command C root device_function command_disable_decode else Some root);
     off \<leftarrow> bar_offset bar_index;
     bar_orig \<leftarrow> read_word C root1 device_function off;
     root2 \<leftarrow> write_word C root1 device_function off 0xffffffff;
     size_mask \<leftarrow> read_word C root2 device_function off;
     (top, root3) \<leftarrow> bar_top C root2 device_function bar_index bar_orig (ucast size_mask);
     case top of
       Inl e \<Rightarrow> Some (Inl e, root3)
     | Inr (address_top, size_top) \<Rightarrow> do {
         let size_mask = (ucast size_mask OR push_bit 32 (ucast size_top) :: u64);
         root4 \<leftarrow> write_word C root3 device_function off bar_orig;
         root5 \<leftarrow> (if command_disable_decode \<noteq> command_orig then set_command C root4 device_function command_orig else Some root4);
         Some (bar_result bar_orig address_top size_mask, root5)
       }
   }"

text \<open>\<open>bar_index\<close> and the entries that are still empty.\<close>

function bars_from :: "'c ConfigurationAccess \<Rightarrow> 'c \<Rightarrow> DeviceFunction \<Rightarrow> nat \<Rightarrow> BarInfo option list \<Rightarrow> ((PciError + BarInfo option list) \<times> 'c) option" where
  "bars_from C root device_function bar_index bars =
     (if bar_index < 6 then do {
        (info, root1) \<leftarrow> bar_info C root device_function (of_nat bar_index);
        case info of
          Inl e \<Rightarrow> Some (Inl e, root1)
        | Inr info \<Rightarrow> do {
            bars1 \<leftarrow> upd bars bar_index info;
            bars_from C root1 device_function (bar_index + (if (case info of Some i \<Rightarrow> takes_two_entries i | None \<Rightarrow> False) then 2 else 1)) bars1
          }
      }
      else Some (Inr bars, root))"
  by pat_completeness auto
termination by (relation "measure (\<lambda>(C, root, device_function, bar_index, bars). 6 - bar_index)") (auto split: option.splits)

declare bars_from.simps [simp del]

definition pci_bars :: "'c ConfigurationAccess \<Rightarrow> 'c \<Rightarrow> DeviceFunction \<Rightarrow> ((PciError + BarInfo option list) \<times> 'c) option" where
  "pci_bars C root device_function = bars_from C root device_function 0 (replicate 6 None)"

definition set_bar_32 :: "'c ConfigurationAccess \<Rightarrow> 'c \<Rightarrow> DeviceFunction \<Rightarrow> u8 \<Rightarrow> u32 \<Rightarrow> 'c option" where
  "set_bar_32 C root device_function bar_index address = do { off \<leftarrow> bar_offset bar_index; write_word C root device_function off address }"

definition set_bar_64 :: "'c ConfigurationAccess \<Rightarrow> 'c \<Rightarrow> DeviceFunction \<Rightarrow> u8 \<Rightarrow> u64 \<Rightarrow> 'c option" where
  "set_bar_64 C root device_function bar_index address = do {
     off \<leftarrow> bar_offset bar_index;
     root1 \<leftarrow> write_word C root device_function off (ucast address);
     next_index \<leftarrow> rust_add bar_index 1;
     off1 \<leftarrow> bar_offset next_index;
     write_word C root1 device_function off1 (ucast (drop_bit 32 address))
   }"

section \<open>Capabilities\<close>

record CapabilityInfo =
  cap_offset :: u8
  cap_id :: u8
  private_header :: u16

definition capabilities_offset :: "'c ConfigurationAccess \<Rightarrow> 'c \<Rightarrow> DeviceFunction \<Rightarrow> u8 option option" where
  "capabilities_offset C root device_function = do {
     (status, _) \<leftarrow> get_status_command C root device_function;
     if status AND CAPABILITIES_LIST = CAPABILITIES_LIST
     then do { w \<leftarrow> read_word C root device_function 0x34; Some (Some (ucast (w AND 0xFC))) }
     else Some None
   }"

text \<open>\<^verbatim>\<open>CapabilityIterator::next\<close> for the \<open>next_capability_offset\<close> of the iterator: the capability, and the new offset.\<close>

definition CapabilityIterator_next :: "'c ConfigurationAccess \<Rightarrow> 'c \<Rightarrow> DeviceFunction \<Rightarrow> u8 option \<Rightarrow> (CapabilityInfo option \<times> u8 option) option" where
  "CapabilityIterator_next C root device_function next_capability_offset =
     (case next_capability_offset of
        None \<Rightarrow> Some (None, None)
      | Some offset \<Rightarrow> do {
          capability_header \<leftarrow> read_word C root device_function offset;
          let next_offset = (ucast (drop_bit 8 capability_header) :: u8);
          let nxt = (if next_offset = 0 then None else if next_offset < 64 \<or> next_offset AND 3 \<noteq> 0 then None else Some next_offset);
          Some (Some \<lparr>cap_offset = offset, cap_id = ucast capability_header, private_header = ucast (drop_bit 16 capability_header)\<rparr>, nxt)
        })"

section \<open>Enumeration of a bus\<close>

definition read_function_info :: "'c ConfigurationAccess \<Rightarrow> 'c \<Rightarrow> DeviceFunction \<Rightarrow> u32 \<Rightarrow> DeviceFunctionInfo option" where
  "read_function_info C root current device_vendor = do {
     class_revision \<leftarrow> read_word C root current 8;
     bist_type_latency_cache \<leftarrow> read_word C root current 12;
     Some \<lparr>vendor_id = ucast device_vendor, device_id = ucast (drop_bit 16 device_vendor), pci_class = ucast (drop_bit 24 class_revision),
       sub_class = ucast (drop_bit 16 class_revision), prog_if = ucast (drop_bit 8 class_revision), revision = ucast class_revision,
       header_type = HeaderType_from (ucast (drop_bit 16 bist_type_latency_cache) AND 0x7f)\<rparr>
   }"

definition advance :: "DeviceFunction \<Rightarrow> DeviceFunction option" where
  "advance self = do {
     f \<leftarrow> rust_add (df_function self) 1;
     if f \<ge> MAX_FUNCTIONS
     then do { d \<leftarrow> rust_add (df_device self) 1; Some (self\<lparr>df_function := 0, df_device := d\<rparr>) }
     else Some (self\<lparr>df_function := f\<rparr>)
   }"

text \<open>The functions that are left to look at.\<close>

definition functions_left :: "DeviceFunction \<Rightarrow> nat" where
  "functions_left df = (32 - unat (df_device df)) * 256 + (255 - unat (df_function df))"

lemma advance_left:
  assumes "df_device df < MAX_DEVICES" "advance df = Some df'"
  shows "functions_left df' < functions_left df"
proof (cases "df_function df + 1 \<ge> MAX_FUNCTIONS")
  case True
  then have df': "df' = df\<lparr>df_function := 0, df_device := df_device df + 1\<rparr>" and d: "unat (df_device df) + 1 < 256" and f: "unat (df_function df) + 1 < 256"
    using assms(2) by (auto simp: advance_def rust_add_def split: if_splits bind_splits)
  have u: "unat (df_device df + 1) = unat (df_device df) + 1" using unat_add_lem [of "df_device df" 1] d by simp
  have "unat (df_device df) < 32" using assms(1) by (simp add: MAX_DEVICES_def word_less_nat_alt)
  then show ?thesis using f by (simp add: functions_left_def df' u)
next
  case False
  then have df': "df' = df\<lparr>df_function := df_function df + 1\<rparr>" and f: "unat (df_function df) + 1 < 256"
    using assms(2) by (auto simp: advance_def rust_add_def split: if_splits bind_splits)
  have "unat (df_function df + 1) = unat (df_function df) + 1" using unat_add_lem [of "df_function df" 1] f by simp
  then show ?thesis using f by (simp add: functions_left_def df')
qed

function BusDeviceIterator_next :: "'c ConfigurationAccess \<Rightarrow> 'c \<Rightarrow> DeviceFunction \<Rightarrow> ((DeviceFunction \<times> DeviceFunctionInfo) option \<times> DeviceFunction) option" where
  "BusDeviceIterator_next C root nxt =
     (if df_device nxt < MAX_DEVICES
      then (case read_word C root nxt 0 of
          None \<Rightarrow> None
        | Some device_vendor \<Rightarrow>
            (case advance nxt of
               None \<Rightarrow> None
             | Some nxt' \<Rightarrow>
                 (if device_vendor \<noteq> INVALID_READ
                  then do { info \<leftarrow> read_function_info C root nxt device_vendor; Some (Some (nxt, info), nxt') }
                  else BusDeviceIterator_next C root nxt')))
      else Some (None, nxt))"
  by pat_completeness auto
termination by (relation "measure (\<lambda>(C, root, nxt). functions_left nxt)") (auto intro: advance_left)

declare BusDeviceIterator_next.simps [simp del]

definition enumerate_bus :: "u8 \<Rightarrow> DeviceFunction" where
  "enumerate_bus bus = \<lparr>df_bus = bus, df_device = 0, df_function = 0\<rparr>"

section \<open>The registers of a function\<close>

text \<open>
  A function of the bus as the specification of PCI describes it: \<open>regs\<close> are the contents of its registers, and writing a register
  changes the bits that \<open>writable\<close> has for it and no others. Registers of other functions stay.
\<close>

definition pci_function :: "'c ConfigurationAccess \<Rightarrow> DeviceFunction \<Rightarrow> ('c \<Rightarrow> u8 \<Rightarrow> u32) \<Rightarrow> (u8 \<Rightarrow> u32) \<Rightarrow> bool" where
  "pci_function C df regs writable \<longleftrightarrow> (\<forall>c off. read_word C c df off = Some (regs c off))
     \<and> (\<forall>c off v. \<exists>c'. write_word C c df off v = Some c' \<and> regs c' = (regs c)(off := (v AND writable off) OR (regs c off AND NOT (writable off))))"

lemma pci_functionD:
  assumes "pci_function C df regs writable"
  shows "read_word C c df off = Some (regs c off)"
    "\<exists>c'. write_word C c df off v = Some c' \<and> regs c' = (regs c)(off := (v AND writable off) OR (regs c off AND NOT (writable off)))"
  using assms by (auto simp: pci_function_def)

text \<open>The function of which nothing but the registers matters, and its registers for a prefetchable 64-bit region of 16 KiB in the third
  and fourth base address register.\<close>

definition register_file :: "(u8 \<Rightarrow> u32) \<Rightarrow> (u8 \<Rightarrow> u32) ConfigurationAccess" where
  "register_file writable = \<lparr>read_word = \<lambda>c df off. Some (c off), write_word = \<lambda>c df off v. Some (c(off := (v AND writable off) OR (c off AND NOT (writable off))))\<rparr>"

definition sample_writable :: "u8 \<Rightarrow> u32" where
  "sample_writable off = (if off = 4 then 7 else if off = 24 then 0xffffc000 else if off = 28 then 0xffffffff else 0)"

definition sample_registers :: "u8 \<Rightarrow> u32" where
  "sample_registers off = (if off = 4 then 0x100007 else if off = 24 then 0xfebf000c else if off = 28 then 0x80 else 0)"

lemma register_file_function: "pci_function (register_file writable) df (\<lambda>c. c) writable"
  by (simp add: pci_function_def register_file_def)

text \<open>What a base address register describes, and its contents and writable bits.\<close>

datatype bar = UnusedBar | IoBar u32 nat | MemBar MemoryBarType bool u32 nat | MemBar64 bool u64 nat

fun bar_ok :: "bar \<Rightarrow> bool" where
  "bar_ok UnusedBar = True"
| "bar_ok (IoBar a k) = (2 \<le> k \<and> k < 32 \<and> take_bit k a = 0)"
| "bar_ok (MemBar t p a k) = (t \<noteq> Width64 \<and> 4 \<le> k \<and> k < 32 \<and> take_bit k a = 0)"
| "bar_ok (MemBar64 p a k) = (4 \<le> k \<and> k < 64 \<and> take_bit k a = 0)"

fun bar_value :: "bar \<Rightarrow> u32" where
  "bar_value UnusedBar = 0"
| "bar_value (IoBar a k) = a OR 1"
| "bar_value (MemBar t p a k) = a OR (if t = Below1MiB then 2 else 0) OR (if p then 8 else 0)"
| "bar_value (MemBar64 p a k) = ucast a OR 4 OR (if p then 8 else 0)"

fun bar_writable :: "bar \<Rightarrow> u32" where
  "bar_writable UnusedBar = 0"
| "bar_writable (IoBar a k) = NOT (mask k)"
| "bar_writable (MemBar t p a k) = NOT (mask k)"
| "bar_writable (MemBar64 p a k) = ucast (NOT (mask k) :: u64)"

fun bar_description :: "bar \<Rightarrow> BarInfo option" where
  "bar_description UnusedBar = None"
| "bar_description (IoBar a k) = Some (BarIO a (2 ^ k))"
| "bar_description (MemBar t p a k) = Some (BarMemory t p (ucast a) (2 ^ k))"
| "bar_description (MemBar64 p a k) = Some (BarMemory Width64 p a (2 ^ k))"

text \<open>The register at \<open>off\<close> is this bar; a wide one has its upper half in the next register.\<close>

definition has_bar :: "bar \<Rightarrow> u8 \<Rightarrow> (u8 \<Rightarrow> u32) \<Rightarrow> (u8 \<Rightarrow> u32) \<Rightarrow> bool" where
  "has_bar b off regs writable \<longleftrightarrow> bar_ok b \<and> regs off = bar_value b \<and> writable off = bar_writable b
     \<and> (case b of MemBar64 p a k \<Rightarrow> regs (off + 4) = ucast (drop_bit 32 a) \<and> writable (off + 4) = ucast (drop_bit 32 (NOT (mask k) :: u64)) | _ \<Rightarrow> True)"

section \<open>Sizing a base address register\<close>

lemma write_back:
  fixes v x w :: u32
  shows "(v AND w) OR ((x AND w) OR (v AND NOT w)) AND NOT w = v"
  by (rule bit_eqI) (auto simp: bit_simps)

lemma flag_masks: "(15 :: u64) = mask 4" "(3 :: u64) = mask 2" "(0xffffffff :: u32) = mask 32" "(0xfffffff0 :: u32) = NOT (mask 4)" "(0xfffffffc :: u32) = NOT (mask 2)"
  by (simp_all add: mask_eq_exp_minus_1)

lemma low_bits_zero: "take_bit k a = 0 \<Longrightarrow> n < k \<Longrightarrow> \<not> bit a n" for a :: "'a::len word"
  by (metis bit_0_eq bit_take_bit_iff bot_apply bot_bool_def)

lemma size_of_mask: "sm AND NOT fl = NOT (mask k) \<Longrightarrow> NOT (sm AND NOT fl) + 1 = 2 ^ k" for sm :: u64
  by (simp add: mask_eq_exp_minus_1)

text \<open>What a register of value \<open>v\<close> and writable bits \<open>w\<close> reads back after ones were written to it.\<close>

abbreviation read_back :: "u32 \<Rightarrow> u32 \<Rightarrow> u32" where
  "read_back v w \<equiv> (0xffffffff AND w) OR (v AND NOT w)"

lemma size_mask_32:
  assumes "f \<le> k" "k < 32" "take_bit k a = 0" "\<And>n. bit g n \<Longrightarrow> n < f"
  shows "(ucast (read_back (a OR g) (NOT (mask k))) OR push_bit 32 (ucast (0xffffffff :: u32)) :: u64) AND NOT (mask f) = NOT (mask k)"
proof (rule bit_word_eqI)
  fix n assume n: "n < LENGTH(64)"
  have "bit a n \<Longrightarrow> k \<le> n" using low_bits_zero [OF assms(3)] not_le by blast
  moreover have "bit g n \<Longrightarrow> n < f" by (rule assms(4))
  ultimately show "bit ((ucast (read_back (a OR g) (NOT (mask k))) OR push_bit 32 (ucast (0xffffffff :: u32)) :: u64) AND NOT (mask f)) n = bit (NOT (mask k) :: u64) n"
    using n assms(1,2) unfolding flag_masks by (auto simp: bit_simps)
qed

lemma size_mask_64:
  assumes "4 \<le> k" "k < 64" "take_bit k (a :: u64) = 0" "\<And>n. bit g n \<Longrightarrow> n < 4"
  shows "(ucast (read_back (ucast a OR g) (ucast (NOT (mask k) :: u64))) OR push_bit 32 (ucast (read_back (ucast (drop_bit 32 a)) (ucast (drop_bit 32 (NOT (mask k) :: u64))))) :: u64)
    AND NOT (mask 4) = NOT (mask k)"
proof (rule bit_word_eqI)
  fix n assume n: "n < LENGTH(64)"
  have "bit a n \<Longrightarrow> k \<le> n" using low_bits_zero [OF assms(3)] not_le by blast
  moreover have "bit g n \<Longrightarrow> n < 4" by (rule assms(4))
  ultimately show "bit ((ucast (read_back (ucast a OR g) (ucast (NOT (mask k) :: u64))) OR push_bit 32 (ucast (read_back (ucast (drop_bit 32 a)) (ucast (drop_bit 32 (NOT (mask k) :: u64))))) :: u64)
      AND NOT (mask 4)) n = bit (NOT (mask k) :: u64) n"
    using n assms(1,2) unfolding flag_masks by (auto simp: bit_simps)
qed

lemma low_bits_only:
  fixes m :: u32
  assumes "m AND NOT (mask f) = 0" "n < 32" "bit m n"
  shows "n < f"
proof (rule ccontr)
  assume "\<not> n < f"
  with assms(2,3) have "bit (m AND NOT (mask f)) n" by (simp add: bit_simps)
  then show False by (simp add: assms(1))
qed

lemma flag_part:
  fixes a g m :: u32
  assumes "take_bit f a = 0" "m AND NOT (mask f) = 0"
  shows "(a OR g) AND m = g AND m"
proof (rule bit_word_eqI)
  fix n assume "n < LENGTH(32)"
  have "bit m n \<Longrightarrow> n < f" using low_bits_only [OF assms(2)] \<open>n < LENGTH(32)\<close> by simp
  moreover have "bit a n \<Longrightarrow> f \<le> n" using low_bits_zero [OF assms(1)] not_le by blast
  ultimately show "bit ((a OR g) AND m) n = bit (g AND m) n" by (auto simp: bit_simps)
qed

lemma address_part:
  fixes a g :: u32
  assumes "take_bit f a = 0" "g AND NOT (mask f) = 0"
  shows "(a OR g) AND NOT (mask f) = a"
proof (rule bit_word_eqI)
  fix n assume "n < LENGTH(32)"
  have "bit g n \<Longrightarrow> n < f" using low_bits_only [OF assms(2)] \<open>n < LENGTH(32)\<close> by simp
  moreover have "bit a n \<Longrightarrow> f \<le> n" using low_bits_zero [OF assms(1)] not_le by blast
  ultimately show "bit ((a OR g) AND NOT (mask f)) n = bit a n" using \<open>n < LENGTH(32)\<close> by (auto simp: bit_simps)
qed

lemma take_bit_0_le: "take_bit k a = 0 \<Longrightarrow> f \<le> k \<Longrightarrow> take_bit f a = 0" for a :: "'a::len word"
  by (metis min.absorb_iff1 take_bit_of_0 take_bit_take_bit)

lemma not_mask_nonzero: "sm AND NOT fl = NOT (mask k) \<Longrightarrow> k < 64 \<Longrightarrow> sm \<noteq> 0" for sm :: u64
proof
  assume h: "sm AND NOT fl = NOT (mask k)" "k < 64" "sm = 0"
  then have "bit (NOT (mask k) :: u64) k = bit (0 :: u64) k" by simp
  with h(2) show False by (simp add: bit_simps)
qed

lemma bar_result_io:
  assumes "bar_ok (IoBar a k)"
  shows "bar_result (a OR 1) 0 (ucast (read_back (a OR 1) (NOT (mask k))) OR push_bit 32 (ucast (0xffffffff :: u32))) = Inr (Some (BarIO a (2 ^ k)))"
proof -
  let ?sm = "ucast (read_back (a OR 1) (NOT (mask k))) OR push_bit 32 (ucast (0xffffffff :: u32)) :: u64"
  have z: "take_bit 2 a = 0" using assms take_bit_0_le by auto
  have sm: "?sm AND NOT (mask 2) = NOT (mask k)" by (rule size_mask_32) (use assms in \<open>auto simp: bit_1_iff\<close>)
  have "(a OR 1) AND 1 = 1" using flag_part [OF z, of 1 1] by (simp add: mask_eq_exp_minus_1)
  moreover have "(a OR 1) AND NOT (mask 2) = a" by (rule address_part [OF z]) (simp add: mask_eq_exp_minus_1)
  moreover have "?sm \<noteq> 0" by (rule not_mask_nonzero [OF sm]) (use assms in simp)
  moreover have "NOT (?sm AND NOT (mask 2)) + 1 = 2 ^ k" by (rule size_of_mask [OF sm])
  moreover have "ucast (2 ^ k :: u64) = (2 ^ k :: u32)" by (rule bit_word_eqI) (auto simp: bit_simps)
  ultimately show ?thesis unfolding bar_result_def Let_def flag_masks(2,5) by (simp only: if_True if_False refl)
qed

lemma bar_result_memory:
  fixes a :: u32
  assumes z: "take_bit 4 a = 0" and g: "g \<in> {0, 2, 4, 8, 10, 12}" and sm: "sm AND NOT (mask 4) = NOT (mask k)" and k: "k < 64"
  shows "bar_result (a OR g) upper sm = Inr (Some (BarMemory (if g AND 6 = 0 then Width32 else if g AND 6 = 2 then Below1MiB else Width64) (g AND 8 = 8)
    (ucast a OR push_bit 32 (ucast upper)) (2 ^ k)))"
proof -
  have m: "(1 :: u32) AND NOT (mask 4) = 0" "(6 :: u32) AND NOT (mask 4) = 0" "(8 :: u32) AND NOT (mask 4) = 0" by (simp_all add: mask_eq_exp_minus_1)
  have "(a OR g) AND NOT (mask 4) = a" by (rule address_part [OF z]) (use g in \<open>auto simp: mask_eq_exp_minus_1\<close>)
  moreover have "(a OR g) AND 1 = g AND 1" "(a OR g) AND 6 = g AND 6" "(a OR g) AND 8 = g AND 8" using m by (auto intro: flag_part [OF z])
  moreover have "sm \<noteq> 0" by (rule not_mask_nonzero [OF sm k])
  moreover have "NOT (sm AND NOT (mask 4)) + 1 = 2 ^ k" by (rule size_of_mask [OF sm])
  ultimately show ?thesis unfolding bar_result_def Let_def flag_masks(1,4) using g
    by (elim insertE emptyE; simp add: MemoryBarType_try_from_def)
qed

lemma bar_top_wide:
  assumes f: "pci_function C df regs writable" and v: "v AND 7 = 4" and i: "i < 5" and off: "bar_offset (i + 1) = Some off"
  shows "\<exists>c'. bar_top C c df i v sm = Some (Inr (regs c off, read_back (regs c off) (writable off)), c') \<and> regs c' = regs c"
proof -
  obtain c1 where c1: "write_word C c df off 0xffffffff = Some c1" "regs c1 = (regs c)(off := read_back (regs c off) (writable off))"
    using pci_functionD(2) [OF f] by blast
  obtain c2 where c2: "write_word C c1 df off (regs c off) = Some c2" "regs c2 = (regs c1)(off := (regs c off AND writable off) OR (regs c1 off AND NOT (writable off)))"
    using pci_functionD(2) [OF f] by blast
  have "regs c2 = regs c" unfolding c2(2) c1(2) by (simp only: fun_upd_upd fun_upd_same write_back fun_upd_triv)
  moreover have "\<not> 5 \<le> i" using i by simp
  ultimately show ?thesis unfolding bar_top_def using v off c1 c2(1) by (simp add: pci_functionD(1) [OF f])
qed

text \<open>Restoring the command register: the code writes back the bits that it knows, so no other bit may be writable.\<close>

lemma command_back:
  fixes r w x :: u32
  assumes "w AND NOT (ucast Command_all) = 0"
  shows "(ucast (ucast r AND Command_all) AND w) OR (((x AND w) OR (r AND NOT w)) AND NOT w) = r"
proof (rule bit_word_eqI)
  fix n assume n: "n < LENGTH(32)"
  have "bit w n \<Longrightarrow> bit (ucast Command_all :: u32) n"
  proof (rule ccontr)
    assume "bit w n" "\<not> bit (ucast Command_all :: u32) n"
    then have "bit (w AND NOT (ucast Command_all)) n" using n by (simp only: bit_and_iff bit_not_iff) simp
    then show False by (simp add: assms)
  qed
  moreover have "bit Command_all n \<Longrightarrow> n < 16" using bit_imp_le_length [of Command_all n] by simp
  ultimately show "bit ((ucast (ucast r AND Command_all) AND w) OR (((x AND w) OR (r AND NOT w)) AND NOT w)) n = bit r n"
    using n by (auto simp: bit_simps)
qed

lemma set_command_back:
  assumes f: "pci_function C df regs writable" and w: "writable STATUS_COMMAND_OFFSET AND NOT (ucast Command_all) = 0"
    and c1: "set_command C c df x = Some c1" and c2: "regs c2 = regs c1"
  shows "\<exists>c'. set_command C c2 df (ucast (regs c STATUS_COMMAND_OFFSET) AND Command_all) = Some c' \<and> regs c' = regs c"
proof -
  have r1: "regs c1 = (regs c)(STATUS_COMMAND_OFFSET := (ucast x AND writable STATUS_COMMAND_OFFSET) OR (regs c STATUS_COMMAND_OFFSET AND NOT (writable STATUS_COMMAND_OFFSET)))"
    using c1 pci_functionD(2) [OF f, of c STATUS_COMMAND_OFFSET "ucast x"] unfolding set_command_def by auto
  obtain c' where "set_command C c2 df (ucast (regs c STATUS_COMMAND_OFFSET) AND Command_all) = Some c'"
    "regs c' = (regs c2)(STATUS_COMMAND_OFFSET := (ucast (ucast (regs c STATUS_COMMAND_OFFSET) AND Command_all) AND writable STATUS_COMMAND_OFFSET)
       OR (regs c2 STATUS_COMMAND_OFFSET AND NOT (writable STATUS_COMMAND_OFFSET)))"
    using pci_functionD(2) [OF f] unfolding set_command_def by blast
  then show ?thesis unfolding c2 r1 by (simp only: fun_upd_upd fun_upd_same command_back [OF w] fun_upd_triv) blast
qed

lemma bar_info_steps:
  assumes f: "pci_function C df regs writable" and w: "writable STATUS_COMMAND_OFFSET AND NOT (ucast Command_all) = 0"
    and off: "bar_offset i = Some off" "off \<noteq> STATUS_COMMAND_OFFSET"
    and upper: "\<And>c2. (\<forall>r. r \<noteq> off \<longrightarrow> r \<noteq> STATUS_COMMAND_OFFSET \<longrightarrow> regs c2 r = regs c r)
      \<Longrightarrow> \<exists>c3. bar_top C c2 df i (regs c off) (ucast (read_back (regs c off) (writable off))) = Some (Inr (at, st), c3) \<and> regs c3 = regs c2"
  shows "\<exists>c'. bar_info C c df i = Some (bar_result (regs c off) at (ucast (read_back (regs c off) (writable off)) OR push_bit 32 (ucast st)), c') \<and> regs c' = regs c"
proof -
  let ?cmd = "ucast (regs c STATUS_COMMAND_OFFSET) AND Command_all" let ?dis = "?cmd AND NOT (IO_SPACE OR MEMORY_SPACE)"
  let ?b = "?dis \<noteq> ?cmd"
  obtain c0 where c0: "set_command C c df ?dis = Some c0" "\<forall>r. r \<noteq> STATUS_COMMAND_OFFSET \<longrightarrow> regs c0 r = regs c r"
    using pci_functionD(2) [OF f, of c STATUS_COMMAND_OFFSET "ucast ?dis"] unfolding set_command_def by auto
  define c1 where "c1 = (if ?b then c0 else c)"
  have c1: "(if ?b then set_command C c df ?dis else Some c) = Some c1" "\<forall>r. r \<noteq> STATUS_COMMAND_OFFSET \<longrightarrow> regs c1 r = regs c r"
    using c0 by (auto simp: c1_def)
  obtain c2 where c2: "write_word C c1 df off 0xffffffff = Some c2" "regs c2 = (regs c1)(off := read_back (regs c1 off) (writable off))"
    using pci_functionD(2) [OF f] by blast
  have v: "regs c1 off = regs c off" using c1(2) off(2) by blast
  obtain c3 where c3: "bar_top C c2 df i (regs c off) (ucast (read_back (regs c off) (writable off))) = Some (Inr (at, st), c3)" "regs c3 = regs c2"
    using upper [of c2] c1(2) c2(2) by auto
  obtain c4 where c4: "write_word C c3 df off (regs c off) = Some c4" "regs c4 = (regs c3)(off := (regs c off AND writable off) OR (regs c3 off AND NOT (writable off)))"
    using pci_functionD(2) [OF f] by blast
  have r4: "regs c4 = regs c1" unfolding c4(2) c3(2) c2(2) v [symmetric] by (simp only: fun_upd_upd fun_upd_same write_back fun_upd_triv)
  obtain c5 where c5: "(if ?b then set_command C c4 df ?cmd else Some c4) = Some c5" "regs c5 = regs c"
    using set_command_back [OF f w c0(1), of c4] r4 unfolding c1_def by (cases ?b) auto
  have m: "regs c2 off = read_back (regs c off) (writable off)" unfolding c2(2) v by (simp only: fun_upd_same)
  have "bar_info C c df i = Some (bar_result (regs c off) at (ucast (regs c2 off) OR push_bit 32 (ucast st)), c5)"
    unfolding bar_info_def get_status_command_def using c1(1) off(1) c2(1) c3(1) [folded m] c4(1) c5(1)
    by (simp only: pci_functionD(1) [OF f] v bind.bind_lunit Let_def prod.case sum.case)
  then show ?thesis using c5(2) unfolding m by blast
qed

lemma bar_offset_small:
  assumes "i \<le> 5"
  shows "bar_offset i = Some (BAR0_OFFSET + 4 * i)" "BAR0_OFFSET + 4 * i \<noteq> STATUS_COMMAND_OFFSET"
proof -
  have "unat i \<le> 5" using assms by (simp add: word_le_nat_alt)
  then obtain n where n: "i = of_nat n" "n \<le> 5" using that [of "unat i"] by simp
  then have "n = 0 \<or> n = 1 \<or> n = 2 \<or> n = 3 \<or> n = 4 \<or> n = 5" by arith
  then have "i \<in> {0, 1, 2, 3, 4, 5}" unfolding n(1) by (elim disjE) simp_all
  then show "bar_offset i = Some (BAR0_OFFSET + 4 * i)" "BAR0_OFFSET + 4 * i \<noteq> STATUS_COMMAND_OFFSET"
    by (auto simp: bar_offset_def BAR0_OFFSET_def STATUS_COMMAND_OFFSET_def rust_add_def rust_assert_def)
qed

lemma bar_top_narrow:
  assumes "v AND 7 \<noteq> 4"
  shows "bar_top C c df i v sm = Some (Inr (0, if sm = 0 then 0 else 0xffffffff), c)"
  using assms by (simp add: bar_top_def)

lemma seven_part: "take_bit 4 a = 0 \<Longrightarrow> (a OR g) AND 7 = g AND 7" for a :: u32
  by (rule flag_part [where f = 4], assumption) (simp add: mask_eq_exp_minus_1)

lemma io_not_wide: "(a OR 1) AND 7 \<noteq> (4 :: u32)"
proof
  assume "(a OR 1) AND 7 = (4 :: u32)"
  then have "bit ((a OR 1) AND 7) 0 = bit (4 :: u32) 0" by simp
  then show False by (simp add: bit_and_iff bit_or_iff)
qed

lemma read_back_nonzero: "k < 32 \<Longrightarrow> (ucast (read_back v (NOT (mask k))) :: u64) \<noteq> 0"
proof
  assume k: "k < 32" and z: "(ucast (read_back v (NOT (mask k))) :: u64) = 0"
  have "bit (ucast (read_back v (NOT (mask k))) :: u64) 31" using k unfolding flag_masks by (simp add: bit_simps)
  then show False unfolding z by simp
qed

lemma bar_info_narrow:
  assumes f: "pci_function C df regs writable" and w: "writable STATUS_COMMAND_OFFSET AND NOT (ucast Command_all) = 0" and i: "i \<le> 5"
    and v: "regs c (BAR0_OFFSET + 4 * i) = v" "v AND 7 \<noteq> 4" and k: "writable (BAR0_OFFSET + 4 * i) = NOT (mask k)" "k < 32"
  shows "\<exists>c'. bar_info C c df i = Some (bar_result v 0 (ucast (read_back v (NOT (mask k))) OR push_bit 32 (ucast (0xffffffff :: u32))), c') \<and> regs c' = regs c"
proof -
  have "bar_top C c2 df i v (ucast (read_back v (NOT (mask k)))) = Some (Inr (0, 0xffffffff), c2)" for c2
    unfolding bar_top_narrow [OF v(2)] if_not_P [OF read_back_nonzero [OF k(2)]] by (rule refl)
  then show ?thesis using bar_info_steps [where at = 0 and st = "0xffffffff" and c = c, OF f w bar_offset_small [OF i]] unfolding v(1) k(1) by blast
qed

lemma bar_result_mem:
  assumes "bar_ok (MemBar t p a k)"
  shows "bar_result (bar_value (MemBar t p a k)) 0 (ucast (read_back (bar_value (MemBar t p a k)) (NOT (mask k))) OR push_bit 32 (ucast (0xffffffff :: u32)))
      = Inr (bar_description (MemBar t p a k))" "bar_value (MemBar t p a k) AND 7 \<noteq> 4"
proof -
  define g :: u32 where "g = (if t = Below1MiB then 2 else 0) OR (if p then 8 else 0)"
  have v: "bar_value (MemBar t p a k) = a OR g" by (simp only: bar_value.simps g_def or.assoc)
  have z: "take_bit 4 a = 0" and k: "4 \<le> k" "k < 32" "take_bit k a = 0" and t: "t \<noteq> Width64" using assms take_bit_0_le by auto
  have g: "g \<in> {0, 2, 8, 10}" by (auto simp: g_def)
  have "g AND NOT (mask 4) = 0" using g by (auto simp: mask_eq_exp_minus_1)
  then have "n < 4" if "bit g n" for n using low_bits_only that bit_imp_le_length [OF that] by simp
  then have sm: "(ucast (read_back (a OR g) (NOT (mask k))) OR push_bit 32 (ucast (0xffffffff :: u32)) :: u64) AND NOT (mask 4) = NOT (mask k)"
    by (intro size_mask_32 k)
  have r: "bar_result (a OR g) 0 (ucast (read_back (a OR g) (NOT (mask k))) OR push_bit 32 (ucast (0xffffffff :: u32)))
      = Inr (Some (BarMemory (if g AND 6 = 0 then Width32 else if g AND 6 = 2 then Below1MiB else Width64) (g AND 8 = 8) (ucast a OR push_bit 32 (ucast (0 :: u32))) (2 ^ k)))"
    by (rule bar_result_memory [OF z _ sm]) (use g k in auto)
  show "bar_result (bar_value (MemBar t p a k)) 0 (ucast (read_back (bar_value (MemBar t p a k)) (NOT (mask k))) OR push_bit 32 (ucast (0xffffffff :: u32)))
      = Inr (bar_description (MemBar t p a k))"
    unfolding v r using t by (cases t) (auto simp: g_def)
  show "bar_value (MemBar t p a k) AND 7 \<noteq> 4" unfolding v seven_part [OF z] using g by auto
qed

lemma bar_result_mem64:
  fixes a :: u64
  assumes "bar_ok (MemBar64 p a k)"
  shows "bar_result (bar_value (MemBar64 p a k)) (ucast (drop_bit 32 a))
      (ucast (read_back (bar_value (MemBar64 p a k)) (ucast (NOT (mask k) :: u64))) OR push_bit 32 (ucast (read_back (ucast (drop_bit 32 a)) (ucast (drop_bit 32 (NOT (mask k) :: u64))))))
      = Inr (bar_description (MemBar64 p a k))" (is "bar_result _ ?up ?sm = _") "bar_value (MemBar64 p a k) AND 7 = 4"
proof -
  define g :: u32 where "g = 4 OR (if p then 8 else 0)"
  have v: "bar_value (MemBar64 p a k) = ucast a OR g" by (simp only: bar_value.simps g_def or.assoc)
  have k: "4 \<le> k" "k < 64" "take_bit k a = 0" using assms by auto
  have z: "take_bit 4 (ucast a :: u32) = 0"
    by (rule bit_word_eqI) (use k low_bits_zero [OF k(3)] in \<open>auto simp: bit_simps\<close>)
  have g: "g \<in> {4, 12}" by (auto simp: g_def)
  have "g AND NOT (mask 4) = 0" using g by (auto simp: mask_eq_exp_minus_1)
  then have "n < 4" if "bit g n" for n using low_bits_only that bit_imp_le_length [OF that] by simp
  then have sm: "?sm AND NOT (mask 4) = NOT (mask k)" unfolding v by (intro size_mask_64 k)
  have a: "ucast (ucast a :: u32) OR push_bit 32 (ucast ?up) = a" by (rule bit_word_eqI) (auto simp: bit_simps)
  have "bar_result (ucast a OR g) ?up ?sm = Inr (Some (BarMemory (if g AND 6 = 0 then Width32 else if g AND 6 = 2 then Below1MiB else Width64) (g AND 8 = 8)
      (ucast (ucast a :: u32) OR push_bit 32 (ucast ?up)) (2 ^ k)))"
    by (rule bar_result_memory [OF z _ sm k(2)]) (use g in auto)
  then show "bar_result (bar_value (MemBar64 p a k)) ?up ?sm = Inr (bar_description (MemBar64 p a k))"
    unfolding a v [symmetric] by (auto simp: g_def simp del: bar_value.simps)
  show "bar_value (MemBar64 p a k) AND 7 = 4" unfolding v seven_part [OF z] using g by auto
qed

lemma bar_info_wide:
  assumes f: "pci_function C df regs writable" and w: "writable STATUS_COMMAND_OFFSET AND NOT (ucast Command_all) = 0" and i: "i < 5"
    and b: "has_bar (MemBar64 p a k) (BAR0_OFFSET + 4 * i) (regs c) writable"
  shows "\<exists>c'. bar_info C c df i = Some (Inr (bar_description (MemBar64 p a k)), c') \<and> regs c' = regs c"
proof -
  let ?off = "BAR0_OFFSET + 4 * i"
  have i5: "i \<le> 5" "i + 1 \<le> 5" using i inc_le [OF i] by simp_all
  have o: "BAR0_OFFSET + 4 * (i + 1) = ?off + 4" by (simp add: algebra_simps)
  have "(4 :: u8) \<noteq> 0" by simp
  then have ne: "?off + 4 \<noteq> ?off" by (metis add_cancel_left_right)
  note off = bar_offset_small [OF i5(2), unfolded o]
  have v: "regs c ?off = bar_value (MemBar64 p a k)" "writable ?off = ucast (NOT (mask k) :: u64)" "bar_ok (MemBar64 p a k)"
    "regs c (?off + 4) = ucast (drop_bit 32 a)" "writable (?off + 4) = ucast (drop_bit 32 (NOT (mask k) :: u64))"
    using b by (auto simp: has_bar_def)
  have up: "\<exists>c3. bar_top C c2 df i (regs c ?off) (ucast (read_back (regs c ?off) (writable ?off)))
      = Some (Inr (regs c (?off + 4), read_back (regs c (?off + 4)) (writable (?off + 4))), c3) \<and> regs c3 = regs c2"
    if "\<forall>r. r \<noteq> ?off \<longrightarrow> r \<noteq> STATUS_COMMAND_OFFSET \<longrightarrow> regs c2 r = regs c r" for c2
  proof -
    have "regs c2 (?off + 4) = regs c (?off + 4)" using that ne off(2) by blast
    then show ?thesis using bar_top_wide [OF f bar_result_mem64(2) [OF v(3)] i off(1), of c2] unfolding v(1) by metis
  qed
  show ?thesis using bar_info_steps [OF f w bar_offset_small [OF i5(1)] up] unfolding v(1,2,4,5) bar_result_mem64(1) [OF v(3)] .
qed

text \<open>
  C40. Sizing a base address register: on a function whose registers change on a write in their writable bits only, and whose command
  register has no writable bits but those that the driver knows, \<open>bar_info\<close> reports what the register describes (nothing for one that is
  not implemented, else the kind, address and size of the region, for a 64-bit region from both registers), and leaves every register
  of the function, the command register with its decode bits included, as it was.
\<close>

theorem bar_info_correct:
  assumes f: "pci_function C df regs writable" and w: "writable STATUS_COMMAND_OFFSET AND NOT (ucast Command_all) = 0"
    and b: "has_bar b (BAR0_OFFSET + 4 * bar_index) (regs c) writable" and i: "bar_index \<le> 5" "(\<exists>p a k. b = MemBar64 p a k) \<longrightarrow> bar_index < 5"
  shows "\<exists>c'. bar_info C c df bar_index = Some (Inr (bar_description b), c') \<and> regs c' = regs c"
proof (cases b)
  let ?off = "BAR0_OFFSET + 4 * bar_index"
  have v: "regs c ?off = bar_value b" "writable ?off = bar_writable b" "bar_ok b" using b by (auto simp: has_bar_def)
  note narrow = bar_info_narrow [OF f w i(1) v(1)]
  {
    case UnusedBar
    then show ?thesis using bar_info_steps [where at = 0 and st = 0 and c = c, OF f w bar_offset_small [OF i(1)]] v
      by (simp add: bar_top_narrow bar_result_def)
  next
    case (IoBar a k)
    then show ?thesis using narrow [of k] v bar_result_io [of a k] io_not_wide [of a] by simp
  next
    case (MemBar t p a k)
    then show ?thesis using narrow [of k] v(2,3) bar_result_mem [of t p a k] by (simp del: bar_value.simps bar_description.simps)
  next
    case (MemBar64 p a k)
    then show ?thesis using bar_info_wide [OF f w _ b [unfolded MemBar64]] i(2) by simp
  }
qed

theorem bar_info_correct_witness:
  "bar_info (register_file sample_writable) sample_registers (enumerate_bus 0) 2
    = Some (Inr (Some (BarMemory Width64 True 0x80febf0000 0x4000)), sample_registers)"
  using bar_info_correct [OF register_file_function [of sample_writable "enumerate_bus 0"], of "MemBar64 True 0x80febf0000 14" 2 sample_registers]
  by (simp add: has_bar_def STATUS_COMMAND_OFFSET_def BAR0_OFFSET_def Command_all_def sample_writable_def sample_registers_def mask_eq_exp_minus_1)

end
