(* ===== verification/Spec2Isabelle.thy ===== *)
theory Spec2Isabelle
  imports Virt_Queue_Properties Kernel_Hal Owning_Queue Vsock_Properties Virtio_Blk Virtio_Input Virtio_Console Virtio_Net Address_Space_Properties Naming_Properties Scheduler_Properties Program_Loader_Properties Block_Storage PCI_Bus
begin

text \<open>
  This development verifies D3OS, a teaching operating system in Rust, together with the crate of VirtIO drivers it
  uses. File names below are relative to \<^verbatim>\<open>src/project/D3OS-VirtIO-Drivers/os\<close>.

  \<^bold>\<open>The program and its parts.\<close>
  A driver of \<^verbatim>\<open>library/virtio-drivers\<close> talks to a device through a transport (registers) and through virtqueues (rings in
  shared memory). The memory of the rings comes from a hardware abstraction layer, which the kernel implements on top
  of its frame allocator. The drivers for block devices, entropy, input, console, network and sockets are built from these; the socket
  driver carries a connection manager with a ring buffer per connection. The kernel keeps an address space per process:
  page tables in page frames, and the list of virtual memory areas. It loads programs into address spaces, schedules their threads, and
  gives them files through a naming service.

  \<^bold>\<open>Conventions.\<close>
  \<^item> A Rust call is a function into \<open>option\<close>: \<open>None\<close> means that the call does not return, because it panics (failed assertion,
    arithmetic overflow, index out of range, \<^verbatim>\<open>unwrap\<close> of an error) or spins for ever. A \<^verbatim>\<open>Result\<close> is a sum with \<open>Inl\<close> for the error.
    So every statement that a call returns something is also a statement that it does not panic.
  \<^item> Structures are records, enumerations datatypes, machine integers words of their width; arithmetic on words goes through the checked
    operations of \<open>D3OS_Prelude\<close>. Pages and frames are numbers.
  \<^item> State is passed explicitly. Code that is not part of the repository is an argument: the device (what it writes, when it answers), the
    entries of page tables (crate \<^verbatim>\<open>x86_64\<close>; locale \<open>page_table_entry\<close> holds the documented laws, interpreted on the
    format of the processor), handlers passed by a client.
  \<^item> A loop that waits for a device runs over the sequence of memories the device presents; that it ends is proved from the point at which the
    device answers, so no fuel is used. Loops over tables and lists are structural recursions.

  \<^bold>\<open>The theories.\<close>
  \<^item> \<open>D3OS_Prelude\<close>: the monad, checked arithmetic, lemmas on words and lists. \<open>Virtio_Core\<close>: errors, features and page arithmetic of
    \<^verbatim>\<open>lib.rs\<close> and \<^verbatim>\<open>hal.rs\<close>. \<open>Transport\<close>: \<^verbatim>\<open>transport/mod.rs\<close> and \<^verbatim>\<open>transport/mmio.rs\<close>.
  \<^item> \<open>Virt_Queue\<close> is \<^verbatim>\<open>queue.rs\<close>, operation by operation. \<open>Virt_Queue_Refinement\<close> relates a queue with its descriptor chains to
    an abstract queue of outstanding requests, \<open>Virt_Queue_Layout\<close> places the rings in memory, \<open>Virt_Queue_Protocol\<close> lets driver and device
    take turns, and \<open>Virt_Queue_Properties\<close> states what follows: no panic, no leak, exact errors, termination.
  \<^item> \<open>Token_Queue\<close> is the interface (locale \<open>token_queue\<close>) through which the drivers use a queue, interpreted on \<open>Virt_Queue\<close>;
    \<open>Owning_Queue\<close> is \<^verbatim>\<open>queue/owning.rs\<close>, \<open>Device_Common\<close> what the drivers share.
  \<^item> \<open>Frame_Allocator\<close>, \<open>Frame_Allocator_Correctness\<close>: \<^verbatim>\<open>kernel/src/memory/frames.rs\<close> against the set of free frames. \<open>Kernel_Hal\<close>:
    \<^verbatim>\<open>kernel/src/hal.rs\<close> and \<^verbatim>\<open>kernel/src/dma\<close>, with the virtqueue built on memory of the kernel (locale \<open>dma_provider\<close>).
  \<^item> \<open>Vsock_Protocol\<close>, \<open>Vsock_Driver\<close>, \<open>Ring_Buffer\<close> (locale \<open>byte_fifo\<close>), \<open>Vsock_Connection_Manager\<close>: \<^verbatim>\<open>device/socket\<close>;
    \<open>Vsock_Connection_Refinement\<close> refines the manager to a map from address pairs to connections, \<open>Vsock_Properties\<close> states the results.
  \<^item> \<open>Virtio_Blk\<close>, \<open>Virtio_Rng\<close>, \<open>Virtio_Input\<close>, \<open>Virtio_Console\<close>, \<open>Virtio_Net\<close>: the drivers of these names under \<^verbatim>\<open>device\<close>.
  \<^item> \<open>Page_Tables\<close> is \<^verbatim>\<open>kernel/src/memory/pages.rs\<close>. \<open>Page_Tables_Tree\<close> says when frames hold a tree of tables and what it maps;
    \<open>Page_Tables_Mapping\<close>, \<open>Page_Tables_Unmapping\<close> and \<open>Page_Tables_Copying\<close> treat the recursive operations level by level;
    \<open>Page_Tables_Properties\<close> states their effect on the translation of addresses and on the free frames.
  \<^item> \<open>Address_Space\<close> is \<^verbatim>\<open>vma.rs\<close> and \<^verbatim>\<open>vmm.rs\<close> with the page fault handler and \<^verbatim>\<open>sys_map_memory\<close>; \<open>Address_Space_Properties\<close> shows
    what allocation, page faults and copying do.
  \<^item> \<open>Naming\<close> is the naming service, \<^verbatim>\<open>kernel/src/naming\<close>, with the system calls of \<^verbatim>\<open>sys_naming.rs\<close>: a store of files and directories, paths, and
    the table of open handles. \<open>Naming_Properties\<close> shows that every sequence of calls keeps the store well-formed, that a created file is found under its
    path and nothing else changes, and that what is written is read back.
  \<^item> \<open>Scheduler\<close> is \<^verbatim>\<open>scheduler.rs\<close> with the exit and kill of processes of \<^verbatim>\<open>process.rs\<close> and \<^verbatim>\<open>process_manager.rs\<close>; the locks are inputs that
    say whether an attempt to take them succeeds. \<open>Scheduler_Properties\<close>: no thread is lost, every ready thread gets its turn, and what kill leaves behind.
  \<^item> \<open>Thread_Context\<close> is the assembly of \<^verbatim>\<open>thread.rs\<close> over registers and memory words, and the stack frames a new thread starts from.
  \<^item> \<open>Program_Loader\<close> is the rest of \<^verbatim>\<open>thread.rs\<close> with the creation of processes and the system calls of \<^verbatim>\<open>sys_concurrent.rs\<close>; the parser of the file format is an
    argument. The arguments of a program are written by the kernel and read by \<^verbatim>\<open>library/runtime/src/env.rs\<close>: \<open>Program_Loader_Properties\<close> follows them
    through the page tables, and does the same for the bytes of a segment.
  \<^item> \<open>Block_Storage\<close> is \<^verbatim>\<open>kernel/src/storage\<close>: partitions over a drive and the table of block devices. The drive and the parser of the partition table are
    arguments; the theorem says which sectors an access to a partition reaches.
  \<^item> \<open>PCI_Bus\<close> is \<^verbatim>\<open>transport/pci/bus.rs\<close>: the configuration space (an argument), enumeration, capabilities and base address registers. The theorem takes
    the registers of a function as the standard describes them, and shows that sizing a base address register finds what it describes and changes nothing.

  \<^bold>\<open>Bounds.\<close>
  Address spaces have the four levels the kernel creates, pages lie in the lower half of the canonical addresses (numbers below 2 to the 35), frame
  numbers below 2 to the 40. Mapping is total under the assumption of four free frames per page, which covers a new table on each level.
  Where the kernel writes to a frame through its physical address, free frames lie below 2 to the 34, so that these addresses are canonical.

  \<^bold>\<open>Not modelled.\<close>
  \<^item> Locks and interrupts that interleave with an operation: every operation runs to its end.
  \<^item> Code whose effect is on hardware alone: the set-up at boot (\<^verbatim>\<open>boot.rs\<close>, \<^verbatim>\<open>lib.rs\<close>), the interrupt controller and timers, ports and
    disks (\<^verbatim>\<open>ide.rs\<close>, \<^verbatim>\<open>rtl8139.rs\<close>, \<^verbatim>\<open>serial.rs\<close>, \<^verbatim>\<open>ps2.rs\<close>), the entry from user mode.
  \<^item> Code that draws or prints: \<^verbatim>\<open>library/graphic\<close>, the terminals, the demos, logging, all dump functions.
  \<^item> The drivers for sound and graphics, and the transport over PCI (\<^verbatim>\<open>transport/pci.rs\<close>): the drivers are verified over an arbitrary transport and over
    the memory mapped one.
  \<^item> \<^verbatim>\<open>frames_lf.rs\<close>, which no module declaration names, so that it is not compiled.
  \<^item> Test doubles, the example programs of the crate and the applications.
\<close>

end
